(* ===== verification/Prelude.thy ===== *)
theory Prelude
  imports Complex_Main "HOL-Library.Sublist" "HOL-Library.Char_ord" "HOL-Library.List_Lexorder"
begin

text \<open>
  Shared vocabulary of the development: Go strings as byte lists with the functions of the
  package \<open>strings\<close> the sandbox uses, decimal rendering, the JSON argument values an MCP request
  carries, and the result a tool handler returns.

  A Go string is a sequence of bytes, and so is \<^typ>\<open>string\<close> here (a \<^typ>\<open>char\<close> is one byte), so
  lengths are byte counts as in Go.  The order \<open><\<close> on strings is Go's bytewise lexicographic order.
  Case mapping and white space follow Go on ASCII; the multi-byte letters and spaces of Unicode
  are left as they are.
\<close>

named_theorems go_str \<open>evaluation rules for the string functions\<close>
named_theorems invars \<open>operations keep their component's invariant\<close>

section \<open>Searching, splitting and joining\<close>

text \<open>\<open>strings.HasPrefix(s, p)\<close> and \<open>strings.HasSuffix(s, p)\<close>.\<close>

definition has_prefix :: "string \<Rightarrow> string \<Rightarrow> bool" where
  "has_prefix s p \<longleftrightarrow> prefix p s"

definition has_suffix :: "string \<Rightarrow> string \<Rightarrow> bool" where
  "has_suffix s p \<longleftrightarrow> suffix p s"

text \<open>\<open>strings.Index(s, sub)\<close>; \<open>None\<close> stands for -1.\<close>

fun str_index :: "string \<Rightarrow> string \<Rightarrow> nat option" where
  "str_index [] sub = (if sub = [] then Some 0 else None)"
| "str_index (c # s) sub =
     (if prefix sub (c # s) then Some 0 else map_option Suc (str_index s sub))"

definition str_contains :: "string \<Rightarrow> string \<Rightarrow> bool" where
  "str_contains s sub \<longleftrightarrow> str_index s sub \<noteq> None"

text \<open>\<open>strings.LastIndex(s, c)\<close> for a one-byte \<open>c\<close>.\<close>

fun last_index :: "string \<Rightarrow> char \<Rightarrow> nat option" where
  "last_index [] c = None"
| "last_index (x # s) c =
     (case last_index s c of Some i \<Rightarrow> Some (Suc i) | None \<Rightarrow> if x = c then Some 0 else None)"

text \<open>\<open>strings.Split(s, c)\<close> for a one-byte separator: never empty.\<close>

fun split_on :: "char \<Rightarrow> string \<Rightarrow> string list" where
  "split_on c [] = [[]]"
| "split_on c (x # s) =
     (if x = c then [] # split_on c s
      else case split_on c s of [] \<Rightarrow> [[x]] | w # ws \<Rightarrow> (x # w) # ws)"

text \<open>\<open>strings.SplitN(s, c, 2)\<close>: the text before the first separator and, if there is one, the rest.\<close>

fun split_first :: "char \<Rightarrow> string \<Rightarrow> string \<times> string option" where
  "split_first c [] = ([], None)"
| "split_first c (x # s) =
     (if x = c then ([], Some s) else (case split_first c s of (a, r) \<Rightarrow> (x # a, r)))"

text \<open>\<open>strings.Join(xs, sep)\<close>.\<close>

fun join :: "string \<Rightarrow> string list \<Rightarrow> string" where
  "join sep [] = []"
| "join sep [x] = x"
| "join sep (x # y # xs) = x @ sep @ join sep (y # xs)"

lemma split_on_ne [simp]: "split_on c s \<noteq> []"
  by (induction s) (auto split: list.splits)

lemma split_on_free: "w \<in> set (split_on c s) \<Longrightarrow> c \<notin> set w"
  by (induction s arbitrary: w) (auto split: list.splits if_splits)

lemma split_on_no_sep: "c \<notin> set s \<Longrightarrow> split_on c s = [s]"
  by (induction s) auto

lemma split_on_append_sep: "split_on c (s @ c # t) = split_on c s @ split_on c t"
  by (induction s) (auto split: list.splits)

lemma join_split_on: "join [c] (split_on c s) = s"
proof (induction s)
  case (Cons x s)
  then show ?case by (cases "split_on c s") (auto split: list.splits, (metis join.simps(2,3) list.exhaust append_Cons)+)
qed simp

lemma split_on_join:
  "xs \<noteq> [] \<Longrightarrow> (\<And>x. x \<in> set xs \<Longrightarrow> c \<notin> set x) \<Longrightarrow> split_on c (join [c] xs) = xs"
proof (induction "[c]" xs rule: join.induct)
  case (3 x y xs)
  then show ?case by (simp add: split_on_append_sep split_on_no_sep)
qed (auto simp: split_on_no_sep)

lemma join_append:
  "xs \<noteq> [] \<Longrightarrow> ys \<noteq> [] \<Longrightarrow> join sep (xs @ ys) = join sep xs @ sep @ join sep ys"
proof (induction sep xs rule: join.induct)
  case (2 sep x)
  then show ?case by (cases ys) auto
qed auto

lemma join_Cons: "join sep (x # xs) = (if xs = [] then x else x @ sep @ join sep xs)"
  by (cases xs) auto

lemma split_first_join: "split_first c s = (a, r) \<Longrightarrow> s = a @ (case r of None \<Rightarrow> [] | Some t \<Rightarrow> c # t)"
  by (induction s arbitrary: a r) (auto split: if_splits prod.splits)

lemma split_first_free: "split_first c s = (a, r) \<Longrightarrow> c \<notin> set a"
  by (induction s arbitrary: a r) (auto split: if_splits prod.splits)

lemma split_first_shorter: "split_first c s = (l, Some r) \<Longrightarrow> length r < length s"
  by (induction s arbitrary: l r) (fastforce split: if_splits prod.splits)+

lemma split_first_append: "c \<notin> set a \<Longrightarrow> split_first c (a @ c # t) = (a, Some t)"
  by (induction a) auto

lemma split_first_none: "c \<notin> set a \<Longrightarrow> split_first c a = (a, None)"
  by (induction a) auto

lemma last_index_None [simp]: "last_index s c = None \<longleftrightarrow> c \<notin> set s"
  by (induction s) (auto split: option.splits)

lemma last_index_append:
  "c \<notin> set t \<Longrightarrow> last_index (s @ c # t) c = Some (length s)"
  by (induction s) (auto split: option.splits)

lemma last_index_Some:
  "last_index s c = Some i \<Longrightarrow> s = take i s @ c # drop (Suc i) s \<and> c \<notin> set (drop (Suc i) s) \<and> i < length s"
  by (induction s arbitrary: i) (auto split: option.splits if_splits)

lemma str_index_Some_append:
  "str_index s sub = Some i \<Longrightarrow> s = take i s @ sub @ drop (i + length sub) s"
proof (induction s arbitrary: i)
  case (Cons c s)
  show ?case
  proof (cases "prefix sub (c # s)")
    case True
    with Cons.prems have "i = 0" by simp
    moreover from True have "c # s = sub @ drop (length sub) (c # s)"
      by (metis append_eq_conv_conj prefix_def)
    ultimately show ?thesis by (metis append_self_conv2 plus_nat.add_0 take_0)
  next
    case False
    with Cons.prems obtain j where "str_index s sub = Some j" "i = Suc j" by auto
    with Cons.IH show ?thesis by simp
  qed
qed (auto split: if_splits)

lemma str_index_None: "str_index s sub = None \<Longrightarrow> s \<noteq> a @ sub @ b"
proof (induction s arbitrary: a)
  case Nil
  then show ?case by (auto split: if_splits)
next
  case (Cons c s)
  then show ?case by (cases a) (auto split: if_splits)
qed

section \<open>Trimming and case\<close>

definition is_space :: "char \<Rightarrow> bool" where
  "is_space c \<longleftrightarrow> c = CHR '' '' \<or> c = CHR 0x09 \<or> c = CHR 0x0A \<or> c = CHR 0x0B \<or> c = CHR 0x0C \<or> c = CHR 0x0D"

abbreviation between :: "char \<Rightarrow> char \<Rightarrow> char \<Rightarrow> bool" where "between a b c \<equiv> a \<le> c \<and> c \<le> b"

abbreviation newline :: char where "newline \<equiv> CHR 0x0A"

text \<open>\<open>strings.TrimRight(s, cutset)\<close> and \<open>strings.TrimSpace(s)\<close>.\<close>

definition trim_right :: "(char \<Rightarrow> bool) \<Rightarrow> string \<Rightarrow> string" where
  "trim_right P s = rev (dropWhile P (rev s))"

definition trim_nl :: "string \<Rightarrow> string" where
  "trim_nl = trim_right (\<lambda>c. c = newline)"

definition trim_space :: "string \<Rightarrow> string" where
  "trim_space s = trim_right is_space (dropWhile is_space s)"

text \<open>\<open>strings.Fields(s)\<close>: the maximal runs of non-space bytes.\<close>

fun fields_aux :: "string \<Rightarrow> string \<Rightarrow> string list" where
  "fields_aux w [] = (if w = [] then [] else [rev w])"
| "fields_aux w (c # s) =
     (if is_space c then (if w = [] then fields_aux [] s else rev w # fields_aux [] s)
      else fields_aux (c # w) s)"

definition str_fields :: "string \<Rightarrow> string list" where
  "str_fields s = fields_aux [] s"

definition lower_char :: "char \<Rightarrow> char" where
  "lower_char c = (if CHR ''A'' \<le> c \<and> c \<le> CHR ''Z'' then char_of (of_char c + (32::nat)) else c)"

definition to_lower :: "string \<Rightarrow> string" where
  "to_lower s = map lower_char s"

lemma lower_char_idem [simp]: "lower_char (lower_char c) = lower_char c"
proof (cases "CHR ''A'' \<le> c \<and> c \<le> CHR ''Z''")
  case True
  then have r: "(65::nat) \<le> of_char c" "of_char c \<le> (90::nat)"
    by (auto simp: less_eq_char_def)
  then have "\<not> lower_char c \<le> CHR ''Z''"
    using True by (simp add: lower_char_def less_eq_char_def)
  then show ?thesis by (simp add: lower_char_def)
next
  case False
  then have "lower_char c = c" by (auto simp: lower_char_def)
  then show ?thesis by simp
qed

lemma to_lower_idem [simp]: "to_lower (to_lower s) = to_lower s"
  by (simp add: to_lower_def)

lemma trim_right_prefix: "prefix (trim_right P s) s"
proof -
  have "rev s = takeWhile P (rev s) @ dropWhile P (rev s)" by simp
  then have "s = rev (dropWhile P (rev s)) @ rev (takeWhile P (rev s))"
    by (metis rev_append rev_rev_ident)
  then show ?thesis by (metis prefixI trim_right_def)
qed

section \<open>Decimal numbers\<close>

text \<open>The verb \<open>%d\<close> of package \<open>fmt\<close>, and \<open>strconv.Atoi\<close> on unsigned digit strings.\<close>

definition digit_char :: "nat \<Rightarrow> char" where
  "digit_char d = char_of (48 + d)"

fun dec_nat :: "nat \<Rightarrow> string" where
  "dec_nat n = (if n < 10 then [digit_char n] else dec_nat (n div 10) @ [digit_char (n mod 10)])"

declare dec_nat.simps [simp del]

definition dec_int :: "int \<Rightarrow> string" where
  "dec_int i = (if i < 0 then CHR ''-'' # dec_nat (nat (- i)) else dec_nat (nat i))"

definition is_digit :: "char \<Rightarrow> bool" where
  "is_digit c \<longleftrightarrow> CHR ''0'' \<le> c \<and> c \<le> CHR ''9''"

definition digit_val :: "char \<Rightarrow> nat" where
  "digit_val c = of_char c - 48"

definition digits_val :: "string \<Rightarrow> nat" where
  "digits_val s = foldl (\<lambda>n c. 10 * n + digit_val c) 0 s"

lemma digit_char_props:
  assumes "d < 10"
  shows "is_digit (digit_char d)" "digit_val (digit_char d) = d"
  using assms by (auto simp: is_digit_def digit_val_def digit_char_def less_eq_char_def)

lemma digit_char_eval [simp]:
  "digit_char 0 = CHR ''0''" "digit_char 1 = CHR ''1''" "digit_char (Suc 0) = CHR ''1''" "digit_char (Suc (Suc 0)) = CHR ''2''" "digit_char 2 = CHR ''2''"
  "digit_char 3 = CHR ''3''" "digit_char 4 = CHR ''4''" "digit_char 5 = CHR ''5''" "digit_char 6 = CHR ''6''"
  "digit_char 7 = CHR ''7''" "digit_char 8 = CHR ''8''" "digit_char 9 = CHR ''9''"
  by code_simp+

lemma digits_val_dec_nat [simp]: "digits_val (dec_nat n) = n"
proof (induction n rule: dec_nat.induct)
  case (1 n)
  show ?case
  proof (cases "n < 10")
    case True
    then show ?thesis by (simp add: dec_nat.simps [of n] digits_val_def digit_char_props)
  next
    case False
    with 1 have "digits_val (dec_nat (n div 10)) = n div 10" by blast
    with False show ?thesis
      by (simp add: dec_nat.simps [of n] digits_val_def digit_char_props)
  qed
qed

lemma dec_nat_digits: "c \<in> set (dec_nat n) \<Longrightarrow> is_digit c"
proof (induction n rule: dec_nat.induct)
  case (1 n)
  then show ?case
    by (cases "n < 10") (auto simp: dec_nat.simps [of n] digit_char_props)
qed

lemma dec_nat_ne [simp]: "dec_nat n \<noteq> []"
  by (simp add: dec_nat.simps [of n])

section \<open>Tool requests and results\<close>

text \<open>
  \<open>req.Params.Arguments\<close> is a \<open>map[string]any\<close> decoded from JSON.  A number is a \<open>float64\<close> in Go;
  the handlers read it only through the conversion \<open>int(v)\<close>, so it is represented by the exact
  rational it denotes, with the conversion written out as \<open>go_int\<close>.
\<close>

datatype jval = JStr string | JNum rat | JBool bool | JNull | JArr "jval list" | JObj "(string \<times> jval) list"

type_synonym args = "(string \<times> jval) list"

fun as_str :: "jval option \<Rightarrow> string option" where
  "as_str (Some (JStr s)) = Some s"
| "as_str _ = None"

fun as_num :: "jval option \<Rightarrow> rat option" where
  "as_num (Some (JNum n)) = Some n"
| "as_num _ = None"

fun as_bool :: "jval option \<Rightarrow> bool" where
  "as_bool (Some (JBool b)) = b"
| "as_bool _ = False"

definition arg_str :: "args \<Rightarrow> string \<Rightarrow> string option" where
  "arg_str a k = as_str (map_of a k)"

text \<open>\<open>v, _ := args[k].(string)\<close>: the zero value when the key is absent or not a string.\<close>

definition arg_str0 :: "args \<Rightarrow> string \<Rightarrow> string" where
  "arg_str0 a k = (case arg_str a k of Some s \<Rightarrow> s | None \<Rightarrow> [])"

definition arg_bool :: "args \<Rightarrow> string \<Rightarrow> bool" where
  "arg_bool a k = as_bool (map_of a k)"

text \<open>
  \<open>int(v)\<close> for a \<open>float64\<close>: truncation towards zero.  Outside the range of \<open>int64\<close> Go leaves the
  result to the implementation; on amd64 it is the smallest \<open>int64\<close>.
\<close>

definition go_int :: "rat \<Rightarrow> int" where
  "go_int v =
     (let t = (if v < 0 then - \<lfloor>- v\<rfloor> else \<lfloor>v\<rfloor>)
      in if - (2 ^ 63) \<le> t \<and> t < 2 ^ 63 then t else - (2 ^ 63))"

definition arg_int :: "args \<Rightarrow> string \<Rightarrow> int option" where
  "arg_int a k = map_option go_int (as_num (map_of a k))"

text \<open>
  The limits and timeouts all share one shape: a default when the argument is missing, not a
  number or not positive, else the argument clamped to a maximum.
\<close>

definition clamp_arg :: "int \<Rightarrow> int \<Rightarrow> args \<Rightarrow> string \<Rightarrow> int" where
  "clamp_arg dflt mx a k =
     (case arg_int a k of
        None \<Rightarrow> dflt
      | Some v \<Rightarrow> if v \<le> 0 then dflt else if v > mx then mx else v)"

lemma clamp_arg_bounds:
  "0 < dflt \<Longrightarrow> dflt \<le> mx \<Longrightarrow> 0 < clamp_arg dflt mx a k \<and> clamp_arg dflt mx a k \<le> mx"
  by (auto simp: clamp_arg_def split: option.splits)

datatype tool_result = TextResult string | ErrorResult string

fun is_error :: "tool_result \<Rightarrow> bool" where
  "is_error (ErrorResult _) = True"
| "is_error (TextResult _) = False"

text \<open>The verb \<open>%q\<close>: quotes, backslashes and the white-space controls are escaped, other bytes kept.\<close>

fun esc_char :: "char \<Rightarrow> string" where
  "esc_char c = (if c = CHR 0x22 \<or> c = CHR 0x5C then [CHR 0x5C, c]
     else if c = newline then [CHR 0x5C, CHR ''n'']
     else if c = CHR 0x09 then [CHR 0x5C, CHR ''t'']
     else if c = CHR 0x0D then [CHR 0x5C, CHR ''r'']
     else [c])"

definition quote :: "string \<Rightarrow> string" where
  "quote s = CHR 0x22 # concat (map esc_char s) @ [CHR 0x22]"

text \<open>The UTF-8 bytes of the dash in several messages.\<close>

definition em_dash :: string where
  "em_dash = [CHR 0xE2, CHR 0x80, CHR 0x94]"

definition comma_sep :: "string list \<Rightarrow> string" where
  "comma_sep xs = join '', '' xs"

end
