(* ===== verification/GoPath.thy ===== *)
theory GoPath
  imports Prelude
begin

text \<open>
  The package \<open>path/filepath\<close> of Go on Unix, as far as the sandbox uses it: \<open>IsAbs\<close>, \<open>Clean\<close>,
  \<open>Join\<close>, \<open>Dir\<close>, \<open>Base\<close>, \<open>Ext\<close> and \<open>Rel\<close>.  The functions work on strings, as the code does; the
  lemmas relate them to the list of components of a clean absolute path, written \<open>abs_path cs\<close>.
\<close>

section \<open>The functions\<close>

abbreviation slash :: char where "slash \<equiv> CHR ''/''"

definition is_abs :: "string \<Rightarrow> bool" where
  "is_abs s \<longleftrightarrow> (case s of [] \<Rightarrow> False | c # _ \<Rightarrow> c = slash)"

text \<open>The element loop of \<open>Clean\<close>; \<open>r\<close> says whether the path is rooted, \<open>acc\<close> is the output reversed.\<close>

fun clean_comps :: "bool \<Rightarrow> string list \<Rightarrow> string list \<Rightarrow> string list" where
  "clean_comps r acc [] = rev acc"
| "clean_comps r acc (c # cs) =
     (if c = [] \<or> c = ''.'' then clean_comps r acc cs
      else if c = ''..'' then
        (case acc of
           [] \<Rightarrow> if r then clean_comps r [] cs else clean_comps r [c] cs
         | a # acc' \<Rightarrow> if a = ''..'' then clean_comps r (c # acc) cs else clean_comps r acc' cs)
      else clean_comps r (c # acc) cs)"

definition fp_clean :: "string \<Rightarrow> string" where
  "fp_clean s =
     (let cs = clean_comps (is_abs s) [] (split_on slash s)
      in if is_abs s then slash # join [slash] cs
         else if cs = [] then ''.'' else join [slash] cs)"

definition fp_join :: "string \<Rightarrow> string \<Rightarrow> string" where
  "fp_join a b =
     (if a = [] then (if b = [] then [] else fp_clean b) else fp_clean (a @ slash # b))"

definition fp_dir :: "string \<Rightarrow> string" where
  "fp_dir s = (case last_index s slash of None \<Rightarrow> fp_clean [] | Some i \<Rightarrow> fp_clean (take (Suc i) s))"

definition fp_base :: "string \<Rightarrow> string" where
  "fp_base s =
     (if s = [] then ''.''
      else let t = trim_right (\<lambda>c. c = slash) s;
               b = (case last_index t slash of None \<Rightarrow> t | Some i \<Rightarrow> drop (Suc i) t)
           in if b = [] then [slash] else b)"

text \<open>\<open>Ext\<close>: from the last dot of the last element, the empty string if it has none.\<close>

definition fp_ext :: "string \<Rightarrow> string" where
  "fp_ext s =
     (let e = (case last_index s slash of None \<Rightarrow> s | Some i \<Rightarrow> drop (Suc i) s)
      in case last_index e (CHR ''.'') of None \<Rightarrow> [] | Some i \<Rightarrow> drop i e)"

fun strip_common :: "'a list \<Rightarrow> 'a list \<Rightarrow> 'a list \<times> 'a list" where
  "strip_common (x # xs) (y # ys) = (if x = y then strip_common xs ys else (x # xs, y # ys))"
| "strip_common xs ys = (xs, ys)"

definition path_elems :: "string \<Rightarrow> string list" where
  "path_elems s = filter (\<lambda>c. c \<noteq> []) (split_on slash s)"

text \<open>\<open>Rel\<close>; \<open>None\<close> is its error.  The sandbox calls it with an absolute base only.\<close>

definition fp_rel :: "string \<Rightarrow> string \<Rightarrow> string option" where
  "fp_rel base targ =
     (let b = fp_clean base; t = fp_clean targ; b' = (if b = ''.'' then [] else b)
      in if t = b then Some ''.''
         else if is_abs b' \<noteq> is_abs t then None
         else case strip_common (path_elems b') (path_elems t) of
                (bs, ts) \<Rightarrow>
                  if bs \<noteq> [] \<and> hd bs = ''..'' then None
                  else Some (join [slash] (map (\<lambda>_. ''..'') bs @ ts)))"

section \<open>Clean absolute paths as component lists\<close>

definition plain :: "string \<Rightarrow> bool" where
  "plain c \<longleftrightarrow> c \<noteq> [] \<and> c \<noteq> ''.'' \<and> c \<noteq> ''..'' \<and> slash \<notin> set c"

definition abs_path :: "string list \<Rightarrow> string" where
  "abs_path cs = slash # join [slash] cs"

lemma plainD [dest]: "plain c \<Longrightarrow> c \<noteq> [] \<and> c \<noteq> ''.'' \<and> c \<noteq> ''..'' \<and> slash \<notin> set c"
  by (simp add: plain_def)

lemma is_abs_abs_path [simp]: "is_abs (abs_path cs)"
  by (simp add: is_abs_def abs_path_def)

lemma abs_path_ne [simp]: "abs_path cs \<noteq> []"
  by (simp add: abs_path_def)

lemma is_abs_iff: "is_abs s \<longleftrightarrow> (\<exists>t. s = slash # t)"
  by (auto simp: is_abs_def split: list.splits)

lemma clean_comps_append:
  "list_all plain cs \<Longrightarrow> clean_comps r acc (cs @ ds) = clean_comps r (rev cs @ acc) ds"
  by (induction cs arbitrary: acc) auto

lemma clean_comps_plain_id: "list_all plain cs \<Longrightarrow> clean_comps r acc cs = rev acc @ cs"
  using clean_comps_append [of cs r acc "[]"] by simp

lemma clean_comps_rooted_plain:
  "list_all plain acc \<Longrightarrow> (\<And>c. c \<in> set cs \<Longrightarrow> slash \<notin> set c)
   \<Longrightarrow> list_all plain (clean_comps True acc cs)"
proof (induction cs arbitrary: acc)
  case Nil
  then show ?case by (simp add: list_all_iff)
next
  case (Cons c cs)
  then have "slash \<notin> set c" by simp
  with Cons show ?case by (auto simp: plain_def split: list.splits)
qed

lemma fp_clean_abs: "is_abs s \<Longrightarrow> fp_clean s = abs_path (clean_comps True [] (split_on slash s))"
  by (simp add: fp_clean_def abs_path_def)

lemma fp_clean_abs_plain:
  assumes "is_abs s"
  obtains cs where "list_all plain cs" "fp_clean s = abs_path cs"
proof
  show "list_all plain (clean_comps True [] (split_on slash s))"
    by (rule clean_comps_rooted_plain) (auto dest: split_on_free)
qed (rule fp_clean_abs [OF assms])

lemma split_abs_path:
  "list_all plain cs \<Longrightarrow> split_on slash (abs_path cs) = [] # (if cs = [] then [[]] else cs)"
  using split_on_join [of cs slash] by (auto simp: abs_path_def list_all_iff dest!: plainD)

lemma path_elems_abs_path [simp]: "list_all plain cs \<Longrightarrow> path_elems (abs_path cs) = cs"
  by (auto simp: path_elems_def split_abs_path list_all_iff intro!: filter_True)

lemma abs_path_inj: "list_all plain a \<Longrightarrow> list_all plain b \<Longrightarrow> abs_path a = abs_path b \<longleftrightarrow> a = b"
  by (metis path_elems_abs_path)

lemma fp_clean_abs_path [simp]: "list_all plain cs \<Longrightarrow> fp_clean (abs_path cs) = abs_path cs"
  by (auto simp: fp_clean_abs split_abs_path clean_comps_plain_id)

lemma fp_clean_idem_abs: "is_abs s \<Longrightarrow> fp_clean (fp_clean s) = fp_clean s"
  by (erule fp_clean_abs_plain) simp

lemma fp_join_abs:
  assumes "list_all plain cs"
  shows "fp_join (abs_path cs) p = abs_path (clean_comps True (rev cs) (split_on slash p))"
proof -
  have "is_abs (abs_path cs @ slash # p)" by (simp add: is_abs_def abs_path_def)
  then have "fp_join (abs_path cs) p = abs_path (clean_comps True [] (split_on slash (abs_path cs) @ split_on slash p))"
    by (simp add: fp_join_def fp_clean_abs split_on_append_sep)
  also have "\<dots> = abs_path (clean_comps True (rev cs) (split_on slash p))"
    using assms by (simp add: split_abs_path clean_comps_append)
  finally show ?thesis .
qed

lemma fp_join_abs_plain [simp]:
  assumes "list_all plain cs" "plain m"
  shows "fp_join (abs_path cs) m = abs_path (cs @ [m])"
proof -
  have "split_on slash m = [m]" using assms(2) by (intro split_on_no_sep) auto
  with assms show ?thesis by (simp add: fp_join_abs plainD)
qed

text \<open>The parent and the last element of a clean absolute path.\<close>

lemma abs_path_snoc: "abs_path (cs @ [c]) = (if cs = [] then slash # c else abs_path cs @ slash # c)"
  by (auto simp: abs_path_def join_append)

lemma abs_path_single: "abs_path [c] = slash # c"
  by (simp add: abs_path_def)

lemma last_index_abs_path:
  assumes "plain c"
  shows "last_index (abs_path (cs @ [c])) slash = Some (if cs = [] then 0 else length (abs_path cs))"
proof -
  from assms have "slash \<notin> set c" by auto
  then show ?thesis
    using last_index_append [of slash c "[]"] last_index_append [of slash c "abs_path cs"]
    by (simp add: abs_path_snoc del: last_index.simps)
qed

lemma fp_dir_abs_path [simp]:
  assumes "list_all plain cs"
  shows "fp_dir (abs_path cs) = abs_path (butlast cs)"
proof (cases cs rule: rev_cases)
  case Nil
  then show ?thesis by (simp add: fp_dir_def abs_path_def fp_clean_def is_abs_def)
next
  case (snoc ds c)
  with assms have ds: "list_all plain ds" and c: "plain c" by auto
  show ?thesis
  proof (cases "ds = []")
    case True
    with snoc c have "fp_dir (abs_path cs) = fp_clean [slash]"
      by (simp add: fp_dir_def last_index_abs_path [of c "[]", simplified]) (simp add: abs_path_def)
    also have "\<dots> = abs_path []" by (simp add: fp_clean_def is_abs_def abs_path_def)
    finally show ?thesis using snoc True by simp
  next
    case False
    with snoc c have "fp_dir (abs_path cs) = fp_clean (abs_path ds @ [slash])"
      by (simp add: fp_dir_def last_index_abs_path) (simp add: abs_path_snoc)
    also have "\<dots> = fp_join (abs_path ds) []" by (simp add: fp_join_def)
    also have "\<dots> = abs_path ds" using ds by (simp add: fp_join_abs)
    finally show ?thesis using snoc by simp
  qed
qed

lemma trim_slash_plain: "plain c \<Longrightarrow> trim_right (\<lambda>x. x = slash) (s @ c) = s @ c"
proof -
  assume c: "plain c"
  then obtain x c' where "rev c = x # c'" by (cases "rev c") auto
  moreover from this c have "x \<noteq> slash" by (metis list.set_intros(1) plain_def set_rev)
  ultimately have "dropWhile (\<lambda>x. x = slash) (rev (s @ c)) = rev (s @ c)" by simp
  then show ?thesis by (simp add: trim_right_def)
qed

lemma fp_base_abs_path [simp]:
  assumes "list_all plain cs"
  shows "fp_base (abs_path cs) = (if cs = [] then [slash] else last cs)"
proof (cases cs rule: rev_cases)
  case Nil
  then show ?thesis by (simp add: fp_base_def abs_path_def trim_right_def)
next
  case (snoc ds c)
  with assms have c: "plain c" by simp
  then have "trim_right (\<lambda>x. x = slash) (abs_path (ds @ [c])) = abs_path (ds @ [c])"
    using trim_slash_plain [OF c, of "[slash]"] trim_slash_plain [OF c, of "abs_path ds @ [slash]"]
    by (cases "ds = []") (simp_all add: abs_path_snoc abs_path_single)
  with c snoc show ?thesis
    using last_index_abs_path [OF c, of ds]
    by (cases "ds = []") (auto simp: fp_base_def Let_def abs_path_snoc [of ds] abs_path_single)
qed

section \<open>Rel decides containment\<close>

lemma strip_common_split: "strip_common a b = (a', b') \<Longrightarrow> \<exists>c. a = c @ a' \<and> b = c @ b'"
proof (induction a b arbitrary: a' b' rule: strip_common.induct)
  case (1 x xs y ys)
  show ?case
  proof (cases "x = y")
    case True
    with "1.prems" have "strip_common xs ys = (a', b')" by simp
    with "1.IH" True obtain c where "xs = c @ a'" "ys = c @ b'" by blast
    with True show ?thesis by (intro exI [of _ "x # c"]) simp
  next
    case False
    with "1.prems" show ?thesis by (intro exI [of _ "[]"]) auto
  qed
qed auto

lemma strip_common_prefix: "fst (strip_common a b) = [] \<longleftrightarrow> prefix a b"
  by (induction a b rule: strip_common.induct) auto

lemma strip_common_app [simp]: "strip_common a (a @ b) = ([], b)"
  by (induction a) auto

text \<open>The test \<open>rel == ".." || strings.HasPrefix(rel, "../")\<close> of the containment check.\<close>

definition escapes :: "string \<Rightarrow> bool" where
  "escapes rel \<longleftrightarrow> rel = ''..'' \<or> has_prefix rel (''..'' @ [slash])"

lemma escapes_join:
  assumes "list_all plain ts"
  shows "escapes (join [slash] (map (\<lambda>_. ''..'') bs @ ts)) \<longleftrightarrow> bs \<noteq> []"
proof (cases bs)
  case Nil
  show ?thesis
  proof (cases ts)
    case Nil
    with \<open>bs = []\<close> show ?thesis by (simp add: escapes_def has_prefix_def)
  next
    case (Cons t ts')
    with assms have t: "plain t" by simp
    have "\<not> escapes (join [slash] (t # ts'))"
    proof
      assume "escapes (join [slash] (t # ts'))"
      then have "join [slash] (t # ts') = ''..'' \<or> (\<exists>r. join [slash] (t # ts') = ''..'' @ [slash] @ r)"
        by (auto simp: escapes_def has_prefix_def prefix_def)
      then show False
      proof
        assume e: "join [slash] (t # ts') = ''..''"
        with t have "split_on slash ''..'' = t # ts'"
          by (metis assms list.distinct(1) list_all_iff local.Cons plainD split_on_join)
        with t show False by auto
      next
        assume "\<exists>r. join [slash] (t # ts') = ''..'' @ [slash] @ r"
        then obtain r where "join [slash] (t # ts') = ''..'' @ slash # r" by auto
        then have "split_on slash (''..'' @ slash # r) = t # ts'"
          by (metis assms list.distinct(1) list_all_iff local.Cons plainD split_on_join)
        with t show False by (simp add: split_on_append_sep) auto
      qed
    qed
    with \<open>bs = []\<close> Cons show ?thesis by simp
  qed
next
  case (Cons b bs')
  show ?thesis
    by (cases "map (\<lambda>_. ''..'') bs' @ ts")
       (simp_all add: Cons escapes_def has_prefix_def join_Cons)
qed

lemma fp_rel_abs_path:
  assumes "list_all plain a" "list_all plain b"
  shows "fp_rel (abs_path a) (abs_path b) =
    Some (if a = b then ''.'' else join [slash] (map (\<lambda>_. ''..'') (fst (strip_common a b)) @ snd (strip_common a b)))"
proof (cases "a = b")
  case True
  with assms show ?thesis by (simp add: fp_rel_def)
next
  case False
  obtain a' b' where s: "strip_common a b = (a', b')" by fastforce
  then obtain c where "a = c @ a'" by (auto dest: strip_common_split)
  with assms have "\<not> (a' \<noteq> [] \<and> hd a' = ''..'')"
    by (metis list.set_sel(1) list_all_append list_all_iff plainD)
  moreover have "abs_path a \<noteq> ''.''" by (simp add: abs_path_def)
  ultimately show ?thesis using assms False s
    by (simp add: fp_rel_def abs_path_inj Let_def)
qed

lemma rel_contained_iff:
  assumes "list_all plain a" "list_all plain b" "fp_rel (abs_path a) (abs_path b) = Some rel"
  shows "\<not> escapes rel \<longleftrightarrow> prefix a b"
proof (cases "a = b")
  case True
  with assms have "rel = ''.''" by (simp add: fp_rel_abs_path)
  with True show ?thesis by (simp add: escapes_def has_prefix_def)
next
  case False
  obtain a' b' where s: "strip_common a b = (a', b')" by fastforce
  then obtain c where "b = c @ b'" by (auto dest: strip_common_split)
  with assms have "list_all plain b'" by simp
  from escapes_join [OF this, of a'] show ?thesis
    using assms False s strip_common_prefix [of a b] by (auto simp: fp_rel_abs_path)
qed

lemma fp_rel_inside:
  assumes "list_all plain a" "list_all plain (a @ b)" "b \<noteq> []"
  shows "fp_rel (abs_path a) (abs_path (a @ b)) = Some (join [slash] b)"
  using assms by (simp add: fp_rel_abs_path)

end
