(* ===== verification/FileSystem.thy ===== *)
theory FileSystem
  imports GoPath
begin

text \<open>
  The file system under the sandbox and the calls of package \<open>os\<close> it makes.  A file system maps
  a physical path (a list of names from the root) to a directory, a regular file or a symbolic
  link.  Path lookup follows the kernel: a link met on the way is replaced by its target, and
  after \<open>kernel_max_links\<close> links the lookup fails with \<open>ELOOP\<close>.  \<open>filepath.EvalSymlinks\<close> does the same
  walk in user space with a limit of its own, \<open>go_max_links\<close>.
\<close>

section \<open>Nodes and errors\<close>

datatype node = NDir | NFile string | NLink string

type_synonym phys = "string list"
type_synonym fs = "phys \<Rightarrow> node option"

datatype errno = ENOENT | ENOTDIR | ELOOP | EISDIR | EEXIST | ENOTEMPTY | EIO | EMANYLINKS

fun errno_text :: "errno \<Rightarrow> string" where
  "errno_text ENOENT = ''no such file or directory''"
| "errno_text ENOTDIR = ''not a directory''"
| "errno_text ELOOP = ''too many levels of symbolic links''"
| "errno_text EISDIR = ''is a directory''"
| "errno_text EEXIST = ''file exists''"
| "errno_text ENOTEMPTY = ''directory not empty''"
| "errno_text EIO = ''input/output error''"
| "errno_text EMANYLINKS = ''EvalSymlinks: too many links''"

text \<open>The text of an \<open>*os.PathError\<close>.\<close>

definition path_error :: "string \<Rightarrow> string \<Rightarrow> errno \<Rightarrow> string" where
  "path_error op p e = op @ '' '' @ p @ '': '' @ errno_text e"

definition kernel_max_links :: nat where "kernel_max_links = 40"
definition go_max_links :: nat where "go_max_links = 255"

section \<open>Path lookup\<close>

text \<open>
  \<open>walk f n follow cur cs\<close> looks the elements \<open>cs\<close> up from the directory \<open>cur\<close>, following at most
  \<open>n\<close> links; the last element, if it is a link, is followed only when \<open>follow\<close> is set.  Empty
  elements come from repeated or trailing slashes and behave like ".".
\<close>

fun walk :: "fs \<Rightarrow> nat \<Rightarrow> bool \<Rightarrow> phys \<Rightarrow> string list \<Rightarrow> errno + phys" where
  "walk f n follow cur [] = Inr cur"
| "walk f n follow cur (c # cs) =
     (if f cur \<noteq> Some NDir then Inl ENOTDIR
      else if c = [] \<or> c = ''.'' then walk f n follow cur cs
      else if c = ''..'' then walk f n follow (butlast cur) cs
      else case f (cur @ [c]) of
             None \<Rightarrow> Inl ENOENT
           | Some NDir \<Rightarrow> walk f n follow (cur @ [c]) cs
           | Some (NFile _) \<Rightarrow> walk f n follow (cur @ [c]) cs
           | Some (NLink t) \<Rightarrow>
               if cs = [] \<and> \<not> follow then Inr (cur @ [c])
               else (case n of
                       0 \<Rightarrow> Inl ELOOP
                     | Suc m \<Rightarrow> walk f m follow (if is_abs t then [] else cur) (split_on slash t @ cs)))"

definition k_lookup :: "fs \<Rightarrow> bool \<Rightarrow> string \<Rightarrow> errno + phys" where
  "k_lookup f follow s = walk f kernel_max_links follow [] (split_on slash s)"

definition node_at :: "fs \<Rightarrow> errno + phys \<Rightarrow> errno + node" where
  "node_at f r = (case r of Inl e \<Rightarrow> Inl e
     | Inr q \<Rightarrow> (case f q of None \<Rightarrow> Inl ENOENT | Some nd \<Rightarrow> Inr nd))"

definition k_lstat :: "fs \<Rightarrow> string \<Rightarrow> errno + node" where
  "k_lstat f s = node_at f (k_lookup f False s)"

definition k_stat :: "fs \<Rightarrow> string \<Rightarrow> errno + node" where
  "k_stat f s = node_at f (k_lookup f True s)"

text \<open>\<open>filepath.EvalSymlinks\<close> on an absolute path.\<close>

definition eval_symlinks :: "fs \<Rightarrow> string \<Rightarrow> errno + string" where
  "eval_symlinks f s =
     (case walk f go_max_links True [] (split_on slash s) of
        Inl e \<Rightarrow> Inl (if e = ELOOP then EMANYLINKS else e)
      | Inr q \<Rightarrow> Inr (abs_path q))"

section \<open>Changing the file system\<close>

text \<open>The directory entry a path names, with its last element not followed: \<open>(directory, name)\<close>.\<close>

definition k_entry :: "fs \<Rightarrow> string \<Rightarrow> errno + phys" where
  "k_entry f s =
     (case k_lookup f True (fp_dir s) of
        Inl e \<Rightarrow> Inl e
      | Inr d \<Rightarrow> if f d \<noteq> Some NDir then Inl ENOTDIR else Inr (d @ [fp_base s]))"

definition k_mkdir :: "fs \<Rightarrow> string \<Rightarrow> errno + fs" where
  "k_mkdir f s =
     (case k_entry f s of Inl e \<Rightarrow> Inl e
      | Inr q \<Rightarrow> if f q = None then Inr (f(q \<mapsto> NDir)) else Inl EEXIST)"

text \<open>\<open>os.MkdirAll\<close>; the first argument bounds the recursion by the length of the path.\<close>

fun mkdir_all :: "nat \<Rightarrow> fs \<Rightarrow> string \<Rightarrow> errno + fs" where
  "mkdir_all n f s =
     (case k_stat f s of
        Inr NDir \<Rightarrow> Inr f
      | Inr _ \<Rightarrow> Inl ENOTDIR
      | Inl _ \<Rightarrow>
          (case n of
             0 \<Rightarrow> Inl ENOENT
           | Suc m \<Rightarrow>
               (case mkdir_all m f (fp_dir s) of
                  Inl e \<Rightarrow> Inl e
                | Inr f' \<Rightarrow>
                    (case k_mkdir f' s of
                       Inr f'' \<Rightarrow> Inr f''
                     | Inl e \<Rightarrow> if k_lstat f' s = Inr NDir then Inr f' else Inl e))))"

declare mkdir_all.simps [simp del]

text \<open>\<open>open(O_WRONLY|O_CREATE|O_EXCL)\<close>: an existing entry, even a dangling link, is refused.\<close>

definition k_create_excl :: "fs \<Rightarrow> string \<Rightarrow> errno + (phys \<times> fs)" where
  "k_create_excl f s =
     (case k_entry f s of Inl e \<Rightarrow> Inl e
      | Inr q \<Rightarrow> if f q = None then Inr (q, f(q \<mapsto> NFile [])) else Inl EEXIST)"

text \<open>\<open>rename\<close> of a regular file over a file, a link or nothing.\<close>

definition k_rename :: "fs \<Rightarrow> string \<Rightarrow> string \<Rightarrow> errno + fs" where
  "k_rename f old new =
     (case k_entry f old of Inl e \<Rightarrow> Inl e
      | Inr p \<Rightarrow>
         (case f p of None \<Rightarrow> Inl ENOENT
          | Some nd \<Rightarrow>
             (case k_entry f new of Inl e \<Rightarrow> Inl e
              | Inr q \<Rightarrow> if f q = Some NDir then Inl EISDIR else Inr ((f(p := None))(q \<mapsto> nd)))))"

definition k_unlink :: "fs \<Rightarrow> string \<Rightarrow> fs" where
  "k_unlink f s =
     (case k_entry f s of Inl _ \<Rightarrow> f
      | Inr q \<Rightarrow> (case f q of Some NDir \<Rightarrow> f | _ \<Rightarrow> f(q := None)))"

definition k_read_file :: "fs \<Rightarrow> string \<Rightarrow> errno + string" where
  "k_read_file f s =
     (case k_stat f s of Inl e \<Rightarrow> Inl e
      | Inr (NFile d) \<Rightarrow> Inr d
      | Inr NDir \<Rightarrow> Inl EISDIR
      | Inr (NLink _) \<Rightarrow> Inl ELOOP)"

section \<open>Well-formed file systems and physical paths\<close>

definition fs_wf :: "fs \<Rightarrow> bool" where
  "fs_wf f \<longleftrightarrow> f [] = Some NDir \<and> (\<forall>p c. f (p @ [c]) \<noteq> None \<longrightarrow> f p = Some NDir)"

definition is_link :: "node option \<Rightarrow> bool" where
  "is_link nd \<longleftrightarrow> (\<exists>t. nd = Some (NLink t))"

text \<open>A physical path: plain names and no link at the path or above it.\<close>

definition physical :: "fs \<Rightarrow> phys \<Rightarrow> bool" where
  "physical f q \<longleftrightarrow> list_all plain q \<and> (\<forall>p. prefix p q \<longrightarrow> \<not> is_link (f p))"

lemma is_link_simps [simp]:
  "is_link (Some (NLink t))" "\<not> is_link (Some NDir)" "\<not> is_link (Some (NFile d))" "\<not> is_link None"
  by (auto simp: is_link_def)

lemma physical_plain: "physical f q \<Longrightarrow> list_all plain q"
  by (simp add: physical_def)

lemma physical_prefix: "physical f q \<Longrightarrow> prefix p q \<Longrightarrow> physical f p"
  by (auto simp: physical_def list_all_iff dest: set_mono_prefix intro: prefix_order.trans)

lemma physical_not_link: "physical f q \<Longrightarrow> \<not> is_link (f q)"
  by (simp add: physical_def)

lemma physical_snoc:
  "physical f (q @ [c]) \<longleftrightarrow> physical f q \<and> plain c \<and> \<not> is_link (f (q @ [c]))"
  by (auto simp: physical_def)

lemma physical_butlast: "physical f q \<Longrightarrow> physical f (butlast q)"
  by (rule physical_prefix) (auto simp: prefixeq_butlast)

lemma fs_wf_parent: "fs_wf f \<Longrightarrow> f (p @ [c]) \<noteq> None \<Longrightarrow> f p = Some NDir"
  by (auto simp: fs_wf_def)

lemma fs_wf_root [simp]: "fs_wf f \<Longrightarrow> f [] = Some NDir"
  by (simp add: fs_wf_def)

lemma fs_wf_above:
  assumes "fs_wf f" "f (p @ q) \<noteq> None" "q \<noteq> []"
  shows "f p = Some NDir"
  using assms(2,3)
proof (induction q rule: rev_induct)
  case (snoc c q)
  then have "f (p @ q) = Some NDir"
    using fs_wf_parent [OF assms(1), of "p @ q" c] by simp
  with snoc.IH show ?case by (cases "q = []") auto
qed simp

lemma fs_wf_missing_below: "fs_wf f \<Longrightarrow> f p = None \<Longrightarrow> f (p @ q) = None"
  by (metis append_Nil2 fs_wf_above option.distinct(1))

lemma physical_missing_below:
  assumes "fs_wf f" "physical f p" "f p = None" "list_all plain q"
  shows "physical f (p @ q)"
  using assms(4)
proof (induction q rule: rev_induct)
  case Nil
  then show ?case using assms by simp
next
  case (snoc c q)
  have "f (p @ q @ [c]) = None" by (rule fs_wf_missing_below [OF assms(1,3)])
  moreover have "physical f (p @ q)" "plain c" using snoc by auto
  ultimately have "physical f ((p @ q) @ [c])" by (subst physical_snoc) simp
  then show ?case by simp
qed

section \<open>What a lookup returns\<close>

text \<open>One step of the walk, by the kind of element.\<close>

lemma walk_notdir: "f cur \<noteq> Some NDir \<Longrightarrow> walk f n fl cur (c # cs) = Inl ENOTDIR"
  by simp

lemma walk_dot: "f cur = Some NDir \<Longrightarrow> c = [] \<or> c = ''.'' \<Longrightarrow> walk f n fl cur (c # cs) = walk f n fl cur cs"
  by simp

lemma walk_up: "f cur = Some NDir \<Longrightarrow> walk f n fl cur (''..'' # cs) = walk f n fl (butlast cur) cs"
  by simp

lemma walk_none:
  "f cur = Some NDir \<Longrightarrow> plain c \<Longrightarrow> f (cur @ [c]) = None \<Longrightarrow> walk f n fl cur (c # cs) = Inl ENOENT"
  by (simp add: plain_def)

lemma walk_plain:
  "f cur = Some NDir \<Longrightarrow> plain c \<Longrightarrow> f (cur @ [c]) = Some nd \<Longrightarrow> \<not> is_link (Some nd)
   \<Longrightarrow> walk f n fl cur (c # cs) = walk f n fl (cur @ [c]) cs"
  by (cases nd) (simp_all add: plain_def)

lemma walk_link_end:
  "f cur = Some NDir \<Longrightarrow> plain c \<Longrightarrow> f (cur @ [c]) = Some (NLink t)
   \<Longrightarrow> walk f n False cur [c] = Inr (cur @ [c])"
  by (simp add: plain_def)

lemma walk_link:
  "f cur = Some NDir \<Longrightarrow> plain c \<Longrightarrow> f (cur @ [c]) = Some (NLink t) \<Longrightarrow> cs \<noteq> [] \<or> fl
   \<Longrightarrow> walk f n fl cur (c # cs) = (case n of 0 \<Rightarrow> Inl ELOOP
        | Suc m \<Rightarrow> walk f m fl (if is_abs t then [] else cur) (split_on slash t @ cs))"
  by (auto simp: plain_def)

lemmas walk_steps = walk_notdir walk_dot walk_up walk_none walk_plain walk_link_end walk_link

declare walk.simps(2) [simp del]

text \<open>
  Induction over the walk of slash-free elements, one case per kind of element.
\<close>

lemma walk_induct [consumes 1, case_names Nil NotDir Dot Up Missing Plain LinkEnd Loop Link]:
  assumes free: "\<forall>c \<in> set cs. slash \<notin> set c"
    and Nil: "\<And>n cur. P n cur []"
    and NotDir: "\<And>n cur c cs. f cur \<noteq> Some NDir \<Longrightarrow> P n cur (c # cs)"
    and Dot: "\<And>n cur c cs. f cur = Some NDir \<Longrightarrow> c = [] \<or> c = ''.'' \<Longrightarrow> P n cur cs \<Longrightarrow> P n cur (c # cs)"
    and Up: "\<And>n cur cs. f cur = Some NDir \<Longrightarrow> P n (butlast cur) cs \<Longrightarrow> P n cur (''..'' # cs)"
    and Missing: "\<And>n cur c cs. f cur = Some NDir \<Longrightarrow> plain c \<Longrightarrow> f (cur @ [c]) = None \<Longrightarrow> P n cur (c # cs)"
    and Plain: "\<And>n cur c cs nd. f cur = Some NDir \<Longrightarrow> plain c \<Longrightarrow> f (cur @ [c]) = Some nd
        \<Longrightarrow> \<not> is_link (Some nd) \<Longrightarrow> P n (cur @ [c]) cs \<Longrightarrow> P n cur (c # cs)"
    and LinkEnd: "\<And>n cur c t. f cur = Some NDir \<Longrightarrow> plain c \<Longrightarrow> f (cur @ [c]) = Some (NLink t)
        \<Longrightarrow> \<not> fl \<Longrightarrow> P n cur [c]"
    and Loop: "\<And>cur c cs t. f cur = Some NDir \<Longrightarrow> plain c \<Longrightarrow> f (cur @ [c]) = Some (NLink t)
        \<Longrightarrow> cs \<noteq> [] \<or> fl \<Longrightarrow> P 0 cur (c # cs)"
    and Link: "\<And>m cur c cs t. f cur = Some NDir \<Longrightarrow> plain c \<Longrightarrow> f (cur @ [c]) = Some (NLink t)
        \<Longrightarrow> cs \<noteq> [] \<or> fl \<Longrightarrow> P m (if is_abs t then [] else cur) (split_on slash t @ cs) \<Longrightarrow> P (Suc m) cur (c # cs)"
  shows "P n cur cs"
  using free
proof (induction f' \<equiv> f n fl' \<equiv> fl cur cs rule: walk.induct)
  case (1 n cur)
  show ?case by (rule Nil)
next
  case (2 n cur c cs)
  then have free: "\<forall>c \<in> set cs. slash \<notin> set c" and c: "slash \<notin> set c" by auto
  show ?case
  proof (cases "f cur = Some NDir")
    case False
    then show ?thesis by (rule NotDir)
  next
    case d: True
    consider "c = [] \<or> c = ''.''" | "c = ''..''" | "plain c"
      using c by (auto simp: plain_def)
    then show ?thesis
    proof cases
      case 1
      with 2 d free show ?thesis by (intro Dot) auto
    next
      case 2
      with "2.hyps"(2) d free show ?thesis by (auto intro!: Up)
    next
      case 3
      then have nd: "\<not> (c = [] \<or> c = ''.'')" "c \<noteq> ''..''" by auto
      show ?thesis
      proof (cases "f (cur @ [c])")
        case None
        with d 3 show ?thesis by (rule Missing)
      next
        case (Some x)
        show ?thesis
        proof (cases x)
          case NDir
          with Some d nd free have "P n (cur @ [c]) cs" using "2.hyps"(3) by auto
          with d 3 Some NDir show ?thesis by (intro Plain) auto
        next
          case (NFile y)
          with Some d nd free have "P n (cur @ [c]) cs" using "2.hyps"(4) by auto
          with d 3 Some NFile show ?thesis by (intro Plain) auto
        next
          case (NLink t)
          consider "cs = []" "\<not> fl" | "cs \<noteq> [] \<or> fl" "n = 0" | m where "cs \<noteq> [] \<or> fl" "n = Suc m"
            by (cases n) auto
          then show ?thesis
          proof cases
            case 1
            with d 3 Some NLink show ?thesis using LinkEnd by auto
          next
            case 2
            with d 3 Some NLink show ?thesis using Loop by auto
          next
            case (3 m)
            have "\<forall>x \<in> set (split_on slash t @ cs). slash \<notin> set x"
              using free by (auto dest: split_on_free)
            with "2.hyps"(5) d nd Some NLink 3
            have "P m (if is_abs t then [] else cur) (split_on slash t @ cs)" by auto
            with d \<open>plain c\<close> Some NLink 3 show ?thesis by (auto intro!: Link)
          qed
        qed
      qed
    qed
  qed
qed

lemma split_free: "\<forall>c \<in> set (split_on slash s). slash \<notin> set c"
  by (auto dest: split_on_free)

text \<open>Every successful lookup ends at a physical path; if links are followed, not at a link.\<close>

lemma walk_physical:
  assumes "\<forall>c \<in> set cs. slash \<notin> set c" "fs_wf f" "physical f cur" "f cur \<noteq> None"
    "walk f n fl cur cs = Inr q"
  shows "physical f (butlast q) \<and> list_all plain q \<and> f q \<noteq> None \<and> (fl \<longrightarrow> physical f q)"
  using assms(1,3-)
proof (induction n cur cs rule: walk_induct [where f = f and fl = fl])
  case (Nil n cur)
  then show ?case by (auto intro: physical_butlast physical_plain)
next
  case (Dot n cur c cs)
  then show ?case by (simp add: walk_dot)
next
  case (Up n cur cs)
  have "f (butlast cur) \<noteq> None"
  proof (cases cur rule: rev_cases)
    case (snoc p x)
    with Up.hyps fs_wf_parent [OF assms(2), of p x] show ?thesis by auto
  qed (use Up in simp)
  with Up show ?case by (simp add: walk_up physical_butlast)
next
  case (Plain n cur c cs nd)
  then have "physical f (cur @ [c])" by (simp add: physical_snoc)
  with Plain show ?case by (simp add: walk_plain)
next
  case (LinkEnd n cur c t)
  then have "q = cur @ [c]" by (simp add: walk_link_end)
  with LinkEnd show ?case by (auto dest: physical_plain)
next
  case (Link m cur c cs t)
  have "physical f (if is_abs t then [] else cur)" "f (if is_abs t then [] else cur) \<noteq> None"
    using Link assms(2) by (auto intro: physical_prefix)
  with Link show ?case by (simp add: walk_link)
qed (auto simp: walk_steps)

lemma eval_symlinks_physical:
  assumes "fs_wf f" "eval_symlinks f s = Inr r"
  shows "\<exists>q. r = abs_path q \<and> physical f q \<and> f q \<noteq> None
    \<and> walk f go_max_links True [] (split_on slash s) = Inr q"
proof -
  obtain q where q: "walk f go_max_links True [] (split_on slash s) = Inr q" "r = abs_path q"
    using assms(2) by (auto simp: eval_symlinks_def split: sum.splits)
  have "physical f []" using assms(1) by (simp add: physical_def)
  with walk_physical [OF split_free assms(1) _ _ q(1)] assms(1) q show ?thesis by auto
qed

text \<open>A physical path that exists is its own lookup.\<close>

lemma walk_id:
  assumes "fs_wf f" "physical f (cur @ q)" "f (cur @ q) \<noteq> None"
  shows "walk f n fl cur q = Inr (cur @ q)"
  using assms(2,3)
proof (induction q arbitrary: cur)
  case (Cons c q)
  have d: "f cur = Some NDir" using fs_wf_above [OF assms(1), of cur "c # q"] Cons.prems by simp
  have c: "plain c" using Cons.prems by (auto dest!: physical_plain)
  have "f (cur @ [c]) \<noteq> None"
    using fs_wf_missing_below [OF assms(1), of "cur @ [c]" q] Cons.prems(2) by auto
  moreover have "\<not> is_link (f (cur @ [c]))"
    using physical_prefix [OF Cons.prems(1), of "cur @ [c]"] by (simp add: physical_not_link)
  ultimately have "walk f n fl cur (c # q) = walk f n fl (cur @ [c]) q"
    using d c by (auto simp: walk_plain)
  also have "\<dots> = Inr (cur @ c # q)" using Cons.IH [of "cur @ [c]"] Cons.prems by simp
  finally show ?case .
qed simp

text \<open>A physical path that does not exist is not found: no link can redirect the lookup.\<close>

lemma walk_missing:
  assumes "fs_wf f" "physical f (cur @ q)" "f (cur @ q) = None" "q \<noteq> []" "f cur \<noteq> None"
  shows "\<exists>e. walk f n fl cur q = Inl e"
  using assms(2-)
proof (induction q arbitrary: cur)
  case (Cons c q)
  show ?case
  proof (cases "f cur = Some NDir")
    case d: True
    have c: "plain c" using Cons.prems by (auto dest!: physical_plain)
    show ?thesis
    proof (cases "f (cur @ [c])")
      case None
      with d c show ?thesis by (simp add: walk_none)
    next
      case (Some nd)
      moreover have "\<not> is_link (f (cur @ [c]))"
        using physical_prefix [OF Cons.prems(1), of "cur @ [c]"] by (simp add: physical_not_link)
      moreover have "q \<noteq> []" using Cons.prems Some by auto
      ultimately show ?thesis using Cons.IH [of "cur @ [c]"] Cons.prems d c by (simp add: walk_plain)
    qed
  qed (simp add: walk_notdir)
qed simp

lemma walk_root:
  assumes "fs_wf f" "list_all plain q"
  shows "walk f n fl [] (split_on slash (abs_path q)) = walk f n fl [] q"
  using assms by (simp add: split_abs_path walk_dot)

lemma k_lookup_physical:
  assumes "fs_wf f" "physical f q" "f q \<noteq> None"
  shows "k_lookup f fl (abs_path q) = Inr q"
  using assms walk_id [of f "[]" q] by (simp add: k_lookup_def walk_root physical_plain)

lemma k_lookup_missing:
  assumes "fs_wf f" "physical f q" "f q = None"
  shows "\<exists>e. k_lookup f fl (abs_path q) = Inl e"
proof -
  have "q \<noteq> []" using assms by auto
  then show ?thesis
    using assms walk_missing [of f "[]" q] by (simp add: k_lookup_def walk_root physical_plain)
qed

lemma k_stat_physical:
  assumes "fs_wf f" "physical f q"
  shows "(\<exists>nd. f q = Some nd \<and> k_stat f (abs_path q) = Inr nd)
       \<or> (f q = None \<and> (\<exists>e. k_stat f (abs_path q) = Inl e))"
proof (cases "f q")
  case None
  with k_lookup_missing [OF assms, of True] show ?thesis by (auto simp: k_stat_def node_at_def)
next
  case (Some nd)
  with k_lookup_physical [OF assms, of True] show ?thesis by (simp add: k_stat_def node_at_def)
qed

text \<open>More links allowed never changes an answer other than \<open>ELOOP\<close>.\<close>

lemma walk_mono:
  assumes "\<forall>c \<in> set cs. slash \<notin> set c" "walk f n fl cur cs = r" "r \<noteq> Inl ELOOP" "n \<le> k"
  shows "walk f k fl cur cs = r"
  using assms(1-3) assms(4)
proof (induction n cur cs arbitrary: k rule: walk_induct [where f = f and fl = fl])
  case (Link m cur c cs t)
  then obtain k' where "k = Suc k'" "m \<le> k'" by (cases k) auto
  with Link show ?case by (simp add: walk_link)
next
  case (Loop cur c cs t)
  then show ?case by (auto simp: walk_link)
qed (auto simp: walk_steps)

text \<open>
  If a directory is found through links, so is each of its entries.
\<close>

lemma walk_child:
  assumes "\<forall>c \<in> set cs. slash \<notin> set c" "walk f n True cur cs = Inr q" "f q = Some NDir" "plain m"
    "f (q @ [m]) \<noteq> None"
  shows "walk f n False cur (cs @ [m]) = Inr (q @ [m])"
  using assms(1,2)
proof (induction n cur cs rule: walk_induct [where f = f and fl = True])
  case (Nil n cur)
  then have "cur = q" by simp
  obtain nd where nd: "f (q @ [m]) = Some nd" using assms by auto
  with \<open>cur = q\<close> assms(3,4) show ?case
    by (cases nd) (auto simp: walk_plain walk_link_end)
qed (auto simp: walk_steps)

end
