(* ===== verification/Workspace.thy ===== *)
theory Workspace
  imports FileSystem
begin

text \<open>
  Path containment: \<open>internal/workspace/workspace.go\<close>.  \<open>workspace_new\<close> is \<open>New\<close>, \<open>resolve\<close> is
  \<open>Resolve\<close>, \<open>allow_missing\<close> the loop of \<open>evalSymlinksAllowMissing\<close>.  The lemmas show that an accepted
  path lies under the root by name, that it is physical (no link can lead it elsewhere) unless the
  kernel gave up on a chain of links, and that the code agrees with the kernel on existing paths.
\<close>

section \<open>The workspace and its operations\<close>

record workspace =
  ws_root :: string
  ws_name :: string

datatype resolve_err = ResolveFailed string | RelFailed | OutsideWorkspace | OutOfFuel

fun resolve_err_text :: "resolve_err \<Rightarrow> string" where
  "resolve_err_text (ResolveFailed s) = ''resolve path: '' @ s"
| "resolve_err_text RelFailed = ''compute relative path''"
| "resolve_err_text OutsideWorkspace = ''path is outside workspace root''"
| "resolve_err_text OutOfFuel = ''out of fuel''"

definition workspace_new :: "fs \<Rightarrow> string \<Rightarrow> string + workspace" where
  "workspace_new f dir =
     (if \<not> is_abs dir then Inl (''workspace root must be absolute: '' @ quote dir)
      else case eval_symlinks f dir of
        Inl e \<Rightarrow> Inl (''resolve workspace root: '' @ path_error ''lstat'' dir e)
      | Inr canonical \<Rightarrow>
          (case k_stat f canonical of
             Inl e \<Rightarrow> Inl (''stat workspace root: '' @ path_error ''stat'' canonical e)
           | Inr nd \<Rightarrow>
               if nd \<noteq> NDir then Inl (''workspace root is not a directory: '' @ quote canonical)
               else Inr \<lparr>ws_root = canonical, ws_name = []\<rparr>))"

text \<open>
  The loop of \<open>evalSymlinksAllowMissing\<close>; every turn drops the last element, so the length of
  the path is enough fuel (\<open>allow_missing_abs\<close>), and \<open>None\<close> never comes out of \<open>resolve\<close>.
\<close>

fun allow_missing :: "nat \<Rightarrow> fs \<Rightarrow> string \<Rightarrow> string list \<Rightarrow> (string + string) option" where
  "allow_missing 0 f cur missing = None"
| "allow_missing (Suc n) f cur missing =
     (case k_lstat f cur of
        Inr _ \<Rightarrow>
          (case eval_symlinks f cur of
             Inl e \<Rightarrow> Some (Inl (path_error ''lstat'' cur e))
           | Inr resolved \<Rightarrow> Some (Inr (foldr (\<lambda>m r. fp_join r m) missing resolved)))
      | Inl _ \<Rightarrow>
          (let parent = fp_dir cur
           in if parent = cur then Some (Inl (''no existing ancestor for path: '' @ quote cur))
              else allow_missing n f parent (missing @ [fp_base cur])))"

definition eval_symlinks_allow_missing :: "fs \<Rightarrow> string \<Rightarrow> (string + string) option" where
  "eval_symlinks_allow_missing f p = (let q = fp_clean p in allow_missing (Suc (length q)) f q [])"

definition resolve :: "fs \<Rightarrow> workspace \<Rightarrow> string \<Rightarrow> resolve_err + string" where
  "resolve f w p =
     (let q = fp_clean (if is_abs p then p else fp_join (ws_root w) p)
      in case eval_symlinks_allow_missing f q of
           None \<Rightarrow> Inl OutOfFuel
         | Some (Inl e) \<Rightarrow> Inl (ResolveFailed e)
         | Some (Inr resolved) \<Rightarrow>
             (case fp_rel (ws_root w) resolved of
                None \<Rightarrow> Inl RelFailed
              | Some rel \<Rightarrow> if escapes rel then Inl OutsideWorkspace else Inr resolved))"

section \<open>Roots and requested paths as component lists\<close>

definition ws_ok :: "fs \<Rightarrow> workspace \<Rightarrow> bool" where
  "ws_ok f w \<longleftrightarrow> (\<exists>q. ws_root w = abs_path q \<and> physical f q \<and> f q = Some NDir)"

definition root_of :: "workspace \<Rightarrow> phys" where
  "root_of w = path_elems (ws_root w)"

text \<open>The elements of the cleaned absolute form of a requested path.\<close>

definition request_elems :: "workspace \<Rightarrow> string \<Rightarrow> string list" where
  "request_elems w p = path_elems (fp_clean (if is_abs p then p else fp_join (ws_root w) p))"

text \<open>The lookups \<open>evalSymlinksAllowMissing\<close> makes on the way up do not hit the kernel's link limit.\<close>

definition lookups_ok :: "fs \<Rightarrow> workspace \<Rightarrow> string \<Rightarrow> bool" where
  "lookups_ok f w p \<longleftrightarrow>
     (let cs = request_elems w p
      in list_all (\<lambda>i. k_lstat f (abs_path (take i cs)) \<noteq> Inl ELOOP) [0..<Suc (length cs)])"

lemma ws_okE:
  assumes "ws_ok f w"
  obtains "ws_root w = abs_path (root_of w)" "physical f (root_of w)" "f (root_of w) = Some NDir"
    "list_all plain (root_of w)"
proof -
  obtain q where q: "ws_root w = abs_path q" "physical f q" "f q = Some NDir"
    using assms by (auto simp: ws_ok_def)
  then have "root_of w = q" by (simp add: root_of_def physical_plain)
  with q that show thesis by (simp add: physical_plain)
qed

lemma request_elems:
  assumes "ws_ok f w"
  shows "list_all plain (request_elems w p)"
    "fp_clean (if is_abs p then p else fp_join (ws_root w) p) = abs_path (request_elems w p)"
proof -
  obtain cs where "list_all plain cs" "fp_clean (if is_abs p then p else fp_join (ws_root w) p) = abs_path cs"
  proof (cases "is_abs p")
    case True
    with that show thesis by (auto elim: fp_clean_abs_plain)
  next
    case False
    from assms have "is_abs (fp_join (ws_root w) p)" by (auto elim!: ws_okE simp: fp_join_abs)
    with False that show thesis by (auto elim: fp_clean_abs_plain)
  qed
  then show "list_all plain (request_elems w p)"
    "fp_clean (if is_abs p then p else fp_join (ws_root w) p) = abs_path (request_elems w p)"
    by (simp_all add: request_elems_def)
qed

lemma workspace_new_ws_ok:
  assumes "fs_wf f" "workspace_new f dir = Inr w"
  shows "ws_ok f w"
proof -
  obtain c where c: "eval_symlinks f dir = Inr c" "k_stat f c = Inr NDir" "ws_root w = c"
    using assms(2) by (auto simp: workspace_new_def split: if_splits sum.splits)
  obtain q where q: "c = abs_path q" "physical f q"
    using eval_symlinks_physical [OF assms(1) c(1)] by auto
  with k_stat_physical [OF assms(1) q(2)] c have "f q = Some NDir" by auto
  with q c show ?thesis by (auto simp: ws_ok_def)
qed

section \<open>The loop finds the deepest existing ancestor\<close>

lemma fold_join:
  assumes "list_all plain q" "list_all plain ms"
  shows "foldr (\<lambda>m r. fp_join r m) ms (abs_path q) = abs_path (q @ rev ms)"
  using assms(2)
proof (induction ms)
  case (Cons m ms)
  then have "list_all plain (q @ rev ms)" using assms(1) by (auto simp: list_all_iff)
  with Cons show ?case using fp_join_abs_plain [of "q @ rev ms" m] by simp
qed simp

lemma k_lstat_root: "fs_wf f \<Longrightarrow> k_lstat f (abs_path []) = Inr NDir"
  by (simp add: k_lstat_def k_lookup_def node_at_def abs_path_def walk_dot)

definition loop_result :: "fs \<Rightarrow> string list \<Rightarrow> string list \<Rightarrow> string + string" where
  "loop_result f cs ms =
     (case eval_symlinks f (abs_path cs) of
        Inl e \<Rightarrow> Inl (path_error ''lstat'' (abs_path cs) e)
      | Inr r \<Rightarrow> Inr (foldr (\<lambda>m r. fp_join r m) ms r))"

lemma allow_missing_abs:
  assumes "fs_wf f" "list_all plain cs" "length cs < n"
  shows "\<exists>k \<le> length cs. (\<exists>nd. k_lstat f (abs_path (take k cs)) = Inr nd)
    \<and> (\<forall>i. k < i \<and> i \<le> length cs \<longrightarrow> (\<exists>e. k_lstat f (abs_path (take i cs)) = Inl e))
    \<and> allow_missing n f (abs_path cs) ms = Some (loop_result f (take k cs) (ms @ rev (drop k cs)))"
  using assms(2,3)
proof (induction cs arbitrary: n ms rule: rev_induct)
  case Nil
  then show ?case
    using k_lstat_root [OF assms(1)] by (cases n) (auto simp: loop_result_def split: sum.splits)
next
  case (snoc c cs)
  then obtain m where m: "n = Suc m" by (cases n) auto
  from snoc.prems have pl: "list_all plain (cs @ [c])" "list_all plain cs" "plain c" by auto
  show ?case
  proof (cases "k_lstat f (abs_path (cs @ [c]))")
    case (Inr nd)
    then show ?thesis
      using m by (intro exI [of _ "Suc (length cs)"]) (auto simp: loop_result_def split: sum.splits)
  next
    case (Inl e)
    have "fp_dir (abs_path (cs @ [c])) \<noteq> abs_path (cs @ [c])"
      using pl by (simp add: abs_path_inj)
    with Inl m pl have eq: "allow_missing n f (abs_path (cs @ [c])) ms = allow_missing m f (abs_path cs) (ms @ [c])"
      by simp
    obtain k where k: "k \<le> length cs" "\<exists>nd. k_lstat f (abs_path (take k cs)) = Inr nd"
      "\<forall>i. k < i \<and> i \<le> length cs \<longrightarrow> (\<exists>e. k_lstat f (abs_path (take i cs)) = Inl e)"
      "allow_missing m f (abs_path cs) (ms @ [c]) = Some (loop_result f (take k cs) ((ms @ [c]) @ rev (drop k cs)))"
      using snoc.IH [of m "ms @ [c]"] pl snoc.prems m by auto
    have "\<exists>e. k_lstat f (abs_path (take i (cs @ [c]))) = Inl e" if "k < i \<and> i \<le> Suc (length cs)" for i
    proof (cases "i \<le> length cs")
      case True
      with k(3) that show ?thesis by simp
    next
      case False
      with that Inl show ?thesis by (simp add: le_Suc_eq)
    qed
    with k eq show ?thesis by (intro exI [of _ k]) auto
  qed
qed

text \<open>What \<open>resolve\<close> computes, on component lists.\<close>

lemma length_abs_path: "length cs \<le> length (abs_path cs)"
proof -
  have "length cs \<le> Suc (length (join [slash] cs))"
    by (induction "[slash]" cs rule: join.induct) auto
  then show ?thesis by (simp add: abs_path_def)
qed

lemma resolve_cases:
  assumes "fs_wf f" "ws_ok f w"
  obtains k where "k \<le> length (request_elems w p)"
    "\<exists>nd. k_lstat f (abs_path (take k (request_elems w p))) = Inr nd"
    "\<And>i. k < i \<Longrightarrow> i \<le> length (request_elems w p)
       \<Longrightarrow> \<exists>e. k_lstat f (abs_path (take i (request_elems w p))) = Inl e"
    "eval_symlinks_allow_missing f (abs_path (request_elems w p))
       = Some (loop_result f (take k (request_elems w p)) (rev (drop k (request_elems w p))))"
proof -
  let ?cs = "request_elems w p"
  have "length ?cs < Suc (length (abs_path ?cs))" using length_abs_path [of ?cs] by simp
  from allow_missing_abs [OF assms(1) request_elems(1) [OF assms(2)] this, of "[]"]
  obtain k where "k \<le> length ?cs" "\<exists>nd. k_lstat f (abs_path (take k ?cs)) = Inr nd"
    "\<forall>i. k < i \<and> i \<le> length ?cs \<longrightarrow> (\<exists>e. k_lstat f (abs_path (take i ?cs)) = Inl e)"
    "allow_missing (Suc (length (abs_path ?cs))) f (abs_path ?cs) [] = Some (loop_result f (take k ?cs) (rev (drop k ?cs)))"
    by auto
  moreover have "fp_clean (abs_path ?cs) = abs_path ?cs" using request_elems(1) [OF assms(2)] by simp
  ultimately show thesis
    by (intro that [of k]) (auto simp: eval_symlinks_allow_missing_def Let_def)
qed

lemma resolve_unfold:
  assumes "ws_ok f w"
  shows "resolve f w p =
    (case eval_symlinks_allow_missing f (abs_path (request_elems w p)) of
       None \<Rightarrow> Inl OutOfFuel
     | Some (Inl e) \<Rightarrow> Inl (ResolveFailed e)
     | Some (Inr r) \<Rightarrow> (case fp_rel (ws_root w) r of None \<Rightarrow> Inl RelFailed
         | Some rel \<Rightarrow> if escapes rel then Inl OutsideWorkspace else Inr r))"
  using request_elems(2) [OF assms, of p] by (simp add: resolve_def Let_def)

lemma rel_check:
  assumes "ws_ok f w" "list_all plain q"
  shows "(case fp_rel (ws_root w) (abs_path q) of None \<Rightarrow> Inl RelFailed
       | Some rel \<Rightarrow> if escapes rel then Inl OutsideWorkspace else Inr (abs_path q))
     = (if prefix (root_of w) q then Inr (abs_path q) else Inl OutsideWorkspace)"
proof -
  have r: "ws_root w = abs_path (root_of w)" "list_all plain (root_of w)"
    using assms(1) by (auto elim: ws_okE)
  obtain rel where rel: "fp_rel (abs_path (root_of w)) (abs_path q) = Some rel"
    using fp_rel_abs_path [OF r(2) assms(2)] by auto
  with rel_contained_iff [OF r(2) assms(2) rel] r(1) show ?thesis by auto
qed


lemma resolve_accepts:
  assumes "fs_wf f" "ws_ok f w" "resolve f w p = Inr r"
  obtains k q where "k \<le> length (request_elems w p)"
    "walk f go_max_links True [] (take k (request_elems w p)) = Inr q" "physical f q" "f q \<noteq> None"
    "r = abs_path (q @ drop k (request_elems w p))" "prefix (root_of w) (q @ drop k (request_elems w p))"
    "k < length (request_elems w p) \<Longrightarrow> \<exists>e. k_lstat f (abs_path (take (Suc k) (request_elems w p))) = Inl e"
proof -
  let ?cs = "request_elems w p"
  have pl: "list_all plain ?cs" by (rule request_elems(1) [OF assms(2)])
  obtain k where k: "k \<le> length ?cs"
    "\<And>i. k < i \<Longrightarrow> i \<le> length ?cs \<Longrightarrow> \<exists>e. k_lstat f (abs_path (take i ?cs)) = Inl e"
    "eval_symlinks_allow_missing f (abs_path ?cs) = Some (loop_result f (take k ?cs) (rev (drop k ?cs)))"
    using resolve_cases [OF assms(1,2), of p] by metis
  have tk: "list_all plain (take k ?cs)" "list_all plain (drop k ?cs)"
    using pl by (auto simp: list_all_iff dest: in_set_takeD in_set_dropD)
  obtain r0 where r0: "eval_symlinks f (abs_path (take k ?cs)) = Inr r0"
    using assms(3) resolve_unfold [OF assms(2), of p] k(3) by (auto simp: loop_result_def split: sum.splits)
  obtain q where q: "r0 = abs_path q" "physical f q" "f q \<noteq> None"
    "walk f go_max_links True [] (split_on slash (abs_path (take k ?cs))) = Inr q"
    using eval_symlinks_physical [OF assms(1) r0] by auto
  have plq: "list_all plain (q @ drop k ?cs)" using physical_plain [OF q(2)] tk by simp
  have "loop_result f (take k ?cs) (rev (drop k ?cs)) = Inr (abs_path (q @ drop k ?cs))"
    using r0 q(1) fold_join [OF physical_plain [OF q(2)], of "rev (drop k ?cs)"] tk
    by (simp add: loop_result_def)
  then have "(if prefix (root_of w) (q @ drop k ?cs) then Inr (abs_path (q @ drop k ?cs)) else Inl OutsideWorkspace) = Inr r"
    using assms(3) resolve_unfold [OF assms(2), of p] k(3) rel_check [OF assms(2) plq] by simp
  then have "r = abs_path (q @ drop k ?cs)" "prefix (root_of w) (q @ drop k ?cs)"
    by (auto split: if_splits)
  moreover have "walk f go_max_links True [] (take k ?cs) = Inr q"
    using q(4) tk(1) assms(1) by (simp add: walk_root)
  ultimately show thesis using k(1,2) q(2,3) by (intro that [of k q]) auto
qed

section \<open>An example\<close>

text \<open>
  A workspace \<open>/w\<close> with a link \<open>l\<close> to its own directory and a link \<open>esc\<close> to \<open>/etc\<close>, and the request
  that goes 41 times through \<open>l\<close> before it names \<open>esc/passwd\<close>.
\<close>

definition flood_fs :: fs where
  "flood_fs = map_of
     [([], NDir), ([''w''], NDir), ([''w'', ''l''], NLink ''.''), ([''w'', ''esc''], NLink ''/etc''),
      ([''etc''], NDir), ([''etc'', ''passwd''], NFile ''root:x:0:0'')]"

definition flood_ws :: workspace where
  "flood_ws = \<lparr>ws_root = ''/w'', ws_name = ''w''\<rparr>"

definition flood_request :: string where
  "flood_request = concat (replicate 41 ''l/'') @ ''esc/passwd''"

lemma flood_fs_wf: "fs_wf flood_fs"
  unfolding fs_wf_def flood_fs_def
  by (auto split: if_splits simp: append_eq_Cons_conv)

lemma flood_ws_ok: "ws_ok flood_fs flood_ws"
  unfolding ws_ok_def
  by (rule exI [of _ "[''w'']"])
     (auto simp: flood_fs_def flood_ws_def abs_path_def physical_def plain_def prefix_Cons is_link_def
       split: if_splits)

section \<open>Containment\<close>

text \<open>
  C1: every path that \<open>Resolve\<close> accepts is the clean absolute name of an entry under the
  workspace root: the root's elements followed by plain names, with no "..", "." or empty element.
\<close>

theorem resolve_contained:
  assumes "fs_wf f" "ws_ok f w" "resolve f w p = Inr r"
  shows "\<exists>q. list_all plain q \<and> r = abs_path (root_of w @ q)"
proof -
  obtain k q where *: "physical f q" "r = abs_path (q @ drop k (request_elems w p))"
    "prefix (root_of w) (q @ drop k (request_elems w p))"
    using resolve_accepts [OF assms] by metis
  then obtain z where z: "q @ drop k (request_elems w p) = root_of w @ z" by (auto simp: prefix_def)
  have "list_all plain (q @ drop k (request_elems w p))"
    using physical_plain [OF *(1)] request_elems(1) [OF assms(2), of p]
    by (auto simp: list_all_iff dest: in_set_dropD)
  with z * show ?thesis by auto
qed

theorem resolve_contained_witness:
  "\<exists>q. list_all plain q \<and> ''/w/new/a.txt'' = abs_path (root_of flood_ws @ q)"
  by (rule resolve_contained [OF flood_fs_wf flood_ws_ok, where p = "''l/new//./a.txt''"]) code_simp

lemma not_found_below:
  assumes "fs_wf f" "\<forall>c \<in> set cs. slash \<notin> set c" "list_all plain cs" "plain m"
    "walk f go_max_links True [] cs = Inr q"
    "k_lstat f (abs_path (cs @ [m])) = Inl e" "e \<noteq> ELOOP"
  shows "f (q @ [m]) = None"
proof (rule ccontr)
  assume ex: "f (q @ [m]) \<noteq> None"
  then have "f q = Some NDir" by (rule fs_wf_parent [OF assms(1)])
  from walk_child [OF assms(2,5) this assms(4) ex]
  have go: "walk f go_max_links False [] (cs @ [m]) = Inr (q @ [m])" .
  have free: "\<forall>c \<in> set (cs @ [m]). slash \<notin> set c" using assms(2,4) by auto
  have pl: "list_all plain (cs @ [m])" using assms by simp
  show False
  proof (cases "k_lookup f False (abs_path (cs @ [m]))")
    case (Inl e')
    with assms(6) have "e' = e" by (simp add: k_lstat_def node_at_def)
    with Inl have "walk f kernel_max_links False [] (cs @ [m]) = Inl e"
      using walk_root [OF assms(1) pl] by (simp add: k_lookup_def)
    from walk_mono [OF free this, of go_max_links] assms(7) go show False
      by (simp add: kernel_max_links_def go_max_links_def)
  next
    case (Inr x)
    then have x: "walk f kernel_max_links False [] (cs @ [m]) = Inr x"
      using walk_root [OF assms(1) pl] by (simp add: k_lookup_def)
    from assms(1) have "physical f []" "f [] \<noteq> None" by (auto simp: physical_def)
    from walk_physical [OF free assms(1) this x] have "f x \<noteq> None" by simp
    with Inr assms(6) show False by (auto simp: k_lstat_def node_at_def)
  qed
qed

lemma resolve_physical_lemma:
  assumes "fs_wf f" "ws_ok f w" "lookups_ok f w p" "resolve f w p = Inr r"
  shows "\<exists>q. r = abs_path (root_of w @ q) \<and> physical f (root_of w @ q)"
proof -
  let ?cs = "request_elems w p"
  have pl: "list_all plain ?cs" by (rule request_elems(1) [OF assms(2)])
  obtain k q where *: "k \<le> length ?cs"
    "walk f go_max_links True [] (take k ?cs) = Inr q" "physical f q" "f q \<noteq> None"
    "r = abs_path (q @ drop k ?cs)" "prefix (root_of w) (q @ drop k ?cs)"
    "k < length ?cs \<Longrightarrow> \<exists>e. k_lstat f (abs_path (take (Suc k) ?cs)) = Inl e"
    using resolve_accepts [OF assms(1,2,4)] by metis
  have "physical f (q @ drop k ?cs)"
  proof (cases "k < length ?cs")
    case True
    let ?m = "?cs ! k"
    obtain e where e: "k_lstat f (abs_path (take (Suc k) ?cs)) = Inl e" using * True by auto
    with assms(3) True have "e \<noteq> ELOOP" by (auto simp: lookups_ok_def list_all_iff Let_def)
    have tk: "take (Suc k) ?cs = take k ?cs @ [?m]" using True by (rule take_Suc_conv_app_nth)
    have m: "plain ?m" using pl True by (auto simp: list_all_iff)
    have "list_all plain (take k ?cs)" using pl by (auto simp: list_all_iff dest: in_set_takeD)
    moreover from this have "\<forall>c \<in> set (take k ?cs). slash \<notin> set c" by (auto simp: list_all_iff)
    ultimately have none: "f (q @ [?m]) = None"
      using not_found_below [OF assms(1) _ _ _ *(2)] e \<open>e \<noteq> ELOOP\<close> tk m by simp
    with *(3) m have "physical f (q @ [?m])" by (simp add: physical_snoc)
    moreover have "list_all plain (drop (Suc k) ?cs)" using pl by (auto simp: list_all_iff dest: in_set_dropD)
    ultimately have "physical f ((q @ [?m]) @ drop (Suc k) ?cs)"
      using physical_missing_below [OF assms(1) _ none] by blast
    moreover have "drop k ?cs = ?m # drop (Suc k) ?cs" using True by (rule Cons_nth_drop_Suc [symmetric])
    ultimately show ?thesis by simp
  qed (use * in simp)
  with * show ?thesis by (auto simp: prefix_def)
qed


lemma flood_resolve: "resolve flood_fs flood_ws flood_request = Inr ''/w/esc/passwd''"
  by code_simp

lemma flood_lookup: "k_lookup flood_fs True ''/w/esc/passwd'' = Inr [''etc'', ''passwd'']"
  by code_simp



text \<open>A lookup that follows the last link succeeds only where one that does not succeeds too.\<close>

lemma walk_nofollow:
  assumes "\<forall>c \<in> set cs. slash \<notin> set c" "walk f n True cur cs = Inr q" "f cur \<noteq> None" "fs_wf f"
  shows "\<exists>x. walk f n False cur cs = Inr x \<and> f x \<noteq> None"
  using assms(1-3)
proof (induction n cur cs rule: walk_induct [where f = f and fl = True])
  case (Link m cur c cs t)
  show ?case
  proof (cases "cs = []")
    case False
    have "f (if is_abs t then [] else cur) \<noteq> None" using Link assms(4) by auto
    with False Link show ?thesis by (simp add: walk_link)
  qed (use Link in \<open>simp add: walk_link_end\<close>)
next
  case (Up n cur cs)
  have "f (butlast cur) \<noteq> None"
    using Up.hyps fs_wf_above [OF assms(4), of "butlast cur" "[last cur]"] by (cases "cur = []") auto
  with Up show ?case by (simp add: walk_up)
qed (auto simp: walk_steps)

text \<open>
  on a path that exists \<open>Resolve\<close> decides exactly by where the kernel's lookup ends: inside the
  root it returns that physical path, outside it reports \<open>ErrOutsideWorkspace\<close>.
\<close>

theorem resolve_existing:
  assumes "fs_wf f" "ws_ok f w" "k_lookup f True (abs_path (request_elems w p)) = Inr q"
  shows "resolve f w p = (if prefix (root_of w) q then Inr (abs_path q) else Inl OutsideWorkspace)"
proof -
  let ?cs = "request_elems w p"
  have pl: "list_all plain ?cs" by (rule request_elems(1) [OF assms(2)])
  have fp: "fp_clean (abs_path ?cs) = abs_path ?cs" using pl by simp
  have w: "walk f kernel_max_links True [] (split_on slash (abs_path ?cs)) = Inr q"
    using assms(3) by (simp add: k_lookup_def)
  have r: "f [] \<noteq> None" "physical f []" using assms(1) by (auto simp: physical_def)
  obtain x where "walk f kernel_max_links False [] (split_on slash (abs_path ?cs)) = Inr x" "f x \<noteq> None"
    using walk_nofollow [OF split_free w r(1) assms(1)] by auto
  then have l: "\<exists>nd. k_lstat f (abs_path ?cs) = Inr nd"
    by (auto simp: k_lstat_def node_at_def k_lookup_def)
  have "walk f go_max_links True [] (split_on slash (abs_path ?cs)) = Inr q"
    by (rule walk_mono [OF split_free w]) (simp_all add: kernel_max_links_def go_max_links_def)
  then have "eval_symlinks f (abs_path ?cs) = Inr (abs_path q)" by (simp add: eval_symlinks_def)
  with l fp have "eval_symlinks_allow_missing f (abs_path ?cs) = Some (Inr (abs_path q))"
    by (auto simp: eval_symlinks_allow_missing_def Let_def)
  moreover have "list_all plain q"
    using walk_physical [OF split_free assms(1) r(2,1) w] by simp
  ultimately show ?thesis
    using resolve_unfold [OF assms(2), of p] rel_check [OF assms(2)] by simp
qed

theorem resolve_existing_witness:
  "resolve flood_fs flood_ws ''l/esc/passwd'' = Inl OutsideWorkspace"
proof -
  have "k_lookup flood_fs True (abs_path (request_elems flood_ws ''l/esc/passwd'')) = Inr [''etc'', ''passwd'']"
    by code_simp
  from resolve_existing [OF flood_fs_wf flood_ws_ok this] show ?thesis by code_simp
qed

lemma resolve_fuel: "fs_wf f \<Longrightarrow> ws_ok f w \<Longrightarrow> resolve f w p \<noteq> Inl OutOfFuel"
proof -
  assume a: "fs_wf f" "ws_ok f w"
  obtain k where "eval_symlinks_allow_missing f (abs_path (request_elems w p))
      = Some (loop_result f (take k (request_elems w p)) (rev (drop k (request_elems w p))))"
    using resolve_cases [OF a, of p] by metis
  then show ?thesis
    using resolve_unfold [OF a(2), of p] by (auto split: sum.splits option.splits if_splits)
qed

end
