(* ===== verification/WorkspaceSet.thy ===== *)
theory WorkspaceSet
  imports Workspace
begin

text \<open>
  Several named roots in one process: \<open>internal/workspace/set.go\<close>, the choice of a workspace for a
  tool call in \<open>internal/tools/workspace_dispatch.go\<close>, and the session's \<open>ReadTracker\<close>
  (\<open>internal/workspace/tracker.go\<close>).
\<close>

section \<open>The set\<close>

record ws_entry =
  entry_name :: string
  entry_root :: string

record ws_set =
  ordered :: "workspace list"
  by_name :: "string \<rightharpoonup> workspace"

definition derived_name :: "ws_entry \<Rightarrow> string" where
  "derived_name e = (if entry_name e = [] then fp_base (entry_root e) else entry_name e)"

text \<open>The loop of \<open>NewSet\<close> over the entries, from index \<open>i\<close> on.\<close>

fun new_set_loop :: "fs \<Rightarrow> nat \<Rightarrow> ws_entry list \<Rightarrow> ws_set \<Rightarrow> string + ws_set" where
  "new_set_loop f i [] s = Inr s"
| "new_set_loop f i (e # es) s =
     (let name = derived_name e; pos = ''workspace['' @ dec_nat i @ '']''
      in if name = [] \<or> name = ''.'' \<or> name = ''/'' then
           Inl (pos @ '': cannot derive a non-empty name from root '' @ quote (entry_root e) @ ''; pass an explicit name'')
         else if by_name s name \<noteq> None then Inl (pos @ '': duplicate name '' @ quote name)
         else case workspace_new f (entry_root e) of
             Inl err \<Rightarrow> Inl (pos @ '' ('' @ name @ ''): '' @ err)
           | Inr w \<Rightarrow>
               (let w' = w\<lparr>ws_name := name\<rparr>
                in new_set_loop f (Suc i) es
                     \<lparr>ordered = ordered s @ [w'], by_name = (by_name s)(name \<mapsto> w')\<rparr>))"

definition new_set :: "fs \<Rightarrow> ws_entry list \<Rightarrow> string + ws_set" where
  "new_set f es =
     (if es = [] then Inl ''at least one workspace entry is required''
      else new_set_loop f 0 es \<lparr>ordered = [], by_name = Map.empty\<rparr>)"

definition new_singleton_set :: "workspace \<Rightarrow> ws_set" where
  "new_singleton_set w =
     (let w' = (if ws_name w = [] then w\<lparr>ws_name := fp_base (ws_root w)\<rparr> else w)
      in \<lparr>ordered = [w'], by_name = [ws_name w' \<mapsto> w']\<rparr>)"

text \<open>A nil \<open>*Set\<close> is \<open>None\<close>; every method is nil-safe.\<close>

fun set_len :: "ws_set option \<Rightarrow> nat" where
  "set_len None = 0"
| "set_len (Some s) = length (ordered s)"

fun set_names :: "ws_set option \<Rightarrow> string list" where
  "set_names None = []"
| "set_names (Some s) = map ws_name (ordered s)"

definition set_sorted_names :: "ws_set option \<Rightarrow> string list" where
  "set_sorted_names s = sort (set_names s)"

fun set_get :: "ws_set option \<Rightarrow> string \<Rightarrow> string + workspace" where
  "set_get None name = Inl ''unknown workspace''"
| "set_get (Some s) name =
     (case by_name s name of
        None \<Rightarrow> Inl (''unknown workspace: '' @ quote name)
      | Some w \<Rightarrow> Inr w)"

fun set_default :: "ws_set option \<Rightarrow> workspace option" where
  "set_default None = None"
| "set_default (Some s) = (case ordered s of [w] \<Rightarrow> Some w | _ \<Rightarrow> None)"

fun set_all :: "ws_set option \<Rightarrow> workspace list" where
  "set_all None = []"
| "set_all (Some s) = ordered s"

section \<open>The invariant of a set\<close>

text \<open>The two fields describe the same workspaces, and names are unique.\<close>

definition set_inv :: "ws_set \<Rightarrow> bool" where
  "set_inv s \<longleftrightarrow> distinct (map ws_name (ordered s))
     \<and> by_name s = map_of (map (\<lambda>w. (ws_name w, w)) (ordered s))"

lemma map_of_names_None: "map_of (map (\<lambda>w. (ws_name w, w)) ws) n = None \<longleftrightarrow> n \<notin> ws_name ` set ws"
  by (induction ws) auto

lemma map_of_names_Some:
  "distinct (map ws_name ws) \<Longrightarrow> map_of (map (\<lambda>w. (ws_name w, w)) ws) n = Some w \<longleftrightarrow> w \<in> set ws \<and> ws_name w = n"
  by (subst map_of_eq_Some_iff) (auto simp: comp_def)

lemma set_inv_snoc:
  assumes "set_inv s" "by_name s (ws_name w) = None"
  shows "set_inv \<lparr>ordered = ordered s @ [w], by_name = (by_name s)(ws_name w \<mapsto> w)\<rparr>"
proof -
  have new: "ws_name w \<notin> ws_name ` set (ordered s)"
    using assms by (simp add: set_inv_def map_of_names_None)
  have "map_of (map (\<lambda>w. (ws_name w, w)) (ordered s @ [w])) = [ws_name w \<mapsto> w] ++ by_name s"
    using assms(1) by (simp add: set_inv_def)
  also have "\<dots> = (by_name s)(ws_name w \<mapsto> w)"
    using assms(2) by (auto simp: fun_eq_iff map_add_def split: option.splits)
  finally have "map_of (map (\<lambda>w. (ws_name w, w)) (ordered s @ [w])) = (by_name s)(ws_name w \<mapsto> w)" .
  with new assms(1) show ?thesis by (simp add: set_inv_def)
qed

lemma new_set_loop_inv:
  assumes "new_set_loop f i es s = Inr s'" "set_inv s"
  shows "set_inv s' \<and> map ws_name (ordered s') = map ws_name (ordered s) @ map derived_name es"
  using assms
proof (induction es arbitrary: i s)
  case (Cons e es)
  from Cons.prems obtain w where w: "workspace_new f (entry_root e) = Inr w" "by_name s (derived_name e) = None"
    "new_set_loop f (Suc i) es \<lparr>ordered = ordered s @ [w\<lparr>ws_name := derived_name e\<rparr>],
       by_name = (by_name s)(derived_name e \<mapsto> w\<lparr>ws_name := derived_name e\<rparr>)\<rparr> = Inr s'"
    by (auto simp: Let_def split: if_splits sum.splits)
  from set_inv_snoc [OF Cons.prems(2), of "w\<lparr>ws_name := derived_name e\<rparr>"] w(2)
  have "set_inv \<lparr>ordered = ordered s @ [w\<lparr>ws_name := derived_name e\<rparr>],
       by_name = (by_name s)(derived_name e \<mapsto> w\<lparr>ws_name := derived_name e\<rparr>)\<rparr>" by simp
  from Cons.IH [OF w(3) this] show ?case by simp
qed simp

lemma ws_ok_rename [simp]: "ws_ok f (w\<lparr>ws_name := n\<rparr>) = ws_ok f w"
  by (simp add: ws_ok_def)

lemma new_set_loop_ok:
  assumes "new_set_loop f i es s = Inr s'" "fs_wf f" "\<forall>w \<in> set (ordered s). ws_ok f w"
  shows "\<forall>w \<in> set (ordered s'). ws_ok f w"
  using assms(1,3)
proof (induction es arbitrary: i s)
  case (Cons e es)
  from Cons.prems obtain w where w: "workspace_new f (entry_root e) = Inr w"
    "new_set_loop f (Suc i) es \<lparr>ordered = ordered s @ [w\<lparr>ws_name := derived_name e\<rparr>],
       by_name = (by_name s)(derived_name e \<mapsto> w\<lparr>ws_name := derived_name e\<rparr>)\<rparr> = Inr s'"
    by (auto simp: Let_def split: if_splits sum.splits)
  with workspace_new_ws_ok [OF assms(2) w(1)] Cons.prems show ?case by (intro Cons.IH [OF w(2)]) auto
qed simp

text \<open>
  a set that \<open>NewSet\<close> returns holds one contained workspace per entry, in the operator's order
  and under pairwise different names, and its name index agrees with that list.
\<close>

theorem new_set_correct:
  assumes "fs_wf f" "new_set f es = Inr s"
  shows "set_inv s \<and> map ws_name (ordered s) = map derived_name es \<and> es \<noteq> []
    \<and> (\<forall>w \<in> set (ordered s). ws_ok f w)"
proof -
  from assms(2) have ne: "es \<noteq> []" and l: "new_set_loop f 0 es \<lparr>ordered = [], by_name = Map.empty\<rparr> = Inr s"
    by (auto simp: new_set_def split: if_splits)
  have "set_inv \<lparr>ordered = [], by_name = Map.empty\<rparr>" by (simp add: set_inv_def)
  from new_set_loop_inv [OF l this] new_set_loop_ok [OF l assms(1)] ne
  show ?thesis by simp
qed

theorem new_set_correct_witness:
  "\<exists>s. new_set flood_fs [\<lparr>entry_name = [], entry_root = ''/w''\<rparr>, \<lparr>entry_name = ''conf'', entry_root = ''/w/esc''\<rparr>] = Inr s
     \<and> set_inv s \<and> map ws_name (ordered s) = [''w'', ''conf'']"
proof -
  have "case new_set flood_fs [\<lparr>entry_name = [], entry_root = ''/w''\<rparr>, \<lparr>entry_name = ''conf'', entry_root = ''/w/esc''\<rparr>]
      of Inl _ \<Rightarrow> False | Inr _ \<Rightarrow> True"
    by code_simp
  then obtain s where s: "new_set flood_fs [\<lparr>entry_name = [], entry_root = ''/w''\<rparr>, \<lparr>entry_name = ''conf'', entry_root = ''/w/esc''\<rparr>] = Inr s"
    by (auto split: sum.splits)
  from new_set_correct [OF flood_fs_wf s] s show ?thesis by (auto simp: derived_name_def fp_base_def trim_right_def)
qed

section \<open>Choosing the workspace of a tool call\<close>

record ws_deps =
  dep_workspace :: "workspace option"
  dep_workspaces :: "ws_set option"

definition resolve_workspace :: "ws_deps \<Rightarrow> args \<Rightarrow> string + workspace" where
  "resolve_workspace d a =
     (let hint = trim_space (arg_str0 a ''workspace''); set = dep_workspaces d
      in if set_len set = 0 then
           (case dep_workspace d of
              None \<Rightarrow> Inl ''no workspace configured (BUG)''
            | Some w \<Rightarrow>
                if hint \<noteq> [] \<and> ws_name w \<noteq> [] \<and> hint \<noteq> ws_name w then
                  Inl (''unknown workspace '' @ quote hint @ ''; configured: '' @ ws_name w)
                else Inr w)
         else if hint = [] then
           (case set_default set of
              Some w \<Rightarrow> Inr w
            | None \<Rightarrow>
                Inl (''multi-workspace sandbox: '' @ dec_nat (set_len set) @ '' workspaces configured (''
                     @ comma_sep (set_sorted_names set) @ '') '' @ em_dash @ '' pass `workspace` to pick one''))
         else
           (case set_get set hint of
              Inr w \<Rightarrow> Inr w
            | Inl _ \<Rightarrow>
                Inl (''unknown workspace '' @ quote hint @ ''; configured: '' @ comma_sep (set_sorted_names set))))"

text \<open>
  on a set built by \<open>NewSet\<close> the sandbox never guesses: a call is dispatched to a workspace exactly
  when that workspace is the only one and no name was given, or when it is the one with the name
  given.
\<close>

theorem resolve_workspace_exact:
  assumes "dep_workspaces d = Some s" "set_inv s" "ordered s \<noteq> []"
  shows "resolve_workspace d a = Inr w \<longleftrightarrow>
    (if trim_space (arg_str0 a ''workspace'') = [] then ordered s = [w]
     else w \<in> set (ordered s) \<and> ws_name w = trim_space (arg_str0 a ''workspace''))"
proof (cases "trim_space (arg_str0 a ''workspace'') = []")
  case True
  then show ?thesis using assms
    by (auto simp: resolve_workspace_def Let_def split: list.splits)
next
  case False
  let ?h = "trim_space (arg_str0 a ''workspace'')"
  have "resolve_workspace d a = Inr w \<longleftrightarrow> by_name s ?h = Some w"
    using assms(1,3) False by (auto simp: resolve_workspace_def Let_def split: option.splits)
  also have "\<dots> \<longleftrightarrow> w \<in> set (ordered s) \<and> ws_name w = ?h"
    using assms(2) by (auto simp: set_inv_def map_of_names_Some)
  finally show ?thesis using False by simp
qed

definition two_ws :: ws_set where
  "two_ws = \<lparr>ordered = [\<lparr>ws_root = ''/a'', ws_name = ''a''\<rparr>, \<lparr>ws_root = ''/b'', ws_name = ''b''\<rparr>],
     by_name = map_of [(''a'', \<lparr>ws_root = ''/a'', ws_name = ''a''\<rparr>), (''b'', \<lparr>ws_root = ''/b'', ws_name = ''b''\<rparr>)]\<rparr>"

theorem resolve_workspace_exact_witness:
  "resolve_workspace \<lparr>dep_workspace = None, dep_workspaces = Some two_ws\<rparr> [(''workspace'', JStr '' b'')]
     = Inr \<lparr>ws_root = ''/b'', ws_name = ''b''\<rparr>"
  by (subst resolve_workspace_exact [where s = two_ws])
     (auto simp: two_ws_def set_inv_def arg_str0_def arg_str_def trim_space_def trim_right_def is_space_def)

section \<open>The read tracker\<close>

type_synonym tracker = "string set"

definition new_read_tracker :: tracker where "new_read_tracker = {}"

definition mark_read :: "tracker \<Rightarrow> string \<Rightarrow> tracker" where
  "mark_read t p = insert p t"

definition has_been_read :: "tracker \<Rightarrow> string \<Rightarrow> bool" where
  "has_been_read t p \<longleftrightarrow> p \<in> t"

end
