(* ===== verification/GoRegexp.thy ===== *)
theory GoRegexp
  imports Prelude
begin

text \<open>
  The package \<open>regexp\<close> as far as the sandbox uses it: a syntax of patterns, a matcher that returns
  every match from a position in the order of preference of Go's leftmost-first semantics, and
  \<open>FindSubmatch\<close>, \<open>FindAll\<close> and \<open>ReplaceAll\<close> on top of it.  Patterns work on bytes; every class of the
  sandbox's patterns either is a set of ASCII bytes or contains all bytes above 127, so that a
  multi-byte rune is matched byte by byte where Go matches it at once.
\<close>

section \<open>Patterns and the matcher\<close>

datatype re =
    REps
  | RCls "char \<Rightarrow> bool"
  | RSeq re re
  | RAlt re re
  | RStar bool re
  | RGroup nat re
  | RBegin
  | REnd
  | RBeginLine
  | RWordB

text \<open>A position in the text and the groups captured so far, latest first.\<close>

type_synonym caps = "(nat \<times> nat \<times> nat) list"
type_synonym mst = "nat \<times> caps"

definition is_word :: "char \<Rightarrow> bool" where
  "is_word c \<longleftrightarrow> (CHR ''a'' \<le> c \<and> c \<le> CHR ''z'') \<or> (CHR ''A'' \<le> c \<and> c \<le> CHR ''Z'')
     \<or> is_digit c \<or> c = CHR ''_''"

definition word_at :: "string \<Rightarrow> nat \<Rightarrow> bool" where
  "word_at s i \<longleftrightarrow> i < length s \<and> is_word (s ! i)"

definition word_boundary :: "string \<Rightarrow> nat \<Rightarrow> bool" where
  "word_boundary s i \<longleftrightarrow> (0 < i \<and> word_at s (i - 1)) \<noteq> word_at s i"

text \<open>
  Repetition: each further round must advance, so one more round than bytes left is enough.
\<close>

fun star_iter :: "nat \<Rightarrow> (mst \<Rightarrow> mst list) \<Rightarrow> bool \<Rightarrow> mst \<Rightarrow> mst list" where
  "star_iter 0 m greedy st = [st]"
| "star_iter (Suc n) m greedy st =
     (let more = concat (map (star_iter n m greedy) (filter (\<lambda>st'. fst st < fst st') (m st)))
      in if greedy then more @ [st] else st # more)"

primrec rmatch :: "re \<Rightarrow> string \<Rightarrow> mst \<Rightarrow> mst list" where
  "rmatch REps s st = [st]"
| "rmatch (RCls p) s st =
     (if fst st < length s \<and> p (s ! fst st) then [(Suc (fst st), snd st)] else [])"
| "rmatch (RSeq a b) s st = concat (map (rmatch b s) (rmatch a s st))"
| "rmatch (RAlt a b) s st = rmatch a s st @ rmatch b s st"
| "rmatch (RStar g a) s st = star_iter (Suc (length s - fst st)) (rmatch a s) g st"
| "rmatch (RGroup k a) s st = map (\<lambda>(j, c). (j, (k, fst st, j) # c)) (rmatch a s st)"
| "rmatch RBegin s st = (if fst st = 0 then [st] else [])"
| "rmatch REnd s st = (if fst st = length s then [st] else [])"
| "rmatch RBeginLine s st = (if fst st = 0 \<or> s ! (fst st - 1) = newline then [st] else [])"
| "rmatch RWordB s st = (if word_boundary s (fst st) then [st] else [])"

text \<open>The leftmost position with a match, and the preferred match there: \<open>(start, end, groups)\<close>.\<close>

fun find_from :: "nat \<Rightarrow> re \<Rightarrow> string \<Rightarrow> nat \<Rightarrow> (nat \<times> nat \<times> caps) option" where
  "find_from 0 r s i = (case rmatch r s (i, []) of [] \<Rightarrow> None | st # _ \<Rightarrow> Some (i, st))"
| "find_from (Suc n) r s i =
     (case rmatch r s (i, []) of [] \<Rightarrow> find_from n r s (Suc i) | st # _ \<Rightarrow> Some (i, st))"

definition find_at :: "re \<Rightarrow> string \<Rightarrow> nat \<Rightarrow> (nat \<times> nat \<times> caps) option" where
  "find_at r s i = find_from (length s - i) r s i"

definition re_match :: "re \<Rightarrow> string \<Rightarrow> bool" where
  "re_match r s \<longleftrightarrow> find_at r s 0 \<noteq> None"

definition slice :: "string \<Rightarrow> nat \<Rightarrow> nat \<Rightarrow> string" where
  "slice s i j = take (j - i) (drop i s)"

text \<open>A captured group as text; the empty string for a group that took no part.\<close>

definition cap_text :: "string \<Rightarrow> caps \<Rightarrow> nat \<Rightarrow> string" where
  "cap_text s c k = (case map_of c k of None \<Rightarrow> [] | Some (i, j) \<Rightarrow> slice s i j)"

text \<open>The successive matches, left to right and not overlapping; the fuel is the length of the text.\<close>

fun find_all_from :: "nat \<Rightarrow> re \<Rightarrow> string \<Rightarrow> nat \<Rightarrow> (nat \<times> nat) list" where
  "find_all_from 0 r s i = []"
| "find_all_from (Suc n) r s i =
     (case find_at r s i of
        None \<Rightarrow> []
      | Some (a, b, _) \<Rightarrow> (a, b) # find_all_from n r s (if a < b then b else Suc b))"

definition find_all :: "re \<Rightarrow> string \<Rightarrow> (nat \<times> nat) list" where
  "find_all r s = find_all_from (Suc (length s)) r s 0"

fun splice :: "string \<Rightarrow> string \<Rightarrow> nat \<Rightarrow> (nat \<times> nat) list \<Rightarrow> string" where
  "splice s repl i [] = drop i s"
| "splice s repl i ((a, b) # ms) = slice s i a @ repl @ splice s repl b ms"

definition replace_all :: "re \<Rightarrow> string \<Rightarrow> string \<Rightarrow> string" where
  "replace_all r s repl = splice s repl 0 (find_all r s)"

section \<open>Pattern notation\<close>

definition rchr :: "char \<Rightarrow> re" where "rchr c = RCls (\<lambda>x. x = c)"

text \<open>A character under \<open>(?i)\<close>.\<close>

definition rchr_ci :: "char \<Rightarrow> re" where "rchr_ci c = RCls (\<lambda>x. lower_char x = lower_char c)"

fun rlit :: "string \<Rightarrow> re" where
  "rlit [] = REps"
| "rlit [c] = rchr c"
| "rlit (c # d # s) = RSeq (rchr c) (rlit (d # s))"

fun rlit_ci :: "string \<Rightarrow> re" where
  "rlit_ci [] = REps"
| "rlit_ci [c] = rchr_ci c"
| "rlit_ci (c # d # s) = RSeq (rchr_ci c) (rlit_ci (d # s))"

fun ralts :: "re list \<Rightarrow> re" where
  "ralts [] = RCls (\<lambda>_. False)"
| "ralts [r] = r"
| "ralts (r # q # rs) = RAlt r (ralts (q # rs))"

fun rseqs :: "re list \<Rightarrow> re" where
  "rseqs [] = REps"
| "rseqs [r] = r"
| "rseqs (r # q # rs) = RSeq r (rseqs (q # rs))"

definition rplus :: "re \<Rightarrow> re" where "rplus r = RSeq r (RStar True r)"
definition rplus_lazy :: "re \<Rightarrow> re" where "rplus_lazy r = RSeq r (RStar False r)"
definition ropt :: "re \<Rightarrow> re" where "ropt r = RAlt r REps"
definition rtimes :: "nat \<Rightarrow> re \<Rightarrow> re" where "rtimes n r = rseqs (replicate n r)"
definition ratleast :: "nat \<Rightarrow> re \<Rightarrow> re" where "ratleast n r = RSeq (rtimes n r) (RStar True r)"

definition cls_space :: "char \<Rightarrow> bool" where
  "cls_space c \<longleftrightarrow> c = CHR '' '' \<or> c = CHR 0x09 \<or> c = CHR 0x0A \<or> c = CHR 0x0C \<or> c = CHR 0x0D"

definition cls_upper :: "char \<Rightarrow> bool" where "cls_upper c \<longleftrightarrow> CHR ''A'' \<le> c \<and> c \<le> CHR ''Z''"
definition cls_lower :: "char \<Rightarrow> bool" where "cls_lower c \<longleftrightarrow> CHR ''a'' \<le> c \<and> c \<le> CHR ''z''"
definition cls_alnum :: "char \<Rightarrow> bool" where
  "cls_alnum c \<longleftrightarrow> cls_upper c \<or> cls_lower c \<or> is_digit c"

definition cls_any :: "char \<Rightarrow> bool" where "cls_any c \<longleftrightarrow> c \<noteq> newline"

section \<open>Declarative meaning\<close>

text \<open>\<open>matches s r i j\<close>: the bytes of \<open>s\<close> from \<open>i\<close> to \<open>j\<close> are in the language of \<open>r\<close> in their context.\<close>

inductive matches :: "string \<Rightarrow> re \<Rightarrow> nat \<Rightarrow> nat \<Rightarrow> bool" for s where
  m_eps: "matches s REps i i"
| m_cls: "i < length s \<Longrightarrow> p (s ! i) \<Longrightarrow> matches s (RCls p) i (Suc i)"
| m_seq: "matches s a i j \<Longrightarrow> matches s b j k \<Longrightarrow> matches s (RSeq a b) i k"
| m_alt1: "matches s a i j \<Longrightarrow> matches s (RAlt a b) i j"
| m_alt2: "matches s b i j \<Longrightarrow> matches s (RAlt a b) i j"
| m_star0: "matches s (RStar g a) i i"
| m_star1: "matches s a i j \<Longrightarrow> i < j \<Longrightarrow> matches s (RStar g a) j k \<Longrightarrow> matches s (RStar g a) i k"
| m_group: "matches s a i j \<Longrightarrow> matches s (RGroup k a) i j"
| m_begin: "matches s RBegin 0 0"
| m_end: "i = length s \<Longrightarrow> matches s REnd i i"
| m_bol: "i = 0 \<or> s ! (i - 1) = newline \<Longrightarrow> matches s RBeginLine i i"
| m_wordb: "word_boundary s i \<Longrightarrow> matches s RWordB i i"

inductive_simps matches_simps:
  "matches s REps i j" "matches s (RCls p) i j" "matches s (RSeq a b) i j" "matches s (RAlt a b) i j"
  "matches s (RGroup n a) i j" "matches s RBegin i j" "matches s REnd i j" "matches s RBeginLine i j"
  "matches s RWordB i j"

inductive_cases matches_starE: "matches s (RStar g a) i j"

lemma matches_mono: "matches s r i j \<Longrightarrow> i \<le> j"
  by (induction rule: matches.induct) auto

lemma matches_le: "matches s r i j \<Longrightarrow> i \<le> length s \<Longrightarrow> j \<le> length s"
  by (induction rule: matches.induct) auto

lemma star_iter_sound:
  assumes m: "\<And>st st'. st' \<in> set (m st) \<Longrightarrow> matches s a (fst st) (fst st')"
  shows "st' \<in> set (star_iter n m g st) \<Longrightarrow> matches s (RStar g a) (fst st) (fst st')"
proof (induction n arbitrary: st)
  case 0
  then show ?case by (auto intro: m_star0)
next
  case (Suc n)
  from Suc.prems consider "st' = st"
    | x where "x \<in> set (m st)" "fst st < fst x" "st' \<in> set (star_iter n m g x)"
    by (auto simp: Let_def split: if_splits)
  then show ?case
  proof cases
    case 1
    then show ?thesis by (auto intro: m_star0)
  next
    case (2 x)
    from m [OF 2(1)] 2(2) Suc.IH [OF 2(3)] show ?thesis by (rule m_star1)
  qed
qed

lemma rmatch_sound: "st' \<in> set (rmatch r s st) \<Longrightarrow> matches s r (fst st) (fst st')"
proof (induction r arbitrary: st st')
  case (RStar g a)
  from RStar.prems have "st' \<in> set (star_iter (Suc (length s - fst st)) (rmatch a s) g st)"
    by (simp del: star_iter.simps)
  then show ?case using star_iter_sound [of "rmatch a s" s a] RStar.IH by blast
next
  case (RSeq a b)
  from RSeq.prems obtain x where "x \<in> set (rmatch a s st)" "st' \<in> set (rmatch b s x)" by auto
  with RSeq.IH show ?case by (blast intro: m_seq)
next
  case (RGroup k a)
  from RGroup.prems obtain j c where "(j, c) \<in> set (rmatch a s st)" "fst st' = j" by auto
  with RGroup.IH [of "(j, c)" st] show ?case by (simp add: m_group)
qed (auto intro: matches.intros split: if_splits)

lemma star_iter_complete:
  assumes "matches s (RStar g a) i k"
    and m: "\<And>i j c. matches s a i j \<Longrightarrow> i \<le> length s \<Longrightarrow> \<exists>c'. (j, c') \<in> set (m (i, c))"
  shows "i \<le> length s \<Longrightarrow> length s - i \<le> n \<Longrightarrow> \<exists>c'. (k, c') \<in> set (star_iter (Suc n) m g (i, c))"
  using assms(1)
proof (induction "RStar g a" i k arbitrary: n c rule: matches.induct)
  case (m_star0 i)
  then show ?case by (auto simp: Let_def)
next
  case (m_star1 i j k)
  from m [OF m_star1.hyps(1) m_star1.prems(1)] obtain c1 where c1: "(j, c1) \<in> set (m (i, c))" by blast
  have j: "j \<le> length s" using matches_le [OF m_star1.hyps(1)] m_star1.prems by simp
  with \<open>i < j\<close> m_star1.prems have "0 < n" "length s - j \<le> n - 1" by auto
  then obtain n' where n': "n = Suc n'" "length s - j \<le> n'" by (cases n) auto
  from m_star1.hyps(5) [OF j n'(2)] obtain c2 where "(k, c2) \<in> set (star_iter (Suc n') m g (j, c1))" by blast
  then have "(k, c2) \<in> set (concat (map (star_iter n m g) (filter (\<lambda>st'. i < fst st') (m (i, c)))))"
    using c1 \<open>i < j\<close> n'(1) by force
  then show ?case by (intro exI [of _ c2]) (cases g; simp add: Let_def)
qed

lemma rmatch_complete:
  "matches s r i j \<Longrightarrow> i \<le> length s \<Longrightarrow> \<exists>c'. (j, c') \<in> set (rmatch r s (i, c))"
proof (induction r arbitrary: i j c)
  case (RSeq a b)
  from RSeq.prems obtain k where k: "matches s a i k" "matches s b k j" by (auto simp: matches_simps)
  with RSeq.prems have "k \<le> length s" using matches_le by blast
  from RSeq.IH(1) [OF k(1) RSeq.prems(2)] obtain c1 where "(k, c1) \<in> set (rmatch a s (i, c))" by blast
  moreover from RSeq.IH(2) [OF k(2) \<open>k \<le> length s\<close>] obtain c2 where "(j, c2) \<in> set (rmatch b s (k, c1))" by blast
  ultimately show ?case by force
next
  case (RAlt a b)
  then show ?case by (fastforce simp: matches_simps)
next
  case (RStar g a)
  from star_iter_complete [OF RStar.prems(1), of "rmatch a s" "length s - i" c] RStar.IH RStar.prems(2)
  show ?case by (simp del: star_iter.simps)
next
  case (RGroup k a)
  from RGroup.prems have "matches s a i j" by (simp add: matches_simps)
  from RGroup.IH [OF this RGroup.prems(2)] obtain c' where "(j, c') \<in> set (rmatch a s (i, c))" by blast
  then show ?case by force
qed (auto simp: matches_simps)

lemma find_from_Some:
  "find_from n r s i = Some (a, b, c) \<Longrightarrow> i \<le> a \<and> a \<le> i + n \<and> matches s r a b
     \<and> (\<forall>k. i \<le> k \<and> k < a \<longrightarrow> rmatch r s (k, []) = [])"
proof (induction n arbitrary: i)
  case 0
  then show ?case using rmatch_sound [of "(b, c)" r s "(i, [])"] by (auto split: list.splits)
next
  case (Suc n)
  show ?case
  proof (cases "rmatch r s (i, [])")
    case Nil
    with Suc.prems have "find_from n r s (Suc i) = Some (a, b, c)" by simp
    from Suc.IH [OF this] have "Suc i \<le> a \<and> a \<le> Suc i + n \<and> matches s r a b
       \<and> (\<forall>k. Suc i \<le> k \<and> k < a \<longrightarrow> rmatch r s (k, []) = [])" .
    moreover have "rmatch r s (k, []) = []" if "i \<le> k" "k < a" for k
      using calculation that Nil by (cases "k = i") auto
    ultimately show ?thesis by auto
  next
    case (Cons st sts)
    with Suc.prems have "a = i" "st = (b, c)" by auto
    with Cons show ?thesis using rmatch_sound [of "(b, c)" r s "(i, [])"] by auto
  qed
qed

lemma find_from_None:
  "find_from n r s i = None \<Longrightarrow> i \<le> a \<Longrightarrow> a \<le> i + n \<Longrightarrow> rmatch r s (a, []) = []"
proof (induction n arbitrary: i)
  case (Suc n)
  then show ?case by (cases "a = i") (auto split: list.splits)
qed (auto split: list.splits)

text \<open>The search finds a match exactly if there is one, and the leftmost.\<close>

lemma find_at_Some:
  assumes "find_at r s i = Some (a, b, c)" "i \<le> length s"
  shows "i \<le> a" "a \<le> length s" "b \<le> length s" "matches s r a b" "a \<le> b"
proof -
  from find_from_Some assms(1) have *: "i \<le> a" "a \<le> i + (length s - i)" "matches s r a b"
    unfolding find_at_def by blast+
  then show "i \<le> a" "a \<le> length s" "matches s r a b" using assms(2) by auto
  with matches_le [OF *(3)] matches_mono [OF *(3)] show "b \<le> length s" "a \<le> b" by auto
qed

lemma find_at_None:
  assumes "find_at r s i = None" "i \<le> a" "a \<le> length s"
  shows "\<not> matches s r a b"
proof
  assume m: "matches s r a b"
  have "rmatch r s (a, []) = []"
    using assms find_from_None [of "length s - i" r s i a] by (simp add: find_at_def)
  with rmatch_complete [OF m assms(3), of "[]"] show False by simp
qed

lemma re_match_iff: "re_match r s \<longleftrightarrow> (\<exists>a b. a \<le> length s \<and> matches s r a b)"
proof
  assume "re_match r s"
  then obtain a b c where "find_at r s 0 = Some (a, b, c)" by (auto simp: re_match_def)
  from find_at_Some(2,4) [OF this] show "\<exists>a b. a \<le> length s \<and> matches s r a b" by blast
next
  assume "\<exists>a b. a \<le> length s \<and> matches s r a b"
  then show "re_match r s" using find_at_None [of r s 0] by (force simp: re_match_def)
qed


section \<open>Languages of the derived patterns\<close>

lemma matches_ralts: "matches s (ralts rs) i j \<longleftrightarrow> (\<exists>r \<in> set rs. matches s r i j)"
  by (induction rs rule: ralts.induct) (auto simp: matches_simps)

lemma matches_rchr: "matches s (rchr c) i j \<longleftrightarrow> i < length s \<and> s ! i = c \<and> j = Suc i"
  by (auto simp: rchr_def matches_simps)

lemma prefix_drop_Cons: "prefix (c # w) (drop i s) \<longleftrightarrow> i < length s \<and> s ! i = c \<and> prefix w (drop (Suc i) s)"
proof (cases "i < length s")
  case True
  then show ?thesis by (simp add: Cons_nth_drop_Suc [symmetric]) auto
qed simp

lemma matches_rlit: "matches s (rlit w) i j \<longleftrightarrow> j = i + length w \<and> prefix w (drop i s)"
proof (induction w arbitrary: i j rule: rlit.induct)
  case (3 c d w)
  then show ?case by (auto simp: matches_simps matches_rchr prefix_drop_Cons)
qed (auto simp: matches_simps matches_rchr prefix_drop_Cons)

lemma matches_star_cls:
  "matches s (RStar g (RCls p)) i j \<longleftrightarrow> i \<le> j \<and> (\<forall>k. i \<le> k \<and> k < j \<longrightarrow> k < length s \<and> p (s ! k))"
  (is "_ \<longleftrightarrow> ?R i j")
proof
  assume "matches s (RStar g (RCls p)) i j"
  then show "?R i j"
  proof (induction "RStar g (RCls p)" i j rule: matches.induct)
    case (m_star1 i j k)
    then have *: "j = Suc i" "i < length s" "p (s ! i)" by (auto simp: matches_simps)
    have "n < length s \<and> p (s ! n)" if "i \<le> n" "n < k" for n
      using * m_star1 that by (cases "n = i") auto
    with * m_star1 show ?case by auto
  qed auto
next
  assume "?R i j"
  then show "matches s (RStar g (RCls p)) i j"
  proof (induction "j - i" arbitrary: i)
    case 0
    then have "j = i" by simp
    then show ?case by (simp add: m_star0)
  next
    case (Suc n)
    then have "matches s (RCls p) i (Suc i)" "matches s (RStar g (RCls p)) (Suc i) j"
      by (auto simp: matches_simps)
    then show ?case by (auto intro: m_star1)
  qed
qed

lemma matches_rplus_cls:
  "matches s (rplus (RCls p)) i j \<longleftrightarrow> i < j \<and> (\<forall>k. i \<le> k \<and> k < j \<longrightarrow> k < length s \<and> p (s ! k))"
  (is "?L \<longleftrightarrow> ?R")
proof
  assume ?L
  then have *: "i < length s" "p (s ! i)" "Suc i \<le> j" "\<forall>k. Suc i \<le> k \<and> k < j \<longrightarrow> k < length s \<and> p (s ! k)"
    by (auto simp: rplus_def matches_simps matches_star_cls)
  have "k < length s \<and> p (s ! k)" if "i \<le> k" "k < j" for k
    using * that by (cases "k = i") auto
  with * show ?R by auto
next
  assume ?R
  then show ?L by (auto simp: rplus_def matches_simps matches_star_cls)
qed

lemma matches_ropt: "matches s (ropt r) i j \<longleftrightarrow> matches s r i j \<or> i = j"
  by (auto simp: ropt_def matches_simps)

text \<open>The text between two positions, and conditions on all its bytes.\<close>

lemma slice_all:
  assumes "i \<le> j" "j \<le> length s"
  shows "list_all p (slice s i j) \<longleftrightarrow> (\<forall>k. i \<le> k \<and> k < j \<longrightarrow> p (s ! k))"
proof -
  have len: "length (slice s i j) = j - i" using assms by (simp add: slice_def)
  have nth: "slice s i j ! k = s ! (i + k)" if "k < j - i" for k
    using assms that by (simp add: slice_def)
  show ?thesis
  proof
    assume a: "list_all p (slice s i j)"
    show "\<forall>k. i \<le> k \<and> k < j \<longrightarrow> p (s ! k)"
    proof (intro allI impI)
      fix k assume k: "i \<le> k \<and> k < j"
      then have "k - i < j - i" by (simp add: diff_less_mono)
      with a len have "p (slice s i j ! (k - i))" unfolding list_all_length by simp
      moreover have "slice s i j ! (k - i) = s ! k" using nth [OF \<open>k - i < j - i\<close>] k by simp
      ultimately show "p (s ! k)" by simp
    qed
  next
    assume "\<forall>k. i \<le> k \<and> k < j \<longrightarrow> p (s ! k)"
    then show "list_all p (slice s i j)" using len nth by (auto simp: list_all_length)
  qed
qed

lemma split_slice: "i \<le> j \<Longrightarrow> j \<le> length s \<Longrightarrow> s = take i s @ slice s i j @ drop j s"
  unfolding slice_def by (metis append_take_drop_id drop_drop le_add_diff_inverse2)


text \<open>
  A pattern without anchors is context free: what it matches between two positions depends on the
  text between them only.  The language of such a pattern, compositionally.
\<close>

definition lang_is :: "re \<Rightarrow> (string \<Rightarrow> bool) \<Rightarrow> bool" where
  "lang_is r P \<longleftrightarrow> (\<forall>s i j. i \<le> length s \<longrightarrow>
     (matches s r i j \<longleftrightarrow> i \<le> j \<and> j \<le> length s \<and> P (slice s i j)))"

lemma lang_isD: "lang_is r P \<Longrightarrow> i \<le> length s \<Longrightarrow> matches s r i j \<longleftrightarrow> i \<le> j \<and> j \<le> length s \<and> P (slice s i j)"
  by (simp add: lang_is_def)

lemma slice_append: "i \<le> k \<Longrightarrow> k \<le> j \<Longrightarrow> slice s i j = slice s i k @ slice s k j"
proof -
  assume "i \<le> k" "k \<le> j"
  then obtain a b where "k = i + a" "j = i + a + b" by (metis le_Suc_ex)
  then show ?thesis by (simp add: slice_def take_add add.commute)
qed

lemma length_slice: "i \<le> j \<Longrightarrow> j \<le> length s \<Longrightarrow> length (slice s i j) = j - i"
  by (simp add: slice_def)

lemma slice_self [simp]: "slice s i i = []"
  by (simp add: slice_def)

lemma slice_Suc: "i < length s \<Longrightarrow> slice s i (Suc i) = [s ! i]"
  by (simp add: slice_def take_Suc_conv_app_nth)

lemma slice_mid: "slice (a @ b @ c) (length a) (length a + length b) = b"
  by (simp add: slice_def)

lemma lang_lit: "lang_is (rlit w) (\<lambda>t. t = w)"
  unfolding lang_is_def
proof (intro allI impI)
  fix s :: string and i j assume i: "i \<le> length s"
  show "matches s (rlit w) i j \<longleftrightarrow> i \<le> j \<and> j \<le> length s \<and> slice s i j = w"
  proof
    assume "matches s (rlit w) i j"
    then have j: "j = i + length w" and p: "prefix w (drop i s)" by (auto simp: matches_rlit)
    from p obtain z where z: "drop i s = w @ z" by (auto simp: prefix_def)
    then have "length s - i = length w + length z" by (metis length_append length_drop)
    with i j z show "i \<le> j \<and> j \<le> length s \<and> slice s i j = w" by (auto simp: slice_def)
  next
    assume a: "i \<le> j \<and> j \<le> length s \<and> slice s i j = w"
    then have "length w = j - i" using length_slice by blast
    moreover have "prefix (take (j - i) (drop i s)) (drop i s)" by (rule take_is_prefix)
    ultimately show "matches s (rlit w) i j" using a by (auto simp: matches_rlit slice_def)
  qed
qed

lemma lang_seq:
  assumes "lang_is a P" "lang_is b Q"
  shows "lang_is (RSeq a b) (\<lambda>t. \<exists>u v. t = u @ v \<and> P u \<and> Q v)"
  unfolding lang_is_def
proof (intro allI impI)
  fix s :: string and i j assume i: "i \<le> length s"
  show "matches s (RSeq a b) i j \<longleftrightarrow> i \<le> j \<and> j \<le> length s \<and> (\<exists>u v. slice s i j = u @ v \<and> P u \<and> Q v)"
  proof
    assume "matches s (RSeq a b) i j"
    then obtain k where k: "matches s a i k" "matches s b k j" by (auto simp: matches_simps)
    with i assms have "i \<le> k" "k \<le> length s" "P (slice s i k)" by (auto simp: lang_isD)
    with k(2) assms have "k \<le> j" "j \<le> length s" "Q (slice s k j)" by (auto simp: lang_isD)
    with \<open>i \<le> k\<close> \<open>P (slice s i k)\<close> slice_append [of i k j s]
    show "i \<le> j \<and> j \<le> length s \<and> (\<exists>u v. slice s i j = u @ v \<and> P u \<and> Q v)" by auto
  next
    assume "i \<le> j \<and> j \<le> length s \<and> (\<exists>u v. slice s i j = u @ v \<and> P u \<and> Q v)"
    then obtain u v where uv: "i \<le> j" "j \<le> length s" "slice s i j = u @ v" "P u" "Q v" by blast
    define k where "k = i + length u"
    have "length u + length v = j - i" using uv length_slice [of i j s] by simp
    then have k: "i \<le> k" "k \<le> j" using uv(1) by (auto simp: k_def)
    then have "slice s i k @ slice s k j = u @ v" using uv(3) slice_append by metis
    moreover have "length (slice s i k) = length u" using k uv by (simp add: length_slice k_def)
    ultimately have "slice s i k = u" "slice s k j = v" by auto
    with uv k i assms have "matches s a i k" "matches s b k j" by (auto simp: lang_isD)
    then show "matches s (RSeq a b) i j" by (rule m_seq)
  qed
qed

lemma lang_alt: "lang_is a P \<Longrightarrow> lang_is b Q \<Longrightarrow> lang_is (RAlt a b) (\<lambda>t. P t \<or> Q t)"
  by (auto simp: lang_is_def matches_simps)

lemma lang_ralts:
  assumes "\<And>r. r \<in> set rs \<Longrightarrow> lang_is r (P r)"
  shows "lang_is (ralts rs) (\<lambda>t. \<exists>r \<in> set rs. P r t)"
  using assms by (auto simp: lang_is_def matches_ralts)

lemma lang_eps: "lang_is REps (\<lambda>t. t = [])"
proof -
  have "slice s i j = [] \<longleftrightarrow> i = j" if "i \<le> j" "j \<le> length s" for s i j
    using length_slice [OF that] that by (cases "slice s i j") auto
  then show ?thesis by (auto simp: lang_is_def matches_simps)
qed

lemma lang_opt: "lang_is r P \<Longrightarrow> lang_is (ropt r) (\<lambda>t. P t \<or> t = [])"
  unfolding ropt_def by (rule lang_alt [OF _ lang_eps])

lemma lang_plus_cls: "lang_is (rplus (RCls p)) (\<lambda>t. t \<noteq> [] \<and> list_all p t)"
  unfolding lang_is_def
proof (intro allI impI)
  fix s :: string and i j assume i: "i \<le> length s"
  have ne: "slice s i j \<noteq> [] \<longleftrightarrow> i < j" if "i \<le> j" "j \<le> length s"
    using length_slice [OF that] that by (cases "slice s i j") auto
  show "matches s (rplus (RCls p)) i j \<longleftrightarrow> i \<le> j \<and> j \<le> length s \<and> slice s i j \<noteq> [] \<and> list_all p (slice s i j)"
  proof
    assume m: "matches s (rplus (RCls p)) i j"
    with i have "i \<le> j" "j \<le> length s" using matches_mono matches_le by blast+
    with m ne slice_all [of i j s p] show "i \<le> j \<and> j \<le> length s \<and> slice s i j \<noteq> [] \<and> list_all p (slice s i j)"
      by (auto simp: matches_rplus_cls)
  next
    assume a: "i \<le> j \<and> j \<le> length s \<and> slice s i j \<noteq> [] \<and> list_all p (slice s i j)"
    with ne have "i < j" by blast
    with a slice_all [of i j s p] show "matches s (rplus (RCls p)) i j" by (auto simp: matches_rplus_cls)
  qed
qed

text \<open>Groups: a pattern without groups leaves the captures alone, a group records its own match.\<close>

primrec no_groups :: "re \<Rightarrow> bool" where
  "no_groups REps = True"
| "no_groups (RCls p) = True"
| "no_groups (RSeq a b) = (no_groups a \<and> no_groups b)"
| "no_groups (RAlt a b) = (no_groups a \<and> no_groups b)"
| "no_groups (RStar g a) = no_groups a"
| "no_groups (RGroup k a) = False"
| "no_groups RBegin = True"
| "no_groups REnd = True"
| "no_groups RBeginLine = True"
| "no_groups RWordB = True"

lemma star_iter_caps:
  assumes "\<And>st st'. st' \<in> set (m st) \<Longrightarrow> snd st' = snd st"
  shows "st' \<in> set (star_iter n m g st) \<Longrightarrow> snd st' = snd st"
proof (induction n arbitrary: st)
  case (Suc n)
  from Suc.prems consider "st' = st" | x where "x \<in> set (m st)" "st' \<in> set (star_iter n m g x)"
    by (auto simp: Let_def split: if_splits)
  then show ?case using Suc.IH assms by cases auto
qed simp

lemma rmatch_caps: "no_groups r \<Longrightarrow> st' \<in> set (rmatch r s st) \<Longrightarrow> snd st' = snd st"
proof (induction r arbitrary: st st')
  case (RSeq a b)
  from RSeq.prems obtain x where "x \<in> set (rmatch a s st)" "st' \<in> set (rmatch b s x)" by auto
  with RSeq.IH [of x st] RSeq.IH(2) [of st' x] RSeq.prems(1) show ?case by simp
next
  case (RStar g a)
  from RStar.prems(2) have "st' \<in> set (star_iter (Suc (length s - fst st)) (rmatch a s) g st)"
    by (simp del: star_iter.simps)
  moreover have "\<And>x y. y \<in> set (rmatch a s x) \<Longrightarrow> snd y = snd x" using RStar by simp
  ultimately show ?case using star_iter_caps [of "rmatch a s"] by blast
qed (auto split: if_splits)

lemma rmatch_RSeq: "st' \<in> set (rmatch (RSeq a b) s st) \<longleftrightarrow> (\<exists>x \<in> set (rmatch a s st). st' \<in> set (rmatch b s x))"
  by auto

lemma rmatch_group:
  assumes "no_groups r" "st' \<in> set (rmatch (RGroup k r) s st)"
  shows "snd st' = (k, fst st, fst st') # snd st \<and> matches s r (fst st) (fst st')"
proof -
  from assms(2) obtain j c where jc: "(j, c) \<in> set (rmatch r s st)" "st' = (j, (k, fst st, j) # c)" by auto
  show ?thesis using rmatch_caps [OF assms(1) jc(1)] rmatch_sound [OF jc(1)] jc(2) by simp
qed

lemma find_at_rmatch: "find_at r s i = Some (a, st) \<Longrightarrow> st \<in> set (rmatch r s (a, []))"
proof -
  have "find_from n r s i = Some (a, st) \<Longrightarrow> st \<in> set (rmatch r s (a, []))" for n
    by (induction n arbitrary: i) (auto split: list.splits)
  then show "find_at r s i = Some (a, st) \<Longrightarrow> st \<in> set (rmatch r s (a, []))" by (auto simp: find_at_def)
qed

end
