(* ===== verification/Shells.thy ===== *)
theory Shells
  imports Prelude
begin

text \<open>
  Background shells: \<open>internal/tools/shell_registry.go\<close>.  A \<open>BackgroundShell\<close> holds two capped output
  buffers, the exit code and, for \<open>watch_process\<close>, an event log with a bounded window.  The lock of a
  shell makes each method atomic, so a method is a function on the record; the clock is an argument.
  The contract of a capped buffer is the locale \<open>capped_buffer\<close>, of the event window the locale
  \<open>event_window\<close>; both are interpreted on the code's operations.
\<close>

section \<open>Capped buffers\<close>

definition shell_output_cap :: nat where "shell_output_cap = 1048576"

definition append_capped :: "string \<Rightarrow> string \<Rightarrow> bool \<Rightarrow> string \<times> bool" where
  "append_capped dst src already_truncated =
     (if already_truncated then (dst, True)
      else if shell_output_cap \<le> length dst then (dst, True)
      else let remaining = shell_output_cap - length dst
           in if length src \<le> remaining then (dst @ src, False)
              else (dst @ take remaining src, True))"

text \<open>
  What a client of such a buffer relies on: after any sequence of writes it holds the longest
  allowed prefix of what was written, and the flag tells whether anything was cut.
\<close>

locale capped_buffer =
  fixes cap :: nat
    and put :: "string \<times> bool \<Rightarrow> string \<Rightarrow> string \<times> bool"
  assumes put_fits: "length d < cap \<Longrightarrow> length d + length b \<le> cap \<Longrightarrow> put (d, False) b = (d @ b, False)"
    and put_cuts: "length d \<le> cap \<Longrightarrow> b \<noteq> [] \<Longrightarrow> cap < length d + length b
        \<Longrightarrow> put (d, False) b = (take cap (d @ b), True)"
    and put_full: "put (d, True) b = (d, True)"
begin

lemma put_take:
  assumes "length s < cap \<or> b \<noteq> []"
  shows "put (take cap s, cap < length s) b = (take cap (s @ b), cap < length (s @ b))"
proof (cases "cap < length s")
  case True
  then show ?thesis by (simp add: put_full)
next
  case False
  show ?thesis
  proof (cases "length s + length b \<le> cap")
    case True
    then have "b = [] \<or> length s < cap" by (cases b) auto
    with True False assms show ?thesis using put_fits [of s b] by auto
  next
    case fits: False
    then have "b \<noteq> []" using False by auto
    with False fits show ?thesis using put_cuts [of s b] by simp
  qed
qed

lemma fold_put:
  assumes "\<forall>b \<in> set bs. b \<noteq> []"
  shows "foldl put (take cap s, cap < length s) bs
    = (take cap (s @ concat bs), cap < length (s @ concat bs))"
  using assms
proof (induction bs arbitrary: s)
  case (Cons b bs)
  then show ?case using put_take [of s b] Cons.IH [of "s @ b"] by simp
qed simp

lemma fold_put_empty:
  assumes "\<forall>b \<in> set bs. b \<noteq> []"
  shows "foldl put ([], False) bs = (take cap (concat bs), cap < length (concat bs))"
  using fold_put [OF assms, of "[]"] by simp

end

definition sink :: "string \<times> bool \<Rightarrow> string \<Rightarrow> string \<times> bool" where
  "sink st b = append_capped (fst st) b (snd st)"

interpretation shell_sink: capped_buffer shell_output_cap sink
  by unfold_locales (auto simp: sink_def append_capped_def Let_def)

section \<open>The event log\<close>

definition watch_event_cap :: nat where "watch_event_cap = 1024"

datatype watch_event_type = WStarted | WError | WIdleTimeout | WExited

record watch_event =
  ev_id :: nat
  ev_type :: watch_event_type
  ev_at :: int
  ev_pattern :: string
  ev_line :: string
  ev_exit :: int

text \<open>\<open>patterns\<close> are the compiled regular expressions, here their match predicates.\<close>

record watch_state =
  patterns :: "(string \<Rightarrow> bool) list"
  pattern_sources :: "string list"
  events :: "watch_event list"
  next_event_id :: nat
  events_dropped :: nat
  idle_timeout :: int
  last_output_at :: int

definition append_event :: "int \<Rightarrow> watch_event_type \<Rightarrow> string \<Rightarrow> string \<Rightarrow> int \<Rightarrow> watch_state \<Rightarrow> watch_state" where
  "append_event now t pat line code w =
     (let n = Suc (next_event_id w);
          ev = \<lparr>ev_id = n, ev_type = t, ev_at = now, ev_pattern = pat, ev_line = line, ev_exit = code\<rparr>;
          drp = (if watch_event_cap div 10 < 1 then 1 else watch_event_cap div 10)
      in if watch_event_cap \<le> length (events w)
         then w\<lparr>next_event_id := n, events_dropped := events_dropped w + drp,
                events := drop drp (events w) @ [ev]\<rparr>
         else w\<lparr>next_event_id := n, events := events w @ [ev]\<rparr>)"

text \<open>
  The window over a growing log: an operation appends entries and may drop entries from the front.
  \<open>window\<close> is what is kept, \<open>dropped\<close> how many are gone, \<open>entries\<close> what an operation logs and \<open>num\<close> the
  number an entry carries.
\<close>

locale event_window =
  fixes window :: "'s \<Rightarrow> 'e list"
    and dropped :: "'s \<Rightarrow> nat"
    and counter :: "'s \<Rightarrow> nat"
    and num :: "'e \<Rightarrow> nat"
    and emit :: "'a \<Rightarrow> 's \<Rightarrow> 's"
    and entries :: "'a \<Rightarrow> 's \<Rightarrow> 'e list"
    and bound :: nat
  assumes emit_dropped: "dropped s \<le> dropped (emit a s)"
    and emit_dropped_le: "dropped (emit a s) - dropped s \<le> length (window s)"
    and emit_window: "window (emit a s) = drop (dropped (emit a s) - dropped s) (window s @ entries a s)"
    and emit_bound: "length (window s) \<le> bound \<Longrightarrow> length (window (emit a s)) \<le> bound"
    and emit_counter: "counter (emit a s) = counter s + length (entries a s)"
    and emit_num: "map num (entries a s) = [Suc (counter s)..<Suc (counter s + length (entries a s))]"
begin

text \<open>The complete log of a run, for comparison with the window.\<close>

fun full_log :: "'a list \<Rightarrow> 's \<Rightarrow> 'e list" where
  "full_log [] s = []"
| "full_log (a # as) s = entries a s @ full_log as (emit a s)"

definition numbered :: "'s \<Rightarrow> bool" where
  "numbered s \<longleftrightarrow> map num (window s) = [Suc (dropped s)..<Suc (counter s)]
     \<and> counter s = dropped s + length (window s)"

definition poll :: "'s \<Rightarrow> nat \<Rightarrow> 'e list" where
  "poll s since = filter (\<lambda>e. since < num e) (window s)"

lemma emit_numbered: "numbered s \<Longrightarrow> numbered (emit a s)"
proof -
  assume n: "numbered s"
  let ?k = "dropped (emit a s) - dropped s"
  have "map num (window (emit a s)) = drop ?k (map num (window s) @ map num (entries a s))"
    by (simp add: emit_window drop_map [symmetric] del: drop_append)
  also have "map num (window s) @ map num (entries a s) = [Suc (dropped s)..<Suc (counter (emit a s))]"
    using n upt_add_eq_append [of "Suc (dropped s)" "Suc (counter s)" "length (entries a s)"]
    by (simp add: numbered_def emit_num emit_counter del: upt_Suc)
  finally have "map num (window (emit a s)) = [Suc (dropped s) + ?k..<Suc (counter (emit a s))]"
    by (simp del: upt_Suc)
  moreover have "dropped (emit a s) \<le> counter s"
    using n emit_dropped_le [of a s] by (simp add: numbered_def)
  ultimately show ?thesis
    using emit_dropped [of s a] emit_counter [of a s] n
    by (simp add: numbered_def emit_window emit_dropped_le del: upt_Suc)
qed

lemma window_suffix:
  "dropped s \<le> dropped (fold emit as s)
   \<and> dropped (fold emit as s) - dropped s \<le> length (window s @ full_log as s)
   \<and> window (fold emit as s) = drop (dropped (fold emit as s) - dropped s) (window s @ full_log as s)"
proof (induction as arbitrary: s)
  case (Cons a as)
  let ?t = "emit a s" and ?u = "fold emit as (emit a s)"
  let ?k = "dropped ?t - dropped s"
  note ih = Cons.IH [of ?t]
  have le: "?k \<le> length (window s)" "dropped s \<le> dropped ?t" by (rule emit_dropped_le emit_dropped)+
  let ?L = "window s @ entries a s @ full_log as ?t"
  have w: "window ?t @ full_log as ?t = drop ?k ?L"
    using le by (simp add: emit_window)
  have "window ?u = drop (dropped ?u - dropped ?t) (drop ?k ?L)"
    using ih by (simp only: w)
  also have "\<dots> = drop (dropped ?u - dropped ?t + ?k) ?L" by (rule drop_drop)
  also have "dropped ?u - dropped ?t + ?k = dropped ?u - dropped s" using ih le by simp
  finally have "window ?u = drop (dropped ?u - dropped s) ?L" .
  moreover have "dropped ?u - dropped ?t \<le> length (drop ?k ?L)"
    using ih by (simp only: w)
  then have "dropped ?u - dropped ?t \<le> length ?L - ?k" by (simp only: length_drop)
  then have "dropped ?u - dropped s \<le> length ?L" using ih le by (simp only: length_append)
  ultimately show ?case using ih le by (simp del: drop_append)
qed simp

lemma fold_numbered: "numbered s \<Longrightarrow> numbered (fold emit as s)"
  by (induction as arbitrary: s) (auto intro: emit_numbered)

lemma fold_bound: "length (window s) \<le> bound \<Longrightarrow> length (window (fold emit as s)) \<le> bound"
  by (induction as arbitrary: s) (auto intro: emit_bound)

lemma fold_counter: "counter (fold emit as s) = counter s + length (full_log as s)"
  by (induction as arbitrary: s) (auto simp: emit_counter)

lemma poll_drop:
  assumes "numbered s"
  shows "poll s since = drop (since - dropped s) (window s)"
proof -
  have "filter (\<lambda>e. since < num e) xs = drop (since - d) xs"
    if "map num xs = [Suc d..<Suc d + length xs]" for xs d
    using that
  proof (induction xs arbitrary: d)
    case (Cons x xs)
    then have x: "num x = Suc d" "map num xs = [Suc (Suc d)..<Suc (Suc d) + length xs]"
      by (auto simp: upt_conv_Cons simp del: upt_Suc)
    from Cons.IH [OF x(2)] x(1) show ?case
      by (cases "since - d") (auto simp: diff_Suc split: nat.splits)
  qed simp
  from this [of "window s" "dropped s"] assms show ?thesis
    by (simp add: poll_def numbered_def)
qed

text \<open>
  A client that polls with the number of the last entry it has seen gets exactly the entries logged
  since then, except those the window has dropped in the meantime.
\<close>

lemma poll_since_last:
  assumes "numbered s"
  shows "poll (fold emit as s) (counter s) = drop (dropped (fold emit as s) - counter s) (full_log as s)"
proof -
  let ?u = "fold emit as s"
  have c: "counter s = dropped s + length (window s)" using assms by (simp add: numbered_def)
  from window_suffix [of s as] have w: "dropped s \<le> dropped ?u"
    "window ?u = drop (dropped ?u - dropped s) (window s @ full_log as s)" by auto
  have "poll ?u (counter s) = drop (counter s - dropped ?u) (window ?u)"
    by (rule poll_drop [OF fold_numbered [OF assms]])
  also have "\<dots> = drop (counter s - dropped ?u + (dropped ?u - dropped s)) (window s @ full_log as s)"
    by (simp only: w(2) drop_drop)
  also have "\<dots> = drop (dropped ?u - counter s) (full_log as s)"
    using w(1) c by (cases "counter s \<le> dropped ?u") simp_all
  finally show ?thesis .
qed

end

section \<open>One background shell\<close>

record bshell =
  sh_id :: string
  sh_command :: string
  sh_started :: int
  sh_pgid :: int
  sh_stdout :: "string \<times> bool"
  sh_stderr :: "string \<times> bool"
  sh_exit :: "int option"
  sh_watch :: "watch_state option"

definition new_background_shell :: "int \<Rightarrow> string \<Rightarrow> string \<Rightarrow> bshell" where
  "new_background_shell now i cmd =
     \<lparr>sh_id = i, sh_command = cmd, sh_started = now, sh_pgid = 0, sh_stdout = ([], False),
      sh_stderr = ([], False), sh_exit = None, sh_watch = None\<rparr>"

definition append_event_locked :: "int \<Rightarrow> watch_event_type \<Rightarrow> string \<Rightarrow> string \<Rightarrow> int \<Rightarrow> bshell \<Rightarrow> bshell" where
  "append_event_locked now t pat line code sh =
     (case sh_watch sh of None \<Rightarrow> sh | Some w \<Rightarrow> sh\<lparr>sh_watch := Some (append_event now t pat line code w)\<rparr>)"

definition new_watched_shell ::
  "int \<Rightarrow> string \<Rightarrow> string \<Rightarrow> (string \<Rightarrow> bool) list \<Rightarrow> string list \<Rightarrow> int \<Rightarrow> bshell" where
  "new_watched_shell now i cmd pats srcs idle =
     append_event_locked now WStarted [] [] 0
       ((new_background_shell now i cmd)\<lparr>sh_watch := Some
          \<lparr>patterns = pats, pattern_sources = srcs, events = [], next_event_id = 0,
           events_dropped = 0, idle_timeout = idle, last_output_at = now\<rparr>\<rparr>)"

definition is_watched :: "bshell \<Rightarrow> bool" where
  "is_watched sh \<longleftrightarrow> sh_watch sh \<noteq> None"

definition watch_patterns :: "bshell \<Rightarrow> string list" where
  "watch_patterns sh = (case sh_watch sh of None \<Rightarrow> [] | Some w \<Rightarrow> pattern_sources w)"

text \<open>The source of the first pattern that matches, the empty string if sources run short.\<close>

fun first_match :: "(string \<Rightarrow> bool) list \<Rightarrow> string list \<Rightarrow> string \<Rightarrow> string option" where
  "first_match [] srcs line = None"
| "first_match (m # ms) srcs line =
     (if m line then Some (case srcs of [] \<Rightarrow> [] | src # _ \<Rightarrow> src)
      else first_match ms (case srcs of [] \<Rightarrow> [] | _ # rest \<Rightarrow> rest) line)"

definition touch :: "int \<Rightarrow> bshell \<Rightarrow> bshell" where
  "touch now sh = (case sh_watch sh of None \<Rightarrow> sh | Some w \<Rightarrow> sh\<lparr>sh_watch := Some (w\<lparr>last_output_at := now\<rparr>)\<rparr>)"

definition observe_watch_line :: "int \<Rightarrow> string \<Rightarrow> bshell \<Rightarrow> bshell" where
  "observe_watch_line now line sh =
     (let sh1 = sh\<lparr>sh_stderr := sink (sh_stderr sh) (line @ [newline])\<rparr>
      in case sh_watch sh1 of
           None \<Rightarrow> sh1
         | Some w \<Rightarrow>
             (case first_match (patterns w) (pattern_sources w) line of
                None \<Rightarrow> touch now sh1
              | Some src \<Rightarrow> append_event_locked now WError src line 0 (touch now sh1)))"

definition observe_watch_stdout :: "int \<Rightarrow> string \<Rightarrow> bshell \<Rightarrow> bshell" where
  "observe_watch_stdout now b sh =
     (let sh1 = sh\<lparr>sh_stdout := sink (sh_stdout sh) b\<rparr>
      in if sh_watch sh1 \<noteq> None \<and> b \<noteq> [] then touch now sh1 else sh1)"

definition record_watch_idle_timeout :: "int \<Rightarrow> string \<Rightarrow> bshell \<Rightarrow> bshell" where
  "record_watch_idle_timeout now reason sh = append_event_locked now WIdleTimeout [] reason 0 sh"

definition record_watch_exit :: "int \<Rightarrow> int \<Rightarrow> bshell \<Rightarrow> bshell" where
  "record_watch_exit now code sh = append_event_locked now WExited [] [] code sh"

definition shell_last_output :: "bshell \<Rightarrow> int option" where
  "shell_last_output sh = map_option last_output_at (sh_watch sh)"

definition shell_idle_timeout :: "bshell \<Rightarrow> int" where
  "shell_idle_timeout sh = (case sh_watch sh of None \<Rightarrow> 0 | Some w \<Rightarrow> idle_timeout w)"

definition shell_events :: "bshell \<Rightarrow> nat \<Rightarrow> watch_event list \<times> nat" where
  "shell_events sh since =
     (case sh_watch sh of
        None \<Rightarrow> ([], 0)
      | Some w \<Rightarrow> (filter (\<lambda>ev. since < ev_id ev) (events w), events_dropped w))"

definition set_pgid :: "int \<Rightarrow> bshell \<Rightarrow> bshell" where
  "set_pgid p sh = sh\<lparr>sh_pgid := p\<rparr>"

definition append_stdout :: "string \<Rightarrow> bshell \<Rightarrow> bshell" where
  "append_stdout b sh = sh\<lparr>sh_stdout := sink (sh_stdout sh) b\<rparr>"

definition append_stderr :: "string \<Rightarrow> bshell \<Rightarrow> bshell" where
  "append_stderr b sh = sh\<lparr>sh_stderr := sink (sh_stderr sh) b\<rparr>"

definition set_exit :: "int \<Rightarrow> bshell \<Rightarrow> bshell" where
  "set_exit code sh = sh\<lparr>sh_exit := Some code\<rparr>"

record snapshot =
  snap_stdout :: string
  snap_stderr :: string
  snap_stdout_truncated :: bool
  snap_stderr_truncated :: bool
  snap_exit :: "int option"
  snap_running :: bool

definition shell_snapshot :: "bshell \<Rightarrow> snapshot" where
  "shell_snapshot sh =
     \<lparr>snap_stdout = fst (sh_stdout sh), snap_stderr = fst (sh_stderr sh),
      snap_stdout_truncated = snd (sh_stdout sh), snap_stderr_truncated = snd (sh_stderr sh),
      snap_exit = sh_exit sh, snap_running = (sh_exit sh = None)\<rparr>"

section \<open>The registry\<close>

type_synonym shell_registry = "string \<rightharpoonup> bshell"

definition new_shell_registry :: shell_registry where "new_shell_registry = Map.empty"

definition register :: "shell_registry \<Rightarrow> bshell \<Rightarrow> shell_registry" where
  "register r sh = r(sh_id sh \<mapsto> sh)"

definition registry_get :: "shell_registry \<Rightarrow> string \<Rightarrow> bshell option" where
  "registry_get r i = r i"

definition registry_remove :: "shell_registry \<Rightarrow> string \<Rightarrow> shell_registry" where
  "registry_remove r i = r(i := None)"

definition registry_len :: "shell_registry \<Rightarrow> nat" where
  "registry_len r = card (dom r)"

section \<open>Runs of a shell\<close>

text \<open>The calls that the drain, lifecycle and watchdog goroutines and the handlers make on a shell.\<close>

datatype shell_op =
    OpLine int string
  | OpStdout int string
  | OpIdle int string
  | OpExited int int
  | OpSetExit int
  | OpSetPgid int
  | OpAppendOut string
  | OpAppendErr string

fun shell_step :: "shell_op \<Rightarrow> bshell \<Rightarrow> bshell" where
  "shell_step (OpLine now line) = observe_watch_line now line"
| "shell_step (OpStdout now b) = observe_watch_stdout now b"
| "shell_step (OpIdle now reason) = record_watch_idle_timeout now reason"
| "shell_step (OpExited now code) = record_watch_exit now code"
| "shell_step (OpSetExit code) = set_exit code"
| "shell_step (OpSetPgid p) = set_pgid p"
| "shell_step (OpAppendOut b) = append_stdout b"
| "shell_step (OpAppendErr b) = append_stderr b"

text \<open>The events an operation logs, if the shell is watched.\<close>

fun op_event :: "shell_op \<Rightarrow> watch_state \<Rightarrow> (int \<times> watch_event_type \<times> string \<times> string \<times> int) option" where
  "op_event (OpLine now line) w =
     map_option (\<lambda>src. (now, WError, src, line, 0)) (first_match (patterns w) (pattern_sources w) line)"
| "op_event (OpIdle now reason) w = Some (now, WIdleTimeout, [], reason, 0)"
| "op_event (OpExited now code) w = Some (now, WExited, [], [], code)"
| "op_event _ w = None"

definition op_entries :: "shell_op \<Rightarrow> bshell \<Rightarrow> watch_event list" where
  "op_entries a sh =
     (case sh_watch sh of
        None \<Rightarrow> []
      | Some w \<Rightarrow>
          (case op_event a w of
             None \<Rightarrow> []
           | Some (now, t, pat, line, code) \<Rightarrow>
               [\<lparr>ev_id = Suc (next_event_id w), ev_type = t, ev_at = now, ev_pattern = pat,
                 ev_line = line, ev_exit = code\<rparr>]))"

definition sh_events :: "bshell \<Rightarrow> watch_event list" where
  "sh_events sh = (case sh_watch sh of None \<Rightarrow> [] | Some w \<Rightarrow> events w)"

definition sh_dropped :: "bshell \<Rightarrow> nat" where
  "sh_dropped sh = (case sh_watch sh of None \<Rightarrow> 0 | Some w \<Rightarrow> events_dropped w)"

definition sh_counter :: "bshell \<Rightarrow> nat" where
  "sh_counter sh = (case sh_watch sh of None \<Rightarrow> 0 | Some w \<Rightarrow> next_event_id w)"

lemmas shell_ops = observe_watch_line_def observe_watch_stdout_def record_watch_idle_timeout_def
  record_watch_exit_def set_pgid_def append_stdout_def append_stderr_def set_exit_def
  append_event_locked_def touch_def

lemmas shell_views = sh_events_def sh_dropped_def sh_counter_def op_entries_def

text \<open>An operation either logs nothing or logs one event through \<open>append_event\<close>.\<close>

definition same_log :: "watch_state \<Rightarrow> watch_state \<Rightarrow> bool" where
  "same_log w v \<longleftrightarrow> events v = events w \<and> events_dropped v = events_dropped w \<and> next_event_id v = next_event_id w"

lemma shell_step_watch:
  "sh_watch (shell_step a sh) = None \<longleftrightarrow> sh_watch sh = None"
  by (cases a) (auto simp: shell_ops Let_def split: option.splits)

lemma shell_step_log:
  assumes "sh_watch sh = Some w"
  shows "\<exists>v. sh_watch (shell_step a sh) = Some v \<and>
    (case op_event a w of None \<Rightarrow> same_log w v
     | Some (now, t, pat, line, code) \<Rightarrow> same_log (append_event now t pat line code w) v)"
  using assms
  by (cases a) (auto simp: shell_ops Let_def same_log_def append_event_def split: option.splits)

definition event_drop :: "watch_state \<Rightarrow> nat" where
  "event_drop w = (if watch_event_cap \<le> length (events w) then 102 else 0)"

lemma shell_step_cases:
  assumes "sh_watch sh = Some w"
  obtains (quiet) v where "sh_watch (shell_step a sh) = Some v" "op_entries a sh = []" "same_log w v"
  | (logged) v e where "sh_watch (shell_step a sh) = Some v" "op_entries a sh = [e]"
      "ev_id e = Suc (next_event_id w)" "next_event_id v = Suc (next_event_id w)"
      "events_dropped v = events_dropped w + event_drop w" "events v = drop (event_drop w) (events w) @ [e]"
proof -
  obtain v where v: "sh_watch (shell_step a sh) = Some v"
    "case op_event a w of None \<Rightarrow> same_log w v
     | Some (now, t, pat, line, code) \<Rightarrow> same_log (append_event now t pat line code w) v"
    using shell_step_log [OF assms, of a] by auto
  show thesis
  proof (cases "op_event a w")
    case None
    with v assms show thesis by (intro quiet [of v]) (simp_all add: op_entries_def)
  next
    case (Some x)
    obtain now t pat line code where x: "x = (now, t, pat, line, code)" by (cases x) auto
    with v Some have "same_log (append_event now t pat line code w) v" by simp
    with v(1) Some x assms show thesis
      by (intro logged [of v "\<lparr>ev_id = Suc (next_event_id w), ev_type = t, ev_at = now, ev_pattern = pat,
            ev_line = line, ev_exit = code\<rparr>"])
         (auto simp: op_entries_def same_log_def append_event_def event_drop_def watch_event_cap_def Let_def)
  qed
qed

lemma shell_step_unwatched:
  assumes "sh_watch sh = None"
  shows "sh_watch (shell_step a sh) = None" "op_entries a sh = []"
  using assms shell_step_watch [of a sh] by (simp_all add: op_entries_def)

lemma shell_step_summary:
  "\<exists>k \<le> length (sh_events s). sh_dropped (shell_step a s) = sh_dropped s + k
     \<and> sh_events (shell_step a s) = drop k (sh_events s @ op_entries a s)
     \<and> sh_counter (shell_step a s) = sh_counter s + length (op_entries a s)
     \<and> (length (sh_events s) \<le> watch_event_cap \<longrightarrow> length (sh_events (shell_step a s)) \<le> watch_event_cap)"
proof (cases "sh_watch s")
  case None
  from shell_step_unwatched [OF None, of a] None show ?thesis by (simp add: shell_views)
next
  case (Some w)
  have vs: "sh_events s = events w" "sh_dropped s = events_dropped w" "sh_counter s = next_event_id w"
    using Some by (simp_all add: sh_events_def sh_dropped_def sh_counter_def)
  show ?thesis
  proof (rule shell_step_cases [OF Some, of a])
    fix v
    assume "sh_watch (shell_step a s) = Some v" "op_entries a s = []" "same_log w v"
    then show ?thesis
      by (intro exI [of _ 0]) (simp add: vs same_log_def, simp add: sh_events_def sh_dropped_def sh_counter_def)
  next
    fix v e
    assume "sh_watch (shell_step a s) = Some v" "op_entries a s = [e]"
      "next_event_id v = Suc (next_event_id w)" "events_dropped v = events_dropped w + event_drop w"
      "events v = drop (event_drop w) (events w) @ [e]"
    then show ?thesis
      by (intro exI [of _ "event_drop w"])
         (simp add: vs event_drop_def watch_event_cap_def, simp add: sh_events_def sh_dropped_def sh_counter_def)
  qed
qed

interpretation shell_log: event_window sh_events sh_dropped sh_counter ev_id shell_step op_entries watch_event_cap
proof unfold_locales
  fix a s
  obtain k where k: "k \<le> length (sh_events s)" "sh_dropped (shell_step a s) = sh_dropped s + k"
     "sh_events (shell_step a s) = drop k (sh_events s @ op_entries a s)"
     "sh_counter (shell_step a s) = sh_counter s + length (op_entries a s)"
     "length (sh_events s) \<le> watch_event_cap \<longrightarrow> length (sh_events (shell_step a s)) \<le> watch_event_cap"
    using shell_step_summary [of s a] by blast
  show "sh_dropped s \<le> sh_dropped (shell_step a s)"
    "sh_dropped (shell_step a s) - sh_dropped s \<le> length (sh_events s)"
    "sh_events (shell_step a s) = drop (sh_dropped (shell_step a s) - sh_dropped s) (sh_events s @ op_entries a s)"
    "sh_counter (shell_step a s) = sh_counter s + length (op_entries a s)"
    using k by (simp_all del: drop_append)
  show "length (sh_events (shell_step a s)) \<le> watch_event_cap" if "length (sh_events s) \<le> watch_event_cap"
    using k(5) that by simp
  show "map ev_id (op_entries a s) = [Suc (sh_counter s)..<Suc (sh_counter s + length (op_entries a s))]"
    by (auto simp: shell_views split: option.splits)
qed

lemma new_watched_shell_log:
  "shell_log.numbered (new_watched_shell now i cmd pats srcs idle)"
  "sh_counter (new_watched_shell now i cmd pats srcs idle) = 1"
  "length (sh_events (new_watched_shell now i cmd pats srcs idle)) = 1"
  by (simp_all add: shell_log.numbered_def new_watched_shell_def append_event_locked_def append_event_def
    shell_views new_background_shell_def watch_event_cap_def Let_def)

lemma shell_events_poll: "fst (shell_events sh since) = shell_log.poll sh since"
  by (auto simp: shell_events_def shell_log.poll_def sh_events_def split: option.splits)

text \<open>
  whatever the goroutines of a watched shell do, its log keeps at most 1024 events, they carry
  consecutive numbers, and together with the dropped count they account for every event.
\<close>

theorem watch_log_bounded:
  "let sh = fold shell_step ops (new_watched_shell now i cmd pats srcs idle)
   in length (sh_events sh) \<le> watch_event_cap
      \<and> map ev_id (sh_events sh) = [Suc (sh_dropped sh)..<Suc (sh_counter sh)]
      \<and> sh_counter sh = sh_dropped sh + length (sh_events sh)"
proof -
  let ?s = "new_watched_shell now i cmd pats srcs idle"
  have "shell_log.numbered (fold shell_step ops ?s)"
    by (rule shell_log.fold_numbered [OF new_watched_shell_log(1)])
  moreover have "length (sh_events (fold shell_step ops ?s)) \<le> watch_event_cap"
    by (rule shell_log.fold_bound) (simp add: new_watched_shell_log watch_event_cap_def)
  ultimately show ?thesis by (simp add: shell_log.numbered_def Let_def)
qed

text \<open>
  polling is complete.  After a first run \<open>ops1\<close> an agent has seen event number \<open>sh_counter\<close>; polling
  \<open>watch_process_events\<close> with that number after any further run \<open>ops2\<close> returns exactly the events
  logged by \<open>ops2\<close>, in order, except the first ones if the cap has dropped them meanwhile, and their
  number is what the dropped count says.
\<close>

theorem watch_poll_complete:
  "let s = fold shell_step ops1 (new_watched_shell now i cmd pats srcs idle);
       t = fold shell_step ops2 s
   in shell_events t (sh_counter s)
      = (drop (sh_dropped t - sh_counter s) (shell_log.full_log ops2 s), sh_dropped t)"
proof -
  let ?s = "fold shell_step ops1 (new_watched_shell now i cmd pats srcs idle)"
  let ?t = "fold shell_step ops2 ?s"
  have "shell_log.numbered ?s"
    by (rule shell_log.fold_numbered [OF new_watched_shell_log(1)])
  from shell_log.poll_since_last [OF this, of ops2]
  have "fst (shell_events ?t (sh_counter ?s)) = drop (sh_dropped ?t - sh_counter ?s) (shell_log.full_log ops2 ?s)"
    by (simp add: shell_events_poll)
  moreover have "snd (shell_events ?t (sh_counter ?s)) = sh_dropped ?t"
    by (simp add: shell_events_def sh_dropped_def split: option.split)
  ultimately show ?thesis by (simp add: Let_def prod_eq_iff)
qed

fun out_chunks :: "shell_op list \<Rightarrow> string list" where
  "out_chunks [] = []"
| "out_chunks (OpStdout now b # ops) = b # out_chunks ops"
| "out_chunks (OpAppendOut b # ops) = b # out_chunks ops"
| "out_chunks (_ # ops) = out_chunks ops"

lemma shell_stdout_fold:
  "sh_stdout (fold shell_step ops sh) = foldl sink (sh_stdout sh) (out_chunks ops)"
proof (induction ops arbitrary: sh)
  case (Cons a ops)
  have "sh_stdout (shell_step a sh) = foldl sink (sh_stdout sh) (out_chunks [a])"
    by (cases a) (auto simp: shell_ops Let_def split: option.splits)
  moreover have "out_chunks (a # ops) = out_chunks [a] @ out_chunks ops" by (cases a) auto
  ultimately show ?case using Cons.IH [of "shell_step a sh"] by simp
qed simp

text \<open>
  the stdout buffer of a shell holds the first MiB of what was appended to it, and its truncation
  flag is set exactly when bytes were left out.
\<close>

theorem stdout_capped:
  assumes "\<forall>b \<in> set (out_chunks ops). b \<noteq> []"
  shows "sh_stdout (fold shell_step ops (new_background_shell now i cmd)) =
    (take shell_output_cap (concat (out_chunks ops)), shell_output_cap < length (concat (out_chunks ops)))"
  using shell_sink.fold_put_empty [OF assms]
  by (simp add: shell_stdout_fold new_background_shell_def)

theorem stdout_capped_witness:
  "sh_stdout (fold shell_step [OpAppendOut ''ab'', OpSetPgid 7, OpAppendOut ''c''] (new_background_shell 0 ''id'' ''make''))
     = (''abc'', False)"
  by (subst stdout_capped) (simp_all add: shell_output_cap_def)

end
