(* ===== verification/Exec.thy ===== *)
theory Exec
  imports Prelude
begin

text \<open>
  Running child processes: \<open>internal/tools/exec.go\<close> and the foreground part of
  \<open>internal/tools/bash.go\<close>.  What the operating system does with a command is the argument of the
  definitions: whether its binary is on \<open>PATH\<close>, and a \<open>proc\<close> record with what it wrote, how
  \<open>cmd.Run\<close> returned and whether the deadline of the context had passed.
\<close>

datatype run_err = RunOk | ExitError int | OtherError string

record proc =
  p_stdout :: string
  p_stderr :: string
  p_err :: run_err
  p_deadline :: bool

section \<open>Capped output\<close>

definition verify_output_cap :: nat where "verify_output_cap = 500 * 1024"
definition bash_output_cap :: nat where "bash_output_cap = 100 * 1024"
definition timeout_exit_code :: int where "timeout_exit_code = 124"

definition truncate_output :: "string \<Rightarrow> nat \<Rightarrow> string" where
  "truncate_output b limit =
     (if length b \<le> limit then b
      else take limit b @ newline # ''... (output truncated, '' @ dec_nat (length b - limit) @ '' bytes elided)'')"

definition ends_nl :: "string \<Rightarrow> bool" where
  "ends_nl s \<longleftrightarrow> has_suffix s [newline]"

lemma truncate_output_prefix: "prefix (take limit b) (truncate_output b limit)"
  by (simp add: truncate_output_def prefix_def)

section \<open>Verification commands\<close>

record exec_result =
  r_stdout :: string
  r_stderr :: string
  r_exit :: int
  r_timed_out :: bool

text \<open>\<open>runVerifyCmd\<close>; the left case is its error.\<close>

definition run_verify_cmd ::
  "(string \<Rightarrow> bool) \<Rightarrow> (string list \<Rightarrow> string \<Rightarrow> int \<Rightarrow> proc) \<Rightarrow> string list \<Rightarrow> string \<Rightarrow> int \<Rightarrow> string + exec_result" where
  "run_verify_cmd on_path run cmd cwd timeout =
     (case cmd of
        [] \<Rightarrow> Inl ''empty command''
      | bin # _ \<Rightarrow>
          if \<not> on_path bin then Inl (bin @ '': not found on PATH'')
          else
            let p = run cmd cwd timeout;
                res = (\<lambda>code. \<lparr>r_stdout = truncate_output (p_stdout p) verify_output_cap,
                               r_stderr = truncate_output (p_stderr p) verify_output_cap,
                               r_exit = code, r_timed_out = p_deadline p\<rparr>)
            in if p_deadline p then Inr (res timeout_exit_code)
               else case p_err p of
                      RunOk \<Rightarrow> Inr (res 0)
                    | ExitError code \<Rightarrow> Inr (res code)
                    | OtherError e \<Rightarrow> Inl (bin @ '': '' @ e))"

definition format_verify_result :: "exec_result \<Rightarrow> int \<Rightarrow> string" where
  "format_verify_result res timeout =
     r_stdout res @ (if r_stdout res \<noteq> [] \<and> \<not> ends_nl (r_stdout res) then [newline] else [])
     @ (if r_stderr res = [] then []
        else ''--- stderr ---'' @ newline # r_stderr res @ (if ends_nl (r_stderr res) then [] else [newline]))
     @ (if r_timed_out res then ''timed out after '' @ dec_int timeout @ ''s'' @ [newline] else [])
     @ ''exit: '' @ dec_int (r_exit res) @ [newline]"

text \<open>
  a verification run that timed out is reported with exit code 124 whatever the process returned,
  a run that ended in time carries the process's own code, and only a spawn failure is an error.
\<close>

theorem run_verify_exit_code:
  "run_verify_cmd on_path run cmd cwd timeout = Inr res \<Longrightarrow>
     r_timed_out res = p_deadline (run cmd cwd timeout) \<and>
     (if r_timed_out res then r_exit res = 124
      else (p_err (run cmd cwd timeout) = RunOk \<and> r_exit res = 0)
           \<or> p_err (run cmd cwd timeout) = ExitError (r_exit res))"
  by (auto simp: run_verify_cmd_def Let_def timeout_exit_code_def split: list.splits if_splits run_err.splits)

theorem run_verify_exit_code_witness:
  "r_exit \<lparr>r_stdout = ''x'', r_stderr = [], r_exit = 124, r_timed_out = True\<rparr> = 124"
proof -
  have "run_verify_cmd (\<lambda>_. True) (\<lambda>_ _ _. \<lparr>p_stdout = ''x'', p_stderr = [], p_err = ExitError (-1), p_deadline = True\<rparr>)
      [''go'', ''vet''] ''/w'' 5 = Inr \<lparr>r_stdout = ''x'', r_stderr = [], r_exit = 124, r_timed_out = True\<rparr>"
    by (simp add: run_verify_cmd_def truncate_output_def verify_output_cap_def timeout_exit_code_def)
  from run_verify_exit_code [OF this] show ?thesis by simp
qed

section \<open>The foreground result of Bash\<close>

text \<open>\<open>bashExitCode\<close>: a timeout is checked before the exit error, but after a nil error.\<close>

definition bash_exit_code :: "run_err \<Rightarrow> bool \<Rightarrow> string + int" where
  "bash_exit_code err timed_out =
     (if err = RunOk then Inr 0
      else if timed_out then Inr timeout_exit_code
      else case err of
             RunOk \<Rightarrow> Inr 0
           | ExitError code \<Rightarrow> Inr code
           | OtherError e \<Rightarrow> Inl (''bash: '' @ e))"

definition format_bash_output :: "string \<Rightarrow> int \<Rightarrow> bool \<Rightarrow> int \<Rightarrow> string" where
  "format_bash_output out code timed_out timeout =
     (let body = truncate_output out bash_output_cap
      in body @ (if body \<noteq> [] \<and> \<not> ends_nl body then [newline] else [])
         @ (if timed_out then ''bash: timed out after '' @ dec_int timeout @ ''s'' @ [newline] else [])
         @ (if code \<noteq> 0 \<or> timed_out then ''exit: '' @ dec_int code @ [newline] else []))"

text \<open>\<open>waitExitCode\<close> of a background process.\<close>

fun wait_exit_code :: "run_err \<Rightarrow> int" where
  "wait_exit_code RunOk = 0"
| "wait_exit_code (ExitError code) = code"
| "wait_exit_code (OtherError _) = -1"

text \<open>
  the text \<open>Bash\<close> returns starts with the output itself, all of it up to 100 KiB, and ends with an
  \<open>exit:\<close> line exactly when the command failed or timed out and the output does not end so itself.
\<close>

theorem format_bash_output_shape:
  "prefix (take bash_output_cap out) (format_bash_output out code timed_out timeout)
   \<and> (code \<noteq> 0 \<or> timed_out \<longrightarrow> has_suffix (format_bash_output out code timed_out timeout) (''exit: '' @ dec_int code @ [newline]))
   \<and> (code = 0 \<and> \<not> timed_out \<and> ends_nl out \<and> length out \<le> bash_output_cap
        \<longrightarrow> format_bash_output out code timed_out timeout = out)"
proof -
  have "prefix (truncate_output out bash_output_cap) (format_bash_output out code timed_out timeout)"
    by (simp add: format_bash_output_def Let_def prefix_def)
  then have "prefix (take bash_output_cap out) (format_bash_output out code timed_out timeout)"
    using truncate_output_prefix prefix_order.trans by blast
  then show ?thesis
    by (auto simp: format_bash_output_def Let_def has_suffix_def suffix_def truncate_output_def)
qed

theorem format_bash_output_shape_witness:
  "has_suffix (format_bash_output ''boom'' 2 False 120) (''exit: '' @ dec_int 2 @ [newline])
   \<and> format_bash_output (''ok'' @ [newline]) 0 False 120 = ''ok'' @ [newline]"
  using format_bash_output_shape [of "''boom''" 2 False 120] format_bash_output_shape [of "''ok'' @ [newline]" 0 False 120]
  by (simp add: ends_nl_def has_suffix_def bash_output_cap_def suffix_def)

end
