(* ===== verification/Bash.thy ===== *)
theory Bash
  imports WorkspaceSet GoRegexp Shells Exec
begin

text \<open>
  The tools that run shell commands: \<open>Bash\<close> (\<open>internal/tools/bash.go\<close>), \<open>BashOutput\<close>
  (\<open>bash_output.go\<close>), \<open>KillShell\<close> (\<open>kill_shell.go\<close>), \<open>watch_process\<close> and \<open>watch_process_events\<close>
  (\<open>watch_process.go\<close>).  A handler is a function from the session to the session and the tool's
  result.  Outside the source and so arguments: the fresh shell id, the clock, what a spawned process
  does, \<open>regexp.Compile\<close> on the agent's own patterns and the rendering of time stamps.
\<close>

section \<open>The denylist\<close>

definition sep_open :: "char \<Rightarrow> bool" where
  "sep_open c \<longleftrightarrow> cls_space c \<or> c = CHR '';'' \<or> c = CHR ''&'' \<or> c = CHR ''|'' \<or> c = CHR ''(''"

definition sep_close :: "char \<Rightarrow> bool" where
  "sep_close c \<longleftrightarrow> cls_space c \<or> c = CHR '';'' \<or> c = CHR ''&'' \<or> c = CHR ''|'' \<or> c = CHR '')''"

definition plain_tokens :: "string list" where
  "plain_tokens = [''sudo'', ''su'', ''shutdown'', ''reboot'', ''halt'', ''poweroff'', ''chroot'', ''mount'', ''umount'']"

definition mkfs_re :: re where
  "mkfs_re = RSeq (rlit ''mkfs'') (ropt (RSeq (rchr (CHR ''.'')) (rplus (RCls is_word))))"

definition deny_pattern :: re where
  "deny_pattern =
     rseqs [RAlt RBegin (RCls sep_open), RStar True (RCls cls_space),
            RGroup 1 (ralts (map rlit plain_tokens @ [mkfs_re])),
            RAlt REnd (RCls sep_close)]"

text \<open>\<open>denyDetails\<close>: the metrics label and the reason, \<open>None\<close> for a command that may run.\<close>

definition deny_details :: "string \<Rightarrow> (string \<times> string) option" where
  "deny_details command =
     (case find_at deny_pattern command 0 of
        None \<Rightarrow> None
      | Some (a, b, c) \<Rightarrow>
          (let raw = cap_text command c 1
           in Some (if has_prefix raw ''mkfs'' then ''mkfs'' else raw,
                    ''command uses denylisted token '' @ quote raw)))"

text \<open>The tokens the list is about.\<close>

definition deny_token :: "string \<Rightarrow> bool" where
  "deny_token t \<longleftrightarrow> t \<in> set plain_tokens \<or> t = ''mkfs''
     \<or> (\<exists>v. t = ''mkfs.'' @ v \<and> v \<noteq> [] \<and> list_all is_word v)"

definition deny_label :: "string \<Rightarrow> string" where
  "deny_label t = (if has_prefix t ''mkfs'' then ''mkfs'' else t)"

definition deny_inner :: re where
  "deny_inner = ralts (map rlit plain_tokens @ [mkfs_re])"

lemma lang_ralts_snoc: "lang_is (ralts rs) P \<Longrightarrow> lang_is r Q \<Longrightarrow> lang_is (ralts (rs @ [r])) (\<lambda>t. P t \<or> Q t)"
  by (auto simp: lang_is_def matches_ralts)

lemma lang_ralts_lits: "lang_is (ralts (map rlit ws)) (\<lambda>t. t \<in> set ws)"
  using lang_lit by (auto simp: lang_is_def matches_ralts)

lemma lang_mkfs: "lang_is mkfs_re (\<lambda>t. t = ''mkfs'' \<or> (\<exists>v. t = ''mkfs.'' @ v \<and> v \<noteq> [] \<and> list_all is_word v))"
proof -
  have dot: "lang_is (rchr (CHR ''.'')) (\<lambda>t. t = ''.'')" using lang_lit [of "''.''"] by simp
  have "lang_is mkfs_re (\<lambda>t. \<exists>u v. t = u @ v \<and> u = ''mkfs'' \<and>
      ((\<exists>x y. v = x @ y \<and> x = ''.'' \<and> (y \<noteq> [] \<and> list_all is_word y)) \<or> v = []))"
    unfolding mkfs_re_def by (rule lang_seq [OF lang_lit lang_opt [OF lang_seq [OF dot lang_plus_cls]]])
  moreover have "(\<lambda>t. \<exists>u v. t = u @ v \<and> u = ''mkfs'' \<and>
      ((\<exists>x y. v = x @ y \<and> x = ''.'' \<and> (y \<noteq> [] \<and> list_all is_word y)) \<or> v = []))
    = (\<lambda>t. t = ''mkfs'' \<or> (\<exists>v. t = ''mkfs.'' @ v \<and> v \<noteq> [] \<and> list_all is_word v))"
    by (rule ext) auto
  ultimately show ?thesis by simp
qed

lemma lang_deny_inner: "lang_is deny_inner deny_token"
  using lang_ralts_snoc [OF lang_ralts_lits [of plain_tokens] lang_mkfs]
  by (simp add: deny_inner_def deny_token_def [abs_def])

lemma no_groups_deny_inner: "no_groups deny_inner"
  by (simp add: deny_inner_def plain_tokens_def mkfs_re_def ropt_def rplus_def rchr_def)

lemma deny_pattern_inner:
  "deny_pattern = RSeq (RAlt RBegin (RCls sep_open)) (RSeq (RStar True (RCls cls_space))
     (RSeq (RGroup 1 deny_inner) (RAlt REnd (RCls sep_close))))"
  by (simp add: deny_pattern_def deny_inner_def)

lemma cls_space_sep: "cls_space c \<Longrightarrow> sep_open c"
  by (simp add: sep_open_def)

text \<open>A token at a command position: at the start or after a separator, at the end or before one.\<close>

definition command_position :: "string \<Rightarrow> string \<Rightarrow> string \<Rightarrow> bool" where
  "command_position pre tok post \<longleftrightarrow>
     deny_token tok \<and> (pre = [] \<or> sep_open (last pre)) \<and> (post = [] \<or> sep_close (hd post))"

lemma deny_matches:
  assumes "matches s (RAlt RBegin (RCls sep_open)) a k" "matches s (RStar True (RCls cls_space)) k x"
    "matches s deny_inner x y" "matches s (RAlt REnd (RCls sep_close)) y b" "a \<le> length s"
  shows "x \<le> y \<and> y \<le> length s \<and> command_position (take x s) (slice s x y) (drop y s)"
proof -
  have k: "k \<le> length s" "x \<le> length s" using assms matches_le by blast+
  from assms(3) k(2) have in1: "x \<le> y" "y \<le> length s" "deny_token (slice s x y)"
    using lang_isD [OF lang_deny_inner] by auto
  have "k \<le> x" using assms(2) matches_mono by blast
  have "take x s = [] \<or> sep_open (last (take x s))"
  proof (cases "k = x")
    case True
    with assms(1) k show ?thesis by (auto simp: matches_simps take_Suc_conv_app_nth)
  next
    case False
    with \<open>k \<le> x\<close> obtain m where m: "x = Suc m" "k \<le> m" by (cases x) auto
    with assms(2) have "cls_space (s ! m)" by (auto simp: matches_star_cls)
    with m k(2) show ?thesis by (simp add: take_Suc_conv_app_nth cls_space_sep)
  qed
  moreover have "drop y s = [] \<or> sep_close (hd (drop y s))"
    using assms(4) in1 by (auto simp: matches_simps hd_drop_conv_nth)
  ultimately show ?thesis using in1 by (simp add: command_position_def)
qed

lemma deny_find:
  assumes "find_at deny_pattern s 0 = Some (a, b, c)"
  obtains x y where "c = [(1, x, y)]" "x \<le> y" "y \<le> length s"
    "command_position (take x s) (slice s x y) (drop y s)"
proof -
  from find_at_rmatch [OF assms] obtain s1 s2 s3 where
    m: "s1 \<in> set (rmatch (RAlt RBegin (RCls sep_open)) s (a, []))"
      "s2 \<in> set (rmatch (RStar True (RCls cls_space)) s s1)"
      "s3 \<in> set (rmatch (RGroup 1 deny_inner) s s2)"
      "(b, c) \<in> set (rmatch (RAlt REnd (RCls sep_close)) s s3)"
    unfolding deny_pattern_inner rmatch_RSeq by blast
  have "snd s1 = []" using rmatch_caps [OF _ m(1)] by simp
  moreover have "snd s2 = snd s1" using rmatch_caps [OF _ m(2)] by simp
  moreover from rmatch_group [OF no_groups_deny_inner m(3)]
  have "snd s3 = (1, fst s2, fst s3) # snd s2" "matches s deny_inner (fst s2) (fst s3)" by auto
  moreover have "c = snd s3" using rmatch_caps [OF _ m(4)] by simp
  moreover have "a \<le> length s" using find_at_Some(2) [OF assms] by simp
  moreover have "matches s (RAlt RBegin (RCls sep_open)) a (fst s1)"
    "matches s (RStar True (RCls cls_space)) (fst s1) (fst s2)"
    "matches s (RAlt REnd (RCls sep_close)) (fst s3) b"
    using rmatch_sound [OF m(1)] rmatch_sound [OF m(2)] rmatch_sound [OF m(4)] by simp_all
  ultimately show thesis using deny_matches that by simp
qed

lemma deny_complete:
  assumes "command_position pre tok post"
  shows "find_at deny_pattern (pre @ tok @ post) 0 \<noteq> None"
proof -
  let ?s = "pre @ tok @ post"
  let ?x = "length pre" and ?y = "length pre + length tok"
  from assms have c: "deny_token tok" "pre = [] \<or> sep_open (last pre)" "post = [] \<or> sep_close (hd post)"
    by (auto simp: command_position_def)
  have inner: "matches ?s deny_inner ?x ?y"
    using c(1) lang_isD [OF lang_deny_inner, of ?x ?s ?y] by (simp add: slice_mid)
  have close: "\<exists>b. matches ?s (RAlt REnd (RCls sep_close)) ?y b"
    using c(3) by (cases post) (auto simp: matches_simps nth_append)
  have "\<exists>a. a \<le> ?x \<and> matches ?s (RAlt RBegin (RCls sep_open)) a ?x"
    using c(2)
  proof
    assume "pre = []" then show ?thesis by (auto simp: matches_simps)
  next
    assume o: "sep_open (last pre)"
    show ?thesis
    proof (cases "pre = []")
      case False
      then have lt: "?x - 1 < ?x" by simp
      with False have "?s ! (?x - 1) = last pre" "?x - 1 < length ?s" "Suc (?x - 1) = ?x"
        by (auto simp: nth_append last_conv_nth simp del: length_greater_0_conv intro: trans_less_add1)
      with o have "matches ?s (RAlt RBegin (RCls sep_open)) (?x - 1) ?x"
        by (auto simp: matches_simps)
      then show ?thesis by (meson diff_le_self)
    qed (auto simp: matches_simps)
  qed
  then obtain a where a: "a \<le> ?x" "matches ?s (RAlt RBegin (RCls sep_open)) a ?x" by blast
  from close obtain b where "matches ?s (RAlt REnd (RCls sep_close)) ?y b" by blast
  with a(2) inner have m: "matches ?s deny_pattern a b"
    unfolding deny_pattern_inner by (blast intro: m_seq m_star0 m_group)
  have "a \<le> length ?s" using a(1) by simp
  with m show ?thesis using find_at_None [of deny_pattern ?s 0 a b] by blast
qed

text \<open>
  C10: the denylist, exactly.  A command is let through only if no listed token stands at a command
  position anywhere in it; a refused command really has one, the reason quotes that token and the
  metrics label is one of ten fixed strings.
\<close>

theorem deny_exact:
  "case deny_details command of
     None \<Rightarrow> \<not> (\<exists>pre tok post. command = pre @ tok @ post \<and> command_position pre tok post)
   | Some (label, reason) \<Rightarrow>
       label \<in> set (''mkfs'' # plain_tokens) \<and>
       (\<exists>pre tok post. command = pre @ tok @ post \<and> command_position pre tok post
          \<and> label = deny_label tok \<and> reason = ''command uses denylisted token '' @ quote tok)"
proof (cases "find_at deny_pattern command 0")
  case None
  then show ?thesis using deny_complete by (force simp: deny_details_def)
next
  case (Some r)
  obtain a b c where r: "r = (a, b, c)" by (cases r) auto
  from deny_find [OF Some [unfolded r]] obtain x y where xy: "c = [(1, x, y)]" "x \<le> y" "y \<le> length command"
    "command_position (take x command) (slice command x y) (drop y command)" by blast
  let ?t = "slice command x y"
  have eq: "command = take x command @ ?t @ drop y command" using split_slice [OF xy(2,3)] .
  have "deny_token ?t" using xy(4) by (simp add: command_position_def)
  then have "deny_label ?t \<in> set (''mkfs'' # plain_tokens)"
    by (auto simp: deny_token_def deny_label_def has_prefix_def)
  moreover have "deny_details command = Some (deny_label ?t, ''command uses denylisted token '' @ quote ?t)"
    by (simp add: deny_details_def Some r xy(1) cap_text_def deny_label_def Let_def)
  ultimately show ?thesis using eq xy(4) by auto
qed


section \<open>The session and the arguments of Bash\<close>

datatype tool_metric = DenylistHit string | BashExit int

text \<open>
  What the handlers of this theory change: the registry of background shells (absent when it is not
  configured), the metrics they emit and the process groups they send SIGKILL.
\<close>

record bash_session =
  bs_shells :: "shell_registry option"
  bs_metrics :: "tool_metric list"
  bs_killed :: "int list"

definition emit_metric :: "tool_metric \<Rightarrow> bash_session \<Rightarrow> bash_session" where
  "emit_metric m st = st\<lparr>bs_metrics := bs_metrics st @ [m]\<rparr>"

text \<open>\<open>validateBashArgs\<close>, which \<open>validateWatchArgs\<close> repeats: the command, or the error and the metric.\<close>

definition validate_bash_args :: "args \<Rightarrow> (string \<times> tool_metric option) + string" where
  "validate_bash_args a =
     (let command = arg_str0 a ''command''
      in if command = [] then Inl (''command is required'', None)
         else if arg_str0 a ''description'' = [] then Inl (''description is required'', None)
         else case deny_details command of
                Some (token, reason) \<Rightarrow> Inl (''command rejected: '' @ reason, Some (DenylistHit token))
              | None \<Rightarrow> Inr command)"

definition parse_bash_timeout :: "args \<Rightarrow> int" where
  "parse_bash_timeout a = clamp_arg 120 600 a ''timeout''"

definition reject_args :: "bash_session \<Rightarrow> string \<times> tool_metric option \<Rightarrow> tool_result \<times> bash_session" where
  "reject_args st e =
     (ErrorResult (fst e), case snd e of None \<Rightarrow> st | Some m \<Rightarrow> emit_metric m st)"

section \<open>Background shells\<close>

text \<open>How spawning \<open>/bin/bash -c\<close> with two pipes goes.\<close>

datatype spawn = StdoutPipeErr string | StderrPipeErr string | StartErr string | Started int

definition start_background_bash_cmd ::
  "(string \<Rightarrow> string \<Rightarrow> spawn) \<Rightarrow> shell_registry \<Rightarrow> workspace \<Rightarrow> bshell \<Rightarrow> string \<Rightarrow> string \<Rightarrow> (string + unit) \<times> shell_registry" where
  "start_background_bash_cmd spawn r ws sh command tag =
     (case spawn (ws_root ws) command of
        StdoutPipeErr e \<Rightarrow> (Inl (tag @ '' stdout: '' @ e), registry_remove r (sh_id sh))
      | StderrPipeErr e \<Rightarrow> (Inl (tag @ '' stderr: '' @ e), registry_remove r (sh_id sh))
      | StartErr e \<Rightarrow> (Inl (tag @ '' start: '' @ e), registry_remove r (sh_id sh))
      | Started pid \<Rightarrow> (Inr (), register r (set_pgid pid sh)))"

definition handle_bash_background ::
  "(string \<Rightarrow> string \<Rightarrow> spawn) \<Rightarrow> string \<Rightarrow> int \<Rightarrow> bash_session \<Rightarrow> workspace \<Rightarrow> string \<Rightarrow> tool_result \<times> bash_session" where
  "handle_bash_background spawn i now st ws command =
     (case bs_shells st of
        None \<Rightarrow> (ErrorResult ''background shells not configured'', st)
      | Some r \<Rightarrow>
          (let sh = new_background_shell now i command;
               (res, r') = start_background_bash_cmd spawn (register r sh) ws sh command ''bash-bg'';
               st' = st\<lparr>bs_shells := Some r'\<rparr>
           in case res of
                Inl e \<Rightarrow> (ErrorResult e, st')
              | Inr _ \<Rightarrow> (TextResult (''shell_id: '' @ i @ newline # ''started in background: '' @ command @ [newline]), st')))"

section \<open>The handler of Bash\<close>

text \<open>\<open>run dir command timeout\<close> is the foreground process; its \<open>p_stdout\<close> is the combined output.\<close>

definition handle_bash ::
  "(string \<Rightarrow> string \<Rightarrow> int \<Rightarrow> proc) \<Rightarrow> (string \<Rightarrow> string \<Rightarrow> spawn) \<Rightarrow> string \<Rightarrow> int \<Rightarrow> ws_deps \<Rightarrow> bash_session \<Rightarrow> args
     \<Rightarrow> tool_result \<times> bash_session" where
  "handle_bash run spawn i now d st a =
     (case resolve_workspace d a of
        Inl e \<Rightarrow> (ErrorResult e, st)
      | Inr ws \<Rightarrow>
          (case validate_bash_args a of
             Inl e \<Rightarrow> reject_args st e
           | Inr command \<Rightarrow>
               if arg_bool a ''run_in_background'' then handle_bash_background spawn i now st ws command
               else
                 let timeout = parse_bash_timeout a;
                     p = run (ws_root ws) command timeout
                 in case bash_exit_code (p_err p) (p_deadline p) of
                      Inl e \<Rightarrow> (ErrorResult e, st)
                    | Inr code \<Rightarrow>
                        (TextResult (format_bash_output (p_stdout p) code (p_deadline p) timeout),
                         emit_metric (BashExit code) st)))"

section \<open>BashOutput and KillShell\<close>

definition trunc_marker :: "bool \<Rightarrow> string" where
  "trunc_marker t = (if t then '' [TRUNCATED]'' else [])"

definition stream_block :: "string \<Rightarrow> string \<Rightarrow> bool \<Rightarrow> string" where
  "stream_block name b t =
     ''--- '' @ name @ '' ('' @ dec_nat (length b) @ '' bytes)'' @ trunc_marker t @ '' ---'' @ newline # b
     @ (if b \<noteq> [] \<and> last b \<noteq> newline then [newline] else [])"

definition status_line :: "int option \<Rightarrow> string" where
  "status_line e =
     (case e of None \<Rightarrow> ''status: running'' @ [newline]
      | Some code \<Rightarrow> ''status: completed (exit '' @ dec_int code @ '')'' @ [newline])"

text \<open>The lookup all the tools on a \<open>shell_id\<close> share.\<close>

definition lookup_shell :: "bash_session \<Rightarrow> args \<Rightarrow> string + (shell_registry \<times> bshell)" where
  "lookup_shell st a =
     (case bs_shells st of
        None \<Rightarrow> Inl ''background shells not configured''
      | Some r \<Rightarrow>
          (let i = arg_str0 a ''shell_id''
           in if i = [] then Inl ''shell_id is required''
              else case registry_get r i of
                     None \<Rightarrow> Inl (''unknown shell_id: '' @ i)
                   | Some sh \<Rightarrow> Inr (r, sh)))"

definition handle_bash_output :: "(int \<Rightarrow> string) \<Rightarrow> bash_session \<Rightarrow> args \<Rightarrow> tool_result" where
  "handle_bash_output show_time st a =
     (case lookup_shell st a of
        Inl e \<Rightarrow> ErrorResult e
      | Inr (r, sh) \<Rightarrow>
          (let s = shell_snapshot sh
           in TextResult (''command: '' @ sh_command sh @ newline # status_line (snap_exit s)
                @ ''started: '' @ show_time (sh_started sh) @ [newline, newline]
                @ stream_block ''stdout'' (snap_stdout s) (snap_stdout_truncated s)
                @ stream_block ''stderr'' (snap_stderr s) (snap_stderr_truncated s))))"

definition handle_kill_shell :: "bash_session \<Rightarrow> args \<Rightarrow> tool_result \<times> bash_session" where
  "handle_kill_shell st a =
     (case lookup_shell st a of
        Inl e \<Rightarrow> (ErrorResult e, st)
      | Inr (r, sh) \<Rightarrow>
          (let i = arg_str0 a ''shell_id''
           in (TextResult (''killed: '' @ i @ [newline]),
               st\<lparr>bs_killed := bs_killed st @ (if 0 < sh_pgid sh then [sh_pgid sh] else []),
                  bs_shells := Some (registry_remove r i)\<rparr>)))"

lemmas shell_handlers = handle_bash_output_def handle_kill_shell_def lookup_shell_def registry_get_def
  registry_remove_def register_def

text \<open>
  C9: a command with a denylisted token at a command position is never executed.  Whatever process
  would have run, \<open>Bash\<close> answers with an error, registers no shell and records the hit.
\<close>

theorem bash_denied_not_run:
  assumes "resolve_workspace d a = Inr ws" "arg_str0 a ''description'' \<noteq> []"
    and "arg_str0 a ''command'' = pre @ tok @ post" "command_position pre tok post"
  shows "\<exists>label reason. handle_bash run spawn i now d st a
    = (ErrorResult (''command rejected: '' @ reason), emit_metric (DenylistHit label) st)"
proof -
  from assms(4) have "tok \<noteq> []" by (auto simp: command_position_def deny_token_def plain_tokens_def)
  moreover from deny_complete [OF assms(4)] have "deny_details (pre @ tok @ post) \<noteq> None"
    by (auto simp: deny_details_def Let_def split: option.splits)
  then obtain label reason where "deny_details (arg_str0 a ''command'') = Some (label, reason)"
    using assms(3) by auto
  ultimately show ?thesis
    using assms(1,2,3) by (auto simp: handle_bash_def validate_bash_args_def reject_args_def)
qed

theorem bash_denied_not_run_witness:
  "\<exists>label reason. handle_bash (\<lambda>_ _ _. \<lparr>p_stdout = [], p_stderr = [], p_err = RunOk, p_deadline = False\<rparr>) (\<lambda>_ _. Started 1) ''i'' 0
     \<lparr>dep_workspace = Some \<lparr>ws_root = ''/w'', ws_name = []\<rparr>, dep_workspaces = None\<rparr>
     \<lparr>bs_shells = None, bs_metrics = [], bs_killed = []\<rparr>
     [(''command'', JStr ''ls && sudo rm x''), (''description'', JStr ''d'')]
   = (ErrorResult (''command rejected: '' @ reason), \<lparr>bs_shells = None, bs_metrics = [DenylistHit label], bs_killed = []\<rparr>)"
  using bash_denied_not_run [of "\<lparr>dep_workspace = Some \<lparr>ws_root = ''/w'', ws_name = []\<rparr>, dep_workspaces = None\<rparr>"
    "[(''command'', JStr ''ls && sudo rm x''), (''description'', JStr ''d'')]" "\<lparr>ws_root = ''/w'', ws_name = []\<rparr>"
    "''ls && ''" "''sudo''" "'' rm x''" "\<lambda>_ _ _. \<lparr>p_stdout = [], p_stderr = [], p_err = RunOk, p_deadline = False\<rparr>" "\<lambda>_ _. Started 1" "''i''" 0
    "\<lparr>bs_shells = None, bs_metrics = [], bs_killed = []\<rparr>"]
  by (simp add: resolve_workspace_def set_len.simps arg_str0_def arg_str_def trim_space_def trim_right_def Let_def emit_metric_def
     command_position_def deny_token_def plain_tokens_def sep_open_def sep_close_def cls_space_def)

text \<open>
  \<open>KillShell\<close> on a registered shell signals its process group if it has one and forgets that
  shell only: the same id is unknown to every later call, every other id answers as before.
\<close>

theorem kill_shell_exact:
  assumes "bs_shells st = Some r" "r i = Some sh" "i \<noteq> []" "arg_str0 a ''shell_id'' = i"
  shows "let (res, st') = handle_kill_shell st a
    in res = TextResult (''killed: '' @ i @ [newline])
       \<and> bs_killed st' = bs_killed st @ (if 0 < sh_pgid sh then [sh_pgid sh] else [])
       \<and> handle_bash_output t st' a = ErrorResult (''unknown shell_id: '' @ i)
       \<and> (\<forall>b. arg_str0 b ''shell_id'' \<noteq> i \<longrightarrow> handle_bash_output t st' b = handle_bash_output t st b)"
  using assms by (auto simp: shell_handlers Let_def split: option.splits)

theorem kill_shell_exact_witness:
  "fst (handle_kill_shell \<lparr>bs_shells = Some [''k'' \<mapsto> set_pgid 41 (new_background_shell 0 ''k'' ''top'')], bs_metrics = [], bs_killed = []\<rparr>
      [(''shell_id'', JStr ''k'')]) = TextResult (''killed: k'' @ [newline])"
  using kill_shell_exact [of "\<lparr>bs_shells = Some [''k'' \<mapsto> set_pgid 41 (new_background_shell 0 ''k'' ''top'')], bs_metrics = [], bs_killed = []\<rparr>"
      "[''k'' \<mapsto> set_pgid 41 (new_background_shell 0 ''k'' ''top'')]" "''k''" "set_pgid 41 (new_background_shell 0 ''k'' ''top'')"
      "[(''shell_id'', JStr ''k'')]"]
  by (simp add: arg_str0_def arg_str_def Let_def split_beta)

text \<open>
  a background start either registers exactly one running shell with empty output under the id it
  returns, or, whichever step of spawning fails, leaves the registry as it was.
\<close>

theorem bash_background_atomic:
  assumes "bs_shells st = Some r" "i \<notin> dom r"
  shows "case handle_bash_background spawn i now st ws command of
      (TextResult out, st') \<Rightarrow> (\<exists>pid. spawn (ws_root ws) command = Started pid \<and>
         bs_shells st' = Some (r(i \<mapsto> set_pgid pid (new_background_shell now i command))))
    | (ErrorResult e, st') \<Rightarrow> bs_shells st' = Some r"
proof -
  from assms(2) have "r(i := None) = r" by (auto simp: fun_eq_iff domIff)
  with assms(1) show ?thesis
    by (auto simp: handle_bash_background_def start_background_bash_cmd_def register_def registry_remove_def
       new_background_shell_def set_pgid_def Let_def split: spawn.splits)
qed

theorem bash_background_atomic_witness:
  "snd (handle_bash_background (\<lambda>_ _. StartErr ''no bash'') ''k'' 0 \<lparr>bs_shells = Some Map.empty, bs_metrics = [], bs_killed = []\<rparr>
     \<lparr>ws_root = ''/w'', ws_name = []\<rparr> ''top'') = \<lparr>bs_shells = Some Map.empty, bs_metrics = [], bs_killed = []\<rparr>"
proof -
  let ?st = "\<lparr>bs_shells = Some Map.empty, bs_metrics = [], bs_killed = []\<rparr>"
  let ?h = "handle_bash_background (\<lambda>_ _. StartErr ''no bash'') ''k'' 0 ?st \<lparr>ws_root = ''/w'', ws_name = []\<rparr> ''top''"
  have e: "fst ?h = ErrorResult ''bash-bg start: no bash''" "bs_metrics (snd ?h) = []" "bs_killed (snd ?h) = []"
    by (simp_all add: handle_bash_background_def start_background_bash_cmd_def Let_def)
  from bash_background_atomic [where st = ?st and r = Map.empty and i = "''k''" and now = 0
      and spawn = "\<lambda>_ _. StartErr ''no bash''" and ws = "\<lparr>ws_root = ''/w'', ws_name = []\<rparr>" and command = "''top''"] e
  have "bs_shells (snd ?h) = Some Map.empty" by (simp add: split_beta)
  with e show ?thesis by simp
qed

end
