(* ===== verification/Watch.thy ===== *)
theory Watch
  imports Bash
begin

text \<open>
  \<open>watch_process\<close> and \<open>watch_process_events\<close> (\<open>internal/tools/watch_process.go\<close>) and the goroutines that
  serve a background process (\<open>drainPipe\<close>, \<open>drainWatchStderr\<close>, \<open>watchLifecycle\<close>, \<open>watchIdleWatchdog\<close>).
  Clock values are nanoseconds.  Arguments: \<open>regexp.Compile\<close> on the agent's patterns, the rendering of
  times and durations, the fresh shell id and the outcome of spawning.
\<close>

section \<open>Arguments\<close>

definition max_watch_patterns :: nat where "max_watch_patterns = 32"

definition default_watch_patterns :: "string list" where
  "default_watch_patterns =
     [''^Error:'', ''^Fatal:'', ''^panic:'', [CHR 0x5C] @ ''buncaught'' @ [CHR 0x5C] @ ''b'', ''UnhandledPromiseRejection'']"

type_synonym compiler = "string \<Rightarrow> string + (string \<Rightarrow> bool)"

fun compile_patterns :: "compiler \<Rightarrow> nat \<Rightarrow> string list \<Rightarrow> string + (string \<Rightarrow> bool) list" where
  "compile_patterns cmpl i [] = Inr []"
| "compile_patterns cmpl i (s # ss) =
     (case cmpl s of
        Inl e \<Rightarrow> Inl (''error_patterns['' @ dec_nat i @ ''] '' @ quote s @ '' failed to compile: '' @ e)
      | Inr m \<Rightarrow> (case compile_patterns cmpl (Suc i) ss of Inl e \<Rightarrow> Inl e | Inr ms \<Rightarrow> Inr (m # ms)))"

fun pattern_strings :: "nat \<Rightarrow> jval list \<Rightarrow> string + string list" where
  "pattern_strings i [] = Inr []"
| "pattern_strings i (v # vs) =
     (case as_str (Some v) of
        None \<Rightarrow> Inl (''error_patterns['' @ dec_nat i @ ''] is not a string'')
      | Some s \<Rightarrow>
          if s = [] then Inl (''error_patterns['' @ dec_nat i @ ''] is empty'')
          else (case pattern_strings (Suc i) vs of Inl e \<Rightarrow> Inl e | Inr ss \<Rightarrow> Inr (s # ss)))"

definition with_sources :: "compiler \<Rightarrow> string list \<Rightarrow> string + ((string \<Rightarrow> bool) list \<times> string list)" where
  "with_sources cmpl ss = (case compile_patterns cmpl 0 ss of Inl e \<Rightarrow> Inl e | Inr ms \<Rightarrow> Inr (ms, ss))"

definition parse_watch_patterns :: "compiler \<Rightarrow> args \<Rightarrow> string + ((string \<Rightarrow> bool) list \<times> string list)" where
  "parse_watch_patterns cmpl a =
     (case map_of a ''error_patterns'' of
        None \<Rightarrow> with_sources cmpl default_watch_patterns
      | Some (JArr vs) \<Rightarrow>
          if max_watch_patterns < length vs then
            Inl (''too many error_patterns ('' @ dec_nat (length vs) @ '' > '' @ dec_nat max_watch_patterns @ '')'')
          else (case pattern_strings 0 vs of Inl e \<Rightarrow> Inl e | Inr ss \<Rightarrow> with_sources cmpl ss)
      | Some _ \<Rightarrow> Inl ''error_patterns must be an array of strings'')"

definition second_ns :: int where "second_ns = 1000000000"

definition parse_watch_idle_timeout :: "args \<Rightarrow> int" where
  "parse_watch_idle_timeout a = clamp_arg 0 3600 a ''idle_timeout_seconds'' * second_ns"

lemma compile_patterns_length: "compile_patterns cmpl i ss = Inr ms \<Longrightarrow> length ms = length ss"
  by (induction cmpl i ss arbitrary: ms rule: compile_patterns.induct) (auto split: sum.splits)

lemma compile_patterns_nth:
  "compile_patterns cmpl i ss = Inr ms \<Longrightarrow> list_all2 (\<lambda>s m. cmpl s = Inr m) ss ms"
  by (induction cmpl i ss arbitrary: ms rule: compile_patterns.induct) (auto split: sum.splits)

lemma pattern_strings_ok: "pattern_strings i vs = Inr ss \<Longrightarrow> vs = map JStr ss \<and> [] \<notin> set ss"
proof (induction i vs arbitrary: ss rule: pattern_strings.induct)
  case (2 i v vs)
  then show ?case by (cases v) (auto split: if_splits sum.splits)
qed simp

section \<open>The handlers\<close>

definition format_watch_started :: "(int \<Rightarrow> string) \<Rightarrow> string \<Rightarrow> string \<Rightarrow> string list \<Rightarrow> int \<Rightarrow> string" where
  "format_watch_started show_dur i command srcs idle =
     ''shell_id: '' @ i @ newline # ''started in background: '' @ command @ [newline]
     @ (if srcs = [] then ''error_patterns: (none '' @ em_dash @ '' pattern matching disabled)'' @ [newline]
        else ''error_patterns: '' @ join '' | '' srcs @ [newline])
     @ (if 0 < idle then ''idle_timeout: '' @ show_dur idle @ [newline]
        else ''idle_timeout: (disabled)'' @ [newline])
     @ newline # ''Poll watch_process_events with this shell_id for structured events. KillShell terminates the process group.''
     @ [newline]"

fun event_type_name :: "watch_event_type \<Rightarrow> string" where
  "event_type_name WStarted = ''started''"
| "event_type_name WError = ''error''"
| "event_type_name WIdleTimeout = ''idle_timeout''"
| "event_type_name WExited = ''exited''"

definition format_watch_event_line :: "(int \<Rightarrow> string) \<Rightarrow> watch_event \<Rightarrow> string" where
  "format_watch_event_line show_time ev =
     (let pre = ''['' @ dec_nat (ev_id ev) @ ''] '' @ show_time (ev_at ev) @ ''  '' @ event_type_name (ev_type ev)
      in case ev_type ev of
           WStarted \<Rightarrow> pre @ [newline]
         | WError \<Rightarrow>
             if ev_pattern ev \<noteq> [] then
               pre @ ''  (matched '' @ quote (ev_pattern ev) @ '')  '' @ ev_line ev @ [newline]
             else pre @ ''  '' @ ev_line ev @ [newline]
         | WIdleTimeout \<Rightarrow> pre @ ''  '' @ ev_line ev @ [newline]
         | WExited \<Rightarrow> pre @ ''  exit='' @ dec_int (ev_exit ev) @ [newline])"

definition format_watch_events :: "(int \<Rightarrow> string) \<Rightarrow> bshell \<Rightarrow> watch_event list \<Rightarrow> nat \<Rightarrow> int option \<Rightarrow> string" where
  "format_watch_events show_time sh evs drp exit =
     ''shell_id: '' @ sh_id sh @ newline # ''command: '' @ sh_command sh @ newline # status_line exit
     @ (if watch_patterns sh = [] then [] else ''error_patterns: '' @ join '' | '' (watch_patterns sh) @ [newline])
     @ (if drp = 0 then []
        else ''NOTE: '' @ dec_nat drp @ '' earlier events dropped (per-shell cap of '' @ dec_nat watch_event_cap
             @ '' reached)'' @ [newline])
     @ newline # ''--- events ('' @ dec_nat (length evs) @ '') ---'' @ newline #
       concat (map (format_watch_event_line show_time) evs)"

definition validate_watch_args :: "args \<Rightarrow> (string \<times> tool_metric option) + string" where
  "validate_watch_args a =
     (let command = arg_str0 a ''command''
      in if command = [] then Inl (''command is required'', None)
         else if arg_str0 a ''description'' = [] then Inl (''description is required'', None)
         else case deny_details command of
                Some (token, reason) \<Rightarrow> Inl (''command rejected: '' @ reason, Some (DenylistHit token))
              | None \<Rightarrow> Inr command)"

lemma validate_watch_args_bash: "validate_watch_args a = validate_bash_args a"
  by (simp add: validate_watch_args_def validate_bash_args_def)

text \<open>\<open>watch_process\<close> spawns in the default workspace \<open>deps.Workspace\<close>.\<close>

definition handle_watch_process ::
  "compiler \<Rightarrow> (int \<Rightarrow> string) \<Rightarrow> (string \<Rightarrow> string \<Rightarrow> spawn) \<Rightarrow> string \<Rightarrow> int \<Rightarrow> workspace \<Rightarrow> bash_session \<Rightarrow> args
     \<Rightarrow> tool_result \<times> bash_session" where
  "handle_watch_process cmpl show_dur spawn i now ws st a =
     (case bs_shells st of
        None \<Rightarrow> (ErrorResult ''background shells not configured'', st)
      | Some r \<Rightarrow>
          (case validate_watch_args a of
             Inl e \<Rightarrow> reject_args st e
           | Inr command \<Rightarrow>
               (case parse_watch_patterns cmpl a of
                  Inl e \<Rightarrow> (ErrorResult e, st)
                | Inr (pats, srcs) \<Rightarrow>
                    (let idle = parse_watch_idle_timeout a;
                         sh = new_watched_shell now i command pats srcs idle;
                         (res, r') = start_background_bash_cmd spawn (register r sh) ws sh command ''watch_process'';
                         st' = st\<lparr>bs_shells := Some r'\<rparr>
                     in case res of
                          Inl e \<Rightarrow> (ErrorResult e, st')
                        | Inr _ \<Rightarrow> (TextResult (format_watch_started show_dur i command srcs idle), st')))))"

definition since_event_id :: "args \<Rightarrow> nat" where
  "since_event_id a = (case arg_int a ''since_event_id'' of Some v \<Rightarrow> if 0 < v then nat v else 0 | None \<Rightarrow> 0)"

definition handle_watch_process_events :: "(int \<Rightarrow> string) \<Rightarrow> bash_session \<Rightarrow> args \<Rightarrow> tool_result" where
  "handle_watch_process_events show_time st a =
     (case lookup_shell st a of
        Inl e \<Rightarrow> ErrorResult e
      | Inr (r, sh) \<Rightarrow>
          if \<not> is_watched sh then
            ErrorResult (''shell_id '' @ arg_str0 a ''shell_id'' @ '' was not started by watch_process; use BashOutput instead'')
          else
            (let (evs, drp) = shell_events sh (since_event_id a)
             in TextResult (format_watch_events show_time sh evs drp (snap_exit (shell_snapshot sh)))))"

text \<open>
  the patterns of a watch are all or nothing.  An accepted list has at most 32 non-empty sources,
  each compiled by \<open>regexp.Compile\<close> in order, the default list when the argument is absent; otherwise
  the call fails and no shell is registered.
\<close>

theorem watch_patterns_exact:
  "case parse_watch_patterns cmpl a of
     Inr (ms, ss) \<Rightarrow> list_all2 (\<lambda>s m. cmpl s = Inr m) ss ms
        \<and> (map_of a ''error_patterns'' = None \<and> ss = default_watch_patterns
           \<or> map_of a ''error_patterns'' = Some (JArr (map JStr ss)) \<and> [] \<notin> set ss \<and> length ss \<le> max_watch_patterns)
   | Inl e \<Rightarrow> is_error (fst (handle_watch_process cmpl sd spawn i now ws st a))
        \<and> bs_shells (snd (handle_watch_process cmpl sd spawn i now ws st a)) = bs_shells st"
proof (cases "parse_watch_patterns cmpl a")
  case (Inl e)
  then show ?thesis
    by (auto simp: handle_watch_process_def reject_args_def emit_metric_def split: option.splits sum.splits)
next
  case (Inr p)
  obtain ms ss where p: "p = (ms, ss)" by (cases p)
  note dest = compile_patterns_nth pattern_strings_ok
  from Inr p show ?thesis
    by (auto simp: parse_watch_patterns_def with_sources_def dest
        split: option.splits jval.splits if_splits sum.splits dest!: dest)
qed

section \<open>The idle watchdog\<close>

datatype watchdog = WatchAgain | WatchDone | WatchKill int

text \<open>One tick of \<open>watchIdleWatchdog\<close>; \<open>since_s\<close> is the rounded age it reports.\<close>

definition watchdog_tick :: "(int \<Rightarrow> string) \<Rightarrow> (int \<Rightarrow> string) \<Rightarrow> int \<Rightarrow> bshell \<Rightarrow> watchdog \<times> bshell" where
  "watchdog_tick show_rounded show_dur now sh =
     (if sh_exit sh \<noteq> None then (WatchDone, sh)
      else case shell_last_output sh of
             None \<Rightarrow> (WatchAgain, sh)
           | Some lastt \<Rightarrow>
               if now - lastt < shell_idle_timeout sh then (WatchAgain, sh)
               else (if 0 < sh_pgid sh then WatchKill (sh_pgid sh) else WatchDone,
                     record_watch_idle_timeout now
                       (''no output for '' @ show_rounded (now - lastt) @ '' (configured idle_timeout=''
                        @ show_dur (shell_idle_timeout sh) @ '')'') sh))"

text \<open>
  the watchdog kills exactly the silent.  A running watched shell is killed at a tick if and only
  if its last output is at least the idle timeout ago, and then an \<open>idle_timeout\<close> event is logged first;
  any output within the timeout, on either stream, keeps it alive.
\<close>

theorem watchdog_kills_silent:
  assumes "sh_exit sh = None" "sh_watch sh = Some w" "0 < sh_pgid sh"
  shows "(fst (watchdog_tick sr sd now sh) = WatchKill (sh_pgid sh) \<longleftrightarrow> last_output_at w + idle_timeout w \<le> now)
    \<and> (fst (watchdog_tick sr sd now sh) = WatchKill (sh_pgid sh) \<longrightarrow>
         ev_type (last (sh_events (snd (watchdog_tick sr sd now sh)))) = WIdleTimeout)
    \<and> (\<forall>t b. now < t + idle_timeout w \<and> b \<noteq> [] \<longrightarrow>
         fst (watchdog_tick sr sd now (observe_watch_stdout t b sh)) = WatchAgain
         \<and> fst (watchdog_tick sr sd now (observe_watch_line t b sh)) = WatchAgain)"
  using assms
  by (auto simp: watchdog_tick_def shell_last_output_def shell_idle_timeout_def shell_ops append_event_def
      sh_events_def Let_def split: option.splits if_splits)

theorem watchdog_kills_silent_witness:
  "fst (watchdog_tick (\<lambda>_. []) (\<lambda>_. []) 90 (set_pgid 7 (new_watched_shell 10 ''k'' ''npm start'' [] [] 60))) = WatchKill 7"
proof -
  let ?w = "\<lparr>patterns = [], pattern_sources = [], events = [\<lparr>ev_id = 1, ev_type = WStarted, ev_at = 10, ev_pattern = [], ev_line = [], ev_exit = 0\<rparr>],
     next_event_id = 1, events_dropped = 0, idle_timeout = 60, last_output_at = 10\<rparr>"
  let ?s = "set_pgid 7 (new_watched_shell 10 ''k'' ''npm start'' [] [] 60)"
  have "sh_exit ?s = None" "sh_watch ?s = Some ?w" "sh_pgid ?s = 7"
    by (simp_all add: new_watched_shell_def append_event_locked_def append_event_def new_background_shell_def
        set_pgid_def watch_event_cap_def Let_def)
  with watchdog_kills_silent [of ?s ?w "\<lambda>_. []" "\<lambda>_. []" 90] show ?thesis by simp
qed

section \<open>The goroutines of one background process\<close>

text \<open>
  A process started with \<open>StdoutPipe\<close> writes into a pipe, \<open>drainPipe\<close> moves bytes from it to the shell,
  and a third goroutine calls \<open>cmd.Wait\<close> and then \<open>SetExit\<close>.  As package \<open>os/exec\<close> documents, \<open>Wait\<close> closes the
  reading end of the pipe once the process has exited, whether or not it has been read to the end.
\<close>

record bg_process =
  bg_shell :: bshell
  bg_written :: string
  bg_pipe :: string
  bg_open :: bool
  bg_status :: "run_err option"

definition drain_buf :: nat where "drain_buf = 32 * 1024"

inductive bg_step :: "bg_process \<Rightarrow> bg_process \<Rightarrow> bool" where
  Child_Write: "bg_status p = None \<Longrightarrow> b \<noteq> [] \<Longrightarrow>
     bg_step p (p\<lparr>bg_written := bg_written p @ b, bg_pipe := bg_pipe p @ b\<rparr>)"
| Child_Exit: "bg_status p = None \<Longrightarrow> bg_step p (p\<lparr>bg_status := Some e\<rparr>)"
| Drain: "bg_open p \<Longrightarrow> 0 < n \<Longrightarrow> n \<le> length (bg_pipe p) \<Longrightarrow> n \<le> drain_buf \<Longrightarrow>
     bg_step p (p\<lparr>bg_shell := append_stdout (take n (bg_pipe p)) (bg_shell p), bg_pipe := drop n (bg_pipe p)\<rparr>)"
| Wait: "bg_status p = Some e \<Longrightarrow> bg_open p \<Longrightarrow> bg_step p (p\<lparr>bg_open := False\<rparr>)"
| Set_Exit: "bg_status p = Some e \<Longrightarrow> \<not> bg_open p \<Longrightarrow>
     bg_step p (p\<lparr>bg_shell := set_exit (wait_exit_code e) (bg_shell p)\<rparr>)"

inductive bg_run :: "bg_process \<Rightarrow> bg_process \<Rightarrow> bool" where
  run_refl: "bg_run p p"
| run_step: "bg_run p q \<Longrightarrow> bg_step q r \<Longrightarrow> bg_run p r"

definition bg_init :: "int \<Rightarrow> string \<Rightarrow> string \<Rightarrow> bg_process" where
  "bg_init now i command =
     \<lparr>bg_shell = new_background_shell now i command, bg_written = [], bg_pipe = [], bg_open = True, bg_status = None\<rparr>"

text \<open>The buffer holds the cap of what was drained, and drained plus unread is what was written.\<close>

definition bg_inv :: "bg_process \<Rightarrow> bool" where
  "bg_inv p \<longleftrightarrow> (\<exists>d. bg_written p = d @ bg_pipe p
       \<and> sh_stdout (bg_shell p) = (take shell_output_cap d, shell_output_cap < length d))
     \<and> (sh_exit (bg_shell p) \<noteq> None \<longrightarrow>
          \<not> bg_open p \<and> (\<exists>e. bg_status p = Some e \<and> sh_exit (bg_shell p) = Some (wait_exit_code e)))
     \<and> (\<not> bg_open p \<longrightarrow> bg_status p \<noteq> None)"

lemma bg_init_inv: "bg_inv (bg_init now i command)"
  by (simp add: bg_inv_def bg_init_def new_background_shell_def)

lemma sink_chunk:
  "b \<noteq> [] \<Longrightarrow> sink (take shell_output_cap d, shell_output_cap < length d) b
     = (take shell_output_cap (d @ b), shell_output_cap < length (d @ b))"
  by (rule shell_sink.put_take) simp

lemma bg_step_inv [invars]: "bg_step p q \<Longrightarrow> bg_inv p \<Longrightarrow> bg_inv q"
proof (induction rule: bg_step.induct)
  case (Drain p n)
  then obtain d where d: "bg_written p = d @ bg_pipe p"
    "sh_stdout (bg_shell p) = (take shell_output_cap d, shell_output_cap < length d)"
    by (auto simp: bg_inv_def)
  have ne: "take n (bg_pipe p) \<noteq> []" using Drain.hyps by auto
  have "bg_written p = (d @ take n (bg_pipe p)) @ drop n (bg_pipe p)" using d(1) by simp
  moreover have "sh_stdout (append_stdout (take n (bg_pipe p)) (bg_shell p))
    = (take shell_output_cap (d @ take n (bg_pipe p)), shell_output_cap < length (d @ take n (bg_pipe p)))"
    using sink_chunk [OF ne, of d] d(2) by (simp add: append_stdout_def)
  ultimately show ?case using Drain.prems Drain.hyps(1)
    by (auto simp: bg_inv_def append_stdout_def intro!: exI [of _ "d @ take n (bg_pipe p)"])
qed (auto simp: bg_inv_def set_exit_def)

lemma bg_run_inv: "bg_run p q \<Longrightarrow> bg_inv p \<Longrightarrow> bg_inv q"
  by (induction rule: bg_run.induct) (auto intro: bg_step_inv)


lemma lost_run:
  "bg_run (bg_init 0 ''k'' ''echo x'')
     ((bg_init 0 ''k'' ''echo x'')\<lparr>bg_written := ''x'', bg_pipe := ''x'', bg_open := False, bg_status := Some RunOk,
        bg_shell := set_exit 0 (new_background_shell 0 ''k'' ''echo x'')\<rparr>)"
proof -
  let ?p0 = "bg_init 0 ''k'' ''echo x''"
  let ?p1 = "?p0\<lparr>bg_written := ''x'', bg_pipe := ''x''\<rparr>"
  let ?p2 = "?p1\<lparr>bg_status := Some RunOk\<rparr>"
  let ?p3 = "?p2\<lparr>bg_open := False\<rparr>"
  let ?p4 = "?p3\<lparr>bg_shell := set_exit 0 (new_background_shell 0 ''k'' ''echo x'')\<rparr>"
  have "bg_step ?p0 ?p1" using Child_Write [of ?p0 "''x''"] by (simp add: bg_init_def)
  moreover have "bg_step ?p1 ?p2" by (rule Child_Exit) (simp add: bg_init_def)
  moreover have "bg_step ?p2 ?p3" by (rule Wait [of _ RunOk]) (simp_all add: bg_init_def)
  moreover have "bg_step ?p3 ?p4" using Set_Exit [of ?p3 RunOk] by (simp add: bg_init_def)
  ultimately have "bg_run ?p0 ?p4" by (meson run_refl run_step)
  then show ?thesis by (simp add: bg_init_def)
qed

inductive_cases bg_stepE: "bg_step p q"

lemma closed_stays:
  "bg_step p q \<Longrightarrow> \<not> bg_open p \<Longrightarrow> \<not> bg_open q \<and> sh_stdout (bg_shell q) = sh_stdout (bg_shell p)"
  by (erule bg_stepE) (auto simp: set_exit_def)

lemma closed_stays_run:
  "bg_run p q \<Longrightarrow> \<not> bg_open p \<Longrightarrow> \<not> bg_open q \<and> sh_stdout (bg_shell q) = sh_stdout (bg_shell p)"
  by (induction rule: bg_run.induct) (auto dest: closed_stays)


text \<open>
  output can be lost for good.  Because \<open>Wait\<close> runs concurrently with the drains, a background
  \<open>echo x\<close> can end as a completed shell with exit code 0 and empty output, and no later step of any
  goroutine ever delivers the missing bytes.
\<close>

theorem background_output_can_be_lost:
  "\<exists>p. bg_run (bg_init 0 ''k'' ''echo x'') p \<and> bg_written p = ''x''
     \<and> snap_exit (shell_snapshot (bg_shell p)) = Some 0
     \<and> (\<forall>q. \<not> bg_run p q \<or> snap_stdout (shell_snapshot (bg_shell q)) = [])"
proof -
  let ?p = "(bg_init 0 ''k'' ''echo x'')\<lparr>bg_written := ''x'', bg_pipe := ''x'', bg_open := False, bg_status := Some RunOk,
        bg_shell := set_exit 0 (new_background_shell 0 ''k'' ''echo x'')\<rparr>"
  have "snap_stdout (shell_snapshot (bg_shell q)) = []" if "bg_run ?p q" for q
    using closed_stays_run [OF that] by (simp add: shell_snapshot_def set_exit_def new_background_shell_def)
  with lost_run show ?thesis
    by (intro exI [of _ ?p]) (auto simp: shell_snapshot_def set_exit_def)
qed

theorem background_output_can_be_lost_witness:
  "\<exists>p::bg_process. bg_written p = ''x'' \<and> snap_stdout (shell_snapshot (bg_shell p)) = []"
proof -
  obtain p where "bg_written p = ''x''" "\<forall>q. \<not> bg_run p q \<or> snap_stdout (shell_snapshot (bg_shell q)) = []"
    using background_output_can_be_lost by blast
  moreover have "bg_run p p" by (rule run_refl)
  ultimately show ?thesis by blast
qed

end
