(* ===== verification/ReadTool.thy ===== *)
theory ReadTool
  imports WorkspaceSet
begin

text \<open>
  The \<open>Read\<close> tool (\<open>internal/tools/read.go\<close>): argument parsing, path resolution and the numbered
  lines \<open>bufio.Scanner\<close> delivers, with its limit of one MiB per line.
\<close>

section \<open>The state the file tools share\<close>

text \<open>The file system, the read tracker and the counters of \<open>deps.Metrics\<close> the file tools bump.\<close>

record file_session =
  se_fs :: fs
  se_tracker :: tracker
  se_violations :: nat
  se_read_bytes :: nat
  se_write_bytes :: nat
  se_edit_bytes :: nat

definition note_violation :: "resolve_err \<Rightarrow> file_session \<Rightarrow> file_session" where
  "note_violation e s = (if e = OutsideWorkspace then s\<lparr>se_violations := Suc (se_violations s)\<rparr> else s)"

section \<open>Scanning lines\<close>

definition scan_token_max :: nat where "scan_token_max = 1024 * 1024"

definition drop_cr :: "string \<Rightarrow> string" where
  "drop_cr l = (if l \<noteq> [] \<and> last l = CHR 0x0D then butlast l else l)"

text \<open>The pieces \<open>ScanLines\<close> cuts: an empty rest after the last newline is no line.\<close>

definition raw_lines :: "string \<Rightarrow> string list" where
  "raw_lines s = (let ps = split_on newline s in if last ps = [] then butlast ps else ps)"

text \<open>The tokens a scan delivers and whether it ends with \<open>ErrTooLong\<close>.\<close>

definition scan_lines :: "string \<Rightarrow> string list \<times> bool" where
  "scan_lines s =
     (let ls = raw_lines s; ok = takeWhile (\<lambda>l. length l < scan_token_max) ls
      in (map drop_cr ok, length ok < length ls))"

section \<open>readNumbered\<close>

definition numbered_line :: "nat \<Rightarrow> string \<Rightarrow> string" where
  "numbered_line n l = dec_nat n @ CHR 0x09 # l @ [newline]"

text \<open>The scan loop: output, last line number, lines written and whether it left by \<open>break\<close>.\<close>

fun read_loop :: "nat \<Rightarrow> nat \<Rightarrow> nat \<Rightarrow> nat \<Rightarrow> string list \<Rightarrow> string \<times> nat \<times> nat \<times> bool" where
  "read_loop offset limit line_no written [] = ([], line_no, written, False)"
| "read_loop offset limit line_no written (t # ts) =
     (let n = Suc line_no
      in if n < offset then read_loop offset limit n written ts
         else if limit \<le> written then ([], n, written, True)
         else let (out, n', w', brk) = read_loop offset limit n (Suc written) ts
              in (numbered_line n t @ out, n', w', brk))"

definition read_numbered :: "string \<Rightarrow> nat \<Rightarrow> nat \<Rightarrow> string + string" where
  "read_numbered data offset limit =
     (let (toks, too_long) = scan_lines data;
          (out, line_no, written, brk) = read_loop offset limit 0 0 toks
      in if too_long \<and> \<not> brk then Inl ''bufio.Scanner: token too long''
         else if written = 0 \<and> 0 < line_no \<and> line_no < offset then
           Inl (''offset '' @ dec_nat offset @ '' exceeds line count '' @ dec_nat line_no)
         else Inr out)"

text \<open>What the agent is promised: the lines from \<open>offset\<close> on, at most \<open>limit\<close>, each with its number.\<close>

definition numbered_block :: "nat \<Rightarrow> string list \<Rightarrow> string" where
  "numbered_block n ls = concat (map (\<lambda>(i, l). numbered_line (n + i) l) (enumerate 0 ls))"

lemma numbered_block_Cons: "numbered_block n (l # ls) = numbered_line n l @ numbered_block (Suc n) ls"
proof -
  have "map (\<lambda>(i, l). numbered_line (n + i) l) (enumerate (Suc 0) ls) = map (\<lambda>(i, l). numbered_line (Suc n + i) l) (enumerate 0 ls)"
    by (rule nth_equalityI) (auto simp: nth_enumerate_eq)
  then show ?thesis by (simp add: numbered_block_def)
qed

lemma read_loop_written:
  "offset \<le> Suc n \<Longrightarrow> w \<le> limit \<Longrightarrow> read_loop offset limit n w ts =
     (numbered_block (Suc n) (take (limit - w) ts), n + min (Suc (limit - w)) (length ts),
      w + min (limit - w) (length ts), limit - w < length ts)"
proof (induction ts arbitrary: n w)
  case (Cons t ts)
  show ?case
  proof (cases "limit \<le> w")
    case True
    with Cons.prems show ?thesis by (simp add: numbered_block_def)
  next
    case False
    then have "limit - w = Suc (limit - Suc w)" by simp
    with Cons.prems False Cons.IH [of "Suc n" "Suc w"] show ?thesis
      by (auto simp: Let_def numbered_block_Cons)
  qed
qed (simp add: numbered_block_def)

lemma read_loop_skip:
  "0 < offset \<Longrightarrow> n < offset \<Longrightarrow> read_loop offset limit n 0 ts =
     (if length ts < offset - n then ([], n + length ts, 0, False)
      else read_loop offset limit (offset - 1) 0 (drop (offset - 1 - n) ts))"
proof (induction ts arbitrary: n)
  case (Cons t ts)
  show ?case
  proof (cases "Suc n < offset")
    case True
    then have "offset - Suc n = Suc (offset - Suc (Suc n))" by simp
    with True Cons.IH [of "Suc n"] Cons.prems show ?thesis by (auto simp: Let_def)
  next
    case False
    with Cons.prems have "n = offset - 1" by simp
    then show ?thesis using Cons.prems by simp
  qed
qed simp

text \<open>
  \<open>readNumbered\<close> returns exactly the lines from \<open>offset\<close> on, \<open>limit\<close> of them at most, each with its
  line number.  It fails in two cases only: the offset lies past the last line of a file that has
  lines, or a line of a MiB or more stands before the end of the requested window plus one line.
\<close>

theorem read_numbered_exact:
  assumes "0 < offset" "0 < limit"
  shows "read_numbered data offset limit =
    (let (ls, too_long) = scan_lines data
     in if too_long \<and> length ls < offset + limit then Inl ''bufio.Scanner: token too long''
        else if ls \<noteq> [] \<and> length ls < offset then
          Inl (''offset '' @ dec_nat offset @ '' exceeds line count '' @ dec_nat (length ls))
        else Inr (numbered_block offset (take limit (drop (offset - 1) ls))))"
proof -
  obtain ls tl where sc: "scan_lines data = (ls, tl)" by (cases "scan_lines data")
  show ?thesis
  proof (cases "length ls < offset")
    case True
    then have "read_loop offset limit 0 0 ls = ([], length ls, 0, False)"
      using assms read_loop_skip [of offset 0 limit ls] by simp
    moreover have "take limit (drop (offset - 1) ls) = []" using True by simp
    ultimately show ?thesis using True assms by (auto simp: read_numbered_def sc numbered_block_def)
  next
    case False
    then have "read_loop offset limit 0 0 ls = read_loop offset limit (offset - 1) 0 (drop (offset - 1) ls)"
      using assms read_loop_skip [of offset 0 limit ls] by simp
    also have "\<dots> = (numbered_block offset (take limit (drop (offset - 1) ls)),
        offset - 1 + min (Suc limit) (length ls - (offset - 1)), min limit (length ls - (offset - 1)),
        limit < length ls - (offset - 1))"
      using assms read_loop_written [of offset "offset - 1" 0 limit "drop (offset - 1) ls"] by simp
    finally show ?thesis using False assms
      by (auto simp: read_numbered_def sc Let_def)
  qed
qed

theorem read_numbered_exact_witness:
  "read_numbered (''a'' @ [CHR 0x0D, newline] @ ''b'' @ [newline] @ ''c'') 2 1 = Inr (''2'' @ [CHR 0x09] @ ''b'' @ [newline])"
  by (subst read_numbered_exact)
     (simp_all add: scan_lines_def raw_lines_def drop_cr_def scan_token_max_def numbered_block_def numbered_line_def
        dec_nat.simps)

section \<open>The handler\<close>

definition parse_read_args :: "args \<Rightarrow> string + (string \<times> nat \<times> nat)" where
  "parse_read_args a =
     (let p = arg_str0 a ''file_path''
      in if p = [] then Inl ''file_path is required''
         else Inr (p,
           (case arg_int a ''offset'' of Some v \<Rightarrow> if 1 < v then nat v else 1 | None \<Rightarrow> 1),
           (case arg_int a ''limit'' of Some v \<Rightarrow> if 0 < v then nat v else 2000 | None \<Rightarrow> 2000)))"

definition resolve_read_path :: "workspace \<Rightarrow> file_session \<Rightarrow> string \<Rightarrow> (string + string) \<times> file_session" where
  "resolve_read_path w s p =
     (case resolve (se_fs s) w p of
        Inl e \<Rightarrow> (Inl (''resolve path: '' @ resolve_err_text e), note_violation e s)
      | Inr r \<Rightarrow>
          (case k_stat (se_fs s) r of
             Inl e \<Rightarrow> (Inl (''stat: '' @ path_error ''stat'' r e), s)
           | Inr NDir \<Rightarrow> (Inl (''path is a directory: '' @ p), s)
           | Inr _ \<Rightarrow> (Inr r, s)))"

definition handle_read :: "ws_deps \<Rightarrow> args \<Rightarrow> file_session \<Rightarrow> tool_result \<times> file_session" where
  "handle_read d a s =
     (case resolve_workspace d a of
        Inl e \<Rightarrow> (ErrorResult e, s)
      | Inr w \<Rightarrow>
          (case parse_read_args a of
             Inl e \<Rightarrow> (ErrorResult e, s)
           | Inr (p, offset, limit) \<Rightarrow>
               (case resolve_read_path w s p of
                  (Inl e, s') \<Rightarrow> (ErrorResult e, s')
                | (Inr r, s') \<Rightarrow>
                    (case k_read_file (se_fs s') r of
                       Inl e \<Rightarrow> (ErrorResult (''read: '' @ path_error ''open'' r e), s')
                     | Inr data \<Rightarrow>
                         (case read_numbered data offset limit of
                            Inl e \<Rightarrow> (ErrorResult (''read: '' @ e), s')
                          | Inr body \<Rightarrow>
                              (TextResult body,
                               s'\<lparr>se_tracker := mark_read (se_tracker s') r,
                                  se_read_bytes := se_read_bytes s' + length body\<rparr>))))))"

lemma note_violation_fields [simp]:
  "se_fs (note_violation e s) = se_fs s" "se_tracker (note_violation e s) = se_tracker s"
  by (simp_all add: note_violation_def)

lemma resolve_read_path_state:
  "resolve_read_path w s p = (x, s') \<Longrightarrow> se_fs s' = se_fs s \<and> se_tracker s' = se_tracker s \<and> (\<forall>r. x = Inr r \<longrightarrow> s' = s)"
  by (auto simp: resolve_read_path_def split: sum.splits node.splits)

lemma resolve_read_path_ok [dest!]:
  "resolve_read_path w s p = (Inr r, s') \<Longrightarrow> s' = s \<and> resolve (se_fs s) w p = Inr r"
  by (auto simp: resolve_read_path_def split: sum.splits node.splits)

lemma parse_read_args_pos: "parse_read_args a = Inr (p, off, lmt) \<Longrightarrow> 0 < off \<and> 0 < lmt"
  by (auto simp: parse_read_args_def Let_def split: if_splits option.splits)

text \<open>
  \<open>Read\<close> never changes a file, and what it returns is the content: a successful call resolves the
  path inside the workspace, finds a regular file there, returns its numbered window and marks that
  file, and only that file, as read.
\<close>

theorem read_faithful:
  assumes "handle_read d a s = (res, s')"
  shows "se_fs s' = se_fs s \<and>
    (case res of
       ErrorResult _ \<Rightarrow> se_tracker s' = se_tracker s
     | TextResult body \<Rightarrow>
         (\<exists>w p off lmt r data. resolve_workspace d a = Inr w \<and> parse_read_args a = Inr (p, off, lmt)
            \<and> resolve (se_fs s) w p = Inr r \<and> k_read_file (se_fs s) r = Inr data
            \<and> body = numbered_block off (take lmt (drop (off - 1) (fst (scan_lines data))))
            \<and> se_tracker s' = insert r (se_tracker s)))"
proof -
  have body: "body = numbered_block off (take lmt (drop (off - 1) (fst (scan_lines data))))"
    if "parse_read_args a = Inr (p, off, lmt)" "read_numbered data off lmt = Inr body" for p off lmt data body
    using that(2) read_numbered_exact [of off lmt data] parse_read_args_pos [OF that(1)]
    by (auto simp: Let_def split: prod.splits if_splits)
  show ?thesis
  proof (cases res)
    case (ErrorResult e)
    with assms show ?thesis
      by (auto simp: handle_read_def dest!: resolve_read_path_state split: sum.splits prod.splits)
  next
    case (TextResult b)
    from assms TextResult obtain w p off lmt r data where
      h: "resolve_workspace d a = Inr w" "parse_read_args a = Inr (p, off, lmt)"
        "resolve (se_fs s) w p = Inr r" "k_read_file (se_fs s) r = Inr data"
        "read_numbered data off lmt = Inr b"
        "s' = s\<lparr>se_tracker := mark_read (se_tracker s) r, se_read_bytes := se_read_bytes s + length b\<rparr>"
      by (auto simp: handle_read_def split: sum.splits prod.splits)
    with h body [OF h(2,5)] TextResult show ?thesis by (auto simp: mark_read_def)
  qed
qed

definition demo_session :: file_session where
  "demo_session = \<lparr>se_fs = flood_fs([''w'', ''m.go''] \<mapsto> NFile ''package m''), se_tracker = {}, se_violations = 0,
     se_read_bytes = 0, se_write_bytes = 0, se_edit_bytes = 0\<rparr>"

definition demo_deps :: ws_deps where
  "demo_deps = \<lparr>dep_workspace = Some flood_ws, dep_workspaces = None\<rparr>"

lemma demo_lookups:
  "resolve (se_fs demo_session) flood_ws ''m.go'' = Inr ''/w/m.go''"
  "k_stat (se_fs demo_session) ''/w/m.go'' = Inr (NFile ''package m'')"
  "k_read_file (se_fs demo_session) ''/w/m.go'' = Inr ''package m''"
  by code_simp+

lemma demo_workspace: "map_of a ''workspace'' = None \<Longrightarrow> resolve_workspace demo_deps a = Inr flood_ws"
  by (simp add: resolve_workspace_def demo_deps_def flood_ws_def arg_str0_def arg_str_def trim_space_def trim_right_def)

lemma demo_read:
  "handle_read demo_deps [(''file_path'', JStr ''m.go'')] demo_session =
     (TextResult (''1'' @ [CHR 0x09] @ ''package m'' @ [newline]),
      demo_session\<lparr>se_tracker := {''/w/m.go''}, se_read_bytes := 12\<rparr>)"
proof -
  have p: "parse_read_args [(''file_path'', JStr ''m.go'')] = Inr (''m.go'', 1, 2000)"
    by (simp add: parse_read_args_def arg_str0_def arg_str_def arg_int_def Let_def)
  have b: "read_numbered ''package m'' 1 2000 = Inr (''1'' @ [CHR 0x09] @ ''package m'' @ [newline])"
    by (simp add: read_numbered_def scan_lines_def raw_lines_def drop_cr_def scan_token_max_def numbered_line_def
        dec_nat.simps)
  show ?thesis
    by (simp add: handle_read_def demo_workspace p resolve_read_path_def demo_lookups b [simplified] mark_read_def)
       (simp add: demo_session_def)
qed

theorem read_faithful_witness:
  "se_fs (snd (handle_read demo_deps [(''file_path'', JStr ''m.go'')] demo_session)) = se_fs demo_session"
  using read_faithful [OF demo_read] demo_read by simp

end
