(* ===== verification/WriteTool.thy ===== *)
theory WriteTool
  imports ReadTool
begin

text \<open>
  The \<open>Write\<close> tool (\<open>internal/tools/write.go\<close>): creation of missing directories, the rule that an
  existing file must have been read first, and the atomic replacement through a temporary file.  The
  contract the file tools need from path resolution is the locale \<open>confined_paths\<close>, interpreted on
  \<open>Workspace.resolve\<close>.  Failures of the system calls inside \<open>atomicWrite\<close> are its argument.
\<close>

section \<open>atomicWrite\<close>

text \<open>What may go wrong after the temporary file exists; a failing write leaves a prefix behind.\<close>

record write_faults =
  wf_write :: "(nat \<times> errno) option"
  wf_sync :: "errno option"
  wf_rename :: "errno option"
  wf_close :: "errno option"
  wf_remove :: bool

definition no_faults :: write_faults where
  "no_faults = \<lparr>wf_write = None, wf_sync = None, wf_rename = None, wf_close = None, wf_remove = False\<rparr>"

definition tmp_suffix :: "nat \<Rightarrow> nat \<Rightarrow> string" where
  "tmp_suffix pid nano = ''.tmp.'' @ dec_nat pid @ ''.'' @ dec_nat nano"

definition rename_with :: "errno option \<Rightarrow> fs \<Rightarrow> string \<Rightarrow> string \<Rightarrow> errno + fs" where
  "rename_with flt f old new = (case flt of Some e \<Rightarrow> Inl e | None \<Rightarrow> k_rename f old new)"

text \<open>The body between the deferred calls: the error so far and the file system.\<close>

definition atomic_body :: "write_faults \<Rightarrow> string \<Rightarrow> string \<Rightarrow> string \<Rightarrow> phys \<Rightarrow> fs \<Rightarrow> string option \<times> fs" where
  "atomic_body flts tmp path data q f1 =
     (case wf_write flts of
        Some (n, e) \<Rightarrow> (Some (path_error ''write'' tmp e), f1(q \<mapsto> NFile (take n data)))
      | None \<Rightarrow>
          (let f2 = f1(q \<mapsto> NFile data)
           in case wf_sync flts of
                Some e \<Rightarrow> (Some (path_error ''sync'' tmp e), f2)
              | None \<Rightarrow>
                  (case rename_with (wf_rename flts) f2 tmp path of
                     Inl e \<Rightarrow> (Some (path_error ''rename'' (tmp @ '' '' @ path) e), f2)
                   | Inr f3 \<Rightarrow> (None, f3))))"

definition atomic_write :: "write_faults \<Rightarrow> nat \<Rightarrow> nat \<Rightarrow> fs \<Rightarrow> string \<Rightarrow> string \<Rightarrow> string option \<times> fs" where
  "atomic_write flts pid nano f path data =
     (let tmp = path @ tmp_suffix pid nano
      in case k_create_excl f tmp of
           Inl e \<Rightarrow> (Some (path_error ''open'' tmp e), f)
         | Inr (q, f1) \<Rightarrow>
             (let (err, f2) = atomic_body flts tmp path data q f1;
                  err' = (case err of Some e \<Rightarrow> Some e | None \<Rightarrow> map_option (path_error ''close'' tmp) (wf_close flts))
              in (err', if err' \<noteq> None \<and> \<not> wf_remove flts then k_unlink f2 tmp else f2)))"

lemma tmp_suffix_plain: "plain c \<Longrightarrow> plain (c @ tmp_suffix pid nano)"
proof -
  assume c: "plain c"
  have "\<not> is_digit slash" by code_simp
  then have "slash \<notin> set (dec_nat n)" for n using dec_nat_digits by blast
  with c have "slash \<notin> set (c @ tmp_suffix pid nano)" by (auto simp: tmp_suffix_def)
  moreover have "length (c @ tmp_suffix pid nano) > 2" by (simp add: tmp_suffix_def)
  then have "c @ tmp_suffix pid nano \<noteq> ''.''" "c @ tmp_suffix pid nano \<noteq> ''..''" "c @ tmp_suffix pid nano \<noteq> []"
    by (auto dest: arg_cong [of _ _ length] simp del: length_append)
  ultimately show ?thesis by (simp add: plain_def)
qed

text \<open>The temporary name is a sibling of the target.\<close>

definition tmp_of :: "phys \<Rightarrow> nat \<Rightarrow> nat \<Rightarrow> phys" where
  "tmp_of q pid nano = butlast q @ [last q @ tmp_suffix pid nano]"

lemma abs_path_tmp: "q \<noteq> [] \<Longrightarrow> abs_path q @ tmp_suffix pid nano = abs_path (tmp_of q pid nano)"
  by (cases q rule: rev_cases) (auto simp: tmp_of_def abs_path_snoc)

lemma tmp_of_plain: "q \<noteq> [] \<Longrightarrow> list_all plain q \<Longrightarrow> list_all plain (tmp_of q pid nano)"
  by (cases q rule: rev_cases) (auto simp: tmp_of_def tmp_suffix_plain)

lemma tmp_of_neq: "q \<noteq> [] \<Longrightarrow> tmp_of q pid nano \<noteq> q"
  by (cases q rule: rev_cases) (auto simp: tmp_of_def tmp_suffix_def)

lemma butlast_tmp_of [simp]: "butlast (tmp_of q pid nano) = butlast q" "tmp_of q pid nano \<noteq> []"
  by (simp_all add: tmp_of_def)

lemma k_entry_physical:
  assumes "fs_wf f" "physical f (butlast q)" "f (butlast q) = Some NDir" "list_all plain q" "q \<noteq> []"
  shows "k_entry f (abs_path q) = Inr q"
  using assms k_lookup_physical [OF assms(1,2)] by (simp add: k_entry_def)

lemma k_entry_nodir:
  assumes "fs_wf f" "physical f (butlast q)" "f (butlast q) \<noteq> Some NDir" "list_all plain q" "q \<noteq> []"
  shows "\<exists>e. k_entry f (abs_path q) = Inl e"
proof (cases "f (butlast q)")
  case None
  then obtain e where "k_lookup f True (abs_path (butlast q)) = Inl e"
    using k_lookup_missing [OF assms(1,2)] by blast
  then show ?thesis using assms by (simp add: k_entry_def)
next
  case (Some nd)
  then show ?thesis using assms k_lookup_physical [OF assms(1,2)] by (simp add: k_entry_def)
qed

lemma butlast_noteq: "q \<noteq> [] \<Longrightarrow> butlast q \<noteq> q"
  by (metis append_butlast_last_id append_self_conv not_Cons_self2)

text \<open>Changing a name that is not a directory keeps the file system and its physical paths intact.\<close>

lemma fs_wf_upd_file:
  assumes "fs_wf f" "q \<noteq> []" "f (butlast q) = Some NDir" "f q \<noteq> Some NDir" "nd \<noteq> Some NDir"
  shows "fs_wf (f(q := nd))"
  unfolding fs_wf_def
proof (intro conjI allI impI)
  show "(f(q := nd)) [] = Some NDir" using assms by auto
  fix p c assume "(f(q := nd)) (p @ [c]) \<noteq> None"
  then have "f p = Some NDir" using assms fs_wf_parent [OF assms(1), of p c] by (auto split: if_splits)
  then show "(f(q := nd)) p = Some NDir" using assms(4) by auto
qed

lemma physical_upd: "physical f p \<Longrightarrow> \<not> is_link nd \<Longrightarrow> physical (f(q := nd)) p"
  by (auto simp: physical_def)

definition replaced :: "fs \<Rightarrow> phys \<Rightarrow> string \<Rightarrow> fs" where
  "replaced f q data = f(q \<mapsto> NFile data)"

lemma atomic_body_cases:
  assumes "\<And>x. f1(t \<mapsto> NFile x) = f(t \<mapsto> NFile x)"
    and "k_rename (f(t \<mapsto> NFile data)) tmp path = (if d then Inl e0 else Inr f3)"
  shows "(\<exists>e x. atomic_body flts tmp path data t f1 = (Some e, f(t \<mapsto> NFile x)))
    \<or> (atomic_body flts tmp path data t f1 = (None, f3) \<and> \<not> d)"
  unfolding atomic_body_def rename_with_def Let_def
  using assms by (cases "wf_write flts"; cases "wf_sync flts"; cases "wf_rename flts"; cases d) auto

text \<open>The system calls on a fresh temporary sibling of a physical path.\<close>

lemma tmp_calls:
  assumes "fs_wf f" "physical f q" "q \<noteq> []" "f (butlast q) = Some NDir" "f (tmp_of q pid nano) = None"
  defines "t \<equiv> tmp_of q pid nano"
  shows "k_create_excl f (abs_path t) = Inr (t, f(t \<mapsto> NFile []))"
    and "k_unlink (f(t \<mapsto> NFile x)) (abs_path t) = f"
    and "k_rename (f(t \<mapsto> NFile x)) (abs_path t) (abs_path q) = (if f q = Some NDir then Inl EISDIR else Inr (replaced f q x))"
    and "f q \<noteq> Some NDir \<Longrightarrow> k_unlink (replaced f q data) (abs_path t) = replaced f q data"
proof -
  have fresh: "f t = None" and tq: "t \<noteq> q" using assms(5) tmp_of_neq [OF assms(3)] by (simp_all add: t_def)
  have pl: "list_all plain q" "list_all plain t" using assms(2,3) physical_plain tmp_of_plain by (auto simp: t_def)
  have pb: "physical f (butlast q)" by (rule physical_butlast [OF assms(2)])
  have bt: "butlast t = butlast q" "t \<noteq> []" by (simp_all add: t_def)
  have bl: "butlast q \<noteq> t" "butlast q \<noteq> q" using fresh assms(4) butlast_noteq [OF assms(3)] by auto
  have entry: "k_entry (f(t \<mapsto> NFile x)) (abs_path t) = Inr t" "k_entry (f(t \<mapsto> NFile x)) (abs_path q) = Inr q" for x
  proof -
    have "fs_wf (f(t \<mapsto> NFile x))" using assms(1,4) fresh bt by (intro fs_wf_upd_file) auto
    moreover have "physical (f(t \<mapsto> NFile x)) (butlast q)" by (rule physical_upd [OF pb]) simp
    ultimately show "k_entry (f(t \<mapsto> NFile x)) (abs_path t) = Inr t" "k_entry (f(t \<mapsto> NFile x)) (abs_path q) = Inr q"
      using k_entry_physical [of "f(t \<mapsto> NFile x)"] assms(3,4) bl bt pl by auto
  qed
  show "k_create_excl f (abs_path t) = Inr (t, f(t \<mapsto> NFile []))"
    using k_entry_physical [of f t] assms(1,4) pb fresh pl bt by (simp add: k_create_excl_def)
  show "k_unlink (f(t \<mapsto> NFile x)) (abs_path t) = f"
    using entry(1) [of x] fresh by (auto simp: k_unlink_def fun_eq_iff)
  show "k_rename (f(t \<mapsto> NFile x)) (abs_path t) (abs_path q) = (if f q = Some NDir then Inl EISDIR else Inr (replaced f q x))"
    using entry [of x] tq fresh by (auto simp: k_rename_def replaced_def fun_eq_iff)
  assume nd: "f q \<noteq> Some NDir"
  have "fs_wf (replaced f q data)" unfolding replaced_def using assms(1,3,4) nd by (intro fs_wf_upd_file) auto
  moreover have "physical (replaced f q data) (butlast q)" unfolding replaced_def by (rule physical_upd [OF pb]) simp
  ultimately have "k_entry (replaced f q data) (abs_path t) = Inr t"
    using k_entry_physical [of "replaced f q data" t] assms(4) bl bt pl by (simp add: replaced_def)
  then show "k_unlink (replaced f q data) (abs_path t) = replaced f q data"
    using fresh tq by (auto simp: k_unlink_def replaced_def fun_eq_iff)
qed

text \<open>The three ways a replacement can end.\<close>

lemma atomic_write_shape:
  assumes "fs_wf f" "physical f q" "q \<noteq> []"
    and "atomic_write flts pid nano f (abs_path q) data = (err, f')"
  obtains (untouched) "f' = f" "err \<noteq> None"
  | (left_over) x where "wf_remove flts" "err \<noteq> None" "f (butlast q) = Some NDir" "f (tmp_of q pid nano) = None"
      "f' = f(tmp_of q pid nano \<mapsto> NFile x)"
  | (stored) "f (butlast q) = Some NDir" "f q \<noteq> Some NDir" "f' = replaced f q data" "err = None \<or> wf_close flts \<noteq> None"
proof -
  let ?t = "tmp_of q pid nano"
  have pl: "list_all plain q" "list_all plain ?t" using assms physical_plain tmp_of_plain by auto
  note tmp = abs_path_tmp [OF assms(3)]
  show thesis
  proof (cases "f (butlast q) = Some NDir \<and> f ?t = None")
    case False
    then have "\<exists>e. k_create_excl f (abs_path ?t) = Inl e"
      using k_entry_physical [of f ?t] k_entry_nodir [of f ?t] assms(1) physical_butlast [OF assms(2)] pl
      by (cases "f (butlast q) = Some NDir") (auto simp: k_create_excl_def)
    with assms(4) have "f' = f" "err \<noteq> None" by (auto simp: atomic_write_def tmp)
    then show thesis by (rule untouched)
  next
    case True
    then have dir: "f (butlast q) = Some NDir" and fresh: "f ?t = None" by auto
    note calls = tmp_calls [OF assms(1-3) dir fresh]
    have upd2: "(f(?t \<mapsto> NFile []))(?t \<mapsto> NFile x) = f(?t \<mapsto> NFile x)" for x by simp
    consider (before) e x where "atomic_body flts (abs_path ?t) (abs_path q) data ?t (f(?t \<mapsto> NFile [])) = (Some e, f(?t \<mapsto> NFile x))"
      | (after) "atomic_body flts (abs_path ?t) (abs_path q) data ?t (f(?t \<mapsto> NFile [])) = (None, replaced f q data)" "f q \<noteq> Some NDir"
      using atomic_body_cases [OF upd2 calls(3) [of data]] by blast
    then show thesis
    proof cases
      case before
      with assms(4) have "err \<noteq> None" "f' = (if wf_remove flts then f(?t \<mapsto> NFile x) else f)"
        by (auto simp: atomic_write_def tmp calls(1,2) Let_def)
      then show thesis using untouched left_over dir fresh by (cases "wf_remove flts") auto
    next
      case after
      with assms(4) calls(4) have "f' = replaced f q data" "err = None \<or> wf_close flts \<noteq> None"
        by (auto simp: atomic_write_def tmp calls(1) Let_def split: if_splits)
      then show thesis using stored dir after(2) by blast
    qed
  qed
qed

lemma atomic_write_cases:
  assumes "fs_wf f" "physical f q" "q \<noteq> []"
    and "atomic_write flts pid nano f (abs_path q) data = (err, f')"
  shows "(f' q = f q \<or> f' q = Some (NFile data))
    \<and> (\<forall>p. p \<noteq> q \<and> (p \<noteq> tmp_of q pid nano \<or> f p \<noteq> None) \<longrightarrow> f' p = f p)
    \<and> (err = None \<longrightarrow> f' = replaced f q data)
    \<and> (\<not> wf_remove flts \<longrightarrow> f' = f \<or> f' = replaced f q data \<and> (err = None \<or> wf_close flts \<noteq> None))"
  using assms
proof (cases rule: atomic_write_shape)
  case left_over
  then show ?thesis using tmp_of_neq [OF assms(3), of pid nano] by auto
qed (auto simp: replaced_def)

text \<open>
  C8: replacing a file is atomic.  Whatever fails on the way, the target holds its old content or
  exactly the new one; no other path changes, except that the temporary sibling may survive if its
  removal fails too; success means the new content is in place, and an error that is not the final
  \<open>close\<close> means the file system is as before.
\<close>

theorem atomic_write_atomic:
  assumes "fs_wf f" "physical f q" "q \<noteq> []"
    and "atomic_write flts pid nano f (abs_path q) data = (err, f')"
  shows "(f' q = f q \<or> f' q = Some (NFile data))
    \<and> (\<forall>p. p \<noteq> q \<and> (p \<noteq> tmp_of q pid nano \<or> f p \<noteq> None) \<longrightarrow> f' p = f p)
    \<and> (err = None \<longrightarrow> f' = replaced f q data)
    \<and> (\<not> wf_remove flts \<longrightarrow> f' = f \<or> f' = replaced f q data \<and> (err = None \<or> wf_close flts \<noteq> None))"
  using assms by (rule atomic_write_cases)

theorem atomic_write_atomic_witness:
  "let (err, f') = atomic_write (no_faults\<lparr>wf_sync := Some EIO\<rparr>) 7 1 flood_fs ''/etc/passwd'' ''x''
   in f' [''etc'', ''passwd''] = Some (NFile ''root:x:0:0'') \<or> f' [''etc'', ''passwd''] = Some (NFile ''x'')"
proof -
  have "physical flood_fs [''etc'', ''passwd'']"
    by (auto simp: flood_fs_def physical_def plain_def prefix_Cons is_link_def split: if_splits)
  from atomic_write_atomic [OF flood_fs_wf this _ surjective_pairing, of "no_faults\<lparr>wf_sync := Some EIO\<rparr>" 7 1 "''x''"]
  show ?thesis by (auto simp: split_beta abs_path_def flood_fs_def)
qed

section \<open>Missing directories\<close>

lemma fs_wf_upd_dir:
  assumes "fs_wf f" "f q = Some NDir" "f (q @ [c]) = None"
  shows "fs_wf (f(q @ [c] \<mapsto> NDir))"
  unfolding fs_wf_def
proof (intro conjI allI impI)
  show "(f(q @ [c] \<mapsto> NDir)) [] = Some NDir" using assms(1) by simp
  fix p d assume "(f(q @ [c] \<mapsto> NDir)) (p @ [d]) \<noteq> None"
  then have "f p = Some NDir" using assms fs_wf_parent [OF assms(1), of p d] by (auto split: if_splits)
  then show "(f(q @ [c] \<mapsto> NDir)) p = Some NDir" using assms(3) by auto
qed

definition with_dirs :: "fs \<Rightarrow> phys \<Rightarrow> fs" where
  "with_dirs f q = (\<lambda>p. if prefix p q \<and> f p = None then Some NDir else f p)"

lemma with_dirs_existing: "fs_wf f \<Longrightarrow> f q \<noteq> None \<Longrightarrow> with_dirs f q = f"
proof
  fix p assume a: "fs_wf f" "f q \<noteq> None"
  have "f p \<noteq> None" if pre: "prefix p q"
  proof
    assume n: "f p = None"
    from pre obtain r where "q = p @ r" by (auto simp: prefix_def)
    with fs_wf_missing_below [OF a(1) n, of r] a(2) show False by simp
  qed
  then show "with_dirs f q p = f p" by (auto simp: with_dirs_def)
qed

lemma with_dirs_snoc: "f (q @ [c]) = None \<Longrightarrow> (with_dirs f q)(q @ [c] \<mapsto> NDir) = with_dirs f (q @ [c])"
  by (auto simp: with_dirs_def fun_eq_iff)

lemma mkdir_all_physical:
  assumes "fs_wf f" "physical f q" "length q \<le> n"
  shows "mkdir_all n f (abs_path q) = Inr f' \<Longrightarrow>
    f' = with_dirs f q \<and> fs_wf f' \<and> physical f' q \<and> f' q = Some NDir"
  using assms(2,3)
proof (induction q arbitrary: n f' rule: rev_induct)
  case Nil
  have "k_stat f (abs_path []) = Inr NDir"
    using k_stat_physical [OF assms(1) Nil.prems(2)] assms(1) by auto
  with Nil have "f' = f" by (simp add: mkdir_all.simps [of n])
  then show ?case using assms(1) Nil with_dirs_existing [OF assms(1), of "[]"] by simp
next
  case (snoc c q)
  have pq: "physical f q" "plain c" using snoc.prems(2) by (auto simp: physical_snoc)
  show ?case
  proof (cases "f (q @ [c])")
    case (Some nd)
    then have "k_stat f (abs_path (q @ [c])) = Inr nd"
      using k_stat_physical [OF assms(1) snoc.prems(2)] by auto
    with snoc.prems(1) have "nd = NDir \<and> f' = f" by (cases nd) (auto simp: mkdir_all.simps [of n])
    with Some snoc.prems assms(1) with_dirs_existing [OF assms(1), of "q @ [c]"] show ?thesis by simp
  next
    case None
    then obtain e where st: "k_stat f (abs_path (q @ [c])) = Inl e"
      using k_stat_physical [OF assms(1) snoc.prems(2)] by auto
    obtain m where n: "n = Suc m" "length q \<le> m" using snoc.prems(3) by (cases n) auto
    have dir: "fp_dir (abs_path (q @ [c])) = abs_path q"
      using snoc.prems(2) physical_plain by fastforce
    obtain g where g: "mkdir_all m f (abs_path q) = Inr g"
      using snoc.prems(1) st by (auto simp: mkdir_all.simps [of "Suc m"] n(1) dir split: sum.splits)
    from snoc.IH [OF g pq(1) n(2)] have ih: "g = with_dirs f q" "fs_wf g" "physical g q" "g q = Some NDir" by auto
    have gc: "g (q @ [c]) = None" using ih(1) None by (simp add: with_dirs_def)
    have "k_entry g (abs_path (q @ [c])) = Inr (q @ [c])"
      using k_entry_physical [OF ih(2), of "q @ [c]"] ih snoc.prems(2) physical_plain by fastforce
    then have "k_mkdir g (abs_path (q @ [c])) = Inr (g(q @ [c] \<mapsto> NDir))"
      using gc by (simp add: k_mkdir_def)
    with snoc.prems(1) st g have f': "f' = g(q @ [c] \<mapsto> NDir)"
      by (simp add: mkdir_all.simps [of "Suc m"] n(1) dir)
    moreover have "physical f' (q @ [c])"
      using f' physical_upd [OF ih(3), of "Some NDir" "q @ [c]"] pq(2) by (simp add: physical_snoc)
    moreover have "fs_wf f'" using f' fs_wf_upd_dir [OF ih(2,4) gc] by simp
    moreover have "with_dirs f (q @ [c]) (q @ [c]) = Some NDir" using None by (simp add: with_dirs_def)
    ultimately show ?thesis using ih(1) None with_dirs_snoc by auto
  qed
qed

section \<open>What the file tools need from path resolution\<close>

text \<open>
  A resolver over a base directory: every name it accepts is a physical path below the base, so that
  no symbolic link is left for the kernel to follow.
\<close>

locale confined_paths =
  fixes base :: phys
    and accept :: "fs \<Rightarrow> string \<Rightarrow> string option"
    and good :: "fs \<Rightarrow> string \<Rightarrow> bool"
  assumes accept_physical:
    "fs_wf f \<Longrightarrow> good f p \<Longrightarrow> accept f p = Some r \<Longrightarrow> \<exists>q. r = abs_path (base @ q) \<and> physical f (base @ q)"
begin

lemma accepted_node:
  assumes "fs_wf f" "good f p" "accept f p = Some r"
  obtains q where "r = abs_path (base @ q)" "physical f (base @ q)" "list_all plain (base @ q)"
    "\<And>nd. k_stat f r = Inr nd \<longleftrightarrow> f (base @ q) = Some nd"
proof -
  obtain q where q: "r = abs_path (base @ q)" "physical f (base @ q)"
    using accept_physical [OF assms] by blast
  have "k_stat f r = Inr nd \<longleftrightarrow> f (base @ q) = Some nd" for nd
    using k_stat_physical [OF assms(1) q(2)] q(1) by auto
  with q physical_plain [OF q(2)] show thesis by (rule that)
qed

text \<open>Replacing the content of an accepted file that can be read.\<close>

lemma overwrite_confined:
  assumes "fs_wf f" "good f p" "accept f p = Some r" "f base = Some NDir" "k_read_file f r = Inr data"
    and "atomic_write flts pid nano f r updated = (err, f2)"
  shows "\<exists>q. r = abs_path q \<and> prefix base q \<and> f q = Some (NFile data)
    \<and> (\<forall>x. x \<noteq> q \<and> (\<not> prefix base x \<or> f x \<noteq> None) \<longrightarrow> f2 x = f x)
    \<and> (f2 q = f q \<or> f2 q = Some (NFile updated)) \<and> (err = None \<longrightarrow> f2 = replaced f q updated)"
proof -
  obtain q where q: "r = abs_path (base @ q)" "physical f (base @ q)"
    "\<And>nd. k_stat f r = Inr nd \<longleftrightarrow> f (base @ q) = Some nd"
    using accepted_node [OF assms(1-3)] by metis
  have data: "f (base @ q) = Some (NFile data)"
    using assms(5) q(3) by (auto simp: k_read_file_def split: sum.splits node.splits)
  then have qn: "q \<noteq> []" using assms(4) by (cases q) simp_all
  then have ne: "base @ q \<noteq> []" by simp
  have tmp: "prefix base (tmp_of (base @ q) pid nano)" using qn by (simp add: tmp_of_def butlast_append prefix_def)
  from atomic_write_cases [OF assms(1) q(2) ne assms(6) [unfolded q(1)]] data tmp q(1)
  show ?thesis by (intro exI [of _ "base @ q"]) auto
qed

text \<open>Creating the parents of an accepted name.\<close>

lemma parents_confined:
  assumes "fs_wf f" "good f p" "accept f p = Some r" "f base = Some NDir" "\<forall>nd. k_stat f r = Inr nd \<longrightarrow> nd \<noteq> NDir"
    and "mkdir_all n f (fp_dir r) = Inr f1" "length (path_elems r) \<le> n"
  shows "\<exists>q. r = abs_path (base @ q) \<and> list_all plain (base @ q) \<and> q \<noteq> [] \<and> f (base @ q) \<noteq> Some NDir
    \<and> f1 = with_dirs f (base @ butlast q) \<and> fs_wf f1 \<and> physical f1 (base @ q) \<and> f1 (base @ butlast q) = Some NDir
    \<and> f1 (base @ q) = f (base @ q) \<and> (\<forall>x. \<not> prefix base x \<or> f x \<noteq> None \<longrightarrow> f1 x = f x)"
proof -
  obtain q where q: "r = abs_path (base @ q)" "physical f (base @ q)" "list_all plain (base @ q)"
    "\<And>nd. k_stat f r = Inr nd \<longleftrightarrow> f (base @ q) = Some nd"
    using accepted_node [OF assms(1-3)] by blast
  have nd: "f (base @ q) \<noteq> Some NDir" using assms(5) q(4) [of NDir] by blast
  then have ne: "q \<noteq> []" using assms(4) by auto
  then have bl: "butlast (base @ q) = base @ butlast q" by (simp add: butlast_append)
  have dir: "fp_dir r = abs_path (base @ butlast q)" using q bl by simp
  have "physical f (base @ butlast q)" using physical_butlast [OF q(2)] bl by simp
  moreover have "length (base @ butlast q) \<le> n" using assms(7) q(1,3) by simp
  ultimately have f1: "f1 = with_dirs f (base @ butlast q)" "fs_wf f1" "physical f1 (base @ butlast q)" "f1 (base @ butlast q) = Some NDir"
    using mkdir_all_physical [OF assms(1)] assms(6) dir by auto
  have at: "f1 (base @ q) = f (base @ q)"
  proof -
    have "\<not> prefix (base @ q) (base @ butlast q)"
      using ne by (metis bl butlast_noteq prefix_order.antisym prefixeq_butlast append_is_Nil_conv)
    then show ?thesis by (simp add: f1(1) with_dirs_def)
  qed
  moreover have "base @ q = (base @ butlast q) @ [last q]" using ne by simp
  ultimately have ph: "physical f1 (base @ q)"
    using f1(3) q(2) by (metis physical_snoc physical_not_link)
  have up: "f x \<noteq> None" if "prefix x base" for x
    using that assms(4) fs_wf_missing_below [OF assms(1), of x] by (metis option.distinct(1) prefix_def)
  have "f1 x = f x" if "\<not> prefix base x \<or> f x \<noteq> None" for x
    using that up by (auto simp: f1(1) with_dirs_def prefix_append)
  then show ?thesis using q(1,3) nd ne f1 ph at by blast
qed

text \<open>Creating the parents of an accepted name and replacing the file touches nothing outside the base.\<close>

lemma store_confined:
  assumes "fs_wf f" "good f p" "accept f p = Some r" "f base = Some NDir" "\<forall>nd. k_stat f r = Inr nd \<longrightarrow> nd \<noteq> NDir"
    and "mkdir_all n f (fp_dir r) = Inr f1" "length (path_elems r) \<le> n"
    and "atomic_write flts pid nano f1 r data = (err, f2)"
  shows "\<exists>q. r = abs_path (base @ q) \<and> list_all plain (base @ q) \<and> q \<noteq> []
    \<and> (\<forall>x. \<not> prefix base x \<or> x \<noteq> base @ q \<and> f x \<noteq> None \<longrightarrow> f2 x = f x)
    \<and> (err = None \<longrightarrow> f2 = replaced (with_dirs f (base @ butlast q)) (base @ q) data)"
proof -
  obtain q where q: "r = abs_path (base @ q)" "list_all plain (base @ q)" "q \<noteq> []" "f1 = with_dirs f (base @ butlast q)"
    "fs_wf f1" "physical f1 (base @ q)" "\<forall>x. \<not> prefix base x \<or> f x \<noteq> None \<longrightarrow> f1 x = f x"
    using parents_confined [OF assms(1-7)] by metis
  have nb: "base @ q \<noteq> []" and bl: "butlast (base @ q) = base @ butlast q" using q(3) by (simp_all add: butlast_append)
  note at = atomic_write_cases [OF q(5,6) nb, of flts pid nano data err f2]
  have "f2 x = f x" if x: "\<not> prefix base x \<or> x \<noteq> base @ q \<and> f x \<noteq> None" for x
  proof -
    have "x \<noteq> base @ q" "f1 x = f x" using x q(7) by auto
    moreover have "x \<noteq> tmp_of (base @ q) pid nano \<or> f1 x \<noteq> None"
      using x bl \<open>f1 x = f x\<close> by (auto simp: tmp_of_def)
    ultimately show ?thesis using at assms(8) q(1) by metis
  qed
  then show ?thesis using at assms(8) q(1-4) by (intro exI [of _ q]) auto
qed

end


definition accepts :: "workspace \<Rightarrow> fs \<Rightarrow> string \<Rightarrow> string option" where
  "accepts w f p = (case resolve f w p of Inl _ \<Rightarrow> None | Inr r \<Rightarrow> Some r)"

definition confined_request :: "workspace \<Rightarrow> fs \<Rightarrow> string \<Rightarrow> bool" where
  "confined_request w f p \<longleftrightarrow> ws_ok f w \<and> lookups_ok f w p"

interpretation ws_paths: confined_paths "root_of w" "accepts w" "confined_request w" for w
  using resolve_physical_lemma
  by unfold_locales (auto simp: accepts_def confined_request_def split: sum.splits)

section \<open>The handler\<close>

definition parse_write_args :: "args \<Rightarrow> string + (string \<times> string)" where
  "parse_write_args a =
     (let p = arg_str0 a ''file_path''
      in if p = [] then Inl ''file_path is required''
         else case arg_str a ''content'' of
                None \<Rightarrow> Inl ''content is required''
              | Some content \<Rightarrow> Inr (p, content))"

definition check_write_target :: "file_session \<Rightarrow> string \<Rightarrow> string \<Rightarrow> string option" where
  "check_write_target s r p =
     (case k_stat (se_fs s) r of
        Inl _ \<Rightarrow> None
      | Inr NDir \<Rightarrow> Some (''path is a directory: '' @ p)
      | Inr _ \<Rightarrow>
          if has_been_read (se_tracker s) r then None
          else Some (''refusing to overwrite '' @ p @ '': Read it first''))"

definition handle_write :: "write_faults \<Rightarrow> nat \<Rightarrow> nat \<Rightarrow> ws_deps \<Rightarrow> args \<Rightarrow> file_session \<Rightarrow> tool_result \<times> file_session" where
  "handle_write flts pid nano d a s =
     (case resolve_workspace d a of
        Inl e \<Rightarrow> (ErrorResult e, s)
      | Inr w \<Rightarrow>
          (case parse_write_args a of
             Inl e \<Rightarrow> (ErrorResult e, s)
           | Inr (p, content) \<Rightarrow>
               (case resolve (se_fs s) w p of
                  Inl e \<Rightarrow> (ErrorResult (''resolve path: '' @ resolve_err_text e), note_violation e s)
                | Inr r \<Rightarrow>
                    (case check_write_target s r p of
                       Some e \<Rightarrow> (ErrorResult e, s)
                     | None \<Rightarrow>
                         (case mkdir_all (length r) (se_fs s) (fp_dir r) of
                            Inl e \<Rightarrow> (ErrorResult (''mkdir: '' @ path_error ''mkdir'' (fp_dir r) e), s)
                          | Inr f1 \<Rightarrow>
                              (case atomic_write flts pid nano f1 r content of
                                 (Some e, f2) \<Rightarrow> (ErrorResult (''write: '' @ e), s\<lparr>se_fs := f2\<rparr>)
                               | (None, f2) \<Rightarrow>
                                   (TextResult (''wrote '' @ dec_nat (length content) @ '' bytes to '' @ p),
                                    s\<lparr>se_fs := f2, se_tracker := mark_read (se_tracker s) r,
                                      se_write_bytes := se_write_bytes s + length content\<rparr>)))))))"

text \<open>A call of \<open>Write\<close> that gets as far as the file system.\<close>

lemma handle_write_inv:
  assumes "handle_write flts pid nano d a s = (res, s')"
  shows "is_error res \<and> se_fs s' = se_fs s \<and> se_tracker s' = se_tracker s
    \<or> (\<exists>w p content r f1. resolve_workspace d a = Inr w \<and> parse_write_args a = Inr (p, content)
        \<and> resolve (se_fs s) w p = Inr r \<and> check_write_target s r p = None
        \<and> mkdir_all (length r) (se_fs s) (fp_dir r) = Inr f1
        \<and> se_fs s' = snd (atomic_write flts pid nano f1 r content)
        \<and> (case fst (atomic_write flts pid nano f1 r content) of
             None \<Rightarrow> res = TextResult (''wrote '' @ dec_nat (length content) @ '' bytes to '' @ p)
               \<and> se_tracker s' = insert r (se_tracker s)
           | Some e \<Rightarrow> res = ErrorResult (''write: '' @ e) \<and> se_tracker s' = se_tracker s))"
proof (cases "resolve_workspace d a")
  case w: (Inr w)
  show ?thesis
  proof (cases "parse_write_args a")
    case p: (Inr pc)
    obtain p content where pc: "pc = (p, content)" by (cases pc)
    show ?thesis
    proof (cases "resolve (se_fs s) w p")
      case r: (Inr r)
      show ?thesis
      proof (cases "check_write_target s r p")
        case c: None
        show ?thesis
        proof (cases "mkdir_all (length r) (se_fs s) (fp_dir r)")
          case m: (Inr f1)
          obtain err f2 where at: "atomic_write flts pid nano f1 r content = (err, f2)" by (cases "atomic_write flts pid nano f1 r content")
          then show ?thesis using assms w p pc r c m
            by (cases err) (simp_all add: handle_write_def mark_read_def, auto)
        qed (use assms w p pc r c in \<open>auto simp: handle_write_def\<close>)
      qed (use assms w p pc r in \<open>auto simp: handle_write_def\<close>)
    qed (use assms w p pc in \<open>auto simp: handle_write_def\<close>)
  qed (use assms w in \<open>auto simp: handle_write_def\<close>)
qed (use assms in \<open>auto simp: handle_write_def\<close>)

lemma handle_write_cases:
  assumes "handle_write flts pid nano d a s = (res, s')"
  obtains (refused) "is_error res" "se_fs s' = se_fs s" "se_tracker s' = se_tracker s"
  | (stored) w p content r f1 err where "resolve_workspace d a = Inr w" "parse_write_args a = Inr (p, content)"
      "resolve (se_fs s) w p = Inr r" "check_write_target s r p = None"
      "mkdir_all (length r) (se_fs s) (fp_dir r) = Inr f1"
      "atomic_write flts pid nano f1 r content = (err, se_fs s')"
      "case err of None \<Rightarrow> se_tracker s' = insert r (se_tracker s) | Some e \<Rightarrow> is_error res \<and> se_tracker s' = se_tracker s"
proof (cases "is_error res \<and> se_fs s' = se_fs s \<and> se_tracker s' = se_tracker s")
  case False
  with handle_write_inv [OF assms] obtain w p content r f1 where
    h: "resolve_workspace d a = Inr w" "parse_write_args a = Inr (p, content)"
      "resolve (se_fs s) w p = Inr r" "check_write_target s r p = None"
      "mkdir_all (length r) (se_fs s) (fp_dir r) = Inr f1"
      "se_fs s' = snd (atomic_write flts pid nano f1 r content)"
      "case fst (atomic_write flts pid nano f1 r content) of
         None \<Rightarrow> res = TextResult (''wrote '' @ dec_nat (length content) @ '' bytes to '' @ p)
           \<and> se_tracker s' = insert r (se_tracker s)
       | Some e \<Rightarrow> res = ErrorResult (''write: '' @ e) \<and> se_tracker s' = se_tracker s" by metis
  show thesis
    by (rule stored [OF h(1-5), of "fst (atomic_write flts pid nano f1 r content)"])
       (use h(6,7) in \<open>auto split: option.splits\<close>)
qed (blast intro: refused)

lemma path_elems_le: "length (path_elems r) \<le> Suc (length r)"
proof -
  have "length (split_on c s) \<le> Suc (length s)" for c s
    by (induction s) (auto split: list.splits)
  then show ?thesis unfolding path_elems_def by (meson length_filter_le order_trans)
qed

lemma path_elems_abs: "is_abs r \<Longrightarrow> length (path_elems r) \<le> length r"
proof -
  assume "is_abs r"
  then obtain t where "r = slash # t" by (auto simp: is_abs_iff)
  then have "path_elems r = path_elems t" by (simp add: path_elems_def)
  with path_elems_le [of t] \<open>r = slash # t\<close> show ?thesis by simp
qed


definition demo_write :: args where
  "demo_write = [(''file_path'', JStr ''m.go''), (''content'', JStr ''package n'')]"

lemma demo_fs_wf: "fs_wf (se_fs demo_session)"
  unfolding fs_wf_def demo_session_def flood_fs_def
  by (auto split: if_splits simp: append_eq_Cons_conv)

lemma demo_ws_ok: "ws_ok (se_fs demo_session) flood_ws"
  unfolding ws_ok_def
  by (rule exI [of _ "[''w'']"])
     (auto simp: demo_session_def flood_fs_def flood_ws_def abs_path_def physical_def plain_def prefix_Cons is_link_def
       split: if_splits)

lemma demo_write_args: "map_of demo_write ''workspace'' = None" "arg_str0 demo_write ''file_path'' = ''m.go''"
  by code_simp+

lemma demo_lookups_ok: "lookups_ok (se_fs demo_session) flood_ws ''m.go''"
  by code_simp


text \<open>
  C5: \<open>Write\<close> never overwrites a file that was not read.  If a call changes or removes what an existing
  name holds, that file had been marked as read (by \<open>Read\<close> or an earlier \<open>Write\<close>) when the call began.
\<close>

theorem write_needs_read:
  assumes "fs_wf (se_fs s)" "resolve_workspace d a = Inr w" "ws_ok (se_fs s) w"
    and "lookups_ok (se_fs s) w (arg_str0 a ''file_path'')"
    and "handle_write flts pid nano d a s = (res, s')" "se_fs s x \<noteq> None" "se_fs s' x \<noteq> se_fs s x"
  shows "abs_path x \<in> se_tracker s \<and> resolve (se_fs s) w (arg_str0 a ''file_path'') = Inr (abs_path x)"
  using assms(5)
proof (cases rule: handle_write_cases)
  case refused
  then show ?thesis using assms(7) by simp
next
  case (stored w2 p content r f1 err)
  with assms(2) have w: "w2 = w" by simp
  from stored(2) have p: "p = arg_str0 a ''file_path''"
    by (auto simp: parse_write_args_def Let_def split: if_splits option.splits)
  have acc: "accepts w (se_fs s) p = Some r" "confined_request w (se_fs s) p"
    using stored(3) w assms(3,4) p by (auto simp: accepts_def confined_request_def)
  have base: "se_fs s (root_of w) = Some NDir" using assms(3) by (rule ws_okE)
  have nodir: "\<forall>nd. k_stat (se_fs s) r = Inr nd \<longrightarrow> nd \<noteq> NDir"
    using stored(4) by (auto simp: check_write_target_def)
  have "is_abs r" using ws_paths.accept_physical [OF assms(1) acc(2,1)] by auto
  from ws_paths.store_confined [OF assms(1) acc(2,1) base nodir stored(5) path_elems_abs [OF this] stored(6)]
  obtain q where q: "r = abs_path (root_of w @ q)" "list_all plain (root_of w @ q)"
    "\<forall>x. \<not> prefix (root_of w) x \<or> x \<noteq> root_of w @ q \<and> se_fs s x \<noteq> None \<longrightarrow> se_fs s' x = se_fs s x" by blast
  from q(3) assms(6,7) have x: "x = root_of w @ q" by metis
  obtain nd where nd: "se_fs s x = Some nd" using assms(6) by blast
  obtain q' where q': "r = abs_path (root_of w @ q')" "list_all plain (root_of w @ q')"
    "\<And>nd. k_stat (se_fs s) r = Inr nd \<longleftrightarrow> se_fs s (root_of w @ q') = Some nd"
    using ws_paths.accepted_node [OF assms(1) acc(2,1)] by metis
  have "x = root_of w @ q'" using abs_path_inj [OF q(2) q'(2)] q(1) q'(1) x by simp
  with q'(3) nd have "k_stat (se_fs s) r = Inr nd" by simp
  then have "has_been_read (se_tracker s) r"
    using stored(4) by (auto simp: check_write_target_def split: node.splits if_splits)
  then show ?thesis using x q(1) stored(3) p w by (simp add: has_been_read_def)
qed


theorem write_needs_read_witness:
  "abs_path [''w'', ''m.go''] \<in> {''/w/m.go''}"
proof -
  let ?s = "demo_session\<lparr>se_tracker := {''/w/m.go''}\<rparr>"
  let ?h = "handle_write no_faults 7 1 demo_deps demo_write ?s"
  have n: "se_fs ?s [''w'', ''m.go''] \<noteq> None" by code_simp
  have "se_fs (snd ?h) [''w'', ''m.go''] \<noteq> se_fs ?s [''w'', ''m.go'']" by code_simp
  from write_needs_read [OF _ demo_workspace [OF demo_write_args(1)] _ _ surjective_pairing n this]
  show ?thesis using demo_fs_wf demo_ws_ok demo_lookups_ok demo_write_args(2) by simp
qed

end
