(* ===== verification/Json.thy ===== *)
theory Json
  imports Prelude
begin

text \<open>
  The decoder of package \<open>encoding/json\<close>: from the bytes of a document to a \<^typ>\<open>jval\<close>, and the
  assignment of members to the fields of a struct.  The nested calls are bounded by the length of the
  text, which is enough (\<open>json_fuel\<close>): every call consumes a byte.
\<close>

section \<open>Lexical parts\<close>

definition json_space :: "char \<Rightarrow> bool" where
  "json_space c \<longleftrightarrow> c = CHR '' '' \<or> c = CHR 0x09 \<or> c = CHR 0x0A \<or> c = CHR 0x0D"

definition skip_ws :: "string \<Rightarrow> string" where "skip_ws s = dropWhile json_space s"

definition hex_val :: "char \<Rightarrow> nat option" where
  "hex_val c =
     (if is_digit c then Some (digit_val c)
      else if CHR ''a'' \<le> c \<and> c \<le> CHR ''f'' then Some (of_char c - 87)
      else if CHR ''A'' \<le> c \<and> c \<le> CHR ''F'' then Some (of_char c - 55)
      else None)"

fun hex4 :: "string \<Rightarrow> (nat \<times> string) option" where
  "hex4 (a # b # c # d # s) =
     (case (hex_val a, hex_val b, hex_val c, hex_val d) of
        (Some w, Some x, Some y, Some z) \<Rightarrow> Some (((w * 16 + x) * 16 + y) * 16 + z, s)
      | _ \<Rightarrow> None)"
| "hex4 _ = None"

definition utf8 :: "nat \<Rightarrow> string" where
  "utf8 n =
     (if n < 128 then [char_of n]
      else if n < 2048 then [char_of (192 + n div 64), char_of (128 + n mod 64)]
      else if n < 65536 then [char_of (224 + n div 4096), char_of (128 + n div 64 mod 64), char_of (128 + n mod 64)]
      else [char_of (240 + n div 262144), char_of (128 + n div 4096 mod 64), char_of (128 + n div 64 mod 64), char_of (128 + n mod 64)])"

text \<open>The code point of an escape \<open>u\<close>, with surrogate pairs joined and lone halves replaced.\<close>

definition unicode_escape :: "string \<Rightarrow> (string \<times> string) option" where
  "unicode_escape s =
     (case hex4 s of
        None \<Rightarrow> None
      | Some (n, r) \<Rightarrow>
          if 55296 \<le> n \<and> n < 57344 then
            (case (if n < 56320 \<and> take 2 r = [CHR 0x5C, CHR ''u''] then hex4 (drop 2 r) else None) of
               Some (m, r') \<Rightarrow>
                 if 56320 \<le> m \<and> m < 57344 then Some (utf8 (65536 + (n - 55296) * 1024 + (m - 56320)), r')
                 else Some (utf8 65533, r)
             | None \<Rightarrow> Some (utf8 65533, r))
          else Some (utf8 n, r))"

definition simple_escape :: "char \<Rightarrow> char option" where
  "simple_escape c =
     (if c = CHR 0x22 \<or> c = CHR 0x5C \<or> c = CHR ''/'' then Some c
      else map_of [(CHR ''b'', CHR 0x08), (CHR ''f'', CHR 0x0C), (CHR ''n'', CHR 0x0A), (CHR ''r'', CHR 0x0D),
                   (CHR ''t'', CHR 0x09)] c)"

lemma hex4_length: "hex4 s = Some (n, r) \<Longrightarrow> length r < length s"
  by (cases s rule: hex4.cases) (auto split: option.splits)

lemma unicode_escape_length: "unicode_escape s = Some (t, r) \<Longrightarrow> length r < length s"
proof -
  assume a: "unicode_escape s = Some (t, r)"
  then obtain n q where q: "hex4 s = Some (n, q)" by (auto simp: unicode_escape_def split: option.splits)
  have "length r \<le> length q"
    using a q hex4_length [of "drop 2 q"] by (fastforce simp: unicode_escape_def split: option.splits if_splits prod.splits)
  with hex4_length [OF q] show ?thesis by simp
qed

text \<open>The rest of a string literal after its opening quote.\<close>

function json_string :: "string \<Rightarrow> (string \<times> string) option" where
  "json_string [] = None"
| "json_string (c # s) =
     (if c = CHR 0x22 then Some ([], s)
      else if c = CHR 0x5C then
        (case s of
           [] \<Rightarrow> None
         | e # s' \<Rightarrow>
             if e = CHR ''u'' then
               (case unicode_escape s' of
                  None \<Rightarrow> None
                | Some (u, r) \<Rightarrow> (case json_string r of None \<Rightarrow> None | Some (t, q) \<Rightarrow> Some (u @ t, q)))
             else
               (case simple_escape e of
                  None \<Rightarrow> None
                | Some x \<Rightarrow> (case json_string s' of None \<Rightarrow> None | Some (t, q) \<Rightarrow> Some (x # t, q))))
      else if (of_char c :: nat) < 32 then None
      else (case json_string s of None \<Rightarrow> None | Some (t, q) \<Rightarrow> Some (c # t, q)))"
  by pat_completeness auto
termination by (relation "measure length") (auto dest!: unicode_escape_length)

lemma json_string_length: "json_string s = Some (t, r) \<Longrightarrow> length r < length s"
proof (induction s arbitrary: t rule: json_string.induct)
  case (2 c s)
  then show ?case
    by (auto split: if_splits list.splits option.splits prod.splits dest!: unicode_escape_length) fastforce+
qed simp

definition pow10 :: "int \<Rightarrow> rat" where
  "pow10 e = (if 0 \<le> e then 10 ^ nat e else 1 / 10 ^ nat (- e))"

text \<open>An optional exponent part and an optional fraction part.\<close>

definition exponent_part :: "string \<Rightarrow> (int \<times> string) option" where
  "exponent_part s =
     (case s of
        c # s1 \<Rightarrow>
          if c = CHR ''e'' \<or> c = CHR ''E'' then
            (let (neg, s2) = (case s1 of d # s' \<Rightarrow> if d = CHR ''-'' then (True, s') else if d = CHR ''+'' then (False, s') else (False, s1)
                              | [] \<Rightarrow> (False, s1));
                 ds = takeWhile is_digit s2
             in if ds = [] then None
                else Some (if neg then - int (digits_val ds) else int (digits_val ds), dropWhile is_digit s2))
          else Some (0, s)
      | [] \<Rightarrow> Some (0, s))"

definition fraction_part :: "string \<Rightarrow> (string \<times> string) option" where
  "fraction_part s =
     (case s of
        c # s1 \<Rightarrow>
          if c = CHR ''.'' then
            (let ds = takeWhile is_digit s1 in if ds = [] then None else Some (ds, dropWhile is_digit s1))
          else Some ([], s)
      | [] \<Rightarrow> Some ([], s))"

definition json_number :: "string \<Rightarrow> (rat \<times> string) option" where
  "json_number s =
     (let (neg, s1) = (case s of c # s' \<Rightarrow> if c = CHR ''-'' then (True, s') else (False, s) | [] \<Rightarrow> (False, s));
          ds = (case s1 of c # _ \<Rightarrow> if c = CHR ''0'' then [c] else takeWhile is_digit s1 | [] \<Rightarrow> []);
          s2 = drop (length ds) s1
      in if ds = [] then None
         else case fraction_part s2 of
                None \<Rightarrow> None
              | Some (fs, s3) \<Rightarrow>
                  (case exponent_part s3 of
                     None \<Rightarrow> None
                   | Some (e, s4) \<Rightarrow>
                       (let v = of_nat (digits_val (ds @ fs)) * pow10 (e - int (length fs))
                        in Some (if neg then - v else v, s4))))"

definition literal :: "string \<Rightarrow> 'a \<Rightarrow> string \<Rightarrow> ('a \<times> string) option" where
  "literal w v s = (if prefix w s then Some (v, drop (length w) s) else None)"

section \<open>Values\<close>

fun json_value :: "nat \<Rightarrow> string \<Rightarrow> (jval \<times> string) option"
  and json_elems :: "nat \<Rightarrow> string \<Rightarrow> (jval list \<times> string) option"
  and json_members :: "nat \<Rightarrow> string \<Rightarrow> ((string \<times> jval) list \<times> string) option" where
  "json_value 0 s = None"
| "json_value (Suc n) s =
     (case skip_ws s of
        [] \<Rightarrow> None
      | c # r \<Rightarrow>
          if c = CHR 0x22 then map_option (apfst JStr) (json_string r)
          else if c = CHR ''{'' then
            (case skip_ws r of
               [] \<Rightarrow> None
             | d # q \<Rightarrow> if d = CHR ''}'' then Some (JObj [], q) else map_option (apfst JObj) (json_members n (d # q)))
          else if c = CHR ''['' then
            (case skip_ws r of
               [] \<Rightarrow> None
             | d # q \<Rightarrow> if d = CHR '']'' then Some (JArr [], q) else map_option (apfst JArr) (json_elems n (d # q)))
          else if c = CHR ''t'' then literal ''true'' (JBool True) (c # r)
          else if c = CHR ''f'' then literal ''false'' (JBool False) (c # r)
          else if c = CHR ''n'' then literal ''null'' JNull (c # r)
          else map_option (apfst JNum) (json_number (c # r)))"
| "json_elems 0 s = None"
| "json_elems (Suc n) s =
     (case json_value n s of
        None \<Rightarrow> None
      | Some (v, r) \<Rightarrow>
          (case skip_ws r of
             [] \<Rightarrow> None
           | c # q \<Rightarrow>
               if c = CHR '']'' then Some ([v], q)
               else if c = CHR '','' then map_option (apfst (Cons v)) (json_elems n q)
               else None))"
| "json_members 0 s = None"
| "json_members (Suc n) s =
     (case skip_ws s of
        [] \<Rightarrow> None
      | c # r \<Rightarrow>
          if c \<noteq> CHR 0x22 then None
          else case json_string r of
                 None \<Rightarrow> None
               | Some (k, r1) \<Rightarrow>
                   (case skip_ws r1 of
                      [] \<Rightarrow> None
                    | d # r2 \<Rightarrow>
                        if d \<noteq> CHR '':'' then None
                        else case json_value n r2 of
                               None \<Rightarrow> None
                             | Some (v, r3) \<Rightarrow>
                                 (case skip_ws r3 of
                                    [] \<Rightarrow> None
                                  | e # r4 \<Rightarrow>
                                      if e = CHR ''}'' then Some ([(k, v)], r4)
                                      else if e = CHR '','' then map_option (apfst (Cons (k, v))) (json_members n r4)
                                      else None)))"

definition json_parse :: "string \<Rightarrow> jval option" where
  "json_parse s =
     (case json_value (2 * length s) s of
        None \<Rightarrow> None
      | Some (v, r) \<Rightarrow> if skip_ws r = [] then Some v else None)"

lemma skip_ws_length: "length (skip_ws s) \<le> length s"
  by (simp add: skip_ws_def length_dropWhile_le)

lemma skip_ws_Cons: "skip_ws s = c # r \<Longrightarrow> length r < length s"
  using skip_ws_length [of s] by simp

lemma exponent_part_length: "exponent_part s = Some (e, r) \<Longrightarrow> length r \<le> length s"
  by (auto simp: exponent_part_def Let_def split: list.splits if_splits prod.splits intro: le_trans [OF length_dropWhile_le])

lemma fraction_part_length: "fraction_part s = Some (e, r) \<Longrightarrow> length r \<le> length s"
  by (auto simp: fraction_part_def Let_def split: list.splits if_splits prod.splits intro: le_trans [OF length_dropWhile_le])

lemma json_number_length: "json_number s = Some (v, r) \<Longrightarrow> length r < length s"
proof -
  assume "json_number s = Some (v, r)"
  then obtain neg s1 ds fs s3 e where
    h: "(neg, s1) = (case s of c # s' \<Rightarrow> if c = CHR ''-'' then (True, s') else (False, s) | [] \<Rightarrow> (False, s))"
      "ds = (case s1 of c # _ \<Rightarrow> if c = CHR ''0'' then [c] else takeWhile is_digit s1 | [] \<Rightarrow> [])" "ds \<noteq> []"
      "fraction_part (drop (length ds) s1) = Some (fs, s3)" "exponent_part s3 = Some (e, r)"
    by (auto simp: json_number_def Let_def split: prod.splits option.splits if_splits)
  have "length s1 \<le> length s" using h(1) by (auto split: list.splits if_splits)
  moreover have "0 < length s1" using h(2,3) by (cases s1) auto
  ultimately show ?thesis
    using fraction_part_length [OF h(4)] exponent_part_length [OF h(5)] h(3) by (cases ds; cases s1) auto
qed

lemma literal_length: "literal w v s = Some (x, r) \<Longrightarrow> w \<noteq> [] \<Longrightarrow> length r < length s"
  by (cases w) (auto simp: literal_def prefix_def split: if_splits)

lemma json_progress:
  "json_value n s = Some (v, r) \<Longrightarrow> length r < length s"
  "json_elems n s = Some (vs, r) \<Longrightarrow> length r < length s"
  "json_members n s = Some (kvs, r) \<Longrightarrow> length r < length s"
proof (induction n s and n s and n s arbitrary: v r and vs r and kvs r rule: json_value_json_elems_json_members.induct)
  case (2 n s)
  then obtain c q where c: "skip_ws s = c # q" by (auto split: list.splits)
  note lt = skip_ws_Cons [OF c]
  from 2 c lt show ?case
    by (auto split: if_splits list.splits option.splits simp: apfst_def map_prod_def
        dest!: json_string_length json_number_length literal_length skip_ws_Cons)
       (metis Suc_le_eq less_Suc_eq_le less_trans order.strict_trans1)+
next
  case (4 n s)
  then show ?case
    by (fastforce split: if_splits list.splits option.splits prod.splits simp: apfst_def map_prod_def dest!: skip_ws_Cons)
next
  case (6 n s)
  then show ?case
    by (fastforce split: if_splits list.splits option.splits prod.splits simp: apfst_def map_prod_def
        dest!: skip_ws_Cons json_string_length)
qed simp_all


text \<open>Twice the length is enough: more fuel changes nothing.\<close>

lemma json_value_cong:
  assumes "\<And>d p. 2 * length (d # p) < 2 * length s \<Longrightarrow> json_elems n (d # p) = json_elems k (d # p)"
    and "\<And>d p. 2 * length (d # p) < 2 * length s \<Longrightarrow> json_members n (d # p) = json_members k (d # p)"
  shows "json_value (Suc n) s = json_value (Suc k) s"
proof (cases "skip_ws s")
  case (Cons c q)
  show ?thesis
  proof (cases "skip_ws q")
    case Nil
    with Cons show ?thesis by simp
  next
    case (Cons d p)
    have "length q < length s" by (rule skip_ws_Cons [OF \<open>skip_ws s = c # q\<close>])
    then have "2 * length (d # p) < 2 * length s" using skip_ws_Cons [OF Cons] by simp
    from assms(1) [OF this] assms(2) [OF this] Cons \<open>skip_ws s = c # q\<close> show ?thesis by simp
  qed
qed simp

lemma json_members_cong:
  assumes "\<And>c r key r1 d r2. skip_ws s = c # r \<Longrightarrow> json_string r = Some (key, r1) \<Longrightarrow> skip_ws r1 = d # r2
      \<Longrightarrow> json_value n r2 = json_value k r2"
    and "\<And>c r key r1 d r2 x r3 f q. skip_ws s = c # r \<Longrightarrow> json_string r = Some (key, r1) \<Longrightarrow> skip_ws r1 = d # r2
      \<Longrightarrow> json_value k r2 = Some (x, r3) \<Longrightarrow> skip_ws r3 = f # q \<Longrightarrow> json_members n q = json_members k q"
  shows "json_members (Suc n) s = json_members (Suc k) s"
proof (cases "skip_ws s")
  case (Cons c r)
  show ?thesis
  proof (cases "json_string r")
    case (Some x)
    obtain key r1 where x: "x = (key, r1)" by (cases x)
    show ?thesis
    proof (cases "skip_ws r1")
      case (Cons d r2)
      note v' = assms(1) [OF \<open>skip_ws s = c # r\<close> Some [unfolded x] Cons]
      note e' = assms(2) [OF \<open>skip_ws s = c # r\<close> Some [unfolded x] Cons]
      show ?thesis
      proof (cases "json_value k r2")
        case None
        with v' show ?thesis by (simp add: Some x \<open>skip_ws s = c # r\<close> Cons)
      next
        case v: (Some y)
        obtain u r3 where y: "y = (u, r3)" by (cases y)
        show ?thesis
        proof (cases "skip_ws r3")
          case Nil
          with v v' y show ?thesis by (simp add: Some x \<open>skip_ws s = c # r\<close> \<open>skip_ws r1 = d # r2\<close>)
        next
          case f: (Cons f q)
          from e' [OF v [unfolded y] f] v v' y f show ?thesis
            by (simp add: Some x \<open>skip_ws s = c # r\<close> \<open>skip_ws r1 = d # r2\<close>)
        qed
      qed
    qed (simp add: Some x \<open>skip_ws s = c # r\<close>)
  qed (simp add: Cons)
qed simp

lemma json_fuel_aux:
  "(\<forall>s m. 2 * length s \<le> n \<longrightarrow> 2 * length s \<le> m \<longrightarrow> json_value n s = json_value m s)
   \<and> (\<forall>s m. 2 * length s < n \<longrightarrow> 2 * length s < m \<longrightarrow> json_elems n s = json_elems m s)
   \<and> (\<forall>s m. 2 * length s < n \<longrightarrow> 2 * length s < m \<longrightarrow> json_members n s = json_members m s)"
proof (induction n)
  case 0
  have "json_value m [] = None" for m by (cases m) (auto simp: skip_ws_def)
  then show ?case by auto
next
  case (Suc n)
  then have ih: "\<And>s m. 2 * length s \<le> n \<Longrightarrow> 2 * length s \<le> m \<Longrightarrow> json_value n s = json_value m s"
    "\<And>s m. 2 * length s < n \<Longrightarrow> 2 * length s < m \<Longrightarrow> json_elems n s = json_elems m s"
    "\<And>s m. 2 * length s < n \<Longrightarrow> 2 * length s < m \<Longrightarrow> json_members n s = json_members m s"
    by blast+
  have "json_value (Suc n) s = json_value m s" if b: "2 * length s \<le> Suc n" "2 * length s \<le> m" for s m
  proof (cases m)
    case 0
    then show ?thesis using b by (simp add: skip_ws_def)
  next
    case (Suc k)
    have "2 * length (d # p) < n \<and> 2 * length (d # p) < k" if "2 * length (d # p) < 2 * length s" for d and p :: string
      using that b Suc by auto presburger+
    then show ?thesis unfolding Suc using ih(2,3) by (intro json_value_cong) blast+
  qed
  moreover have "json_elems (Suc n) s = json_elems m s" if b: "2 * length s < Suc n" "2 * length s < m" for s m
  proof -
    obtain k where k: "m = Suc k" "2 * length s \<le> k" using b by (cases m) auto
    have v: "json_value n s = json_value k s" using b k by (intro ih(1)) auto
    have "json_elems n q = json_elems k q" if "json_value k s = Some (x, r)" "skip_ws r = c # q" for x r c q
      using json_progress(1) [OF that(1)] skip_ws_Cons [OF that(2)] b k by (intro ih(2)) auto
    then show ?thesis unfolding k using v by (auto split: option.splits list.splits prod.splits)
  qed
  moreover have "json_members (Suc n) s = json_members m s" if b: "2 * length s < Suc n" "2 * length s < m" for s m
  proof -
    obtain k where k: "m = Suc k" "2 * length s \<le> k" using b by (cases m) auto
    have v: "json_value n r2 = json_value k r2"
      if "skip_ws s = c # r" "json_string r = Some (key, r1)" "skip_ws r1 = d # r2" for c r key r1 d r2
      using skip_ws_Cons [OF that(1)] json_string_length [OF that(2)] skip_ws_Cons [OF that(3)] b k
      by (intro ih(1)) auto
    have e: "json_members n q = json_members k q"
      if "skip_ws s = c # r" "json_string r = Some (key, r1)" "skip_ws r1 = d # r2"
        "json_value k r2 = Some (x, r3)" "skip_ws r3 = f # q" for c r key r1 d r2 x r3 f q
      using skip_ws_Cons [OF that(1)] json_string_length [OF that(2)] skip_ws_Cons [OF that(3)]
        json_progress(1) [OF that(4)] skip_ws_Cons [OF that(5)] b k
      by (intro ih(3)) auto
    show ?thesis unfolding k using v e by (intro json_members_cong) blast+
  qed
  ultimately show ?case by blast
qed

lemma json_fuel: "2 * length s \<le> n \<Longrightarrow> json_value n s = json_value (2 * length s) s"
  by (rule json_fuel_aux [THEN conjunct1, rule_format]) simp_all

section \<open>Struct fields\<close>

text \<open>
  A string field of a struct: the last member whose name matches, case ignored; \<open>null\<close> leaves the
  field alone, any other type is an error.
\<close>

fun string_field :: "string \<Rightarrow> string \<Rightarrow> (string \<times> jval) list \<Rightarrow> string option" where
  "string_field name v [] = Some v"
| "string_field name v ((k, x) # kvs) =
     (if to_lower k = to_lower name then
        (case x of JStr s \<Rightarrow> string_field name s kvs | JNull \<Rightarrow> string_field name v kvs | _ \<Rightarrow> None)
      else string_field name v kvs)"

end
