(* ===== verification/Verify.thy ===== *)
theory Verify
  imports FileSystem GoRegexp Json Exec
begin

text \<open>
  Project detection and the per-language commands (\<open>internal/verify/verify.go\<close>, \<open>golang.go\<close>, \<open>rust.go\<close>,
  \<open>node.go\<close>, \<open>python.go\<close>), the parsers of linter output (\<open>lint.go\<close>) and the two best-effort runs
  (\<open>LintWith\<close>, \<open>FormatCheck\<close>).  The Go interface \<open>Detector\<close> is a datatype of its four
  implementations and each method a function on it.
\<close>

section \<open>Detectors\<close>

datatype detector = GoDet string | RustDet string | NodeDet string string "string list" | PyDet string

fun language :: "detector \<Rightarrow> string" where
  "language (GoDet _) = ''go''"
| "language (RustDet _) = ''rust''"
| "language (NodeDet _ _ _) = ''node''"
| "language (PyDet _) = ''python''"

definition file_exists :: "fs \<Rightarrow> string \<Rightarrow> bool" where
  "file_exists f p \<longleftrightarrow> (case k_stat f p of Inl _ \<Rightarrow> False | Inr nd \<Rightarrow> nd \<noteq> NDir)"

definition detect_node_package_manager :: "fs \<Rightarrow> string \<Rightarrow> string" where
  "detect_node_package_manager f r =
     (if file_exists f (fp_join r ''pnpm-lock.yaml'') then ''pnpm''
      else if file_exists f (fp_join r ''yarn.lock'') then ''yarn''
      else if file_exists f (fp_join r ''bun.lockb'') then ''bun''
      else if file_exists f (fp_join r ''package-lock.json'') then ''npm''
      else ''npm'')"

text \<open>The members of the field \<open>scripts\<close>; later members of that name replace earlier ones key by key.\<close>

fun scripts_of :: "(string \<times> jval) list \<Rightarrow> (string \<times> jval) list option" where
  "scripts_of [] = Some []"
| "scripts_of ((k, v) # kvs) =
     (case scripts_of kvs of
        None \<Rightarrow> None
      | Some rest \<Rightarrow>
          if to_lower k = ''scripts'' then
            (case v of JObj ms \<Rightarrow> Some (ms @ rest) | JNull \<Rightarrow> Some rest | _ \<Rightarrow> None)
          else Some rest)"

fun package_scripts :: "string \<Rightarrow> (string \<times> jval) list option" where
  "package_scripts data = (case json_parse data of Some (JObj kvs) \<Rightarrow> scripts_of kvs | Some JNull \<Rightarrow> Some [] | _ \<Rightarrow> None)"

definition read_package_json_scripts :: "fs \<Rightarrow> string \<Rightarrow> string list" where
  "read_package_json_scripts f r =
     (case k_read_file f (fp_join r ''package.json'') of
        Inl _ \<Rightarrow> []
      | Inr data \<Rightarrow> (case package_scripts data of None \<Rightarrow> [] | Some ms \<Rightarrow> map fst ms))"

definition new_node_detector :: "fs \<Rightarrow> string \<Rightarrow> detector" where
  "new_node_detector f r = NodeDet r (detect_node_package_manager f r) (read_package_json_scripts f r)"

definition detect_all :: "fs \<Rightarrow> string \<Rightarrow> detector list" where
  "detect_all f r =
     (if file_exists f (fp_join r ''go.mod'') then [GoDet r] else [])
     @ (if file_exists f (fp_join r ''Cargo.toml'') then [RustDet r] else [])
     @ (if file_exists f (fp_join r ''package.json'') then [new_node_detector f r] else [])
     @ (if file_exists f (fp_join r ''pyproject.toml'') \<or> file_exists f (fp_join r ''setup.py'') then [PyDet r] else [])"

definition detect :: "fs \<Rightarrow> string \<Rightarrow> detector option" where
  "detect f r = (case detect_all f r of [] \<Rightarrow> None | d # _ \<Rightarrow> Some d)"

fun package_manager :: "detector \<Rightarrow> string" where
  "package_manager (NodeDet _ pm _) = pm"
| "package_manager _ = []"

fun script_runner :: "detector \<Rightarrow> string list" where
  "script_runner (NodeDet _ pm _) =
     (if pm = ''yarn'' then [''yarn'']
      else if pm = ''pnpm'' then [''pnpm'', ''run'']
      else if pm = ''bun'' then [''bun'', ''run'']
      else [''npm'', ''run''])"
| "script_runner _ = []"

definition script_or :: "detector \<Rightarrow> string list \<Rightarrow> string \<Rightarrow> string list \<Rightarrow> string list" where
  "script_or d scripts name dflt = (if name \<in> set scripts then script_runner d @ [name] else dflt)"

fun test_cmd :: "detector \<Rightarrow> string list" where
  "test_cmd (GoDet _) = [''go'', ''test'', ''-json'', ''-count=1'', ''./...'']"
| "test_cmd (RustDet _) = [''cargo'', ''test'']"
| "test_cmd (NodeDet r pm ss) = script_or (NodeDet r pm ss) ss ''test'' [''npm'', ''test'', ''--silent'']"
| "test_cmd (PyDet _) = [''pytest'']"

fun lint_cmd :: "detector \<Rightarrow> string list" where
  "lint_cmd (GoDet _) = [''golangci-lint'', ''run'', ''./...'']"
| "lint_cmd (RustDet _) = [''cargo'', ''clippy'', ''--all-targets'', ''--message-format=short'', ''--'', ''-D'', ''warnings'']"
| "lint_cmd (NodeDet r pm ss) =
     script_or (NodeDet r pm ss) ss ''lint'' [''npx'', ''--no-install'', ''eslint'', ''.'', ''--format=json'']"
| "lint_cmd (PyDet _) = [''ruff'', ''check'', ''--output-format=concise'', ''.'']"

fun typecheck_cmd :: "detector \<Rightarrow> string list" where
  "typecheck_cmd (GoDet _) = [''go'', ''vet'', ''./...'']"
| "typecheck_cmd (RustDet _) = [''cargo'', ''check'', ''--all-targets'']"
| "typecheck_cmd (NodeDet r pm ss) =
     script_or (NodeDet r pm ss) ss ''typecheck'' [''npx'', ''--no-install'', ''tsc'', ''--noEmit'']"
| "typecheck_cmd (PyDet _) = [''mypy'', ''.'']"

fun format_check_cmd :: "detector \<Rightarrow> string \<Rightarrow> string list" where
  "format_check_cmd (GoDet _) file = []"
| "format_check_cmd (RustDet _) file = [''rustfmt'', ''--check'', file]"
| "format_check_cmd (NodeDet _ _ _) file = [''prettier'', ''--check'', file]"
| "format_check_cmd (PyDet _) file = [''ruff'', ''format'', ''--check'', ''--diff'', file]"

fun lsp_command :: "detector \<Rightarrow> string list" where
  "lsp_command (GoDet _) = [''gopls'', ''serve'']"
| "lsp_command _ = []"

text \<open>
  detection is by markers at the root.  A language is detected exactly if one of its marker files
  exists directly under the root and is no directory; no language is listed twice, the order is Go,
  Rust, Node, Python, and every detected project has non-empty test, lint and typecheck commands.
\<close>

theorem detect_all_exact:
  "map language (detect_all f r) = filter (\<lambda>l. \<exists>(m, l') \<in> set [(''go.mod'', ''go''), (''Cargo.toml'', ''rust''),
       (''package.json'', ''node''), (''pyproject.toml'', ''python''), (''setup.py'', ''python'')].
       l' = l \<and> file_exists f (fp_join r m)) [''go'', ''rust'', ''node'', ''python'']
   \<and> list_all (\<lambda>d. test_cmd d \<noteq> [] \<and> lint_cmd d \<noteq> [] \<and> typecheck_cmd d \<noteq> []) (detect_all f r)"
  by (simp add: detect_all_def new_node_detector_def script_or_def)

section \<open>Linter output\<close>

record lint_finding =
  lf_file :: string
  lf_line :: int
  lf_column :: int
  lf_rule :: string
  lf_message :: string

text \<open>\<open>strconv.Atoi\<close> with its error ignored: out of range gives the largest \<open>int\<close>.\<close>

definition atoi_sat :: "string \<Rightarrow> int" where
  "atoi_sat ds = min (int (digits_val ds)) (2 ^ 63 - 1)"

abbreviation rdigits :: re where "rdigits \<equiv> rplus (RCls is_digit)"
abbreviation rspaces :: re where "rspaces \<equiv> rplus (RCls cls_space)"

text \<open>The common start \<open>^file:line:col:\<close> with groups 1, 2 and 3.\<close>

definition location_re :: "re list" where
  "location_re = [RBegin, RGroup 1 (rplus (RCls (\<lambda>c. c \<noteq> CHR '':''))), rchr (CHR '':''), RGroup 2 rdigits, rchr (CHR '':''),
     RGroup 3 rdigits, rchr (CHR '':''), rspaces]"

text \<open>Groups 4 and 5 are the rule and the message in every pattern.\<close>

definition lint_line_re :: re where
  "lint_line_re = rseqs (location_re @ [RGroup 5 (rplus_lazy (RCls cls_any)), rspaces, rchr (CHR ''(''),
     RGroup 4 (RSeq (RCls (\<lambda>c. cls_upper c \<or> cls_lower c)) (RStar True (RCls (\<lambda>c. cls_alnum c \<or> c = CHR ''_'' \<or> c = CHR ''-'')))),
     rchr (CHR '')''), RStar True (RCls cls_space), REnd])"

definition clippy_line_re :: re where
  "clippy_line_re = rseqs (location_re @ [RGroup 4 (RAlt (rlit ''warning'') (rlit ''error'')), rchr (CHR '':''), rspaces,
     RGroup 5 (rplus (RCls cls_any)), REnd])"

definition ruff_line_re :: re where
  "ruff_line_re = rseqs (location_re @ [RGroup 4 (RSeq (rplus (RCls cls_upper)) rdigits),
     ropt (RSeq rspaces (rlit ''[*]'')), rspaces, RGroup 5 (rplus (RCls cls_any)), REnd])"

definition finding_of :: "string \<Rightarrow> caps \<Rightarrow> lint_finding" where
  "finding_of line c =
     \<lparr>lf_file = cap_text line c 1, lf_line = atoi_sat (cap_text line c 2), lf_column = atoi_sat (cap_text line c 3),
      lf_rule = cap_text line c 4, lf_message = cap_text line c 5\<rparr>"

definition parse_lint_regex :: "re \<Rightarrow> string \<Rightarrow> lint_finding list" where
  "parse_lint_regex r text =
     concat (map (\<lambda>line. case find_at r line 0 of None \<Rightarrow> [] | Some (_, _, c) \<Rightarrow> [finding_of line c])
       (split_on newline text))"

text \<open>One member of a struct with string and integer fields (\<open>eslintJSONMsg\<close>).\<close>

fun int_field :: "string \<Rightarrow> int \<Rightarrow> (string \<times> jval) list \<Rightarrow> int option" where
  "int_field name v [] = Some v"
| "int_field name v ((k, x) # kvs) =
     (if to_lower k = to_lower name then
        (case x of
           JNum q \<Rightarrow> if of_int \<lfloor>q\<rfloor> = q \<and> - (2 ^ 63) \<le> q \<and> q < 2 ^ 63 then int_field name \<lfloor>q\<rfloor> kvs else None
         | JNull \<Rightarrow> int_field name v kvs | _ \<Rightarrow> None)
      else int_field name v kvs)"

definition eslint_msg :: "string \<Rightarrow> jval \<Rightarrow> lint_finding option" where
  "eslint_msg file m =
     (case m of
        JObj kvs \<Rightarrow>
          (case (string_field ''ruleId'' [] kvs, string_field ''message'' [] kvs, int_field ''line'' 0 kvs,
                 int_field ''column'' 0 kvs, int_field ''severity'' 0 kvs) of
             (Some rule, Some msg, Some l, Some c, Some _) \<Rightarrow>
               Some \<lparr>lf_file = file, lf_line = l, lf_column = c, lf_rule = rule, lf_message = msg\<rparr>
           | _ \<Rightarrow> None)
      | JNull \<Rightarrow> Some \<lparr>lf_file = file, lf_line = 0, lf_column = 0, lf_rule = [], lf_message = []\<rparr>
      | _ \<Rightarrow> None)"

fun those_opt :: "'a option list \<Rightarrow> 'a list option" where
  "those_opt [] = Some []"
| "those_opt (x # xs) = (case (x, those_opt xs) of (Some a, Some as) \<Rightarrow> Some (a # as) | _ \<Rightarrow> None)"

fun array_field :: "string \<Rightarrow> jval list \<Rightarrow> (string \<times> jval) list \<Rightarrow> jval list option" where
  "array_field name v [] = Some v"
| "array_field name v ((k, x) # kvs) =
     (if to_lower k = to_lower name then
        (case x of JArr vs \<Rightarrow> array_field name vs kvs | JNull \<Rightarrow> array_field name [] kvs | _ \<Rightarrow> None)
      else array_field name v kvs)"

definition eslint_file :: "jval \<Rightarrow> lint_finding list option" where
  "eslint_file x =
     (case x of
        JObj kvs \<Rightarrow>
          (case (string_field ''filePath'' [] kvs, array_field ''messages'' [] kvs) of
             (Some file, Some ms) \<Rightarrow> those_opt (map (eslint_msg file) ms)
           | _ \<Rightarrow> None)
      | JNull \<Rightarrow> Some []
      | _ \<Rightarrow> None)"

definition parse_eslint :: "string \<Rightarrow> lint_finding list" where
  "parse_eslint stdout =
     (let s = trim_space stdout
      in if s = [] then []
         else case json_parse s of
                Some (JArr fs) \<Rightarrow> (case those_opt (map eslint_file fs) of None \<Rightarrow> [] | Some xs \<Rightarrow> concat xs)
              | _ \<Rightarrow> [])"

fun parse_lint :: "detector \<Rightarrow> string \<Rightarrow> string \<Rightarrow> lint_finding list" where
  "parse_lint (GoDet _) out err = parse_lint_regex lint_line_re out"
| "parse_lint (RustDet _) out err = parse_lint_regex clippy_line_re err"
| "parse_lint (NodeDet _ _ _) out err = parse_eslint out"
| "parse_lint (PyDet _) out err = parse_lint_regex ruff_line_re out"

section \<open>Running the linter and the formatter\<close>

datatype lint_err = LinterMissing | LintFailed string

text \<open>\<open>LintWith\<close>; the error text of the exit status is \<open>exit status N\<close>.\<close>

definition lint_with ::
  "(string \<Rightarrow> bool) \<Rightarrow> (string list \<Rightarrow> string \<Rightarrow> int \<Rightarrow> proc) \<Rightarrow> detector option \<Rightarrow> string \<Rightarrow> int \<Rightarrow> lint_finding list \<times> lint_err option" where
  "lint_with on_path run det r timeout =
     (case det of
        None \<Rightarrow> ([], None)
      | Some d \<Rightarrow>
          (case lint_cmd d of
             [] \<Rightarrow> ([], None)
           | bin # rest \<Rightarrow>
               if \<not> on_path bin then ([], Some LinterMissing)
               else
                 let p = run (bin # rest) r timeout;
                     fs = parse_lint d (p_stdout p) (p_stderr p)
                 in if p_deadline p then (fs, Some (LintFailed (''lint: timed out after '' @ dec_int timeout @ ''s'')))
                    else case p_err p of
                           RunOk \<Rightarrow> (fs, None)
                         | OtherError e \<Rightarrow> (fs, Some (LintFailed (''lint: '' @ e)))
                         | ExitError c \<Rightarrow>
                             if 2 \<le> c then
                               (fs, Some (LintFailed (''lint: exit status '' @ dec_int c @ '' (stderr: '' @ p_stderr p @ '')'')))
                             else (fs, None)))"

definition lint ::
  "(string \<Rightarrow> bool) \<Rightarrow> (string list \<Rightarrow> string \<Rightarrow> int \<Rightarrow> proc) \<Rightarrow> fs \<Rightarrow> string \<Rightarrow> int \<Rightarrow> lint_finding list \<times> lint_err option" where
  "lint on_path run f r timeout = lint_with on_path run (detect f r) r timeout"

record format_result =
  fr_binary :: string
  fr_ok :: bool
  fr_output :: string

datatype format_err = FormatterMissing | FormatFailed string

text \<open>\<open>FormatCheck\<close>; the combined output of the run is its \<open>p_stdout\<close>.\<close>

definition format_check ::
  "(string \<Rightarrow> bool) \<Rightarrow> (string list \<Rightarrow> string \<Rightarrow> int \<Rightarrow> proc) \<Rightarrow> fs \<Rightarrow> string \<Rightarrow> string \<Rightarrow> int
     \<Rightarrow> format_result option \<times> format_err option" where
  "format_check on_path run f r rel timeout =
     (case detect f r of
        None \<Rightarrow> (None, None)
      | Some d \<Rightarrow>
          (case format_check_cmd d rel of
             [] \<Rightarrow> (None, None)
           | bin # rest \<Rightarrow>
               if \<not> on_path bin then (Some \<lparr>fr_binary = bin, fr_ok = False, fr_output = []\<rparr>, Some FormatterMissing)
               else
                 let p = run (bin # rest) r timeout;
                     res = \<lparr>fr_binary = bin, fr_ok = (p_err p = RunOk), fr_output = p_stdout p\<rparr>
                 in if p_deadline p then (Some res, Some (FormatFailed (''format: timed out after '' @ dec_int timeout @ ''s'')))
                    else case p_err p of
                           OtherError e \<Rightarrow> (Some res, Some (FormatFailed (''format: '' @ e)))
                         | _ \<Rightarrow> (Some res, None)))"

end
