(* ===== verification/EditTool.thy ===== *)
theory EditTool
  imports WriteTool Verify
begin

text \<open>
  The \<open>Edit\<close> tool (\<open>internal/tools/edit.go\<close>): exact-string replacement, and the lint and format
  feedback appended to a successful edit.  The processes the feedback runs are an argument that sees
  the edited file system; what they may write themselves is not modelled.
\<close>

section \<open>Counting and replacing\<close>

lemma str_index_le: "str_index s old = Some i \<Longrightarrow> i + length old \<le> length s"
  by (induction s arbitrary: i) (auto dest: prefix_length_le split: if_splits)

lemma str_index_shrinks: "old \<noteq> [] \<Longrightarrow> str_index s old = Some i \<Longrightarrow> length (drop (i + length old) s) < length s"
  by (cases old) (auto dest!: str_index_le)

text \<open>\<open>strings.Split(s, old)\<close> for a non-empty \<open>old\<close>: cuts at the leftmost, non-overlapping occurrences.\<close>

function str_split :: "string \<Rightarrow> string \<Rightarrow> string list" where
  "str_split old s =
     (if old = [] then [s]
      else case str_index s old of None \<Rightarrow> [s] | Some i \<Rightarrow> take i s # str_split old (drop (i + length old) s))"
  by pat_completeness auto

termination
  by (relation "measure (\<lambda>(old, s). length s)") (auto dest: str_index_shrinks)

declare str_split.simps [simp del]

definition str_count :: "string \<Rightarrow> string \<Rightarrow> nat" where
  "str_count s old = length (str_split old s) - 1"

definition replace_every :: "string \<Rightarrow> string \<Rightarrow> string \<Rightarrow> string" where
  "replace_every s old new = join new (str_split old s)"

definition replace_first :: "string \<Rightarrow> string \<Rightarrow> string \<Rightarrow> string" where
  "replace_first s old new =
     (case str_index s old of None \<Rightarrow> s | Some i \<Rightarrow> take i s @ new @ drop (i + length old) s)"

record edit_args =
  ea_path :: string
  ea_old :: string
  ea_new :: string
  ea_all :: bool

definition parse_edit_args :: "args \<Rightarrow> string + edit_args" where
  "parse_edit_args a =
     (let p = arg_str0 a ''file_path''
      in if p = [] then Inl ''file_path is required''
         else case arg_str a ''old_string'' of
                None \<Rightarrow> Inl ''old_string is required''
              | Some old \<Rightarrow>
                  if old = [] then Inl ''old_string must be non-empty''
                  else case arg_str a ''new_string'' of
                         None \<Rightarrow> Inl ''new_string is required''
                       | Some new \<Rightarrow> Inr \<lparr>ea_path = p, ea_old = old, ea_new = new, ea_all = arg_bool a ''replace_all''\<rparr>)"

definition apply_edit :: "string \<Rightarrow> edit_args \<Rightarrow> string + (string \<times> nat)" where
  "apply_edit body p =
     (let count = str_count body (ea_old p)
      in if count = 0 then Inl (''old_string not found in '' @ ea_path p)
         else if 1 < count \<and> \<not> ea_all p then
           Inl (''old_string matched '' @ dec_nat count @ '' times in '' @ ea_path p
             @ ''; add context to make it unique or set replace_all=true'')
         else if ea_all p then Inr (replace_every body (ea_old p) (ea_new p), count)
         else Inr (replace_first body (ea_old p) (ea_new p), count))"

text \<open>
  What the edit means: the body is cut into pieces at the occurrences, no earlier occurrence
  crossing the end of a piece.
\<close>

definition cuts :: "string \<Rightarrow> string list \<Rightarrow> bool" where
  "cuts old ps \<longleftrightarrow> ps \<noteq> [] \<and> list_all (\<lambda>p. str_index (p @ old) old = Some (length p)) (butlast ps)
     \<and> str_index (last ps) old = None"

lemma prefix_old_append: "length old \<le> length a \<Longrightarrow> prefix old (a @ b) \<longleftrightarrow> prefix old a"
  by (auto simp: prefix_def) (metis append_eq_append_conv_if append_take_drop_id)

lemma str_index_here: "old \<noteq> [] \<Longrightarrow> str_index (p @ old) old = Some (length p) \<Longrightarrow>
  str_index (p @ old @ rest) old = Some (length p)"
proof (induction p)
  case Nil
  then show ?case by (cases old) auto
next
  case (Cons c p)
  have "length old \<le> length ((c # p) @ old)" by simp
  from prefix_old_append [OF this, of rest] Cons show ?case
    by (auto split: if_splits)
qed

lemma str_index_cut:
  "old \<noteq> [] \<Longrightarrow> str_index s old = Some i \<Longrightarrow> str_index (take i s @ old) old = Some i"
proof (induction s arbitrary: i)
  case (Cons c s)
  show ?case
  proof (cases "prefix old (c # s)")
    case True
    with Cons.prems have "i = 0" by simp
    then show ?thesis using Cons.prems(1) by (cases old) auto
  next
    case False
    then obtain j where j: "str_index s old = Some j" "i = Suc j" using Cons.prems by auto
    have s: "s = take j s @ old @ drop (j + length old) s" by (rule str_index_Some_append [OF j(1)])
    have "length old \<le> length ((c # take j s) @ old)" by simp
    from prefix_old_append [OF this, of "drop (j + length old) s"] s False
    have "\<not> prefix old ((c # take j s) @ old)" by (metis append_Cons append_assoc)
    with Cons.IH [OF Cons.prems(1) j(1)] j(2) show ?thesis by simp
  qed
qed auto

lemma str_split_ne [simp]: "str_split old s \<noteq> []"
  by (simp add: str_split.simps [of old s] split: option.splits)

lemma str_split_cuts: "old \<noteq> [] \<Longrightarrow> cuts old (str_split old s) \<and> join old (str_split old s) = s"
proof (induction old s rule: str_split.induct)
  case (1 old s)
  show ?case
  proof (cases "str_index s old")
    case None
    then show ?thesis using 1(2) by (simp add: str_split.simps [of old s] cuts_def)
  next
    case (Some i)
    have split: "str_split old s = take i s # str_split old (drop (i + length old) s)"
      using Some 1(2) by (simp add: str_split.simps [of old s])
    have "length (take i s) = i" using str_index_le [OF Some] by simp
    with 1(1) [OF 1(2) Some] 1(2) str_index_cut [OF 1(2) Some] split str_index_Some_append [OF Some]
    show ?thesis by (auto simp: cuts_def join_Cons)
  qed
qed

lemma cuts_split: "old \<noteq> [] \<Longrightarrow> cuts old ps \<Longrightarrow> str_split old (join old ps) = ps"
proof (induction ps)
  case (Cons p ps)
  show ?case
  proof (cases "ps = []")
    case True
    then show ?thesis using Cons.prems by (simp add: str_split.simps [of old p] cuts_def)
  next
    case False
    with Cons.prems(2) have c: "str_index (p @ old) old = Some (length p)" "cuts old ps" by (auto simp: cuts_def)
    from str_index_here [OF Cons.prems(1) c(1)] False Cons.IH [OF Cons.prems(1) c(2)] Cons.prems(1) show ?thesis
      by (simp add: join_Cons str_split.simps [of old "p @ old @ join old ps"])
  qed
qed (simp add: cuts_def)

lemma replace_single: "old \<noteq> [] \<Longrightarrow> str_count s old = 1 \<Longrightarrow> replace_first s old new = join new (str_split old s)"
proof -
  assume old: "old \<noteq> []" and n: "str_count s old = 1"
  then obtain a b where ab: "str_split old s = [a, b]"
    by (cases "str_split old s" rule: remdups_adj.cases) (auto simp: str_count_def length_Suc_conv)
  then obtain i where i: "str_index s old = Some i"
    using old by (cases "str_index s old") (auto simp: str_split.simps [of old s])
  with ab old have "a = take i s" "str_split old (drop (i + length old) s) = [b]" by (auto simp: str_split.simps [of old s])
  moreover have "join old (str_split old (drop (i + length old) s)) = drop (i + length old) s"
    using str_split_cuts [OF old] by blast
  ultimately show ?thesis using i ab by (simp add: replace_first_def)
qed

text \<open>
  C30: an edit replaces exactly the occurrences it counts.  The body has one decomposition into pieces
  at its leftmost non-overlapping occurrences of \<open>old_string\<close>; the edit fails if there is no occurrence,
  and if there are several and \<open>replace_all\<close> is not set; else it returns the pieces joined by
  \<open>new_string\<close> and the number of occurrences, and every other byte is kept.
\<close>

theorem apply_edit_exact:
  assumes "ea_old p \<noteq> []"
  shows "\<exists>!ps. cuts (ea_old p) ps \<and> body = join (ea_old p) ps \<and>
    apply_edit body p =
      (if length ps = 1 then Inl (''old_string not found in '' @ ea_path p)
       else if 2 < length ps \<and> \<not> ea_all p then
         Inl (''old_string matched '' @ dec_nat (length ps - 1) @ '' times in '' @ ea_path p
           @ ''; add context to make it unique or set replace_all=true'')
       else Inr (join (ea_new p) ps, length ps - 1))"
proof (rule ex1I [of _ "str_split (ea_old p) body"])
  let ?ps = "str_split (ea_old p) body"
  have "?ps \<noteq> []" by simp
  then have "0 < length ?ps" by blast
  then have "str_count body (ea_old p) = 0 \<longleftrightarrow> length ?ps = 1" "1 < str_count body (ea_old p) \<longleftrightarrow> 2 < length ?ps"
    "str_count body (ea_old p) = length ?ps - 1"
    unfolding str_count_def by arith+
  moreover have "replace_first body (ea_old p) (ea_new p) = join (ea_new p) ?ps" if "length ?ps = 2"
    using that by (intro replace_single [OF assms]) (simp add: str_count_def)
  ultimately show "cuts (ea_old p) ?ps \<and> body = join (ea_old p) ?ps \<and>
    apply_edit body p =
      (if length ?ps = 1 then Inl (''old_string not found in '' @ ea_path p)
       else if 2 < length ?ps \<and> \<not> ea_all p then
         Inl (''old_string matched '' @ dec_nat (length ?ps - 1) @ '' times in '' @ ea_path p
           @ ''; add context to make it unique or set replace_all=true'')
       else Inr (join (ea_new p) ?ps, length ?ps - 1))"
    using str_split_cuts [OF assms, of body] by (auto simp: apply_edit_def Let_def replace_every_def)
qed (use cuts_split [OF assms] in auto)

definition demo_edit :: edit_args where
  "demo_edit = \<lparr>ea_path = ''m.go'', ea_old = ''aba'', ea_new = ''x'', ea_all = False\<rparr>"

theorem apply_edit_exact_witness:
  "\<exists>ps. cuts ''aba'' ps \<and> ''zaba'' = join ''aba'' ps"
proof -
  have "ea_old demo_edit \<noteq> []" by code_simp
  from apply_edit_exact [OF this, of "''zaba''"] show ?thesis
    by (elim ex1E conjE, intro exI conjI) (simp_all add: demo_edit_def)
qed

text \<open>
  uniqueness is judged without overlaps.  Without \<open>replace_all\<close>, an \<open>old_string\<close> that occurs at two
  overlapping positions counts once, so the edit succeeds on the first of two candidate places
  although the text it was asked to find is not unique.
\<close>

theorem edit_overlap_accepted:
  "apply_edit ''ababa'' demo_edit = Inr (''xba'', 1)
   \<and> ''ababa'' = [] @ ea_old demo_edit @ ''ba'' \<and> ''ababa'' = ''ab'' @ ea_old demo_edit @ []"
  by code_simp

section \<open>Feedback after the edit\<close>

definition post_edit_lint_timeout :: int where "post_edit_lint_timeout = 30"
definition post_edit_format_timeout :: int where "post_edit_format_timeout = 10"
definition post_edit_format_max_lines :: nat where "post_edit_format_max_lines = 500"

definition finding_matches :: "string \<Rightarrow> string \<Rightarrow> lint_finding \<Rightarrow> bool" where
  "finding_matches r rel x =
     ((if is_abs (lf_file x) then (case fp_rel r (lf_file x) of Some q \<Rightarrow> q | None \<Rightarrow> lf_file x) else lf_file x) = rel)"

definition render_finding :: "lint_finding \<Rightarrow> string" where
  "render_finding x = lf_file x @ '':'' @ dec_int (lf_line x) @ '':'' @ dec_int (lf_column x) @ '':'' @ lf_rule x
     @ '': '' @ lf_message x @ [newline]"

definition post_edit_lint_feedback ::
  "(string \<Rightarrow> bool) \<Rightarrow> (string list \<Rightarrow> string \<Rightarrow> int \<Rightarrow> proc) \<Rightarrow> fs \<Rightarrow> string \<Rightarrow> string \<Rightarrow> string" where
  "post_edit_lint_feedback on_path run f r edited =
     (case lint on_path run f r post_edit_lint_timeout of
        (_, Some _) \<Rightarrow> []
      | (xs, None) \<Rightarrow>
          if xs = [] then []
          else (case fp_rel r edited of
                  None \<Rightarrow> []
                | Some rel \<Rightarrow>
                    (let ms = filter (finding_matches r rel) xs
                     in if ms = [] then []
                        else ''post-edit lint findings ('' @ dec_nat (length ms) @ ''):'' @ newline # concat (map render_finding ms))))"

definition truncate_format_output :: "string \<Rightarrow> nat \<Rightarrow> string" where
  "truncate_format_output text mx =
     (let ls = split_on newline text
      in if length ls \<le> mx then text
         else join [newline] (take mx ls) @ newline # ''... ('' @ dec_nat (length ls - mx) @ '' lines truncated)'' @ [newline])"

definition post_edit_format_feedback ::
  "(string \<Rightarrow> bool) \<Rightarrow> (string list \<Rightarrow> string \<Rightarrow> int \<Rightarrow> proc) \<Rightarrow> fs \<Rightarrow> string \<Rightarrow> string \<Rightarrow> string" where
  "post_edit_format_feedback on_path run f r edited =
     (case fp_rel r edited of
        None \<Rightarrow> []
      | Some rel \<Rightarrow>
          (case format_check on_path run f r rel post_edit_format_timeout of
             (None, _) \<Rightarrow> []
           | (Some res, err) \<Rightarrow>
               if err = Some FormatterMissing then ''post-edit format: '' @ fr_binary res @ '' not found on PATH''
               else if fr_ok res then []
               else trim_nl (''--- format ---'' @ newline # truncate_format_output (fr_output res) post_edit_format_max_lines)))"

section \<open>The handler\<close>

definition resolve_edit_target :: "workspace \<Rightarrow> file_session \<Rightarrow> string \<Rightarrow> (string + string) \<times> file_session" where
  "resolve_edit_target w s p =
     (case resolve (se_fs s) w p of
        Inl e \<Rightarrow> (Inl (''resolve path: '' @ resolve_err_text e), note_violation e s)
      | Inr r \<Rightarrow>
          (case k_stat (se_fs s) r of
             Inl e \<Rightarrow> (Inl (''stat: '' @ path_error ''stat'' r e), s)
           | Inr NDir \<Rightarrow> (Inl (''path is a directory: '' @ p), s)
           | Inr _ \<Rightarrow>
               if has_been_read (se_tracker s) r then (Inr r, s)
               else (Inl (''refusing to edit '' @ p @ '': Read it first''), s)))"

definition handle_edit ::
  "(string \<Rightarrow> bool) \<Rightarrow> (fs \<Rightarrow> string list \<Rightarrow> string \<Rightarrow> int \<Rightarrow> proc) \<Rightarrow> write_faults \<Rightarrow> nat \<Rightarrow> nat \<Rightarrow> ws_deps \<Rightarrow> args
     \<Rightarrow> file_session \<Rightarrow> tool_result \<times> file_session" where
  "handle_edit on_path run flts pid nano d a s =
     (case resolve_workspace d a of
        Inl e \<Rightarrow> (ErrorResult e, s)
      | Inr w \<Rightarrow>
          (case parse_edit_args a of
             Inl e \<Rightarrow> (ErrorResult e, s)
           | Inr p \<Rightarrow>
               (case resolve_edit_target w s (ea_path p) of
                  (Inl e, s1) \<Rightarrow> (ErrorResult e, s1)
                | (Inr r, s1) \<Rightarrow>
                    (case k_read_file (se_fs s1) r of
                       Inl e \<Rightarrow> (ErrorResult (''read: '' @ path_error ''open'' r e), s1)
                     | Inr data \<Rightarrow>
                         (case apply_edit data p of
                            Inl e \<Rightarrow> (ErrorResult e, s1)
                          | Inr (updated, count) \<Rightarrow>
                              (case atomic_write flts pid nano (se_fs s1) r updated of
                                 (Some e, f2) \<Rightarrow> (ErrorResult (''write: '' @ e), s1\<lparr>se_fs := f2\<rparr>)
                               | (None, f2) \<Rightarrow>
                                   (let lintf = post_edit_lint_feedback on_path (run f2) f2 (ws_root w) r;
                                        fmtf = post_edit_format_feedback on_path (run f2) f2 (ws_root w) r
                                    in (TextResult (''replaced '' @ dec_nat count @ '' occurrence(s) in '' @ ea_path p
                                          @ (if lintf = [] then [] else [newline, newline] @ lintf)
                                          @ (if fmtf = [] then [] else [newline, newline] @ fmtf)),
                                        s1\<lparr>se_fs := f2,
                                           se_edit_bytes := se_edit_bytes s1 + length (ea_new p) * count\<rparr>))))))))"

lemma resolve_edit_target_ok:
  "resolve_edit_target w s p = (Inr r, s') \<Longrightarrow>
     s' = s \<and> resolve (se_fs s) w p = Inr r \<and> (\<exists>nd. k_stat (se_fs s) r = Inr nd \<and> nd \<noteq> NDir) \<and> r \<in> se_tracker s"
  by (auto simp: resolve_edit_target_def has_been_read_def split: sum.splits node.splits if_splits)

lemma resolve_edit_target_state:
  "resolve_edit_target w s p = (x, s') \<Longrightarrow> se_fs s' = se_fs s \<and> se_tracker s' = se_tracker s"
  by (auto simp: resolve_edit_target_def split: sum.splits node.splits if_splits)

text \<open>A call of \<open>Edit\<close> either leaves the files as they are or gets as far as the replacement.\<close>

lemma handle_edit_cases:
  assumes "handle_edit on_path run flts pid nano d a s = (res, s')"
  obtains (refused) "is_error res" "se_fs s' = se_fs s" "se_tracker s' = se_tracker s"
  | (edited) w p r data updated count err where "resolve_workspace d a = Inr w" "parse_edit_args a = Inr p"
      "resolve (se_fs s) w (ea_path p) = Inr r" "r \<in> se_tracker s" "k_read_file (se_fs s) r = Inr data"
      "apply_edit data p = Inr (updated, count)" "atomic_write flts pid nano (se_fs s) r updated = (err, se_fs s')"
      "err = None \<longleftrightarrow> \<not> is_error res" "se_tracker s' = se_tracker s"
proof (cases "resolve_workspace d a")
  case (Inl e)
  then show thesis using assms refused by (auto simp: handle_edit_def)
next
  case w: (Inr w)
  show thesis
  proof (cases "parse_edit_args a")
    case (Inl e)
    then show thesis using assms w refused by (auto simp: handle_edit_def)
  next
    case p: (Inr p)
    obtain x s1 where x: "resolve_edit_target w s (ea_path p) = (x, s1)" by (cases "resolve_edit_target w s (ea_path p)")
    show thesis
    proof (cases x)
      case (Inl e)
      then show thesis using assms w p x resolve_edit_target_state [OF x] refused by (auto simp: handle_edit_def)
    next
      case r: (Inr r)
      note ok = resolve_edit_target_ok [OF x [unfolded r]]
      then have s1: "s1 = s" by simp
      show thesis
      proof (cases "k_read_file (se_fs s) r")
        case (Inl e)
        then show thesis using assms w p x r s1 refused by (auto simp: handle_edit_def)
      next
        case data: (Inr data)
        show thesis
        proof (cases "apply_edit data p")
          case (Inl e)
          then show thesis using assms w p x r s1 data refused by (auto simp: handle_edit_def)
        next
          case e: (Inr uc)
          obtain updated count where uc: "uc = (updated, count)" by (cases uc)
          obtain err f2 where aw: "atomic_write flts pid nano (se_fs s) r updated = (err, f2)"
            by (cases "atomic_write flts pid nano (se_fs s) r updated")
          have "se_fs s' = f2 \<and> (err = None \<longleftrightarrow> \<not> is_error res) \<and> se_tracker s' = se_tracker s"
            using assms w p x r s1 data e uc aw by (cases err) (auto simp: handle_edit_def Let_def)
          then show thesis using ok e uc aw by (intro edited [OF w p _ _ data]) auto
        qed
      qed
    qed
  qed
qed


definition demo_edit_call :: args where
  "demo_edit_call = [(''file_path'', JStr ''m.go''), (''old_string'', JStr ''m''), (''new_string'', JStr ''n'')]"


end
