(* ===== verification/Health.thy ===== *)
theory Health
  imports Prelude
begin

text \<open>
  The agent-health signals (\<open>internal/metrics/health/tracker.go\<close>): the rolling tool error rate, the
  failing-test streak, the time since the last green run and the repetition detector.  The gauges and
  the counter of package \<open>metrics\<close> that the tracker drives are fields of its state; times are
  nanoseconds.  Each method holds the tracker's lock, so each is a function on the record.
\<close>

section \<open>Ring buffers\<close>

definition ring_put :: "'a \<Rightarrow> 'a list \<times> nat \<Rightarrow> 'a list \<times> nat" where
  "ring_put x r = ((fst r)[snd r := x], Suc (snd r) mod length (fst r))"

definition ring_contents :: "'a list \<times> nat \<Rightarrow> 'a list" where
  "ring_contents r = drop (snd r) (fst r) @ take (snd r) (fst r)"

definition ring_ok :: "'a list \<times> nat \<Rightarrow> bool" where
  "ring_ok r \<longleftrightarrow> snd r < length (fst r)"

text \<open>What a user of a fixed-size buffer relies on: a write forgets the oldest entry.\<close>

locale sliding_buffer =
  fixes put :: "'a \<Rightarrow> 's \<Rightarrow> 's"
    and contents :: "'s \<Rightarrow> 'a list"
    and ok :: "'s \<Rightarrow> bool"
  assumes put_ok: "ok s \<Longrightarrow> ok (put x s)"
    and put_contents: "ok s \<Longrightarrow> contents (put x s) = tl (contents s) @ [x]"
    and contents_ne: "ok s \<Longrightarrow> contents s \<noteq> []"
begin

lemma put_length: "ok s \<Longrightarrow> length (contents (put x s)) = length (contents s)"
  using contents_ne [of s] by (simp add: put_contents)

lemma fold_ok: "ok s \<Longrightarrow> ok (fold put xs s)"
  by (induction xs arbitrary: s) (auto intro: put_ok)

lemma fold_contents: "ok s \<Longrightarrow> contents (fold put xs s) = drop (length xs) (contents s @ xs)"
proof (induction xs arbitrary: s)
  case (Cons x xs)
  have "contents (fold put (x # xs) s) = drop (length xs) ((tl (contents s) @ [x]) @ xs)"
    using Cons.IH [of "put x s"] Cons.prems by (simp add: put_ok put_contents del: drop_append append_assoc)
  also have "(tl (contents s) @ [x]) @ xs = tl (contents s @ x # xs)"
    using contents_ne [OF Cons.prems] by simp
  finally show ?case by (simp add: drop_Suc del: drop_append)
qed simp

lemma oldest: "ok s \<Longrightarrow> contents (put x s) @ ys = drop 1 (contents s @ x # ys)"
  using contents_ne [of s] by (cases "contents s") (auto simp: put_contents)

end

interpretation ring: sliding_buffer ring_put ring_contents ring_ok
proof unfold_locales
  fix s :: "'a list \<times> nat" and x
  assume ok: "ring_ok s"
  obtain b i where s: "s = (b, i)" "i < length b" using ok by (cases s) (auto simp: ring_ok_def)
  then have ne: "length b \<noteq> 0" by auto
  show "ring_ok (ring_put x s)" using s ne by (simp add: ring_ok_def ring_put_def)
  show "ring_contents s \<noteq> []" using s by (simp add: ring_contents_def)
  have "drop i b = b ! i # drop (Suc i) b" using s(2) by (rule Cons_nth_drop_Suc [symmetric])
  moreover have "drop (Suc i) (b[i := x]) = drop (Suc i) b" by simp
  moreover have "take (Suc i) (b[i := x]) = take i b @ [x]" using s(2) by (simp add: take_Suc_conv_app_nth)
  moreover have "b[i := x] = take i b @ [x]" if "Suc i = length b"
    using s(2) that by (simp add: upd_conv_take_nth_drop)
  ultimately show "ring_contents (ring_put x s) = tl (ring_contents s) @ [x]"
    using s by (cases "Suc i = length b") (auto simp: ring_contents_def ring_put_def)
qed

section \<open>The tracker\<close>

record health_config =
  repetition_window :: int
  repetition_threshold :: int
  error_rate_window :: int

definition default_config :: health_config where
  "default_config = \<lparr>repetition_window = 600000000000, repetition_threshold = 3, error_rate_window = 100\<rparr>"

record health =
  h_window :: int
  h_threshold :: nat
  last_failures :: int
  have_last :: bool
  streak :: nat
  last_green :: "int option"
  err_ring :: "bool list \<times> nat"
  err_full :: bool
  err_count :: int
  rep_ring :: "string \<rightharpoonup> (string \<times> int) list \<times> nat"
  rep_counted :: "string \<Rightarrow> string set"
  g_error_rate :: rat
  g_streak :: nat
  g_since_green :: int
  c_repetition :: "string \<Rightarrow> nat"

definition positive_or :: "int \<Rightarrow> int \<Rightarrow> int" where
  "positive_or v d = (if v \<le> 0 then d else v)"

definition health_new :: "health_config \<Rightarrow> health" where
  "health_new c =
     \<lparr>h_window = positive_or (repetition_window c) (repetition_window default_config),
      h_threshold = nat (positive_or (repetition_threshold c) (repetition_threshold default_config)),
      last_failures = 0, have_last = False, streak = 0, last_green = None,
      err_ring = (replicate (nat (positive_or (error_rate_window c) (error_rate_window default_config))) False, 0),
      err_full = False, err_count = 0, rep_ring = Map.empty, rep_counted = (\<lambda>_. {}),
      g_error_rate = 0, g_streak = 0, g_since_green = 0, c_repetition = (\<lambda>_. 0)\<rparr>"

definition observe_test_result :: "int \<Rightarrow> health \<Rightarrow> health" where
  "observe_test_result failures t =
     (let k = (if failures = 0 then 0
               else if have_last t \<and> failures < last_failures t then 0
               else Suc (streak t))
      in t\<lparr>streak := k, last_failures := failures, have_last := True, g_streak := k\<rparr>)"

definition observe_green :: "int \<Rightarrow> health \<Rightarrow> health" where
  "observe_green now t = t\<lparr>last_green := Some now, g_since_green := 0\<rparr>"

definition update_time_since_last_green :: "int \<Rightarrow> health \<Rightarrow> health" where
  "update_time_since_last_green now t =
     (case last_green t of
        None \<Rightarrow> t\<lparr>g_since_green := 0\<rparr>
      | Some g \<Rightarrow> t\<lparr>g_since_green := now - g\<rparr>)"

definition record_error_outcome :: "bool \<Rightarrow> health \<Rightarrow> health" where
  "record_error_outcome ok t =
     (let (buf, i) = err_ring t
      in if buf = [] then t
         else
           let c1 = (if err_full t \<and> \<not> buf ! i then err_count t - 1 else err_count t);
               c2 = (if \<not> ok then c1 + 1 else c1);
               r = ring_put ok (buf, i);
               full = err_full t \<or> snd r = 0;
               size = (if full then length buf else snd r)
           in t\<lparr>err_ring := r, err_full := full, err_count := c2,
                g_error_rate := (if 0 < size then of_int c2 / of_nat size else 0)\<rparr>)"

definition rep_count :: "string \<Rightarrow> int \<Rightarrow> (string \<times> int) list \<Rightarrow> nat" where
  "rep_count h cutoff buf = length (filter (\<lambda>(h', tm). h' = h \<and> cutoff \<le> tm) buf)"

definition rep_ring_of :: "health \<Rightarrow> string \<Rightarrow> (string \<times> int) list \<times> nat" where
  "rep_ring_of t tool =
     (case rep_ring t tool of Some r \<Rightarrow> r | None \<Rightarrow> (replicate (h_threshold t * 4) ([], 0), 0))"

definition record_repetition :: "int \<Rightarrow> string \<Rightarrow> string \<Rightarrow> health \<Rightarrow> health" where
  "record_repetition now tool h t =
     (if h = [] then t
      else
        let r = ring_put (h, now) (rep_ring_of t tool);
            count = rep_count h (now - h_window t) (fst r);
            counted = rep_counted t tool;
            t1 = t\<lparr>rep_ring := (rep_ring t)(tool \<mapsto> r)\<rparr>
        in if h_threshold t \<le> count \<and> h \<notin> counted then
             t1\<lparr>rep_counted := (rep_counted t)(tool := insert h counted),
                c_repetition := (c_repetition t)(tool := Suc (c_repetition t tool))\<rparr>
           else if count < h_threshold t \<and> h \<in> counted then
             t1\<lparr>rep_counted := (rep_counted t)(tool := counted - {h})\<rparr>
           else t1)"

definition observe :: "int \<Rightarrow> string \<Rightarrow> string \<Rightarrow> string \<Rightarrow> health \<Rightarrow> health" where
  "observe now tool status h t = record_repetition now tool h (record_error_outcome (status = ''ok'') t)"

section \<open>The error rate\<close>

definition last_n :: "nat \<Rightarrow> 'a list \<Rightarrow> 'a list" where
  "last_n n xs = drop (length xs - n) xs"

definition errors_in :: "bool list \<Rightarrow> nat" where
  "errors_in oks = length (filter Not oks)"

text \<open>The tracker after the outcomes \<open>hist\<close>, for a window of \<open>n\<close> calls.\<close>

definition err_inv :: "nat \<Rightarrow> bool list \<Rightarrow> health \<Rightarrow> bool" where
  "err_inv n hist t \<longleftrightarrow> 0 < n \<and> length (fst (err_ring t)) = n
     \<and> snd (err_ring t) = length hist mod n
     \<and> ring_contents (err_ring t) = drop (length hist) (replicate n False @ hist)
     \<and> (err_full t \<longleftrightarrow> n \<le> length hist)
     \<and> err_count t = int (errors_in (last_n n hist))"

lemma drop_Suc_tl: "drop (Suc k) xs = tl (drop k xs)"
  by (simp add: drop_Suc tl_drop)

lemma last_n_snoc:
  "last_n n (xs @ [x]) = (if n = 0 then [] else if length xs < n then last_n n xs @ [x] else tl (last_n n xs) @ [x])"
proof (cases "n = 0 \<or> length xs < n")
  case True
  then show ?thesis by (auto simp: last_n_def)
next
  case False
  then have "drop (Suc (length xs) - n) (xs @ [x]) = drop (Suc (length xs - n)) xs @ [x]"
    by (simp add: Suc_diff_le)
  with False drop_Suc_tl [of "length xs - n" xs] show ?thesis unfolding last_n_def by simp
qed

lemma window_snoc:
  assumes "0 < n"
  shows "tl (drop (length xs) (replicate n a @ xs)) @ [x] = drop (length (xs @ [x])) (replicate n a @ xs @ [x])"
proof -
  have "tl (drop (length xs) (replicate n a @ xs)) @ [x] = drop (Suc (length xs)) ((replicate n a @ xs) @ [x])"
    using assms by (simp only: drop_append [of "Suc (length xs)" "replicate n a @ xs" "[x]"] drop_Suc_tl [symmetric]) simp
  then show ?thesis by simp
qed

lemma ring_hd: "ring_ok (b, i) \<Longrightarrow> hd (ring_contents (b, i)) = b ! i"
  by (simp add: ring_contents_def ring_ok_def hd_append hd_drop_conv_nth)

lemma record_error_inv [invars]:
  assumes "err_inv n hist t"
  shows "err_inv n (hist @ [ok]) (record_error_outcome ok t)
    \<and> g_error_rate (record_error_outcome ok t)
        = of_nat (errors_in (last_n n (hist @ [ok]))) / of_nat (min n (Suc (length hist)))"
proof -
  obtain b i where r: "err_ring t = (b, i)" by (cases "err_ring t")
  let ?N = "length hist"
  have n: "0 < n" "length b = n" "i = ?N mod n"
    and full: "err_full t \<longleftrightarrow> n \<le> ?N"
    and cont: "ring_contents (b, i) = drop ?N (replicate n False @ hist)"
    and cnt: "err_count t = int (errors_in (last_n n hist))"
    using assms r by (auto simp: err_inv_def)
  have ok: "ring_ok (b, i)" using n by (simp add: ring_ok_def)
  have bne: "b \<noteq> []" using n by auto
  have old: "last_n n hist = (b ! i) # tl (last_n n hist)" if le: "n \<le> ?N"
  proof -
    from le have "last_n n hist = ring_contents (b, i)" by (simp add: cont last_n_def)
    then show ?thesis using ring_hd [OF ok] ring.contents_ne [OF ok] by (cases "ring_contents (b, i)") auto
  qed
  have idx: "snd (ring_put ok (b, i)) = Suc ?N mod n" using n by (simp add: ring_put_def mod_Suc_eq)
  have wrap: "(err_full t \<or> Suc ?N mod n = 0) \<longleftrightarrow> n \<le> Suc ?N"
  proof (cases "n \<le> ?N")
    case False
    then show ?thesis using full n by (cases "Suc ?N = n") auto
  qed (simp add: full)
  have c2: "(if \<not> ok then (if err_full t \<and> \<not> b ! i then err_count t - 1 else err_count t) + 1
      else (if err_full t \<and> \<not> b ! i then err_count t - 1 else err_count t)) = int (errors_in (last_n n (hist @ [ok])))"
  proof (cases "n \<le> ?N")
    case True
    then have l: "last_n n hist = (b ! i) # tl (last_n n hist)" using old by blast
    have "last_n n (hist @ [ok]) = tl (last_n n hist) @ [ok]" using True n by (simp add: last_n_snoc)
    moreover have "errors_in (last_n n hist) = (if b ! i then 0 else 1) + errors_in (tl (last_n n hist))"
      by (subst l) (simp add: errors_in_def)
    ultimately show ?thesis using True full cnt by (simp add: errors_in_def)
  next
    case False
    then have "last_n n (hist @ [ok]) = last_n n hist @ [ok]" using n by (simp add: last_n_snoc)
    then show ?thesis using False full cnt by (simp add: errors_in_def)
  qed
  have cont': "ring_contents (ring_put ok (b, i)) = drop (Suc ?N) (replicate n False @ hist @ [ok])"
    using ring.put_contents [OF ok, of ok] cont window_snoc [OF n(1), of hist False ok] by simp
  have size: "(if n \<le> Suc ?N then n else Suc ?N mod n) = min n (Suc ?N)" by simp
  let ?e = "errors_in (last_n n (hist @ [ok]))"
  have "record_error_outcome ok t = t\<lparr>err_ring := ring_put ok (b, i), err_full := n \<le> Suc ?N, err_count := int ?e,
      g_error_rate := of_nat ?e / of_nat (min n (Suc ?N))\<rparr>"
    unfolding record_error_outcome_def r Let_def prod.case c2 idx wrap
    using bne n(1,2) size by simp
  then show ?thesis
    using r n idx cont' by (simp add: err_inv_def ring_put_def)
qed

lemma health_new_err: "0 < error_rate_window c \<Longrightarrow> err_inv (nat (error_rate_window c)) [] (health_new c)"
  by (simp add: err_inv_def health_new_def positive_or_def ring_contents_def errors_in_def last_n_def)

lemma record_repetition_err [simp]:
  "err_ring (record_repetition now tool h t) = err_ring t" "err_full (record_repetition now tool h t) = err_full t"
  "err_count (record_repetition now tool h t) = err_count t" "g_error_rate (record_repetition now tool h t) = g_error_rate t"
  by (simp_all add: record_repetition_def Let_def)

text \<open>The calls of the middleware and the verify tools.\<close>

datatype health_op = HObserve int string string string | HTest int | HGreen int | HTick int

fun health_step :: "health_op \<Rightarrow> health \<Rightarrow> health" where
  "health_step (HObserve now tool status h) = observe now tool status h"
| "health_step (HTest n) = observe_test_result n"
| "health_step (HGreen now) = observe_green now"
| "health_step (HTick now) = update_time_since_last_green now"

fun outcomes :: "health_op list \<Rightarrow> bool list" where
  "outcomes [] = []"
| "outcomes (HObserve now tool status h # ops) = (status = ''ok'') # outcomes ops"
| "outcomes (_ # ops) = outcomes ops"

lemma err_inv_step:
  assumes "err_inv n hist t"
  shows "err_inv n (hist @ outcomes [a]) (health_step a t) \<and>
    (outcomes [a] = [] \<longrightarrow> g_error_rate (health_step a t) = g_error_rate t) \<and>
    (outcomes [a] \<noteq> [] \<longrightarrow> g_error_rate (health_step a t)
        = of_nat (errors_in (last_n n (hist @ outcomes [a]))) / of_nat (min n (length (hist @ outcomes [a]))))"
proof (cases a)
  case (HObserve now tool status h)
  with record_error_inv [OF assms, of "status = ''ok''"] show ?thesis
    by (simp add: observe_def err_inv_def)
qed (use assms in \<open>auto simp: err_inv_def observe_test_result_def observe_green_def update_time_since_last_green_def Let_def
      split: option.splits\<close>)

lemma outcomes_append: "outcomes (as @ bs) = outcomes as @ outcomes bs"
  by (induction as rule: outcomes.induct) auto

lemma fold_rate:
  assumes "err_inv n hist t" "g_error_rate t = of_nat (errors_in (last_n n hist)) / of_nat (min n (length hist))"
  shows "err_inv n (hist @ outcomes ops) (fold health_step ops t)
    \<and> g_error_rate (fold health_step ops t)
        = of_nat (errors_in (last_n n (hist @ outcomes ops))) / of_nat (min n (length (hist @ outcomes ops)))"
  using assms
proof (induction ops arbitrary: hist t)
  case (Cons a ops)
  from err_inv_step [OF Cons.prems(1), of a] Cons.prems(2)
  have s: "err_inv n (hist @ outcomes [a]) (health_step a t)"
    "g_error_rate (health_step a t) = of_nat (errors_in (last_n n (hist @ outcomes [a]))) / of_nat (min n (length (hist @ outcomes [a])))"
    by (cases "outcomes [a] = []"; auto)+
  from Cons.IH [OF s] show ?case using outcomes_append [of "[a]" ops] by (simp add: append_assoc)
qed simp

text \<open>
  C35: the error-rate gauge is exact.  After any sequence of tool calls, test results, green runs and
  ticks it equals the number of failed calls among the last \<open>N\<close> calls, divided by how many of those
  there are.
\<close>

theorem error_rate_exact:
  assumes "0 < error_rate_window c"
  shows "let n = nat (error_rate_window c); oks = outcomes ops
    in g_error_rate (fold health_step ops (health_new c)) = of_nat (errors_in (last_n n oks)) / of_nat (min n (length oks))"
  using fold_rate [OF health_new_err [OF assms], of ops]
  by (simp add: health_new_def errors_in_def last_n_def Let_def)

theorem error_rate_exact_witness:
  "g_error_rate (fold health_step [HObserve 1 ''Bash'' ''ok'' ''h'', HObserve 2 ''Read'' ''error'' ''g'', HTest 3]
     (health_new \<lparr>repetition_window = 0, repetition_threshold = 0, error_rate_window = 2\<rparr>)) = 1 / 2"
  by (subst error_rate_exact [unfolded Let_def]) (simp_all add: last_n_def errors_in_def)

section \<open>The failing-test streak\<close>

fun test_results :: "health_op list \<Rightarrow> int list" where
  "test_results [] = []"
| "test_results (HTest n # ops) = n # test_results ops"
| "test_results (_ # ops) = test_results ops"

text \<open>A run is stuck when it fails and has no fewer failures than the run before it.\<close>

definition stuck_at :: "int list \<Rightarrow> nat \<Rightarrow> bool" where
  "stuck_at fs i \<longleftrightarrow> fs ! i \<noteq> 0 \<and> (0 < i \<longrightarrow> fs ! (i - 1) \<le> fs ! i)"

definition streak_inv :: "int list \<Rightarrow> health \<Rightarrow> bool" where
  "streak_inv fs t \<longleftrightarrow> g_streak t = streak t \<and> streak t \<le> length fs
     \<and> (have_last t \<longleftrightarrow> fs \<noteq> []) \<and> (fs \<noteq> [] \<longrightarrow> last_failures t = last fs)
     \<and> (\<forall>i. length fs - streak t \<le> i \<and> i < length fs \<longrightarrow> stuck_at fs i)
     \<and> (streak t < length fs \<longrightarrow> \<not> stuck_at fs (length fs - Suc (streak t)))"

lemma stuck_snoc:
  "i < length fs \<Longrightarrow> stuck_at (fs @ [n]) i = stuck_at fs i"
  by (auto simp: stuck_at_def nth_append)

lemma stuck_last:
  "stuck_at (fs @ [n]) (length fs) \<longleftrightarrow> n \<noteq> 0 \<and> (fs = [] \<or> last fs \<le> n)"
  by (cases fs rule: rev_cases) (auto simp: stuck_at_def nth_append)

lemma streak_fields [simp]:
  "streak (record_repetition now tool h t) = streak t" "streak (record_error_outcome ok t) = streak t"
  "g_streak (record_repetition now tool h t) = g_streak t" "g_streak (record_error_outcome ok t) = g_streak t"
  "have_last (record_repetition now tool h t) = have_last t" "have_last (record_error_outcome ok t) = have_last t"
  "last_failures (record_repetition now tool h t) = last_failures t"
  "last_failures (record_error_outcome ok t) = last_failures t"
  by (simp_all add: record_repetition_def record_error_outcome_def Let_def split: prod.splits)

lemma streak_step:
  assumes "streak_inv fs t"
  shows "streak_inv (fs @ test_results [a]) (health_step a t)"
proof (cases a)
  case (HTest n)
  have k: "streak (observe_test_result n t) = (if stuck_at (fs @ [n]) (length fs) then Suc (streak t) else 0)"
    using assms by (auto simp: observe_test_result_def streak_inv_def stuck_last Let_def)
  have rest: "have_last (observe_test_result n t)" "last_failures (observe_test_result n t) = n"
    "g_streak (observe_test_result n t) = streak (observe_test_result n t)"
    by (simp_all add: observe_test_result_def Let_def)
  show ?thesis
  proof (cases "stuck_at (fs @ [n]) (length fs)")
    case True
    have "stuck_at (fs @ [n]) i" if "Suc (length fs) - Suc (streak t) \<le> i" "i < Suc (length fs)" for i
      using assms that True by (cases "i = length fs") (auto simp: streak_inv_def stuck_snoc)
    moreover have "\<not> stuck_at (fs @ [n]) (Suc (length fs) - Suc (Suc (streak t)))" if "Suc (streak t) < Suc (length fs)"
      using assms that by (auto simp: streak_inv_def stuck_snoc)
    ultimately show ?thesis using assms True k rest HTest by (simp add: streak_inv_def)
  next
    case False
    with k rest HTest show ?thesis by (auto simp: streak_inv_def)
  qed
qed (use assms in \<open>simp_all add: streak_inv_def observe_def observe_green_def update_time_since_last_green_def
      split: option.splits\<close>)

lemma streak_fold: "streak_inv fs t \<Longrightarrow> streak_inv (fs @ test_results ops) (fold health_step ops t)"
proof (induction ops arbitrary: fs t)
  case (Cons a ops)
  have "test_results (a # ops) = test_results [a] @ test_results ops" by (cases a) auto
  with Cons.IH [OF streak_step [OF Cons.prems, of a]] show ?case by simp
qed simp

text \<open>
  the streak gauge is the length of the longest run of stuck test results at the end of the
  history: each of them fails with no fewer failures than its predecessor, and the result before
  them, if any, was green or an improvement.
\<close>

theorem streak_longest:
  "let fs = test_results ops; k = g_streak (fold health_step ops (health_new c))
   in k \<le> length fs \<and> list_all (stuck_at fs) [length fs - k..<length fs]
      \<and> (k = length fs \<or> \<not> stuck_at fs (length fs - Suc k))"
proof -
  have "streak_inv [] (health_new c)" by (simp add: streak_inv_def health_new_def)
  from streak_fold [OF this, of ops] show ?thesis
    by (auto simp: streak_inv_def Let_def list_all_iff)
qed

theorem streak_longest_witness:
  "stuck_at [3, 2, 2] 2 \<and> \<not> stuck_at [3, 2, 2] 1"
  using streak_longest [of "[HTest 3, HTest 2, HTest 2]" default_config]
  by (simp add: health_new_def observe_test_result_def numeral_2_eq_2 Let_def)

section \<open>The repetition detector\<close>

text \<open>The calls of one tool that the detector sees: those with a fingerprint.\<close>

fun rep_calls :: "string \<Rightarrow> health_op list \<Rightarrow> (string \<times> int) list" where
  "rep_calls tool [] = []"
| "rep_calls tool (HObserve now t status h # ops) =
     (if t = tool \<and> h \<noteq> [] then (h, now) # rep_calls tool ops else rep_calls tool ops)"
| "rep_calls tool (_ # ops) = rep_calls tool ops"

text \<open>
  \<open>hit w k calls i\<close>: when call number \<open>i\<close> arrived, at least \<open>k\<close> of the last \<open>4 k\<close> calls had its
  fingerprint and lay in the window \<open>w\<close>.  \<open>flagged\<close>: the latest call with the fingerprint was a hit.
\<close>

definition hit :: "int \<Rightarrow> nat \<Rightarrow> (string \<times> int) list \<Rightarrow> nat \<Rightarrow> bool" where
  "hit w k calls i \<longleftrightarrow>
     k \<le> rep_count (fst (calls ! i)) (snd (calls ! i) - w) (last_n (k * 4) (take (Suc i) calls))"

definition flagged :: "int \<Rightarrow> nat \<Rightarrow> (string \<times> int) list \<Rightarrow> string \<Rightarrow> bool" where
  "flagged w k calls h \<longleftrightarrow> (\<exists>j < length calls. fst (calls ! j) = h \<and> hit w k calls j
     \<and> (\<forall>i < length calls. j < i \<longrightarrow> fst (calls ! i) \<noteq> h))"

definition burst_start :: "int \<Rightarrow> nat \<Rightarrow> (string \<times> int) list \<Rightarrow> nat \<Rightarrow> bool" where
  "burst_start w k calls i \<longleftrightarrow> hit w k calls i \<and> \<not> flagged w k (take i calls) (fst (calls ! i))"

definition bursts :: "int \<Rightarrow> nat \<Rightarrow> (string \<times> int) list \<Rightarrow> nat" where
  "bursts w k calls = length (filter (burst_start w k calls) [0..<length calls])"

definition rep_inv :: "string \<Rightarrow> (string \<times> int) list \<Rightarrow> health \<Rightarrow> bool" where
  "rep_inv tool calls t \<longleftrightarrow> 0 < h_threshold t \<and> ring_ok (rep_ring_of t tool)
     \<and> ring_contents (rep_ring_of t tool) = drop (length calls) (replicate (h_threshold t * 4) ([], 0) @ calls)
     \<and> (\<forall>h. h \<in> rep_counted t tool \<longleftrightarrow> flagged (h_window t) (h_threshold t) calls h)
     \<and> c_repetition t tool = bursts (h_window t) (h_threshold t) calls
     \<and> (\<forall>c \<in> set calls. fst c \<noteq> [])"

lemma hit_snoc: "i < length calls \<Longrightarrow> hit w k (calls @ [c]) i = hit w k calls i"
  by (simp add: hit_def nth_append)

lemma flagged_snoc:
  "flagged w k (calls @ [c]) h = (if h = fst c then hit w k (calls @ [c]) (length calls) else flagged w k calls h)"
proof (cases "h = fst c")
  case True
  then show ?thesis unfolding flagged_def by (force simp: nth_append less_Suc_eq)
next
  case False
  then show ?thesis
    unfolding flagged_def by (auto simp: nth_append less_Suc_eq hit_snoc)
qed

lemma bursts_snoc:
  "bursts w k (calls @ [c]) = bursts w k calls + (if hit w k (calls @ [c]) (length calls) \<and> \<not> flagged w k calls (fst c) then 1 else 0)"
proof -
  have "burst_start w k (calls @ [c]) i = burst_start w k calls i" if "i < length calls" for i
    using that by (simp add: burst_start_def hit_snoc nth_append)
  then have "filter (burst_start w k (calls @ [c])) [0..<length calls] = filter (burst_start w k calls) [0..<length calls]"
    by (intro filter_cong) auto
  moreover have "burst_start w k (calls @ [c]) (length calls)
      = (hit w k (calls @ [c]) (length calls) \<and> \<not> flagged w k calls (fst c))"
    by (simp add: burst_start_def)
  ultimately show ?thesis by (simp add: bursts_def)
qed

lemma rep_count_ring: "rep_count h lo (fst r) = rep_count h lo (ring_contents r)"
proof -
  have "length (filter P (ring_contents r)) = length (filter P (fst r))" for P
  proof -
    have "length (filter P (drop i b @ take i b)) = length (filter P (take i b @ drop i b))" for i and b
      by (simp only: filter_append length_append)
    then show ?thesis by (simp add: ring_contents_def)
  qed
  then show ?thesis by (simp add: rep_count_def)
qed

lemma rep_count_fill:
  "h \<noteq> [] \<Longrightarrow> rep_count h lo (drop (length xs) (replicate n ([], 0) @ xs)) = rep_count h lo (last_n n xs)"
proof (cases "n \<le> length xs")
  case True
  then show ?thesis by (simp add: last_n_def)
next
  case False
  assume "h \<noteq> []"
  then have "rep_count h lo (replicate m ([], 0) @ xs) = rep_count h lo xs" for m
    by (induction m) (auto simp: rep_count_def)
  with False show ?thesis by (simp add: last_n_def)
qed

lemma rep_fields [simp]:
  "h_window (record_repetition now tool h t) = h_window t" "h_threshold (record_repetition now tool h t) = h_threshold t"
  "h_window (record_error_outcome ok t) = h_window t" "h_threshold (record_error_outcome ok t) = h_threshold t"
  "rep_ring (record_error_outcome ok t) = rep_ring t" "rep_counted (record_error_outcome ok t) = rep_counted t"
  "c_repetition (record_error_outcome ok t) = c_repetition t"
  by (simp_all add: record_repetition_def record_error_outcome_def Let_def split: prod.splits)

lemma rep_record_inv:
  assumes "rep_inv tool calls t" "h \<noteq> []"
  shows "rep_inv tool (calls @ [(h, now)]) (record_repetition now tool h t)"
proof -
  let ?w = "h_window t" and ?k = "h_threshold t" and ?c = "calls @ [(h, now)]"
  let ?r = "ring_put (h, now) (rep_ring_of t tool)" and ?t = "record_repetition now tool h t"
  have inv: "0 < ?k" "ring_ok (rep_ring_of t tool)"
    "ring_contents (rep_ring_of t tool) = drop (length calls) (replicate (?k * 4) ([], 0) @ calls)"
    "\<And>h. h \<in> rep_counted t tool \<longleftrightarrow> flagged ?w ?k calls h" "c_repetition t tool = bursts ?w ?k calls"
    "\<forall>c \<in> set calls. fst c \<noteq> []"
    using assms(1) by (auto simp: rep_inv_def)
  have ring: "rep_ring_of ?t tool = ?r"
    by (simp add: record_repetition_def rep_ring_of_def Let_def assms(2))
  have cont: "ring_contents ?r = drop (length ?c) (replicate (?k * 4) ([], 0) @ ?c)"
    using ring.put_contents [OF inv(2)] inv(1,3) window_snoc [of "?k * 4" calls "([], 0)" "(h, now)"] by simp
  have hit: "?k \<le> rep_count h (now - ?w) (fst ?r) \<longleftrightarrow> hit ?w ?k ?c (length calls)"
    unfolding rep_count_ring cont rep_count_fill [OF assms(2)] by (simp add: hit_def)
  have flag: "h' \<in> rep_counted ?t tool \<longleftrightarrow> flagged ?w ?k ?c h'" for h'
    using inv(4) hit assms(2) by (auto simp: record_repetition_def Let_def flagged_snoc)
  have cnt: "c_repetition ?t tool = bursts ?w ?k ?c"
    using inv(4,5) hit assms(2) by (auto simp: record_repetition_def Let_def bursts_snoc)
  show ?thesis
    using ring ring.put_ok [OF inv(2)] cont flag cnt inv(1,6) assms(2) by (simp add: rep_inv_def)
qed

lemma rep_inv_cong:
  assumes "rep_inv tool calls t" "rep_ring t' tool = rep_ring t tool" "rep_counted t' tool = rep_counted t tool"
    "c_repetition t' tool = c_repetition t tool" "h_window t' = h_window t" "h_threshold t' = h_threshold t"
  shows "rep_inv tool calls t'"
proof -
  have "rep_ring_of t' tool = rep_ring_of t tool" by (simp only: rep_ring_of_def assms)
  with assms show ?thesis by (simp add: rep_inv_def)
qed

lemma rep_step:
  assumes "rep_inv tool calls t"
  shows "rep_inv tool (calls @ rep_calls tool [a]) (health_step a t)"
proof (cases a)
  case (HObserve now tl status h)
  have e: "rep_inv tool calls (record_error_outcome (status = ''ok'') t)"
    by (rule rep_inv_cong [OF assms]) simp_all
  show ?thesis
  proof (cases "tl = tool \<and> h \<noteq> []")
    case True
    with HObserve rep_record_inv [OF e, of h now] show ?thesis by (simp add: observe_def)
  next
    case False
    have "rep_inv tool calls (record_repetition now tl h (record_error_outcome (status = ''ok'') t))"
      by (rule rep_inv_cong [OF e]) (use False in \<open>auto simp: record_repetition_def Let_def\<close>)
    with False HObserve show ?thesis by (auto simp: observe_def)
  qed
qed (auto intro!: rep_inv_cong [OF assms] simp: observe_test_result_def observe_green_def
     update_time_since_last_green_def Let_def split: option.splits)

lemma rep_fold: "rep_inv tool calls t \<Longrightarrow> rep_inv tool (calls @ rep_calls tool ops) (fold health_step ops t)"
proof (induction ops arbitrary: calls t)
  case (Cons a ops)
  have "rep_calls tool (a # ops) = rep_calls tool [a] @ rep_calls tool ops" by (cases a) auto
  with Cons.IH [OF rep_step [OF Cons.prems, of a]] show ?case by simp
qed simp

lemma health_new_rep: "rep_inv tool [] (health_new c)"
  by (auto simp: rep_inv_def health_new_def rep_ring_of_def positive_or_def default_config_def ring_ok_def
      ring_contents_def flagged_def bursts_def)

lemma fold_config: "h_window (fold health_step ops t) = h_window t \<and> h_threshold (fold health_step ops t) = h_threshold t"
proof (induction ops arbitrary: t)
  case (Cons a ops)
  have "h_window (health_step a t) = h_window t \<and> h_threshold (health_step a t) = h_threshold t"
    by (cases a) (auto simp: observe_def observe_test_result_def observe_green_def update_time_since_last_green_def Let_def
        split: option.splits)
  with Cons.IH show ?case by simp
qed simp


text \<open>
  with the threshold at 1 a fingerprint is counted once and never again.  The flag that suppresses
  further increments is cleared only by a call that finds fewer than one occurrence, but every call
  finds itself, so a fresh burst after the window has passed is not counted.
\<close>

theorem threshold_one_counts_once:
  assumes "h_threshold t = 1" "0 \<le> h_window t" "ring_ok (rep_ring_of t tool)" "h \<noteq> []" "h \<in> rep_counted t tool"
  shows "c_repetition (record_repetition now tool h t) tool = c_repetition t tool
    \<and> h \<in> rep_counted (record_repetition now tool h t) tool"
proof -
  let ?r = "ring_put (h, now) (rep_ring_of t tool)"
  have "(h, now) \<in> set (fst ?r)"
    using assms(3) by (auto simp: ring_put_def ring_ok_def intro!: set_update_memI)
  then have "filter (\<lambda>(h', tm). h' = h \<and> now - h_window t \<le> tm) (fst ?r) \<noteq> []"
    using assms(2) by (auto simp: filter_empty_conv intro!: bexI [of _ "(h, now)"])
  then have "1 \<le> rep_count h (now - h_window t) (fst ?r)" by (auto simp: rep_count_def Suc_le_eq)
  then show ?thesis using assms by (simp add: record_repetition_def Let_def)
qed

theorem threshold_one_counts_once_witness:
  "let t = record_repetition 0 ''Bash'' ''h'' (health_new \<lparr>repetition_window = 5, repetition_threshold = 1, error_rate_window = 1\<rparr>)
   in c_repetition (record_repetition 1000 ''Bash'' ''h'' t) ''Bash'' = c_repetition t ''Bash''"
proof -
  let ?t = "record_repetition 0 ''Bash'' ''h'' (health_new \<lparr>repetition_window = 5, repetition_threshold = 1, error_rate_window = 1\<rparr>)"
  have "h_threshold ?t = 1" "0 \<le> h_window ?t" "ring_ok (rep_ring_of ?t ''Bash'')" "''h'' \<in> rep_counted ?t ''Bash''"
    by code_simp+
  from threshold_one_counts_once [OF this(1-3) _ this(4), of 1000] show ?thesis by (simp add: Let_def)
qed

section \<open>Fingerprints of arguments\<close>

text \<open>\<open>canonicalize\<close>: objects become lists of key-value pairs in the order of their keys.\<close>

fun canonicalize :: "jval \<Rightarrow> jval" where
  "canonicalize (JObj kvs) =
     JArr (map (\<lambda>(k, v). JObj [(''k'', JStr k), (''v'', v)])
       (sort_key fst (map (\<lambda>(k, v). (k, canonicalize v)) kvs)))"
| "canonicalize (JArr vs) = JArr (map canonicalize vs)"
| "canonicalize (JStr s) = JStr s"
| "canonicalize (JNum n) = JNum n"
| "canonicalize (JBool b) = JBool b"
| "canonicalize JNull = JNull"

text \<open>\<open>HashArgs\<close>, with \<open>json.Marshal\<close> and the hexadecimal SHA-256 as arguments.\<close>

definition hash_args :: "(jval \<Rightarrow> string option) \<Rightarrow> (string \<Rightarrow> string) \<Rightarrow> string \<Rightarrow> jval \<Rightarrow> string" where
  "hash_args marshal sha256_hex tool a =
     (case marshal (canonicalize a) of
        None \<Rightarrow> []
      | Some data \<Rightarrow> take 8 (sha256_hex (tool @ newline # data)))"

lemma sort_key_fst_perm:
  assumes "distinct (map fst xs)" "set xs = set ys" "distinct (map fst ys)"
  shows "sort_key fst xs = sort_key fst ys"
proof (rule map_sorted_distinct_set_unique [where f = fst])
  have d: "distinct (map fst (sort_key fst zs))" if "distinct (map fst zs)" for zs :: "('a \<times> 'b) list"
    using that by (simp add: distinct_map)
  show "distinct (map fst (sort_key fst xs))" "distinct (map fst (sort_key fst ys))"
    using d assms by blast+
qed (use assms in \<open>simp_all add: distinct_map\<close>)

text \<open>
  fingerprints do not depend on the order in which Go enumerates a map: two listings of the same
  argument object have the same canonical form, hence the same hash.
\<close>

theorem hash_args_order:
  assumes "distinct (map fst xs)" "distinct (map fst ys)" "set xs = set ys"
  shows "hash_args marshal sha tool (JObj xs) = hash_args marshal sha tool (JObj ys)"
proof -
  let ?f = "\<lambda>(k, v). (k, canonicalize v)"
  have fst: "map fst (map ?f zs) = map fst zs" for zs by (induction zs) auto
  have "sort_key fst (map ?f xs) = sort_key fst (map ?f ys)"
    by (rule sort_key_fst_perm) (simp_all only: fst set_map assms)
  then show ?thesis by (simp add: hash_args_def)
qed

theorem hash_args_order_witness:
  "hash_args (\<lambda>_. Some ''j'') (\<lambda>s. s) ''Bash'' (JObj [(''a'', JNum 1), (''b'', JNull)])
     = hash_args (\<lambda>_. Some ''j'') (\<lambda>s. s) ''Bash'' (JObj [(''b'', JNull), (''a'', JNum 1)])"
  by (rule hash_args_order) auto

end
