(* ===== verification/SearchUnits.thy ===== *)
theory SearchUnits
  imports GoPath
begin

text \<open>
  What the symbol index stores: the tokens of an identifier or comment (\<open>internal/search/tokenize.go\<close>)
  and the units of a Go file (\<open>internal/search/extract_go.go\<close>).  Letters, digits and cases are those
  of ASCII.  The extraction works on the syntax tree \<open>go/parser\<close> returns, given as datatypes; an
  expression that is no plain identifier carries its rendering by \<open>go/printer\<close>.
\<close>

section \<open>Tokenize\<close>

definition is_upper :: "char \<Rightarrow> bool" where "is_upper c \<longleftrightarrow> CHR ''A'' \<le> c \<and> c \<le> CHR ''Z''"
definition is_lower :: "char \<Rightarrow> bool" where "is_lower c \<longleftrightarrow> CHR ''a'' \<le> c \<and> c \<le> CHR ''z''"
definition is_letter :: "char \<Rightarrow> bool" where "is_letter c \<longleftrightarrow> is_upper c \<or> is_lower c"
definition is_alnum :: "char \<Rightarrow> bool" where "is_alnum c \<longleftrightarrow> is_letter c \<or> is_digit c"

definition stopwords :: "string list" where
  "stopwords = [''the'', ''a'', ''an'', ''is'', ''of'', ''to'', ''and'', ''or'', ''for'', ''in'', ''on'', ''that'', ''this'']"

text \<open>\<open>strings.FieldsFunc\<close>: the maximal runs of bytes that do not satisfy \<open>p\<close>.\<close>

fun fields_func :: "(char \<Rightarrow> bool) \<Rightarrow> string \<Rightarrow> string \<Rightarrow> string list" where
  "fields_func p w [] = (if w = [] then [] else [w])"
| "fields_func p w (c # s) =
     (if p c then (if w = [] then fields_func p [] s else w # fields_func p [] s)
      else fields_func p (w @ [c]) s)"

definition split_on_non_alnum :: "string \<Rightarrow> string list" where
  "split_on_non_alnum s = fields_func (\<lambda>c. \<not> is_letter c \<and> \<not> is_digit c) [] s"

definition camel_boundary :: "string \<Rightarrow> nat \<Rightarrow> bool" where
  "camel_boundary r i =
     (let prev = r ! (i - 1); this = r ! i
      in if is_lower prev \<and> is_upper this then True
         else if i + 1 < length r \<and> is_upper prev \<and> is_upper this \<and> is_lower (r ! (i + 1)) then True
         else is_letter prev \<noteq> is_letter this)"

text \<open>The loop of \<open>splitCamel\<close> from index \<open>i\<close>, with the start of the current segment.\<close>

function camel_loop :: "string \<Rightarrow> nat \<Rightarrow> nat \<Rightarrow> string list" where
  "camel_loop r start i =
     (if i < length r then
        if camel_boundary r i then take (i - start) (drop start r) # camel_loop r i (i + 1)
        else camel_loop r start (i + 1)
      else [drop start r])"
  by pat_completeness auto
termination by (relation "measure (\<lambda>(r, _, i). length r - i)") auto

declare camel_loop.simps [simp del]

definition split_camel :: "string \<Rightarrow> string list" where
  "split_camel w = (if w = [] then [] else camel_loop w 0 1)"

definition word_tokens :: "string \<Rightarrow> string list" where
  "word_tokens w =
     (let lw = to_lower w
      in (if lw \<in> set stopwords then [] else [lw])
         @ filter (\<lambda>ls. \<not> (ls = lw \<or> ls = [] \<or> ls \<in> set stopwords)) (map to_lower (split_camel w)))"

definition tokenize :: "string \<Rightarrow> string list" where
  "tokenize s = (if s = [] then [] else concat (map word_tokens (split_on_non_alnum s)))"

lemma camel_loop_concat: "start \<le> i \<Longrightarrow> start \<le> length r \<Longrightarrow> concat (camel_loop r start i) = drop start r"
proof (induction r start i rule: camel_loop.induct)
  case (1 r start i)
  show ?case
  proof (cases "i < length r \<and> camel_boundary r i")
    case True
    then have "concat (camel_loop r start i) = take (i - start) (drop start r) @ drop i r"
      using 1 by (simp add: camel_loop.simps [of r start i])
    also have "drop i r = drop (i - start) (drop start r)" using 1 by simp
    finally show ?thesis by (simp only: append_take_drop_id)
  next
    case False
    then show ?thesis using 1 by (auto simp: camel_loop.simps [of r start i])
  qed
qed

lemma camel_loop_ne: "start < i \<Longrightarrow> start < length r \<Longrightarrow> [] \<notin> set (camel_loop r start i)"
proof (induction r start i rule: camel_loop.induct)
  case (1 r start i)
  then show ?case by (auto simp: camel_loop.simps [of r start i])
qed

lemma fields_func_free: "w' \<in> set (fields_func p w s) \<Longrightarrow> \<forall>c \<in> set w. \<not> p c \<Longrightarrow> w' \<noteq> [] \<and> (\<forall>c \<in> set w'. \<not> p c)"
proof (induction s arbitrary: w)
  case Nil
  then show ?case by (cases "w = []") simp_all
next
  case (Cons c s)
  show ?case
  proof (cases "p c")
    case True
    then consider "w' = w" "w \<noteq> []" | "w' \<in> set (fields_func p [] s)"
      using Cons.prems(1) by (cases "w = []") auto
    then show ?thesis using Cons.IH [of "[]"] Cons.prems(2) by cases auto
  next
    case False
    then show ?thesis using Cons.IH [of "w @ [c]"] Cons.prems by simp
  qed
qed

lemma to_lower_ne [simp]: "to_lower s = [] \<longleftrightarrow> s = []"
  by (simp add: to_lower_def)

text \<open>
  tokens are normal.  Whatever the text, each token is a non-empty lower-case word of letters and
  digits that is no stopword; splitting an identifier into camel segments loses nothing, and the
  identifier itself, in lower case, is among its tokens unless it is a stopword.
\<close>

theorem tokenize_normal:
  "(\<forall>t. t \<notin> set (tokenize s) \<or> (t \<noteq> [] \<and> to_lower t = t \<and> t \<notin> set stopwords
        \<and> (\<exists>w. t = to_lower w \<and> list_all is_alnum w \<and> w \<noteq> [])))
   \<and> concat (split_camel w) = w \<and> [] \<notin> set (split_camel w)
   \<and> (to_lower w \<in> set stopwords \<or> to_lower w \<in> set (word_tokens w))"
proof -
  have cat: "concat (split_camel v) = v" for v
    using camel_loop_concat [of 0 1 v] by (simp add: split_camel_def)
  have ne: "[] \<notin> set (split_camel v)" for v
    using camel_loop_ne [of 0 1 v] by (auto simp: split_camel_def)
  have sub: "\<exists>u. t = to_lower u \<and> set u \<subseteq> set v \<and> u \<noteq> []" if t: "t \<in> set (word_tokens v)" and v: "v \<noteq> []" for t v
  proof -
    from t consider "t = to_lower v" | p where "p \<in> set (split_camel v)" "t = to_lower p"
      by (auto simp: word_tokens_def Let_def split: if_splits)
    then show ?thesis
    proof cases
      case 2
      have "set p \<subseteq> set v" using 2(1) cat [of v] by (metis UN_upper set_concat)
      moreover have "p \<noteq> []" using 2(1) ne [of v] by auto
      ultimately show ?thesis using 2 by blast
    qed (use v in blast)
  qed
  have "t \<noteq> [] \<and> to_lower t = t \<and> t \<notin> set stopwords \<and> (\<exists>w. t = to_lower w \<and> list_all is_alnum w \<and> w \<noteq> [])"
    if t: "t \<in> set (tokenize s)" for t
  proof -
    from t obtain v where v: "v \<in> set (split_on_non_alnum s)" "t \<in> set (word_tokens v)"
      by (auto simp: tokenize_def split: if_splits)
    from fields_func_free [OF v(1) [unfolded split_on_non_alnum_def]]
    have w: "v \<noteq> []" "\<forall>c \<in> set v. is_alnum c" by (auto simp: is_alnum_def)
    from sub [OF v(2) w(1)] obtain u where u: "t = to_lower u" "set u \<subseteq> set v" "u \<noteq> []" by blast
    moreover have "t \<notin> set stopwords" using v(2) by (auto simp: word_tokens_def Let_def split: if_splits)
    moreover have "list_all is_alnum u" using u(2) w(2) by (auto simp: list_all_iff)
    ultimately show ?thesis by auto
  qed
  then show ?thesis using cat ne by (auto simp: word_tokens_def Let_def)
qed

section \<open>Units\<close>

record code_unit =
  u_file :: string
  u_symbol :: string
  u_kind :: string
  u_signature :: string
  u_doc :: string

definition normalize_doc :: "string \<Rightarrow> string" where
  "normalize_doc s = (if s = [] then [] else join '' '' (str_fields s))"

definition truncate_at :: "string \<Rightarrow> nat \<Rightarrow> string" where
  "truncate_at s n = (if length s \<le> n then s else take n s)"

definition doc_max_chars :: nat where "doc_max_chars = 200"

text \<open>The part of \<open>go/ast\<close> the extractor looks at; doc comments are texts, empty when absent.\<close>

datatype go_expr = Ident string | Printed string | StructType "(string list \<times> go_expr) list" string

record go_field =
  f_names :: "string list"
  f_type :: go_expr

record go_func =
  fn_name :: string
  fn_doc :: string
  fn_recv :: "go_field list option"
  fn_params :: "go_field list option"
  fn_results :: "go_field list option"

datatype go_spec =
    TypeSpec (ts_name: string) (ts_doc: string) (ts_type: go_expr)
  | ValueSpec (vs_names: "string list") (vs_doc: string) (vs_type: "go_expr option")
  | ImportSpec

datatype go_decl = FuncDecl go_func | GenDecl (gd_tok: string) (gd_doc: string) (gd_specs: "go_spec list") | BadDecl

record go_file =
  gf_package :: string
  gf_doc :: "string option"
  gf_decls :: "go_decl list"

text \<open>\<open>renderNode\<close> with \<open>nodeString\<close> of \<open>printer.go\<close>, which collapses white space.\<close>

fun render_node :: "go_expr \<Rightarrow> string" where
  "render_node (Ident n) = n"
| "render_node (Printed s) = join '' '' (str_fields s)"
| "render_node (StructType fs s) = join '' '' (str_fields s)"

definition render_field_list :: "go_field list \<Rightarrow> bool \<Rightarrow> string" where
  "render_field_list fl include_names =
     comma_sep (map (\<lambda>f. if include_names \<and> f_names f \<noteq> [] then comma_sep (f_names f) @ '' '' @ render_node (f_type f)
                         else render_node (f_type f)) fl)"

definition needs_result_parens :: "go_field list \<Rightarrow> bool" where
  "needs_result_parens fl \<longleftrightarrow> (if 1 < length fl then True else length fl = 1 \<and> f_names (hd fl) \<noteq> [])"

definition render_func_sig :: "go_func \<Rightarrow> string" where
  "render_func_sig fn =
     ''func ''
     @ (case fn_recv fn of Some (f # fs) \<Rightarrow> ''('' @ render_field_list (f # fs) False @ '') '' | _ \<Rightarrow> [])
     @ fn_name fn @ ''(''
     @ (case fn_params fn of Some ps \<Rightarrow> render_field_list ps True | None \<Rightarrow> []) @ '')''
     @ (case fn_results fn of
          Some (r # rs) \<Rightarrow>
            '' '' @ (if needs_result_parens (r # rs) then ''('' @ render_field_list (r # rs) True @ '')''
                     else render_field_list (r # rs) True)
        | _ \<Rightarrow> [])"

text \<open>\<open>IsExported\<close> for ASCII names.\<close>

definition is_exported :: "string \<Rightarrow> bool" where
  "is_exported n \<longleftrightarrow> (case n of [] \<Rightarrow> False | c # _ \<Rightarrow> is_upper c)"

definition struct_field_summary :: "(string list \<times> go_expr) list \<Rightarrow> string" where
  "struct_field_summary fs =
     comma_sep (concat (map (\<lambda>(names, t). if names = [] then [render_node t]
        else map (\<lambda>n. n @ '' '' @ render_node t) (filter is_exported names)) fs))"

definition func_unit :: "string \<Rightarrow> go_func \<Rightarrow> code_unit" where
  "func_unit file fn =
     \<lparr>u_file = file, u_symbol = fn_name fn, u_kind = (if fn_recv fn \<noteq> None then ''method'' else ''func''),
      u_signature = render_func_sig fn, u_doc = truncate_at (normalize_doc (fn_doc fn)) doc_max_chars\<rparr>"

definition own_doc :: "string \<Rightarrow> string \<Rightarrow> string" where
  "own_doc doc group_doc = (let d = normalize_doc doc in if d = [] then group_doc else d)"

definition type_unit :: "string \<Rightarrow> string \<Rightarrow> string \<Rightarrow> string \<Rightarrow> go_expr \<Rightarrow> code_unit" where
  "type_unit file group_doc name doc t =
     \<lparr>u_file = file, u_symbol = name, u_kind = ''type'',
      u_signature = ''type '' @ name
        @ (case t of StructType fs _ \<Rightarrow> '' struct{'' @ struct_field_summary fs @ ''}'' | _ \<Rightarrow> '' '' @ render_node t),
      u_doc = truncate_at (own_doc doc group_doc) doc_max_chars\<rparr>"

definition value_units :: "string \<Rightarrow> string \<Rightarrow> string \<Rightarrow> string list \<Rightarrow> string \<Rightarrow> go_expr option \<Rightarrow> code_unit list" where
  "value_units file group_doc tok names doc t =
     (let typ = (case t of None \<Rightarrow> [] | Some e \<Rightarrow> '' '' @ render_node e)
      in map (\<lambda>n. \<lparr>u_file = file, u_symbol = n, u_kind = tok, u_signature = tok @ '' '' @ n @ typ,
                   u_doc = truncate_at (own_doc doc group_doc) doc_max_chars\<rparr>) names)"

fun spec_units :: "string \<Rightarrow> string \<Rightarrow> string \<Rightarrow> go_spec \<Rightarrow> code_unit list" where
  "spec_units file group_doc tok (TypeSpec n d t) = [type_unit file group_doc n d t]"
| "spec_units file group_doc tok (ValueSpec ns d t) = value_units file group_doc tok ns d t"
| "spec_units file group_doc tok ImportSpec = []"

definition gen_decl_units :: "string \<Rightarrow> string \<Rightarrow> string \<Rightarrow> go_spec list \<Rightarrow> code_unit list" where
  "gen_decl_units file tok doc specs = concat (map (spec_units file (normalize_doc doc) tok) specs)"

fun extract_decl :: "string \<Rightarrow> go_decl \<Rightarrow> code_unit list" where
  "extract_decl file (FuncDecl fn) = [func_unit file fn]"
| "extract_decl file (GenDecl tok doc specs) = gen_decl_units file tok doc specs"
| "extract_decl file BadDecl = []"

text \<open>\<open>ExtractGoFile\<close> on what \<open>go/parser\<close> makes of the file, \<open>None\<close> for a syntax error.\<close>

definition extract_go_file :: "(string \<Rightarrow> go_file option) \<Rightarrow> string \<Rightarrow> string \<Rightarrow> code_unit list option" where
  "extract_go_file parse path root_dir =
     (if fp_ext path \<noteq> ''.go'' then Some []
      else case parse path of
             None \<Rightarrow> None
           | Some f \<Rightarrow>
               (let rel = (case fp_rel root_dir path of Some r \<Rightarrow> r | None \<Rightarrow> path)
                in Some ((case gf_doc f of
                            None \<Rightarrow> []
                          | Some d \<Rightarrow> [\<lparr>u_file = rel, u_symbol = gf_package f, u_kind = ''package'',
                                        u_signature = ''package '' @ gf_package f,
                                        u_doc = truncate_at (normalize_doc d) doc_max_chars\<rparr>])
                         @ concat (map (extract_decl rel) (gf_decls f)))))"

text \<open>The names a declaration introduces.\<close>

fun declared :: "go_decl \<Rightarrow> string list" where
  "declared (FuncDecl fn) = [fn_name fn]"
| "declared (GenDecl tok doc specs) =
     concat (map (\<lambda>s. case s of TypeSpec n _ _ \<Rightarrow> [n] | ValueSpec ns _ _ \<Rightarrow> ns | ImportSpec \<Rightarrow> []) specs)"
| "declared BadDecl = []"

lemma extract_decl_symbols: "map u_symbol (extract_decl file d) = declared d"
proof (cases d)
  case (GenDecl tok doc specs)
  have "map u_symbol (spec_units file g tok s) = (case s of TypeSpec n _ _ \<Rightarrow> [n] | ValueSpec ns _ _ \<Rightarrow> ns | ImportSpec \<Rightarrow> [])" for g s
    by (cases s) (simp_all add: type_unit_def value_units_def Let_def comp_def)
  with GenDecl show ?thesis by (simp add: gen_decl_units_def map_concat comp_def)
qed (simp_all add: func_unit_def)

lemma truncate_at_le: "length (truncate_at s n) \<le> n"
  by (simp add: truncate_at_def)

lemma extract_decl_doc: "u \<in> set (extract_decl file d) \<Longrightarrow> length (u_doc u) \<le> doc_max_chars \<and> u_file u = file"
proof (cases d)
  case (GenDecl tok doc specs)
  have "u \<in> set (spec_units file g tok s) \<Longrightarrow> length (u_doc u) \<le> doc_max_chars \<and> u_file u = file" for g s
    by (cases s) (auto simp: type_unit_def value_units_def Let_def truncate_at_le)
  with GenDecl show "u \<in> set (extract_decl file d) \<Longrightarrow> ?thesis" by (auto simp: gen_decl_units_def)
qed (auto simp: func_unit_def truncate_at_le)

text \<open>
  the extraction is complete: a parsed file yields exactly one unit per declared name, in source
  order, after one for the package comment if there is one; all carry the file's path relative to
  the root and at most 200 bytes of documentation.
\<close>

theorem extract_complete:
  assumes "fp_ext path = ''.go''" "parse path = Some f" "extract_go_file parse path root_dir = Some us"
  shows "map u_symbol us = (if gf_doc f = None then [] else [gf_package f]) @ concat (map declared (gf_decls f))
    \<and> list_all (\<lambda>u. length (u_doc u) \<le> 200
         \<and> u_file u = (case fp_rel root_dir path of Some r \<Rightarrow> r | None \<Rightarrow> path)) us"
proof -
  let ?rel = "case fp_rel root_dir path of Some r \<Rightarrow> r | None \<Rightarrow> path"
  have us: "us = (case gf_doc f of None \<Rightarrow> []
      | Some d \<Rightarrow> [\<lparr>u_file = ?rel, u_symbol = gf_package f, u_kind = ''package'',
          u_signature = ''package '' @ gf_package f, u_doc = truncate_at (normalize_doc d) doc_max_chars\<rparr>])
      @ concat (map (extract_decl ?rel) (gf_decls f))"
    using assms by (simp add: extract_go_file_def Let_def)
  have "map u_symbol (concat (map (extract_decl ?rel) (gf_decls f))) = concat (map declared (gf_decls f))"
    by (simp add: map_concat comp_def extract_decl_symbols)
  then show ?thesis
    using truncate_at_le [of _ 200] extract_decl_doc [of _ "?rel"]
    by (auto simp: us list_all_iff doc_max_chars_def split: option.splits)
qed

theorem extract_complete_witness:
  "\<exists>us. extract_go_file (\<lambda>_. Some \<lparr>gf_package = ''m'', gf_doc = Some ''Package m.'',
       gf_decls = [GenDecl ''const'' [] [ValueSpec [''A'', ''B''] [] None], BadDecl]\<rparr>) ''/w/m.go'' ''/w'' = Some us
     \<and> map u_symbol us = [''m'', ''A'', ''B'']"
proof -
  let ?f = "\<lparr>gf_package = ''m'', gf_doc = Some ''Package m.'', gf_decls = [GenDecl ''const'' [] [ValueSpec [''A'', ''B''] [] None], BadDecl]\<rparr>"
  have ext: "fp_ext ''/w/m.go'' = ''.go''" by code_simp
  obtain us where us: "extract_go_file (\<lambda>_. Some ?f) ''/w/m.go'' ''/w'' = Some us"
    by (simp add: extract_go_file_def ext Let_def)
  from extract_complete [OF ext refl us] us show ?thesis by simp
qed

end
