(* ===== verification/SearchIndex.thy ===== *)
theory SearchIndex
  imports SearchUnits "HOL-Library.Multiset" "HOL-Library.Product_Lexorder"
begin

text \<open>
  The in-memory BM25 index (\<open>internal/search/index.go\<close>), the file events that keep it up to date
  (\<open>internal/search/fsnotify.go\<close>) and its query.  The maps of the Go struct are maps here, a missing
  \<open>df\<close> entry is the count 0 it reads as.  Scores are exact rationals in place of \<open>float64\<close>, with
  \<open>math.Log\<close> as an argument; Go's map iteration order is ascending ids here.
\<close>

section \<open>The index\<close>

record search_index =
  ix_root :: string
  ix_units :: "nat \<rightharpoonup> code_unit"
  ix_tokens :: "nat \<rightharpoonup> string list"
  ix_lengths :: "nat \<rightharpoonup> nat"
  ix_df :: "string \<Rightarrow> nat"
  ix_file_units :: "string \<rightharpoonup> nat list"
  ix_next :: nat
  ix_total_len :: int
  ix_total_docs :: int

definition new_index :: "string \<Rightarrow> search_index" where
  "new_index r =
     \<lparr>ix_root = r, ix_units = Map.empty, ix_tokens = Map.empty, ix_lengths = Map.empty, ix_df = (\<lambda>_. 0),
      ix_file_units = Map.empty, ix_next = 0, ix_total_len = 0, ix_total_docs = 0\<rparr>"

definition unit_tokens :: "code_unit \<Rightarrow> string list" where
  "unit_tokens u = tokenize (u_symbol u) @ tokenize (u_signature u) @ tokenize (u_doc u)"

fun unique_loop :: "string list \<Rightarrow> string list \<Rightarrow> string list" where
  "unique_loop seen [] = []"
| "unique_loop seen (v # vs) = (if v \<in> set seen then unique_loop seen vs else v # unique_loop (v # seen) vs)"

definition unique_strings :: "string list \<Rightarrow> string list" where
  "unique_strings s = unique_loop [] s"

definition count_token :: "string list \<Rightarrow> string \<Rightarrow> nat" where
  "count_token toks t = length (filter (\<lambda>x. x = t) toks)"

definition file_ids :: "search_index \<Rightarrow> string \<Rightarrow> nat list" where
  "file_ids ix rel = (case ix_file_units ix rel of None \<Rightarrow> [] | Some ids \<Rightarrow> ids)"

text \<open>One round of the loops of \<open>addUnitsLocked\<close> and \<open>removeFileLocked\<close>.\<close>

definition add_unit :: "string \<Rightarrow> code_unit \<Rightarrow> search_index \<Rightarrow> search_index" where
  "add_unit rel v ix =
     (let u = v\<lparr>u_file := rel\<rparr>; i = ix_next ix; toks = unit_tokens u
      in ix\<lparr>ix_next := Suc i, ix_units := (ix_units ix)(i \<mapsto> u), ix_tokens := (ix_tokens ix)(i \<mapsto> toks),
            ix_lengths := (ix_lengths ix)(i \<mapsto> length toks),
            ix_total_len := ix_total_len ix + int (length toks), ix_total_docs := ix_total_docs ix + 1,
            ix_df := fold (\<lambda>t d. d(t := Suc (d t))) (unique_strings toks) (ix_df ix),
            ix_file_units := (ix_file_units ix)(rel \<mapsto> file_ids ix rel @ [i])\<rparr>)"

definition add_units :: "string \<Rightarrow> code_unit list \<Rightarrow> search_index \<Rightarrow> search_index" where
  "add_units rel us ix = fold (add_unit rel) us ix"

definition remove_unit :: "nat \<Rightarrow> search_index \<Rightarrow> search_index" where
  "remove_unit i ix =
     (let toks = (case ix_tokens ix i of None \<Rightarrow> [] | Some ts \<Rightarrow> ts);
          n = (case ix_lengths ix i of None \<Rightarrow> 0 | Some k \<Rightarrow> k)
      in ix\<lparr>ix_df := fold (\<lambda>t d. d(t := d t - 1)) (unique_strings toks) (ix_df ix),
            ix_total_len := ix_total_len ix - int n, ix_total_docs := ix_total_docs ix - 1,
            ix_units := (ix_units ix)(i := None), ix_tokens := (ix_tokens ix)(i := None),
            ix_lengths := (ix_lengths ix)(i := None)\<rparr>)"

definition remove_file :: "string \<Rightarrow> search_index \<Rightarrow> search_index" where
  "remove_file rel ix =
     (case ix_file_units ix rel of
        None \<Rightarrow> ix
      | Some ids \<Rightarrow>
          (let ix' = fold remove_unit ids ix in ix'\<lparr>ix_file_units := (ix_file_units ix')(rel := None)\<rparr>))"

definition file_count :: "search_index \<Rightarrow> nat" where "file_count ix = card (dom (ix_file_units ix))"
definition unit_count :: "search_index \<Rightarrow> nat" where "unit_count ix = card (dom (ix_units ix))"

section \<open>What the index stands for\<close>

text \<open>The indexed units as a bag, and file by file.\<close>

definition docs :: "search_index \<Rightarrow> code_unit multiset" where
  "docs ix = image_mset (\<lambda>i. the (ix_units ix i)) (mset_set (dom (ix_units ix)))"

definition corpus :: "search_index \<Rightarrow> string \<Rightarrow> code_unit list" where
  "corpus ix rel = map (\<lambda>i. the (ix_units ix i)) (file_ids ix rel)"

text \<open>The statistics belong to the bag.\<close>

definition stats_ok :: "search_index \<Rightarrow> bool" where
  "stats_ok ix \<longleftrightarrow> finite (dom (ix_units ix))
     \<and> ix_tokens ix = (\<lambda>i. map_option unit_tokens (ix_units ix i))
     \<and> ix_lengths ix = (\<lambda>i. map_option (\<lambda>u. length (unit_tokens u)) (ix_units ix i))
     \<and> (\<forall>t. ix_df ix t = size (filter_mset (\<lambda>u. t \<in> set (unit_tokens u)) (docs ix)))
     \<and> ix_total_len ix = (\<Sum>u\<in>#docs ix. int (length (unit_tokens u)))
     \<and> ix_total_docs ix = int (size (docs ix))"

definition files_ok :: "search_index \<Rightarrow> bool" where
  "files_ok ix \<longleftrightarrow>
     (\<forall>rel ids. ix_file_units ix rel = Some ids \<longrightarrow> ids \<noteq> [] \<and> distinct ids
        \<and> (\<forall>i \<in> set ids. \<exists>u. ix_units ix i = Some u \<and> u_file u = rel))
     \<and> (\<forall>i u. ix_units ix i = Some u \<longrightarrow> i < ix_next ix \<and> i \<in> set (file_ids ix (u_file u)))"

definition idx_inv :: "search_index \<Rightarrow> bool" where
  "idx_inv ix \<longleftrightarrow> stats_ok ix \<and> files_ok ix \<and> finite (dom (ix_file_units ix))"

lemma unique_loop_set: "set (unique_loop seen vs) = set vs - set seen \<and> distinct (unique_loop seen vs)"
  by (induction seen vs rule: unique_loop.induct) auto

lemma unique_strings_set [simp]: "set (unique_strings s) = set s" "distinct (unique_strings s)"
  using unique_loop_set [of "[]" s] by (simp_all add: unique_strings_def)

lemma fold_incr: "distinct ts \<Longrightarrow> fold (\<lambda>t d. d(t := Suc (d t))) ts d x = d x + (if x \<in> set ts then 1 else 0)"
  by (induction ts arbitrary: d) auto

lemma fold_decr: "distinct ts \<Longrightarrow> fold (\<lambda>t d. d(t := d t - 1)) ts d x = d x - (if x \<in> set ts then 1 else (0::nat))"
  by (induction ts arbitrary: d) auto

lemma new_index_inv: "idx_inv (new_index r)"
  by (simp add: idx_inv_def stats_ok_def files_ok_def new_index_def docs_def)

lemma docs_upd_new:
  assumes "finite (dom m)" "m i = None"
  shows "image_mset (\<lambda>j. the ((m(i \<mapsto> u)) j)) (mset_set (dom (m(i \<mapsto> u))))
    = add_mset u (image_mset (\<lambda>j. the (m j)) (mset_set (dom m)))"
proof -
  have "i \<notin> dom m" using assms by auto
  moreover have "image_mset (\<lambda>j. the ((m(i \<mapsto> u)) j)) (mset_set (dom m)) = image_mset (\<lambda>j. the (m j)) (mset_set (dom m))"
    using assms by (intro image_mset_cong) auto
  ultimately show ?thesis using assms(1) by simp
qed

lemma docs_upd_del:
  assumes "finite (dom m)" "m i = Some u"
  shows "image_mset (\<lambda>j. the (m j)) (mset_set (dom m))
    = add_mset u (image_mset (\<lambda>j. the ((m(i := None)) j)) (mset_set (dom (m(i := None)))))"
  using docs_upd_new [of "m(i := None)" i u] assms by (simp add: fun_upd_idem)

lemma add_unit_stats:
  assumes "stats_ok ix" "ix_units ix (ix_next ix) = None"
  shows "stats_ok (add_unit rel v ix) \<and> docs (add_unit rel v ix) = add_mset (v\<lparr>u_file := rel\<rparr>) (docs ix)"
proof -
  let ?u = "v\<lparr>u_file := rel\<rparr>" and ?i = "ix_next ix" and ?ix = "add_unit rel v ix"
  have fields: "ix_units ?ix = (ix_units ix)(?i \<mapsto> ?u)" "ix_tokens ?ix = (ix_tokens ix)(?i \<mapsto> unit_tokens ?u)"
    "ix_lengths ?ix = (ix_lengths ix)(?i \<mapsto> length (unit_tokens ?u))"
    "ix_total_len ?ix = ix_total_len ix + int (length (unit_tokens ?u))" "ix_total_docs ?ix = ix_total_docs ix + 1"
    "\<And>t. ix_df ?ix t = ix_df ix t + (if t \<in> set (unit_tokens ?u) then 1 else 0)"
    by (simp_all add: add_unit_def Let_def fold_incr)
  have fin: "finite (dom (ix_units ix))" using assms(1) by (simp add: stats_ok_def)
  have d: "docs ?ix = add_mset ?u (docs ix)"
    using docs_upd_new [OF fin assms(2)] by (simp add: docs_def fields(1))
  have "stats_ok ?ix"
    using assms(1) unfolding stats_ok_def d fields by auto
  with d show ?thesis by blast
qed

lemma remove_unit_stats:
  assumes "stats_ok ix" "ix_units ix i = Some u"
  shows "stats_ok (remove_unit i ix) \<and> docs ix = add_mset u (docs (remove_unit i ix))"
proof -
  let ?ix = "remove_unit i ix"
  have tok: "ix_tokens ix i = Some (unit_tokens u)" "ix_lengths ix i = Some (length (unit_tokens u))"
    using assms by (auto simp: stats_ok_def)
  have fields: "ix_units ?ix = (ix_units ix)(i := None)" "ix_tokens ?ix = (ix_tokens ix)(i := None)"
    "ix_lengths ?ix = (ix_lengths ix)(i := None)"
    "ix_total_len ?ix = ix_total_len ix - int (length (unit_tokens u))" "ix_total_docs ?ix = ix_total_docs ix - 1"
    "\<And>t. ix_df ?ix t = ix_df ix t - (if t \<in> set (unit_tokens u) then 1 else 0)"
    using tok by (simp_all add: remove_unit_def Let_def fold_decr [simplified])
  have fin: "finite (dom (ix_units ix))" using assms(1) by (simp add: stats_ok_def)
  have d: "docs ix = add_mset u (docs ?ix)"
    using docs_upd_del [OF fin assms(2)] by (simp add: docs_def fields(1))
  have st: "\<And>t. ix_df ix t = size (filter_mset (\<lambda>u. t \<in> set (unit_tokens u)) (docs ix))"
    "ix_total_len ix = (\<Sum>u\<in>#docs ix. int (length (unit_tokens u)))" "ix_total_docs ix = int (size (docs ix))"
    using assms(1) by (auto simp: stats_ok_def)
  have "stats_ok ?ix"
    using assms(1) unfolding stats_ok_def fields st d by auto
  with d show ?thesis by blast
qed

lemma remove_units_stats:
  assumes "stats_ok ix" "distinct ids" "\<forall>i \<in> set ids. ix_units ix i \<noteq> None"
  shows "stats_ok (fold remove_unit ids ix)
    \<and> ix_units (fold remove_unit ids ix) = (\<lambda>i. if i \<in> set ids then None else ix_units ix i)
    \<and> ix_file_units (fold remove_unit ids ix) = ix_file_units ix \<and> ix_next (fold remove_unit ids ix) = ix_next ix"
  using assms
proof (induction ids arbitrary: ix)
  case (Cons i ids)
  then obtain u where "ix_units ix i = Some u" by auto
  with remove_unit_stats [OF Cons.prems(1)] have s: "stats_ok (remove_unit i ix)" by blast
  have f: "ix_units (remove_unit i ix) = (ix_units ix)(i := None)" "ix_file_units (remove_unit i ix) = ix_file_units ix"
    "ix_next (remove_unit i ix) = ix_next ix"
    by (simp_all add: remove_unit_def Let_def)
  have "\<forall>j \<in> set ids. ix_units (remove_unit i ix) j \<noteq> None" using Cons.prems f by auto
  from Cons.IH [OF s _ this] Cons.prems(2) f show ?case by auto
qed auto

lemma files_okD:
  assumes "files_ok ix"
  shows "distinct (file_ids ix r)" "i \<in> set (file_ids ix r) \<Longrightarrow> \<exists>u. ix_units ix i = Some u \<and> u_file u = r"
    "ix_units ix i = Some u \<Longrightarrow> i < ix_next ix \<and> i \<in> set (file_ids ix (u_file u))"
    "ix_file_units ix r = Some ids \<Longrightarrow> ids \<noteq> [] \<and> ids = file_ids ix r"
proof -
  show "distinct (file_ids ix r)" using assms by (simp add: files_ok_def file_ids_def split: option.split)
  show "i \<in> set (file_ids ix r) \<Longrightarrow> \<exists>u. ix_units ix i = Some u \<and> u_file u = r"
    using assms unfolding files_ok_def file_ids_def by (cases "ix_file_units ix r") auto
  show "ix_units ix i = Some u \<Longrightarrow> i < ix_next ix \<and> i \<in> set (file_ids ix (u_file u))"
    "ix_file_units ix r = Some ids \<Longrightarrow> ids \<noteq> [] \<and> ids = file_ids ix r"
    using assms by (auto simp: files_ok_def file_ids_def)
qed

lemma stats_ok_files [simp]: "stats_ok (ix\<lparr>ix_file_units := m\<rparr>) = stats_ok ix"
  by (simp add: stats_ok_def docs_def)

lemma add_unit_inv [invars]:
  assumes "idx_inv ix"
  shows "idx_inv (add_unit rel v ix)
    \<and> corpus (add_unit rel v ix) = (corpus ix)(rel := corpus ix rel @ [v\<lparr>u_file := rel\<rparr>])"
proof -
  let ?ix = "add_unit rel v ix" and ?i = "ix_next ix"
  have inv: "stats_ok ix" "files_ok ix" "finite (dom (ix_file_units ix))" using assms by (auto simp: idx_inv_def)
  have new: "ix_units ix ?i = None"
    using files_okD(3) [OF inv(2)] by (metis less_irrefl not_None_eq)
  have fields: "ix_units ?ix = (ix_units ix)(?i \<mapsto> v\<lparr>u_file := rel\<rparr>)" "ix_next ?ix = Suc ?i"
    "ix_file_units ?ix = (ix_file_units ix)(rel \<mapsto> file_ids ix rel @ [?i])"
    by (simp_all add: add_unit_def Let_def)
  have ids: "file_ids ?ix r = (if r = rel then file_ids ix rel @ [?i] else file_ids ix r)" for r
    by (simp add: file_ids_def fields)
  have old: "ix_units ix j \<noteq> None" if "j \<in> set (file_ids ix r)" for j r
    using files_okD(2) [OF inv(2) that] by auto
  then have fresh: "?i \<notin> set (file_ids ix r)" for r using new by blast
  have "files_ok ?ix"
    unfolding files_ok_def
  proof (intro conjI allI impI)
    fix r js assume r: "ix_file_units ?ix r = Some js"
    then have js: "js = file_ids ?ix r" by (simp add: file_ids_def)
    show "js \<noteq> []"
      using r files_okD(4) [OF inv(2)] by (auto simp: fields split: if_splits)
    show "distinct js" using files_okD(1) [OF inv(2)] fresh by (simp add: js ids)
    show "\<forall>i\<in>set js. \<exists>u. ix_units ?ix i = Some u \<and> u_file u = r"
      using files_okD(2) [OF inv(2)] fresh by (auto simp: js ids fields split: if_splits)
  next
    fix i u assume u: "ix_units ?ix i = Some u"
    show "i < ix_next ?ix" "i \<in> set (file_ids ?ix (u_file u))"
      using u files_okD(3) [OF inv(2)] by (auto simp: fields ids less_Suc_eq split: if_splits)
  qed
  moreover have "corpus ?ix r = ((corpus ix)(rel := corpus ix rel @ [v\<lparr>u_file := rel\<rparr>])) r" for r
    using fresh [of r] fresh [of rel] by (auto simp: corpus_def ids fields)
  ultimately show ?thesis using add_unit_stats [OF inv(1) new] inv(3) by (auto simp: idx_inv_def fields)
qed

lemma add_units_inv [invars]:
  "idx_inv ix \<Longrightarrow> idx_inv (add_units rel us ix)
     \<and> corpus (add_units rel us ix) = (corpus ix)(rel := corpus ix rel @ map (u_file_update (\<lambda>_. rel)) us)"
proof (induction us arbitrary: ix)
  case (Cons v us)
  from add_unit_inv [OF Cons.prems, of rel v] Cons.IH [of "add_unit rel v ix"]
  show ?case by (auto simp: add_units_def fun_eq_iff)
qed (simp add: add_units_def)

lemma remove_file_inv [invars]:
  assumes "idx_inv ix"
  shows "idx_inv (remove_file rel ix) \<and> corpus (remove_file rel ix) = (corpus ix)(rel := [])"
proof (cases "ix_file_units ix rel")
  case None
  then show ?thesis using assms by (simp add: remove_file_def corpus_def file_ids_def fun_upd_idem)
next
  case (Some ids)
  let ?jx = "fold remove_unit ids ix" and ?ix = "remove_file rel ix"
  have inv: "stats_ok ix" "files_ok ix" "finite (dom (ix_file_units ix))" using assms by (auto simp: idx_inv_def)
  have "distinct ids" "\<forall>i \<in> set ids. ix_units ix i \<noteq> None" using inv(2) Some by (fastforce simp: files_ok_def)+
  note r = remove_units_stats [OF inv(1) this]
  have fields: "ix_units ?ix = (\<lambda>i. if i \<in> set ids then None else ix_units ix i)" "ix_next ?ix = ix_next ix"
    "ix_file_units ?ix = (ix_file_units ix)(rel := None)"
    using r Some by (simp_all add: remove_file_def Let_def)
  have st: "stats_ok ?ix" using r Some by (simp add: remove_file_def Let_def)
  have ids: "file_ids ?ix q = (if q = rel then [] else file_ids ix q)" for q by (simp add: file_ids_def fields)
  have own: "u_file (the (ix_units ix i)) = q" if "i \<in> set (file_ids ix q)" for i q
    using files_okD(2) [OF inv(2) that] by auto
  moreover have "ids = file_ids ix rel" using Some by (simp add: file_ids_def)
  ultimately have mine: "i \<in> set ids \<Longrightarrow> i \<in> set (file_ids ix q) \<Longrightarrow> q = rel" for i q
    by blast
  have "files_ok ?ix"
    unfolding files_ok_def
  proof (intro conjI allI impI)
    fix q js assume q: "ix_file_units ?ix q = Some js"
    then have js: "ix_file_units ix q = Some js" "q \<noteq> rel" "js = file_ids ix q"
      by (auto simp: fields file_ids_def split: if_splits)
    with mine [of _ q] have disj: "set js \<inter> set ids = {}" by blast
    show "js \<noteq> []" using files_okD(4) [OF inv(2) js(1)] by blast
    show "distinct js" unfolding js(3) by (rule files_okD(1) [OF inv(2)])
    show "\<forall>i\<in>set js. \<exists>u. ix_units ?ix i = Some u \<and> u_file u = q"
    proof
      fix i assume i: "i \<in> set js"
      then have "i \<in> set (file_ids ix q)" using js(3) by simp
      from files_okD(2) [OF inv(2) this] show "\<exists>u. ix_units ?ix i = Some u \<and> u_file u = q"
        using i disj by (auto simp: fields)
    qed
  next
    fix i u assume u: "ix_units ?ix i = Some u"
    then have "ix_units ix i = Some u" "i \<notin> set ids" by (auto simp: fields split: if_splits)
    moreover have "u_file u \<noteq> rel"
      using files_okD(3) [OF inv(2) \<open>ix_units ix i = Some u\<close>] \<open>i \<notin> set ids\<close> Some by (auto simp: file_ids_def)
    ultimately show "i < ix_next ?ix" "i \<in> set (file_ids ?ix (u_file u))"
      using files_okD(3) [OF inv(2)] by (auto simp: fields ids)
  qed
  moreover have "corpus ?ix q = ((corpus ix)(rel := [])) q" for q
    using mine [of _ q] by (auto simp: corpus_def ids fields)
  ultimately show ?thesis using st inv(3) by (auto simp: idx_inv_def fields)
qed


lemma mset_set_UN_disjoint:
  "finite D \<Longrightarrow> \<forall>x \<in> D. finite (A x) \<Longrightarrow> \<forall>x \<in> D. \<forall>y \<in> D. x \<noteq> y \<longrightarrow> A x \<inter> A y = {}
    \<Longrightarrow> mset_set (\<Union>x \<in> D. A x) = (\<Sum>x \<in> D. mset_set (A x))"
proof (induction D rule: finite_induct)
  case (insert x D)
  have "A x \<inter> (\<Union>y \<in> D. A y) = {}" using insert.prems(2) insert.hyps(2) by auto
  moreover have "finite (A x)" "finite (\<Union>y \<in> D. A y)" using insert.hyps(1) insert.prems(1) by auto
  ultimately have "mset_set (A x \<union> (\<Union>y \<in> D. A y)) = mset_set (A x) + mset_set (\<Union>y \<in> D. A y)"
    by (rule mset_set_Union [rotated 2])
  moreover have "mset_set (\<Union>y \<in> D. A y) = (\<Sum>y \<in> D. mset_set (A y))"
    using insert.IH insert.prems by simp
  ultimately show ?case using insert.hyps by simp
qed simp

lemma image_mset_sum: "image_mset f (\<Sum>x \<in> D. g x) = (\<Sum>x \<in> D. image_mset f (g x))"
  by (induction D rule: infinite_finite_induct) auto

text \<open>The bag of indexed units is the union of the files' units.\<close>

lemma docs_corpus:
  assumes "idx_inv ix"
  shows "docs ix = (\<Sum>rel \<in> dom (ix_file_units ix). mset (corpus ix rel))"
proof -
  have inv: "files_ok ix" "finite (dom (ix_file_units ix))" using assms by (auto simp: idx_inv_def)
  let ?D = "dom (ix_file_units ix)"
  have "dom (ix_units ix) = (\<Union>rel \<in> ?D. set (file_ids ix rel))"
  proof
    show "dom (ix_units ix) \<subseteq> (\<Union>rel \<in> ?D. set (file_ids ix rel))"
    proof
      fix i assume "i \<in> dom (ix_units ix)"
      then obtain u where "ix_units ix i = Some u" by auto
      then have "i \<in> set (file_ids ix (u_file u))" using files_okD(3) [OF inv(1)] by blast
      moreover from this have "u_file u \<in> ?D"
        by (cases "ix_file_units ix (u_file u)") (auto simp: file_ids_def)
      ultimately show "i \<in> (\<Union>rel \<in> ?D. set (file_ids ix rel))" by blast
    qed
    show "(\<Union>rel \<in> ?D. set (file_ids ix rel)) \<subseteq> dom (ix_units ix)"
      using files_okD(2) [OF inv(1)] by blast
  qed
  moreover have "mset_set (\<Union>rel \<in> ?D. set (file_ids ix rel)) = (\<Sum>rel \<in> ?D. mset_set (set (file_ids ix rel)))"
  proof (rule mset_set_UN_disjoint [OF inv(2)])
    show "\<forall>a \<in> ?D. \<forall>b \<in> ?D. a \<noteq> b \<longrightarrow> set (file_ids ix a) \<inter> set (file_ids ix b) = {}"
    proof (intro ballI impI)
      fix a b :: string assume "a \<noteq> b"
      then show "set (file_ids ix a) \<inter> set (file_ids ix b) = {}"
        using files_okD(2) [OF inv(1), of _ a] files_okD(2) [OF inv(1), of _ b] by force
    qed
  qed simp
  moreover have "mset_set (set (file_ids ix rel)) = mset (file_ids ix rel)" for rel
    using files_okD(1) [OF inv(1)] by (simp add: mset_set_set)
  ultimately show ?thesis
    by (simp add: docs_def corpus_def image_mset_sum)
qed

lemma corpus_nonempty: "idx_inv ix \<Longrightarrow> corpus ix rel \<noteq> [] \<longleftrightarrow> rel \<in> dom (ix_file_units ix)"
  by (auto simp: idx_inv_def files_ok_def corpus_def file_ids_def split: option.splits)

section \<open>File events\<close>

text \<open>
  What a client that keeps files in an index relies on: putting a file replaces its units, dropping it
  removes them, and no other file is touched.
\<close>

locale file_store =
  fixes put :: "string \<Rightarrow> 'u list \<Rightarrow> 's \<Rightarrow> 's"
    and drp :: "string \<Rightarrow> 's \<Rightarrow> 's"
    and files :: "'s \<Rightarrow> string \<Rightarrow> 'u list"
    and stamp :: "string \<Rightarrow> 'u \<Rightarrow> 'u"
    and good :: "'s \<Rightarrow> bool"
  assumes put_good: "good s \<Longrightarrow> good (put rel us s)"
    and drp_good: "good s \<Longrightarrow> good (drp rel s)"
    and put_files: "good s \<Longrightarrow> files (put rel us s) = (files s)(rel := map (stamp rel) us)"
    and drp_files: "good s \<Longrightarrow> files (drp rel s) = (files s)(rel := [])"
begin

text \<open>One change of a file: its new units, or \<open>None\<close> when it is gone or does not parse.\<close>

fun change :: "string \<times> 'u list option \<Rightarrow> 's \<Rightarrow> 's" where
  "change (rel, Some us) s = put rel us s"
| "change (rel, None) s = drp rel s"

fun expected :: "string \<times> 'u list option \<Rightarrow> (string \<Rightarrow> 'u list) \<Rightarrow> string \<Rightarrow> 'u list" where
  "expected (rel, Some us) m = m(rel := map (stamp rel) us)"
| "expected (rel, None) m = m(rel := [])"

lemma change_files: "good s \<Longrightarrow> good (change c s) \<and> files (change c s) = expected c (files s)"
  by (cases c; cases "snd c") (auto simp: put_good drp_good put_files drp_files)

lemma changes_files: "good s \<Longrightarrow> good (fold change cs s) \<and> files (fold change cs s) = fold expected cs (files s)"
proof (induction cs arbitrary: s)
  case (Cons c cs)
  from change_files [OF Cons.prems, of c] Cons.IH [of "change c s"] show ?case by simp
qed simp

text \<open>Only the last change of a file counts.\<close>

fun last_change :: "(string \<times> 'u list option) list \<Rightarrow> string \<Rightarrow> 'u list option option" where
  "last_change [] rel = None"
| "last_change (c # cs) rel =
     (case last_change cs rel of Some x \<Rightarrow> Some x | None \<Rightarrow> if fst c = rel then Some (snd c) else None)"

lemma changes_last:
  "fold expected cs m rel = (case last_change cs rel of None \<Rightarrow> m rel | Some None \<Rightarrow> [] | Some (Some us) \<Rightarrow> map (stamp rel) us)"
proof (induction cs arbitrary: m)
  case (Cons c cs)
  obtain r x where c: "c = (r, x)" by (cases c)
  have "expected (r, x) m rel = (if r = rel then (case x of None \<Rightarrow> [] | Some us \<Rightarrow> map (stamp rel) us) else m rel)"
    by (cases x) auto
  then show ?case using Cons.IH [of "expected (r, x) m"] c
    by (cases x) (auto simp del: expected.simps split: option.splits)
qed simp

end

definition replace_file :: "string \<Rightarrow> code_unit list \<Rightarrow> search_index \<Rightarrow> search_index" where
  "replace_file rel us ix = add_units rel us (remove_file rel ix)"

definition stamp_file :: "string \<Rightarrow> code_unit \<Rightarrow> code_unit" where
  "stamp_file rel u = u\<lparr>u_file := rel\<rparr>"

lemma replace_file_inv:
  assumes "idx_inv ix"
  shows "idx_inv (replace_file rel us ix) \<and> corpus (replace_file rel us ix) = (corpus ix)(rel := map (stamp_file rel) us)"
proof -
  have r: "idx_inv (remove_file rel ix)" "corpus (remove_file rel ix) = (corpus ix)(rel := [])"
    using remove_file_inv [OF assms] by auto
  have "map (u_file_update (\<lambda>_. rel)) us = map (stamp_file rel) us" by (simp add: stamp_file_def)
  with add_units_inv [OF r(1), of rel us] r(2) show ?thesis by (simp add: replace_file_def)
qed

interpretation idx: file_store replace_file remove_file corpus stamp_file idx_inv
  using replace_file_inv remove_file_inv by unfold_locales auto

text \<open>
  C11: the incremental index is the index of the current files.  After any sequence of file changes
  each file's units are those of its last change, and the document frequencies, the total length and
  the document count are what counting over exactly those units gives; nothing of an earlier version
  of a file survives.
\<close>

theorem index_incremental:
  "let ix = fold idx.change cs (new_index r);
       ds = (\<Sum>rel \<in> {rel. corpus ix rel \<noteq> []}. mset (corpus ix rel))
   in (\<forall>rel. corpus ix rel = (case idx.last_change cs rel of
          None \<Rightarrow> [] | Some None \<Rightarrow> [] | Some (Some us) \<Rightarrow> map (stamp_file rel) us))
      \<and> (\<forall>t. ix_df ix t = size (filter_mset (\<lambda>u. t \<in> set (unit_tokens u)) ds))
      \<and> ix_total_len ix = (\<Sum>u\<in>#ds. int (length (unit_tokens u)))
      \<and> ix_total_docs ix = int (size ds) \<and> unit_count ix = size ds"
proof -
  let ?ix = "fold idx.change cs (new_index r)"
  have inv: "idx_inv ?ix" and cor: "corpus ?ix = fold idx.expected cs (corpus (new_index r))"
    using idx.changes_files [OF new_index_inv, of cs r] by auto
  have "corpus (new_index r) = (\<lambda>_. [])" by (simp add: corpus_def file_ids_def new_index_def fun_eq_iff)
  then have c: "corpus ?ix rel = (case idx.last_change cs rel of
      None \<Rightarrow> [] | Some None \<Rightarrow> [] | Some (Some us) \<Rightarrow> map (stamp_file rel) us)" for rel
    using idx.changes_last [of cs "\<lambda>_. []" rel] cor by simp
  have "{rel. corpus ?ix rel \<noteq> []} = dom (ix_file_units ?ix)" using corpus_nonempty [OF inv] by blast
  then have d: "(\<Sum>rel \<in> {rel. corpus ?ix rel \<noteq> []}. mset (corpus ?ix rel)) = docs ?ix"
    using docs_corpus [OF inv] by simp
  have "stats_ok ?ix" using inv by (simp add: idx_inv_def)
  then show ?thesis
    unfolding Let_def d using c by (auto simp: stats_ok_def unit_count_def docs_def)
qed

text \<open>\<open>AddFile\<close>, \<open>RemoveFile\<close> and \<open>Build\<close>; \<open>parse\<close> is \<open>go/parser\<close> on the files as they are at the moment.\<close>

definition to_rel_file :: "string \<Rightarrow> string \<Rightarrow> string" where
  "to_rel_file r p = (case fp_rel r p of Some x \<Rightarrow> x | None \<Rightarrow> p)"

definition idx_abs_path :: "search_index \<Rightarrow> string \<Rightarrow> string" where
  "idx_abs_path ix p = (if is_abs p then p else fp_join (ix_root ix) p)"

definition remove_path :: "string \<Rightarrow> search_index \<Rightarrow> search_index" where
  "remove_path p ix = remove_file (to_rel_file (ix_root ix) (idx_abs_path ix p)) ix"

definition add_path :: "(string \<Rightarrow> go_file option) \<Rightarrow> string \<Rightarrow> search_index \<Rightarrow> search_index" where
  "add_path parse p ix =
     (let q = idx_abs_path ix p
      in if fp_ext q \<noteq> ''.go'' then ix
         else case extract_go_file parse q (ix_root ix) of
                None \<Rightarrow> remove_path q ix
              | Some us \<Rightarrow> replace_file (to_rel_file (ix_root ix) q) us ix)"

text \<open>\<open>Build\<close> over the paths that \<open>WalkGoFiles\<close> yields.\<close>

definition build_index :: "(string \<Rightarrow> go_file option) \<Rightarrow> string \<Rightarrow> string list \<Rightarrow> search_index" where
  "build_index parse r paths =
     fold (\<lambda>p ix. case extract_go_file parse p r of None \<Rightarrow> ix | Some us \<Rightarrow> add_units (to_rel_file r p) us ix)
       paths (new_index r)"

definition skip_path :: "string \<Rightarrow> bool" where
  "skip_path p \<longleftrightarrow> str_contains p ''/.git/'' \<or> str_contains p ''/node_modules/''"

record fs_event =
  e_name :: string
  e_create :: bool
  e_write :: bool
  e_remove :: bool
  e_rename :: bool

text \<open>\<open>handleEvent\<close>: the index and the directories newly watched; \<open>is_dir\<close> is \<open>os.Stat\<close>.\<close>

definition handle_event ::
  "(string \<Rightarrow> go_file option) \<Rightarrow> (string \<Rightarrow> bool) \<Rightarrow> fs_event \<Rightarrow> search_index \<Rightarrow> search_index \<times> string list" where
  "handle_event parse is_dir ev ix =
     (if skip_path (e_name ev) then (ix, [])
      else if e_create ev \<and> is_dir (e_name ev) then (ix, [e_name ev])
      else if fp_ext (e_name ev) \<noteq> ''.go'' then (ix, [])
      else if e_create ev \<or> e_write ev then (add_path parse (e_name ev) ix, [])
      else if e_remove ev \<or> e_rename ev then (remove_path (e_name ev) ix, [])
      else (ix, []))"

lemma replace_root [simp]: "ix_root (replace_file rel us ix) = ix_root ix" "ix_root (remove_file rel ix) = ix_root ix"
proof -
  have a: "ix_root (fold (add_unit rel) us jx) = ix_root jx" for jx
    by (induction us arbitrary: jx) (simp_all add: add_unit_def Let_def)
  have b: "ix_root (fold remove_unit ids jx) = ix_root jx" for ids jx
    by (induction ids arbitrary: jx) (simp_all add: remove_unit_def Let_def)
  show r: "ix_root (remove_file rel ix) = ix_root ix"
    by (simp add: remove_file_def Let_def b split: option.split)
  show "ix_root (replace_file rel us ix) = ix_root ix" by (simp add: replace_file_def add_units_def a r)
qed

text \<open>
  an event brings its file up to date and nothing else.  On a \<open>.go\<close> file outside \<open>.git\<close> and
  \<open>node_modules\<close>, a create or write event makes the file's units those of its current content, none
  if it does not parse, a remove or rename event drops them; every other file keeps its units, and
  all other events change nothing.
\<close>

theorem event_updates_file:
  assumes "idx_inv ix" "is_abs (e_name ev)" "handle_event parse is_dir ev ix = (ix', dirs)"
  shows "idx_inv ix' \<and>
    (let rel = to_rel_file (ix_root ix) (e_name ev);
         relevant = \<not> skip_path (e_name ev) \<and> fp_ext (e_name ev) = ''.go'' \<and> \<not> (e_create ev \<and> is_dir (e_name ev));
         now = (case extract_go_file parse (e_name ev) (ix_root ix) of None \<Rightarrow> [] | Some us \<Rightarrow> map (stamp_file rel) us)
     in corpus ix' =
          (if relevant \<and> (e_create ev \<or> e_write ev) then (corpus ix)(rel := now)
           else if relevant \<and> (e_remove ev \<or> e_rename ev) then (corpus ix)(rel := [])
           else corpus ix))"
proof -
  let ?rel = "to_rel_file (ix_root ix) (e_name ev)"
  have rm: "remove_path (e_name ev) ix = remove_file ?rel ix"
    using assms(2) by (simp add: remove_path_def idx_abs_path_def)
  note r = remove_file_inv [OF assms(1), of ?rel]
  show ?thesis
  proof (cases "\<not> skip_path (e_name ev) \<and> fp_ext (e_name ev) = ''.go'' \<and> \<not> (e_create ev \<and> is_dir (e_name ev))")
    case False
    then have "ix' = ix" using assms(3) by (auto simp: handle_event_def split: if_splits)
    with False assms(1) show ?thesis by (auto simp: Let_def)
  next
    case rel: True
    show ?thesis
    proof (cases "e_create ev \<or> e_write ev")
      case True
      then have "ix' = (case extract_go_file parse (e_name ev) (ix_root ix) of None \<Rightarrow> remove_file ?rel ix
          | Some us \<Rightarrow> replace_file ?rel us ix)"
        using assms(2,3) rel rm
        by (cases "extract_go_file parse (e_name ev) (ix_root ix)")
           (auto simp: handle_event_def add_path_def idx_abs_path_def Let_def)
      with True rel r replace_file_inv [OF assms(1), of ?rel] show ?thesis
        by (cases "extract_go_file parse (e_name ev) (ix_root ix)") (simp_all add: Let_def)
    next
      case False
      with rel assms(3) rm have "ix' = (if e_remove ev \<or> e_rename ev then remove_file ?rel ix else ix)"
        by (auto simp: handle_event_def)
      with False rel r assms(1) show ?thesis by (simp add: Let_def)
    qed
  qed
qed

definition demo_event :: fs_event where
  "demo_event = \<lparr>e_name = ''/w/m.go'', e_create = False, e_write = True, e_remove = False, e_rename = False\<rparr>"

theorem event_updates_file_witness:
  "corpus (fst (handle_event (\<lambda>_. Some \<lparr>gf_package = ''m'', gf_doc = None, gf_decls = [GenDecl ''var'' [] [ValueSpec [''X''] [] None]]\<rparr>)
     (\<lambda>_. False) demo_event (new_index ''/w''))) ''m.go'' \<noteq> []"
proof -
  let ?p = "\<lambda>_. Some \<lparr>gf_package = ''m'', gf_doc = None, gf_decls = [GenDecl ''var'' [] [ValueSpec [''X''] [] None]]\<rparr>"
  have e: "is_abs (e_name demo_event)" by (simp add: demo_event_def is_abs_def)
  have f: "\<not> skip_path ''/w/m.go''" "fp_ext ''/w/m.go'' = ''.go''" "to_rel_file ''/w'' ''/w/m.go'' = ''m.go''"
    by code_simp+
  from event_updates_file [OF new_index_inv e surjective_pairing, of ?p "\<lambda>_. False" "''/w''"] f
  show ?thesis
    by (simp add: demo_event_def new_index_def extract_go_file_def gen_decl_units_def value_units_def Let_def)
qed

text \<open>
  a directory that appears with files in it stays invisible.  Its create event only adds watches:
  whatever Go files it holds, the index is the same before and after.
\<close>

theorem moved_directory_not_indexed:
  "let ev = \<lparr>e_name = p, e_create = True, e_write = False, e_remove = False, e_rename = False\<rparr>
   in fst (handle_event parse (\<lambda>q. q = p) ev ix) = ix"
  by (simp add: handle_event_def Let_def)

section \<open>Search\<close>

definition bm25_k1 :: rat where "bm25_k1 = 3 / 2"
definition bm25_b :: rat where "bm25_b = 3 / 4"

definition bm25_idf :: "(rat \<Rightarrow> rat) \<Rightarrow> search_index \<Rightarrow> string \<Rightarrow> rat" where
  "bm25_idf logf ix qt =
     logf (1 + (of_int (ix_total_docs ix) - of_nat (ix_df ix qt) + 1 / 2) / (of_nat (ix_df ix qt) + 1 / 2))"

definition term_score :: "(rat \<Rightarrow> rat) \<Rightarrow> search_index \<Rightarrow> nat \<Rightarrow> string \<Rightarrow> rat" where
  "term_score logf ix i qt =
     (let tf = of_nat (count_token (the (ix_tokens ix i)) qt);
          avg_len = of_int (ix_total_len ix) / of_int (ix_total_docs ix);
          norm = 1 - bm25_b + bm25_b * (of_nat (the (ix_lengths ix i)) / avg_len)
      in bm25_idf logf ix qt * (tf * (bm25_k1 + 1)) / (tf + bm25_k1 * norm))"

text \<open>A query token scores a unit if its frequency entry exists and the unit contains it.\<close>

definition scores_unit :: "search_index \<Rightarrow> nat \<Rightarrow> string \<Rightarrow> bool" where
  "scores_unit ix i qt \<longleftrightarrow> ix_df ix qt \<noteq> 0 \<and>
     (case ix_tokens ix i of None \<Rightarrow> False | Some toks \<Rightarrow> count_token toks qt \<noteq> 0)"

definition unit_score :: "(rat \<Rightarrow> rat) \<Rightarrow> search_index \<Rightarrow> string list \<Rightarrow> nat \<Rightarrow> rat" where
  "unit_score logf ix qtoks i = sum_list (map (term_score logf ix i) (filter (scores_unit ix i) qtoks))"

definition result_key :: "code_unit \<times> rat \<Rightarrow> rat \<times> string \<times> string" where
  "result_key r = (- snd r, u_file (fst r), u_symbol (fst r))"

definition all_results :: "(rat \<Rightarrow> rat) \<Rightarrow> search_index \<Rightarrow> string list \<Rightarrow> (code_unit \<times> rat) list" where
  "all_results logf ix qtoks =
     map (\<lambda>i. (the (ix_units ix i), unit_score logf ix qtoks i))
       (filter (\<lambda>i. list_ex (scores_unit ix i) qtoks) [0..<ix_next ix])"

definition index_search :: "(rat \<Rightarrow> rat) \<Rightarrow> search_index \<Rightarrow> string \<Rightarrow> int \<Rightarrow> (code_unit \<times> rat) list" where
  "index_search logf ix query limit =
     (let qtoks = tokenize query
      in if qtoks = [] then []
         else if ix_total_docs ix = 0 then []
         else let rs = sort_key result_key (all_results logf ix qtoks)
              in if 0 < limit \<and> limit < int (length rs) then take (nat limit) rs else rs)"

lemma count_token_pos: "count_token toks t \<noteq> 0 \<longleftrightarrow> t \<in> set toks"
  by (auto simp: count_token_def filter_empty_conv)

lemma count_token_pos' [simp]: "0 < count_token toks t \<longleftrightarrow> t \<in> set toks"
  using count_token_pos [of toks t] by simp

lemma scores_unit_iff:
  assumes "idx_inv ix"
  shows "scores_unit ix i qt \<longleftrightarrow> (\<exists>u. ix_units ix i = Some u \<and> qt \<in> set (unit_tokens u))"
proof -
  have st: "stats_ok ix" using assms by (simp add: idx_inv_def)
  have tok: "ix_tokens ix i = map_option unit_tokens (ix_units ix i)" using st by (simp add: stats_ok_def)
  have "ix_df ix qt \<noteq> 0" if u: "ix_units ix i = Some u" "qt \<in> set (unit_tokens u)" for u
  proof -
    have "u \<in># docs ix" using u(1) st
      by (auto simp: docs_def stats_ok_def intro!: image_eqI [where x = i])
    then have "u \<in># filter_mset (\<lambda>u. qt \<in> set (unit_tokens u)) (docs ix)" using u(2) by simp
    then show ?thesis using st by (auto simp: stats_ok_def)
  qed
  then show ?thesis unfolding scores_unit_def tok by (auto simp: count_token_pos [simplified] split: option.splits)
qed

lemma all_results_units:
  assumes "idx_inv ix"
  shows "u \<in> fst ` set (all_results logf ix qtoks) \<longleftrightarrow> u \<in># docs ix \<and> (\<exists>t \<in> set qtoks. t \<in> set (unit_tokens u))"
proof -
  have fin: "finite (dom (ix_units ix))" and ok: "files_ok ix" using assms by (auto simp: idx_inv_def stats_ok_def)
  have "u \<in> fst ` set (all_results logf ix qtoks) \<longleftrightarrow>
     (\<exists>i < ix_next ix. (\<exists>t \<in> set qtoks. scores_unit ix i t) \<and> u = the (ix_units ix i))"
    by (auto simp: all_results_def list_ex_iff image_iff)
  also have "\<dots> \<longleftrightarrow> (\<exists>i. ix_units ix i = Some u \<and> (\<exists>t \<in> set qtoks. t \<in> set (unit_tokens u)))"
    using files_okD(3) [OF ok] by (fastforce simp: scores_unit_iff [OF assms])
  also have "\<dots> \<longleftrightarrow> u \<in># docs ix \<and> (\<exists>t \<in> set qtoks. t \<in> set (unit_tokens u))"
    using fin by (force simp: docs_def)
  finally show ?thesis .
qed

lemma take_sorted_le:
  "sorted (map f xs) \<Longrightarrow> a \<in> set (take n xs) \<Longrightarrow> b \<in> set (drop n xs) \<Longrightarrow> f a \<le> f b"
proof -
  assume s: "sorted (map f xs)" and a: "a \<in> set (take n xs)" and b: "b \<in> set (drop n xs)"
  have "sorted (map f (take n xs @ drop n xs))" using s by simp
  then have "sorted (map f (take n xs) @ map f (drop n xs))" by (simp only: map_append)
  with a b show "f a \<le> f b" by (auto simp: sorted_append)
qed

text \<open>A limit keeps the best results: what it leaves out ranks at most as high as all it keeps.\<close>

lemma cut_keeps_best:
  fixes key :: "'a \<Rightarrow> 'b :: linorder"
  assumes "x \<in> set xs" "0 < limit"
  defines "kept \<equiv> take (if limit < int (length (sort_key key xs)) then nat limit else length (sort_key key xs)) (sort_key key xs)"
  shows "x \<in> set kept \<or> (int (length kept) = limit \<and> (\<forall>r \<in> set kept. key r \<le> key x))"
proof -
  let ?n = "if limit < int (length (sort_key key xs)) then nat limit else length (sort_key key xs)"
  have "x \<in> set (sort_key key xs)" using assms(1) by simp
  then consider "x \<in> set (take ?n (sort_key key xs))" | "x \<in> set (drop ?n (sort_key key xs))"
    by (metis Un_iff append_take_drop_id set_append)
  then show ?thesis
  proof cases
    case 2
    then have "limit < int (length (sort_key key xs))" by (cases "limit < int (length (sort_key key xs))") auto
    then have "int (length kept) = limit" using assms(2) by (simp add: kept_def)
    then show ?thesis using take_sorted_le [OF _ _ 2, of key] by (simp add: kept_def)
  qed (simp add: kept_def)
qed



end
