(* ===== verification/GoTests.thy ===== *)
theory GoTests
  imports Verify
begin

text \<open>
  Reading \<open>go test -json\<close>: \<open>internal/verify/go_test_failures.go\<close> and \<open>go_tests_by_package.go\<close>, and the
  argument vector of a rerun (\<open>composeGoRerunArgv\<close> in \<open>internal/tools/run_failing_tests.go\<close>).  The frame
  map with its separate insertion order is one association list in that order.
\<close>

section \<open>Events\<close>

record test_event =
  te_action :: string
  te_package :: string
  te_test :: string
  te_output :: string

definition decode_event :: "string \<Rightarrow> test_event option" where
  "decode_event line =
     (let t = trim_space line
      in if t = [] \<or> hd t \<noteq> CHR ''{'' then None
         else case json_parse t of
                Some (JObj kvs) \<Rightarrow>
                  (case (string_field ''Action'' [] kvs, string_field ''Package'' [] kvs, string_field ''Test'' [] kvs,
                         string_field ''Output'' [] kvs) of
                     (Some a, Some p, Some t, Some o') \<Rightarrow>
                       Some \<lparr>te_action = a, te_package = p, te_test = t, te_output = o'\<rparr>
                   | _ \<Rightarrow> None)
              | _ \<Rightarrow> None)"

definition test_events :: "string \<Rightarrow> test_event list" where
  "test_events stdout = List.map_filter decode_event (split_on newline stdout)"

definition count_go_passes :: "string \<Rightarrow> nat" where
  "count_go_passes stdout = length (filter (\<lambda>ev. te_action ev = ''pass'' \<and> te_test ev \<noteq> []) (test_events stdout))"

section \<open>Frames\<close>

type_synonym test_key = "string \<times> string"
type_synonym frame = "string list \<times> bool"

definition event_key :: "test_event \<Rightarrow> test_key" where
  "event_key ev = (te_package ev, te_test ev)"

definition apply_event :: "test_event \<Rightarrow> frame \<Rightarrow> frame" where
  "apply_event ev fr =
     (if te_action ev = ''output'' then (if te_output ev \<noteq> [] then (fst fr @ [te_output ev], snd fr) else fr)
      else if te_action ev = ''fail'' then (fst fr, True)
      else fr)"

fun update_frame :: "test_event \<Rightarrow> (test_key \<times> frame) list \<Rightarrow> (test_key \<times> frame) list" where
  "update_frame ev [] = [(event_key ev, apply_event ev ([], False))]"
| "update_frame ev ((k, fr) # fs) =
     (if k = event_key ev then (k, apply_event ev fr) # fs else (k, fr) # update_frame ev fs)"

definition nul :: char where "nul = CHR 0x00"

definition key_sentinel :: "test_key \<Rightarrow> string" where
  "key_sentinel k = nul # fst k @ nul # snd k"

definition scan_go_events :: "string \<Rightarrow> frame list" where
  "scan_go_events stdout =
     map (\<lambda>(k, outs, failed). (outs @ [key_sentinel k], failed))
       (fold update_frame (filter (\<lambda>ev. te_test ev \<noteq> []) (test_events stdout)) [])"

section \<open>Failures\<close>

record test_failure =
  tf_file :: string
  tf_line :: int
  tf_test_name :: string
  tf_message :: string
  tf_diff :: string

definition split_key_sentinel :: "string \<Rightarrow> test_key" where
  "split_key_sentinel s =
     (if \<not> has_prefix s [nul] then ([], [])
      else case split_first nul (drop 1 s) of (a, Some b) \<Rightarrow> (a, b) | (a, None) \<Rightarrow> ([], []))"

definition go_file_char :: "char \<Rightarrow> bool" where
  "go_file_char c \<longleftrightarrow> cls_alnum c \<or> c = CHR ''_'' \<or> c = CHR ''.'' \<or> c = CHR ''/'' \<or> c = CHR ''-''"

definition go_test_file_line_re :: re where
  "go_test_file_line_re =
     rseqs [RBeginLine, RStar True (RCls cls_space), RGroup 1 (RSeq (rplus (RCls go_file_char)) (rlit ''.go'')),
            rchr (CHR '':''), RGroup 2 (rplus (RCls is_digit)), rchr (CHR '':'')]"

fun extract_file_line :: "string list \<Rightarrow> string \<times> int" where
  "extract_file_line [] = ([], 0)"
| "extract_file_line (raw # outs) =
     (case find_at go_test_file_line_re raw 0 of
        None \<Rightarrow> extract_file_line outs
      | Some (_, _, c) \<Rightarrow>
          (let n = int (digits_val (cap_text raw c 2))
           in if 2 ^ 63 \<le> n then extract_file_line outs else (cap_text raw c 1, n)))"

fun message_after :: "string list \<Rightarrow> string" where
  "message_after [] = []"
| "message_after (raw # outs) = (if trim_space raw \<noteq> [] then trim_space raw else message_after outs)"

fun message_after_fail_marker :: "string list \<Rightarrow> string" where
  "message_after_fail_marker [] = []"
| "message_after_fail_marker (raw # outs) =
     (if str_contains raw ''--- FAIL:'' then message_after outs else message_after_fail_marker outs)"

fun first_meaningful_line :: "string list \<Rightarrow> string" where
  "first_meaningful_line [] = []"
| "first_meaningful_line (raw # outs) =
     (let t = trim_space raw
      in if t = [] then first_meaningful_line outs
         else if has_prefix t ''==='' \<or> has_prefix t ''---'' then first_meaningful_line outs
         else case find_at go_test_file_line_re t 0 of
                Some (0, b, _) \<Rightarrow> trim_space (drop b t)
              | _ \<Rightarrow> t)"

definition extract_message :: "string list \<Rightarrow> string" where
  "extract_message outs = (let m = message_after_fail_marker outs in if m \<noteq> [] then m else first_meaningful_line outs)"

definition diff_markers :: "string list" where
  "diff_markers = [''got:'', ''want:'', ''Diff:'', ''--- Expected'', ''+++ Actual'']"

definition has_diff_marker :: "string \<Rightarrow> bool" where
  "has_diff_marker raw \<longleftrightarrow> list_ex (str_contains raw) diff_markers"

definition extract_diff :: "string list \<Rightarrow> string" where
  "extract_diff outs =
     (let rest = dropWhile (\<lambda>raw. \<not> has_diff_marker raw) outs
      in if rest = [] then [] else trim_nl (concat (map (\<lambda>raw. trim_nl raw @ [newline]) (take 20 rest))))"

definition frame_to_failure :: "frame \<Rightarrow> test_failure option" where
  "frame_to_failure f =
     (if fst f = [] then None
      else
        let (pkg, test) = split_key_sentinel (last (fst f));
            body = butlast (fst f);
            (file, line) = extract_file_line body
        in Some \<lparr>tf_file = file, tf_line = line, tf_test_name = pkg @ ''/'' @ test,
                 tf_message = extract_message body, tf_diff = extract_diff body\<rparr>)"

definition parse_go_test2json :: "string \<Rightarrow> test_failure list" where
  "parse_go_test2json stdout = List.map_filter frame_to_failure (filter snd (scan_go_events stdout))"

fun parse_test_failures :: "detector \<Rightarrow> string \<Rightarrow> string \<Rightarrow> test_failure list" where
  "parse_test_failures (GoDet _) out err = parse_go_test2json out"
| "parse_test_failures _ out err = []"

text \<open>The keys in first-seen order, without repetition, and the events of one key.\<close>

fun first_seen :: "'a list \<Rightarrow> 'a list" where
  "first_seen [] = []"
| "first_seen (x # xs) = x # filter (\<lambda>y. y \<noteq> x) (first_seen xs)"

definition key_events :: "test_key \<Rightarrow> test_event list \<Rightarrow> test_event list" where
  "key_events k evs = filter (\<lambda>ev. event_key ev = k) evs"

lemma first_seen_set [simp]: "set (first_seen xs) = set xs"
  by (induction xs) auto

lemma first_seen_distinct: "distinct (first_seen xs)"
  by (induction xs) auto

lemma first_seen_snoc: "first_seen (xs @ [x]) = (if x \<in> set xs then first_seen xs else first_seen xs @ [x])"
  by (induction xs) auto

lemma update_frame_spec:
  assumes "fs = map (\<lambda>k. (k, fold apply_event (key_events k evs) ([], False))) (first_seen (map event_key evs))"
  shows "update_frame ev fs =
    map (\<lambda>k. (k, fold apply_event (key_events k (evs @ [ev])) ([], False))) (first_seen (map event_key (evs @ [ev])))"
proof -
  let ?g = "\<lambda>k. fold apply_event (key_events k evs) ([], False)"
  have g: "fold apply_event (key_events k (evs @ [ev])) ([], False) = (if k = event_key ev then apply_event ev (?g k) else ?g k)" for k
    by (simp add: key_events_def)
  have new: "?g (event_key ev) = ([], False)" if "event_key ev \<notin> event_key ` set evs"
  proof -
    have "key_events (event_key ev) evs = []" using that by (auto simp: key_events_def filter_empty_conv image_iff)
    then show ?thesis by simp
  qed
  have upd: "update_frame ev (map (\<lambda>k. (k, ?g k)) ks) =
      (if event_key ev \<in> set ks then map (\<lambda>k. (k, if k = event_key ev then apply_event ev (?g k) else ?g k)) ks
       else map (\<lambda>k. (k, ?g k)) ks @ [(event_key ev, apply_event ev ([], False))])" if "distinct ks" for ks
    using that
  proof (induction ks)
    case (Cons k ks)
    then show ?case by (auto intro!: map_cong)
  qed simp
  show ?thesis
  proof (cases "event_key ev \<in> event_key ` set evs")
    case True
    then show ?thesis unfolding assms g using upd [OF first_seen_distinct [of "map event_key evs"]]
      by (simp add: first_seen_snoc)
  next
    case False
    then have "\<forall>k \<in> set (first_seen (map event_key evs)). k \<noteq> event_key ev"
      by (metis first_seen_set set_map)
    then have "map (\<lambda>k. (k, if k = event_key ev then apply_event ev (?g k) else ?g k)) (first_seen (map event_key evs))
        = map (\<lambda>k. (k, ?g k)) (first_seen (map event_key evs))" by simp
    with False show ?thesis unfolding assms g using upd [OF first_seen_distinct [of "map event_key evs"]] new
      by (simp add: first_seen_snoc)
  qed
qed

lemma scan_frames:
  "fold update_frame evs [] = map (\<lambda>k. (k, fold apply_event (key_events k evs) ([], False))) (first_seen (map event_key evs))"
proof (induction evs rule: rev_induct)
  case (snoc ev evs)
  then show ?case using update_frame_spec [of "fold update_frame evs []" evs ev] by simp
qed simp

lemma frame_failed: "snd (fold apply_event evs fr) \<longleftrightarrow> snd fr \<or> (\<exists>ev \<in> set evs. te_action ev = ''fail'')"
  by (induction evs arbitrary: fr) (auto simp: apply_event_def)

lemma split_sentinel: "nul \<notin> set p \<Longrightarrow> split_key_sentinel (key_sentinel (p, t)) = (p, t)"
  by (simp add: split_key_sentinel_def key_sentinel_def has_prefix_def split_first_append)

lemma parse_failing_names:
  assumes "\<forall>ev \<in> set (test_events stdout). nul \<notin> set (te_package ev)"
  shows "map tf_test_name (parse_go_test2json stdout) =
    (let evs = filter (\<lambda>ev. te_test ev \<noteq> []) (test_events stdout)
     in map (\<lambda>(p, t). p @ ''/'' @ t)
          (filter (\<lambda>k. \<exists>ev \<in> set evs. event_key ev = k \<and> te_action ev = ''fail'') (first_seen (map event_key evs))))"
proof -
  let ?evs = "filter (\<lambda>ev. te_test ev \<noteq> []) (test_events stdout)"
  let ?fr = "\<lambda>k. fold apply_event (key_events k ?evs) ([], False)"
  let ?ks = "first_seen (map event_key ?evs)"
  have sc: "scan_go_events stdout = map (\<lambda>k. (fst (?fr k) @ [key_sentinel k], snd (?fr k))) ?ks"
    by (simp add: scan_go_events_def scan_frames comp_def split_beta)
  have fail: "snd (?fr k) \<longleftrightarrow> (\<exists>ev \<in> set ?evs. event_key ev = k \<and> te_action ev = ''fail'')" for k
    by (auto simp: frame_failed key_events_def)
  have name: "\<exists>tf. frame_to_failure (outs @ [key_sentinel k], b) = Some tf \<and> tf_test_name tf = fst k @ ''/'' @ snd k"
    if "k \<in> set ?ks" for k outs b
  proof -
    have "nul \<notin> set (fst k)" using that assms by (auto simp: event_key_def)
    then have "split_key_sentinel (key_sentinel k) = k" using split_sentinel [of "fst k" "snd k"] by simp
    then show ?thesis by (simp add: frame_to_failure_def split_beta Let_def)
  qed
  have "map tf_test_name (List.map_filter frame_to_failure (filter snd (map (\<lambda>k. (fst (?fr k) @ [key_sentinel k], snd (?fr k))) ks)))
      = map (\<lambda>(p, t). p @ ''/'' @ t) (filter (\<lambda>k. snd (?fr k)) ks)" if "set ks \<subseteq> set ?ks" for ks
    using that
  proof (induction ks)
    case (Cons k ks)
    from name [of k "fst (?fr k)" "snd (?fr k)"] Cons.prems obtain tf where
      "frame_to_failure (fst (?fr k) @ [key_sentinel k], snd (?fr k)) = Some tf" "tf_test_name tf = fst k @ ''/'' @ snd k"
      by auto
    with Cons show ?case by (auto simp: map_filter_simps split_beta)
  qed (simp add: map_filter_simps)
  from this [of ?ks] show ?thesis
    unfolding parse_go_test2json_def sc Let_def fail by simp
qed

text \<open>
  C29: \<open>ParseGoTest2JSON\<close> reports exactly the failing tests: one record per named test with a \<open>fail\<close>
  event, in the order in which the tests first appear in the stream, each under its package path and
  name; passing and skipped tests and lines that are no events leave no record.
\<close>

theorem parse_reports_failing_tests:
  assumes "\<forall>ev \<in> set (test_events stdout). nul \<notin> set (te_package ev)"
  shows "map tf_test_name (parse_go_test2json stdout) =
    (let evs = filter (\<lambda>ev. te_test ev \<noteq> []) (test_events stdout)
     in map (\<lambda>(p, t). p @ ''/'' @ t)
          (filter (\<lambda>k. \<exists>ev \<in> set evs. event_key ev = k \<and> te_action ev = ''fail'') (first_seen (map event_key evs))))"
  using assms by (rule parse_failing_names)

definition demo_stream :: string where
  "demo_stream =
     [CHR ''{'', CHR 0x22] @ ''Action'' @ [CHR 0x22, CHR '':'', CHR 0x22] @ ''fail'' @ [CHR 0x22, CHR '','', CHR 0x22]
     @ ''Package'' @ [CHR 0x22, CHR '':'', CHR 0x22] @ ''m.io/p'' @ [CHR 0x22, CHR '','', CHR 0x22]
     @ ''Test'' @ [CHR 0x22, CHR '':'', CHR 0x22] @ ''TestA'' @ [CHR 0x22, CHR ''}'']"

lemma demo_events:
  "test_events demo_stream = [\<lparr>te_action = ''fail'', te_package = ''m.io/p'', te_test = ''TestA'', te_output = []\<rparr>]"
  by code_simp

theorem parse_reports_failing_tests_witness:
  "map tf_test_name (parse_go_test2json demo_stream) = [''m.io/p/TestA'']"
  by (subst parse_reports_failing_tests) (simp_all add: demo_events nul_def event_key_def)

section \<open>Tests by package\<close>

definition parent_test :: "string \<Rightarrow> string" where
  "parent_test t = fst (split_first (CHR ''/'') t)"

definition tests_by_package :: "string \<Rightarrow> string \<Rightarrow> string list option" where
  "tests_by_package stdout pkg =
     (let names = map (\<lambda>ev. parent_test (te_test ev))
            (filter (\<lambda>ev. te_test ev \<noteq> [] \<and> te_package ev \<noteq> [] \<and> (te_action ev = ''pass'' \<or> te_action ev = ''fail'')
                        \<and> parent_test (te_test ev) \<noteq> [] \<and> te_package ev = pkg) (test_events stdout))
      in if names = [] then None else Some (sort (remdups names)))"

section \<open>Rerunning the failures\<close>

definition split_qualified_test_name :: "string \<Rightarrow> string \<times> string" where
  "split_qualified_test_name name =
     (case split_first (CHR '':'') name of (a, Some b) \<Rightarrow> (a, b) | (a, None) \<Rightarrow> ([], name))"

definition rerun_target :: "test_failure \<Rightarrow> (string \<times> string) option" where
  "rerun_target f =
     (if tf_test_name f = [] then None
      else
        let (pkg, leaf) = split_qualified_test_name (tf_test_name f); parent = parent_test leaf
        in if parent = [] then None else Some (pkg, parent))"

definition extract_rerun_targets :: "test_failure list \<Rightarrow> string list \<times> string list" where
  "extract_rerun_targets fs =
     (let ts = List.map_filter rerun_target fs
      in (sort (remdups (map snd ts)), sort (remdups (filter (\<lambda>p. p \<noteq> []) (map fst ts)))))"

definition compose_go_rerun_argv :: "test_failure list \<Rightarrow> nat \<Rightarrow> string list" where
  "compose_go_rerun_argv fs limit =
     (if fs = [] then []
      else
        let (tests, pkgs) = extract_rerun_targets fs
        in if tests = [] then []
           else
             let tests' = (if 0 < limit \<and> limit < length tests then take limit tests else tests);
                 regex = ''^('' @ join ''|'' tests' @ '')$''
             in [''go'', ''test'', ''-json'', ''-count=1'', ''-run'', regex]
                @ (if 0 < length pkgs \<and> length pkgs \<le> 10 then pkgs else [''./...'']))"

lemma split_first_slash_append: "fst (split_first c (p @ c # t)) = fst (split_first c p)"
  by (induction p) (auto split: prod.splits)

lemma split_first_prefix: "prefix (fst (split_first c p)) p"
  using split_first_join [of c p "fst (split_first c p)" "snd (split_first c p)"] by (metis prefixI prod.collapse)

text \<open>
  the rerun does not address the failed tests.  The failures that \<open>ParseGoTest2JSON\<close> produces name
  a test \<open>package/Test\<close>, the rerun splits at the first colon, so every test name it puts into \<open>-run\<close> is
  the first element of some failing package's import path, and no package is ever passed.
\<close>

theorem rerun_targets_are_package_prefixes:
  assumes "\<forall>ev \<in> set (test_events stdout). nul \<notin> set (te_package ev) \<and> CHR '':'' \<notin> set (te_package ev @ te_test ev)"
  shows "snd (extract_rerun_targets (parse_go_test2json stdout)) = []
    \<and> (\<forall>t \<in> set (fst (extract_rerun_targets (parse_go_test2json stdout))).
         \<exists>ev \<in> set (test_events stdout). t = fst (split_first (CHR ''/'') (te_package ev)))"
proof -
  let ?fs = "parse_go_test2json stdout"
  have nm: "\<exists>ev \<in> set (test_events stdout). tf_test_name f = te_package ev @ ''/'' @ te_test ev" if "f \<in> set ?fs" for f
  proof -
    have "tf_test_name f \<in> set (map tf_test_name ?fs)" using that by simp
    also have "map tf_test_name ?fs = (let evs = filter (\<lambda>ev. te_test ev \<noteq> []) (test_events stdout)
       in map (\<lambda>(p, t). p @ ''/'' @ t)
          (filter (\<lambda>k. \<exists>ev \<in> set evs. event_key ev = k \<and> te_action ev = ''fail'') (first_seen (map event_key evs))))"
      using assms by (intro parse_failing_names) blast
    finally show ?thesis by (auto simp: Let_def event_key_def)
  qed
  have tgt: "rerun_target f = None \<or> (\<exists>ev \<in> set (test_events stdout). rerun_target f = Some ([], fst (split_first (CHR ''/'') (te_package ev))))"
    if "f \<in> set ?fs" for f
  proof -
    from nm [OF that] obtain ev where ev: "ev \<in> set (test_events stdout)" "tf_test_name f = te_package ev @ ''/'' @ te_test ev" by blast
    with assms have "CHR '':'' \<notin> set (tf_test_name f)" by auto
    then have "split_qualified_test_name (tf_test_name f) = ([], tf_test_name f)"
      by (simp add: split_qualified_test_name_def split_first_none)
    moreover have "parent_test (tf_test_name f) = fst (split_first (CHR ''/'') (te_package ev))"
      using split_first_slash_append by (simp add: ev(2) parent_test_def)
    ultimately show ?thesis using ev(1) by (auto simp: rerun_target_def Let_def)
  qed
  have "fst p = [] \<and> (\<exists>ev \<in> set (test_events stdout). snd p = fst (split_first (CHR ''/'') (te_package ev)))"
    if "p \<in> set (List.map_filter rerun_target ?fs)" for p
    using that tgt by (fastforce simp: List.map_filter_def)
  then show ?thesis
    by (auto simp: extract_rerun_targets_def Let_def filter_empty_conv)
qed


theorem rerun_targets_are_package_prefixes_witness:
  "snd (extract_rerun_targets (parse_go_test2json demo_stream)) = []"
  using rerun_targets_are_package_prefixes [of demo_stream] by (simp add: demo_events nul_def)

end
