(* ===== verification/Coverage.thy ===== *)
theory Coverage
  imports GoTests
begin

text \<open>
  The coverage index behind \<open>tests_covering\<close> (\<open>internal/tools/coverage_index.go\<close>,
  \<open>tests_covering.go\<close>).  The nested maps file, line, set of tests are one list of triples.
\<close>

section \<open>Reading a profile\<close>

text \<open>\<open>strconv.Atoi\<close>: an optional sign and decimal digits within \<open>int64\<close>.\<close>

definition go_atoi :: "string \<Rightarrow> int option" where
  "go_atoi s =
     (let (neg, ds) = (case s of c # r \<Rightarrow> if c = CHR ''-'' then (True, r) else if c = CHR ''+'' then (False, r) else (False, s)
                       | [] \<Rightarrow> (False, s));
          v = (if neg then - int (digits_val ds) else int (digits_val ds))
      in if ds = [] \<or> \<not> list_all is_digit ds then None
         else if - (2 ^ 63) \<le> v \<and> v < 2 ^ 63 then Some v else None)"

record coverage_record =
  cr_file :: string
  cr_package :: string
  cr_start :: int
  cr_end :: int

definition parse_line_part :: "string \<Rightarrow> int option" where
  "parse_line_part s =
     (case split_first (CHR ''.'') s of
        (_, None) \<Rightarrow> None
      | (a, Some _) \<Rightarrow>
          if a = [] then None
          else case go_atoi a of None \<Rightarrow> None | Some n \<Rightarrow> if n \<le> 0 then None else Some n)"

definition parse_coverage_record :: "string \<Rightarrow> coverage_record option" where
  "parse_coverage_record line =
     (case str_fields line of
        loc # _ # _ # _ \<Rightarrow>
          (case last_index loc (CHR '':'') of
             None \<Rightarrow> None
           | Some colon \<Rightarrow>
               if colon = 0 \<or> colon = length loc - 1 then None
               else
                 let file = take colon loc; spec = drop (colon + 1) loc
                 in case split_first (CHR '','') spec of
                      (_, None) \<Rightarrow> None
                    | (a, Some b) \<Rightarrow>
                        if a = [] then None
                        else
                          (case (parse_line_part a, parse_line_part b) of
                             (Some s, Some e) \<Rightarrow>
                               Some \<lparr>cr_file = file,
                                     cr_package = (case last_index file (CHR ''/'') of
                                        Some i \<Rightarrow> if 0 < i then take i file else [] | None \<Rightarrow> []),
                                     cr_start = s, cr_end = e\<rparr>
                           | _ \<Rightarrow> None))
      | _ \<Rightarrow> None)"

definition parse_coverage_profile :: "string \<Rightarrow> coverage_record list" where
  "parse_coverage_profile body =
     List.map_filter (\<lambda>line. let t = trim_space line
        in if t = [] then None else if has_prefix t ''mode:'' then None else parse_coverage_record t)
       (split_on newline body)"

section \<open>The index\<close>

text \<open>The whole path and what follows each slash that is not the last byte.\<close>

fun slash_suffixes :: "string \<Rightarrow> string list" where
  "slash_suffixes [] = []"
| "slash_suffixes (c # s) = (if c = CHR ''/'' \<and> s \<noteq> [] then s # slash_suffixes s else slash_suffixes s)"

definition file_keys_for :: "string \<Rightarrow> string list" where
  "file_keys_for p = p # slash_suffixes p"

type_synonym cov_index = "(string \<times> int \<times> string) list"

definition new_coverage_index :: cov_index where "new_coverage_index = []"

definition cov_empty :: "cov_index \<Rightarrow> bool" where "cov_empty c \<longleftrightarrow> c = []"

definition line_range :: "int \<Rightarrow> int \<Rightarrow> int list" where
  "line_range a b = [a..b]"

definition build_coverage_by_file :: "coverage_record list \<Rightarrow> (string \<Rightarrow> string list option) \<Rightarrow> cov_index" where
  "build_coverage_by_file recs tests_by_pkg =
     concat (map (\<lambda>rec.
       let tests = (case tests_by_pkg (cr_package rec) of None \<Rightarrow> [] | Some ts \<Rightarrow> ts)
       in if tests = [] then []
          else if cr_end rec < cr_start rec then []
          else concat (map (\<lambda>key. concat (map (\<lambda>lno. map (\<lambda>t. (key, lno, cr_package rec @ CHR '':'' # t)) tests)
                  (line_range (cr_start rec) (cr_end rec)))) (file_keys_for (cr_file rec)))) recs)"

text \<open>\<open>Ingest\<close> replaces the index by the profile's; an unreadable profile leaves it.\<close>

definition ingest :: "string option \<Rightarrow> (string \<Rightarrow> string list option) \<Rightarrow> cov_index \<Rightarrow> cov_index" where
  "ingest profile tests_by_pkg c =
     (case profile of None \<Rightarrow> c | Some raw \<Rightarrow> build_coverage_by_file (parse_coverage_profile raw) tests_by_pkg)"

definition tests_covering :: "cov_index \<Rightarrow> string \<Rightarrow> int \<Rightarrow> (string \<times> string) list" where
  "tests_covering c file line =
     map split_qualified_test_name
       (sort (remdups (map (\<lambda>(_, _, t). t) (filter (\<lambda>(f, lno, _). f = file \<and> (line \<le> 0 \<or> lno = line)) c))))"

text \<open>A query path addresses a record if it is the record's path or a tail of it after a slash.\<close>

definition addresses :: "string \<Rightarrow> string \<Rightarrow> bool" where
  "addresses file path \<longleftrightarrow> file = path \<or> (file \<noteq> [] \<and> suffix (CHR ''/'' # file) path)"

lemma slash_suffixes_set: "set (slash_suffixes p) = {s. s \<noteq> [] \<and> suffix (CHR ''/'' # s) p}"
proof (induction p)
  case (Cons c s)
  then show ?case by (auto simp: suffix_Cons)
qed simp

lemma file_keys_addresses: "f \<in> set (file_keys_for p) \<longleftrightarrow> addresses f p"
  by (auto simp: file_keys_for_def slash_suffixes_set addresses_def)

lemma build_coverage_set:
  "(f, lno, t) \<in> set (build_coverage_by_file recs tests_by_pkg) \<longleftrightarrow>
     (\<exists>rec \<in> set recs. \<exists>ts name. tests_by_pkg (cr_package rec) = Some ts \<and> name \<in> set ts
        \<and> t = cr_package rec @ CHR '':'' # name \<and> addresses f (cr_file rec) \<and> cr_start rec \<le> lno \<and> lno \<le> cr_end rec)"
  (is "?L \<longleftrightarrow> ?R")
proof
  assume ?L
  then obtain rec where rec: "rec \<in> set recs" "(f, lno, t) \<in> set (let tests = (case tests_by_pkg (cr_package rec) of None \<Rightarrow> [] | Some ts \<Rightarrow> ts)
       in if tests = [] then []
          else if cr_end rec < cr_start rec then []
          else concat (map (\<lambda>key. concat (map (\<lambda>lno. map (\<lambda>t. (key, lno, cr_package rec @ CHR '':'' # t)) tests)
                  (line_range (cr_start rec) (cr_end rec)))) (file_keys_for (cr_file rec))))"
    by (auto simp: build_coverage_by_file_def)
  then obtain ts where "tests_by_pkg (cr_package rec) = Some ts" by (cases "tests_by_pkg (cr_package rec)") (auto simp: Let_def)
  with rec show ?R
    by (intro bexI [of _ rec]) (auto simp: Let_def line_range_def file_keys_addresses split: if_splits)
next
  assume ?R
  then obtain rec ts name where r: "rec \<in> set recs" "tests_by_pkg (cr_package rec) = Some ts" "name \<in> set ts"
    "t = cr_package rec @ CHR '':'' # name" "addresses f (cr_file rec)" "cr_start rec \<le> lno" "lno \<le> cr_end rec" by blast
  then have "ts \<noteq> []" "\<not> cr_end rec < cr_start rec" by auto
  with r show ?L
    unfolding build_coverage_by_file_def
    by (auto simp: Let_def line_range_def file_keys_addresses intro!: bexI [of _ rec] bexI [of _ f] bexI [of _ lno])
qed

text \<open>
  C31: \<open>tests_covering\<close> answers exactly from the last profile: a test of a package is listed for a file and
  line iff some record of the profile in that package spans the line, the queried path is the
  record's path or a tail of it, and the test ran in that package in the same run.
\<close>

theorem tests_covering_exact:
  assumes "\<forall>rec \<in> set (parse_coverage_profile raw). CHR '':'' \<notin> set (cr_package rec)"
  shows "(pkg, name) \<in> set (tests_covering (ingest (Some raw) tests_by_pkg old) file line) \<longleftrightarrow>
    (\<exists>rec \<in> set (parse_coverage_profile raw). \<exists>ts. cr_package rec = pkg \<and> tests_by_pkg pkg = Some ts \<and> name \<in> set ts
       \<and> addresses file (cr_file rec) \<and> cr_start rec \<le> cr_end rec
       \<and> (line \<le> 0 \<or> (cr_start rec \<le> line \<and> line \<le> cr_end rec)))"
proof -
  let ?c = "build_coverage_by_file (parse_coverage_profile raw) tests_by_pkg"
  have "(pkg, name) \<in> set (tests_covering ?c file line) \<longleftrightarrow>
      (\<exists>lno t. (file, lno, t) \<in> set ?c \<and> (line \<le> 0 \<or> lno = line) \<and> split_qualified_test_name t = (pkg, name))"
    by (force simp: tests_covering_def image_iff)
  also have "\<dots> \<longleftrightarrow> (\<exists>lno. \<exists>rec \<in> set (parse_coverage_profile raw). \<exists>ts nm. tests_by_pkg (cr_package rec) = Some ts \<and> nm \<in> set ts
        \<and> addresses file (cr_file rec) \<and> cr_start rec \<le> lno \<and> lno \<le> cr_end rec \<and> (line \<le> 0 \<or> lno = line)
        \<and> split_qualified_test_name (cr_package rec @ CHR '':'' # nm) = (pkg, name))"
    unfolding build_coverage_set by blast
  also have "\<dots> \<longleftrightarrow> (\<exists>lno. \<exists>rec \<in> set (parse_coverage_profile raw). \<exists>ts. tests_by_pkg (cr_package rec) = Some ts \<and> name \<in> set ts
        \<and> addresses file (cr_file rec) \<and> cr_start rec \<le> lno \<and> lno \<le> cr_end rec \<and> (line \<le> 0 \<or> lno = line)
        \<and> cr_package rec = pkg)"
    using assms by (fastforce simp: split_qualified_test_name_def split_first_append)
  also have "\<dots> \<longleftrightarrow> (\<exists>rec \<in> set (parse_coverage_profile raw). \<exists>ts. cr_package rec = pkg \<and> tests_by_pkg pkg = Some ts \<and> name \<in> set ts
       \<and> addresses file (cr_file rec) \<and> cr_start rec \<le> cr_end rec
       \<and> (line \<le> 0 \<or> (cr_start rec \<le> line \<and> line \<le> cr_end rec)))"
    by (cases "line \<le> 0") (fastforce intro: order_trans)+
  finally show ?thesis by (simp add: ingest_def)
qed

definition demo_profile :: string where
  "demo_profile = ''mode: set'' @ [newline] @ ''m.io/p/a.go:3.2,5.10 1 0'' @ [newline]"

lemma demo_profile_parsed:
  "parse_coverage_profile demo_profile = [\<lparr>cr_file = ''m.io/p/a.go'', cr_package = ''m.io/p'', cr_start = 3, cr_end = 5\<rparr>]"
  by code_simp

theorem tests_covering_exact_witness:
  "(''m.io/p'', ''TestA'') \<in> set (tests_covering (ingest (Some demo_profile) [''m.io/p'' \<mapsto> [''TestA'']] []) ''p/a.go'' 4)"
  by (subst tests_covering_exact)
     (auto simp: demo_profile_parsed addresses_def suffix_def)

lemma last_index_Cons: "last_index (c # s) k = (case last_index s k of Some i \<Rightarrow> Some (Suc i) | None \<Rightarrow> if c = k then Some 0 else None)"
  by simp

text \<open>
  the execution count of a record is not looked at.  The last field of a profile line says how
  often the block ran; changing it never changes the parsed record, so blocks that were never
  executed are reported as covered.
\<close>

theorem coverage_count_ignored:
  assumes "str_fields a = [loc, stmts, ''0'']" "str_fields b = [loc, stmts, n]"
  shows "parse_coverage_record a = parse_coverage_record b"
  using assms by (simp add: parse_coverage_record_def)

theorem coverage_count_ignored_witness:
  "parse_coverage_record ''m.io/p/a.go:3.2,5.10 1 0'' = parse_coverage_record ''m.io/p/a.go:3.2,5.10 1 7''"
  by (rule coverage_count_ignored) code_simp+

section \<open>The tool\<close>

definition max_tests_covering :: nat where "max_tests_covering = 200"

definition cap_refs :: "(string \<times> string) list \<Rightarrow> nat \<Rightarrow> (string \<times> string) list \<times> nat" where
  "cap_refs refs n = (if length refs \<le> n then (refs, 0) else (take n refs, length refs - n))"

definition render_tests_covering :: "string \<Rightarrow> int \<Rightarrow> (string \<times> string) list \<Rightarrow> string" where
  "render_tests_covering file line refs =
     (let (shown, truncated) = cap_refs refs max_tests_covering;
          pkgs = sort (first_seen (map fst shown))
      in dec_nat (length refs) @ '' test(s) cover '' @ file @ (if 0 < line then '':'' @ dec_int line else []) @ '':'' @ [newline, newline]
         @ concat (map (\<lambda>pkg. (if pkg = [] then ''(unknown package)'' else pkg) @ '':'' @ [newline]
              @ concat (map (\<lambda>(_, name). ''  '' @ name @ [newline]) (filter (\<lambda>(p, _). p = pkg) shown))) pkgs)
         @ (if 0 < truncated then newline # ''... ('' @ dec_nat truncated @ '' more truncated)'' @ [newline] else []))"

definition handle_tests_covering :: "cov_index option \<Rightarrow> args \<Rightarrow> tool_result" where
  "handle_tests_covering c a =
     (case c of
        None \<Rightarrow> ErrorResult ''tests_covering: coverage index not configured''
      | Some ix \<Rightarrow>
          if cov_empty ix then TextResult (''no coverage data yet '' @ em_dash @ '' run `run_tests` first'')
          else
            let file = arg_str0 a ''file'';
                line = (case arg_int a ''line'' of Some v \<Rightarrow> if 0 < v then v else 0 | None \<Rightarrow> 0)
            in if trim_space file = [] then ErrorResult ''tests_covering: file is required''
               else
                 let refs = tests_covering ix file line
                 in if refs = [] then
                      TextResult (''no coverage found for '' @ file @ (if 0 < line then '':'' @ dec_int line else []))
                    else TextResult (render_tests_covering file line refs))"

end
