(* ===== verification/TestTools.thy ===== *)
theory TestTools
  imports Coverage WorkspaceSet Health "HOL-Library.Multiset"
begin

text \<open>
  The verification tools: language dispatch (\<open>internal/tools/dispatch.go\<close>), the session's last test
  result (\<open>test_result_store.go\<close>) and the handlers \<open>run_tests\<close>, \<open>last_test_failures\<close>,
  \<open>run_failing_tests\<close>, \<open>run_lint\<close>, \<open>run_typecheck\<close> and \<open>run_script\<close>.  The commands run in an argument
  \<open>run\<close>, which gives the outcome of an argument vector in a directory under a timeout.
\<close>

section \<open>Dispatch by language\<close>

definition format_language_list :: "detector list \<Rightarrow> string" where
  "format_language_list ds = comma_sep (sort (map language ds))"

definition language_hint :: "args \<Rightarrow> string" where
  "language_hint a = trim_space (to_lower (arg_str0 a ''language''))"

definition dispatch_by_language :: "fs \<Rightarrow> workspace \<Rightarrow> args \<Rightarrow> string + detector" where
  "dispatch_by_language f w a =
     (let ds = detect_all f (ws_root w); hint = language_hint a
      in if ds = [] then Inl ''no supported project detected in workspace root''
         else if hint = [] then
           (if length ds = 1 then Inr (hd ds)
            else Inl (''polyglot workspace: '' @ dec_nat (length ds) @ '' project types detected ('' @ format_language_list ds
                   @ '') '' @ em_dash @ '' pass `language` to pick one''))
         else case find (\<lambda>d. language d = hint) ds of
                Some d \<Rightarrow> Inr d
              | None \<Rightarrow> Inl (''language '' @ quote hint @ '' not detected in workspace; detected: '' @ format_language_list ds))"

lemma detect_all_distinct: "distinct (map language (detect_all f r))"
  by (simp add: detect_all_def new_node_detector_def)

lemma find_first: "find P xs = Some x \<Longrightarrow> x \<in> set xs \<and> P x"
  by (induction xs) (auto split: if_splits)

text \<open>
  a project is never guessed.  Dispatch returns a detector iff it is one of the detected projects
  and is either the only one, with no language named, or the one whose language is named; in every
  other case the tool gets an error.
\<close>

theorem dispatch_exact:
  "dispatch_by_language f w a = Inr d \<longleftrightarrow>
     d \<in> set (detect_all f (ws_root w)) \<and>
     (if language_hint a = [] then length (detect_all f (ws_root w)) = 1 else language d = language_hint a)"
proof -
  define ds where "ds = detect_all f (ws_root w)"
  define h where "h = language_hint a"
  have one: "d \<in> set ds \<longleftrightarrow> hd ds = d" if "length ds = 1"
    using that by (cases ds) auto
  have fnd: "find (\<lambda>d. language d = h) ds = Some d \<longleftrightarrow> d \<in> set ds \<and> language d = h"
  proof
    assume d: "d \<in> set ds \<and> language d = h"
    then obtain d' where d': "find (\<lambda>d. language d = h) ds = Some d'"
      by (cases "find (\<lambda>d. language d = h) ds") (auto simp: find_None_iff)
    moreover have "distinct (map language ds)" unfolding ds_def by (rule detect_all_distinct)
    ultimately show "find (\<lambda>d. language d = h) ds = Some d"
      using find_first [OF d'] d by (metis distinct_map inj_onD)
  qed (auto dest: find_first)
  have nil: "d \<notin> set ds" if "ds = []" using that by simp
  have "dispatch_by_language f w a = Inr d \<longleftrightarrow> ds \<noteq> [] \<and>
      (if h = [] then length ds = 1 \<and> hd ds = d else find (\<lambda>d. language d = h) ds = Some d)"
    unfolding dispatch_by_language_def Let_def ds_def [symmetric] h_def [symmetric] by (simp split: option.splits)
  then show ?thesis
    unfolding ds_def [symmetric] h_def [symmetric] using one fnd nil by (cases "h = []") auto
qed

section \<open>The session\<close>

record test_result =
  tr_language :: string
  tr_failures :: "test_failure list"
  tr_passed :: int
  tr_at :: int
  tr_supported :: bool

text \<open>\<open>Deps\<close> as the verification tools use it: an absent component is \<open>None\<close>, an empty slot is \<open>Some None\<close>.\<close>

record verify_session =
  vs_results :: "test_result option option"
  vs_cov :: "cov_index option"
  vs_health :: "health option"

definition store_set :: "test_result \<Rightarrow> verify_session \<Rightarrow> verify_session" where
  "store_set r s = s\<lparr>vs_results := Some (Some r)\<rparr>"

definition store_get :: "verify_session \<Rightarrow> test_result option" where
  "store_get s = (case vs_results s of None \<Rightarrow> None | Some slot \<Rightarrow> slot)"

definition map_health :: "(health \<Rightarrow> health) \<Rightarrow> verify_session \<Rightarrow> verify_session" where
  "map_health g s = s\<lparr>vs_health := map_option g (vs_health s)\<rparr>"

lemma session_fields [simp]:
  "vs_results (store_set r s) = Some (Some r)" "vs_cov (store_set r s) = vs_cov s" "vs_health (store_set r s) = vs_health s"
  "vs_results (map_health g s) = vs_results s" "vs_cov (map_health g s) = vs_cov s"
  "vs_health (map_health g s) = map_option g (vs_health s)"
  by (simp_all add: store_set_def map_health_def)

section \<open>run_tests\<close>

definition default_run_tests_timeout :: int where "default_run_tests_timeout = 300"
definition max_run_tests_timeout :: int where "max_run_tests_timeout = 1800"

definition parse_run_tests_timeout :: "args \<Rightarrow> int" where
  "parse_run_tests_timeout a = clamp_arg default_run_tests_timeout max_run_tests_timeout a ''timeout''"

definition tests_passed_count :: "detector \<Rightarrow> string \<Rightarrow> int" where
  "tests_passed_count d out = (if language d = ''go'' then int (count_go_passes out) else -1)"

definition supports_structured_failures :: "detector \<Rightarrow> bool" where
  "supports_structured_failures d \<longleftrightarrow> language d = ''go''"

definition test_result_of :: "int \<Rightarrow> detector \<Rightarrow> exec_result \<Rightarrow> test_result" where
  "test_result_of now d res =
     (let fs = parse_test_failures d (r_stdout res) (r_stderr res)
      in \<lparr>tr_language = language d, tr_failures = fs, tr_passed = tests_passed_count d (r_stdout res), tr_at = now,
          tr_supported = (fs \<noteq> [] \<or> supports_structured_failures d)\<rparr>)"

definition record_test_result :: "int \<Rightarrow> detector \<Rightarrow> exec_result \<Rightarrow> verify_session \<Rightarrow> verify_session" where
  "record_test_result now d res s =
     (case vs_results s of None \<Rightarrow> s | Some _ \<Rightarrow> store_set (test_result_of now d res) s)"

text \<open>The name \<open>os.CreateTemp\<close> gives, if it succeeds, is an argument.\<close>

definition augment_test_cmd_for_coverage :: "string option \<Rightarrow> detector \<Rightarrow> verify_session \<Rightarrow> string list \<times> string" where
  "augment_test_cmd_for_coverage tmp d s =
     (let base = test_cmd d
      in if language d \<noteq> ''go'' then (base, [])
         else if vs_cov s = None then (base, [])
         else case tmp of
                None \<Rightarrow> (base, [])
              | Some path \<Rightarrow> (take 2 base @ [''-coverprofile='' @ path] @ drop 2 base, path))"

text \<open>\<open>profile\<close> is what the temporary file holds after the run; \<open>None\<close> if it is gone.\<close>

definition ingest_coverage :: "string option \<Rightarrow> detector \<Rightarrow> exec_result \<Rightarrow> string \<Rightarrow> verify_session \<Rightarrow> verify_session" where
  "ingest_coverage profile d res path s =
     (case vs_cov s of
        None \<Rightarrow> s
      | Some c \<Rightarrow>
          if language d \<noteq> ''go'' \<or> path = [] then s
          else if profile = None then s
          else
            let pkgs = remdups (map te_package (test_events (r_stdout res)))
            in if list_all (\<lambda>p. tests_by_package (r_stdout res) p = None) pkgs then s
               else s\<lparr>vs_cov := Some (ingest profile (tests_by_package (r_stdout res)) c)\<rparr>)"

record test_env =
  en_now :: int
  en_tmp :: "string option"
  en_profile :: "string option"

definition handle_run_tests ::
  "(string \<Rightarrow> bool) \<Rightarrow> (string list \<Rightarrow> string \<Rightarrow> int \<Rightarrow> proc) \<Rightarrow> test_env \<Rightarrow> fs \<Rightarrow> ws_deps \<Rightarrow> args \<Rightarrow> verify_session
     \<Rightarrow> tool_result \<times> verify_session" where
  "handle_run_tests on_path run env f d a s =
     (case resolve_workspace d a of
        Inl e \<Rightarrow> (ErrorResult e, s)
      | Inr w \<Rightarrow>
          (case dispatch_by_language f w a of
             Inl e \<Rightarrow> (ErrorResult e, s)
           | Inr det \<Rightarrow>
               (let t = parse_run_tests_timeout a;
                    (cmd, path) = augment_test_cmd_for_coverage (en_tmp env) det s
                in case run_verify_cmd on_path run cmd (ws_root w) t of
                     Inl e \<Rightarrow> (ErrorResult (''run_tests: '' @ e), s)
                   | Inr res \<Rightarrow>
                       (let s1 = ingest_coverage (en_profile env) det res path (record_test_result (en_now env) det res s);
                            fs = parse_test_failures det (r_stdout res) (r_stderr res);
                            s2 = map_health (observe_test_result (int (length fs))) s1;
                            s3 = (if r_exit res = 0 then map_health (observe_green (en_now env)) s2 else s2)
                        in (TextResult (format_verify_result res t), s3)))))"

section \<open>last_test_failures\<close>

definition parse_last_failures_limit :: "args \<Rightarrow> int" where
  "parse_last_failures_limit a = clamp_arg 50 500 a ''limit''"

definition format_test_count :: "int \<Rightarrow> string" where
  "format_test_count passed = (if passed < 0 then ''passed'' else dec_int passed @ '' tests passed'')"

text \<open>\<open>humanizeSince\<close> of a duration in nanoseconds.\<close>

definition humanize_since :: "int \<Rightarrow> string" where
  "humanize_since d =
     (let sec = d div 1000000000; mins = sec div 60; h = mins div 60
      in if d < 1000000000 then ''just now''
         else if sec < 60 then dec_int sec @ ''s''
         else if mins < 60 then dec_int mins @ ''m'' @ dec_int (sec mod 60) @ ''s''
         else dec_int h @ ''h'' @ dec_int (mins mod 60) @ ''m'')"

definition failure_block :: "nat \<Rightarrow> test_failure \<Rightarrow> string" where
  "failure_block i x =
     dec_nat i @ ''. '' @ tf_test_name x @ [newline]
     @ (if tf_file x \<noteq> [] \<and> 0 < tf_line x then ''   '' @ tf_file x @ '':'' @ dec_int (tf_line x) @ [newline] else [])
     @ (if tf_message x \<noteq> [] then ''   '' @ tf_message x @ [newline] else [])
     @ (if tf_diff x \<noteq> [] then ''   --- diff ---'' @ newline
          # concat (map (\<lambda>l. ''   '' @ l @ [newline]) (split_on newline (tf_diff x))) else [])
     @ [newline]"

definition render_failure_list :: "test_result \<Rightarrow> nat \<Rightarrow> string \<Rightarrow> string" where
  "render_failure_list r limit age =
     (let fs = tr_failures r; shown = take limit fs
      in dec_nat (length fs) @ '' test failure(s) from last run_tests call ('' @ tr_language r @ '', '' @ age @ '' ago):''
         @ [newline, newline]
         @ concat (map (\<lambda>(i, x). failure_block (Suc i) x) (enumerate 0 shown))
         @ (if limit < length fs
            then ''('' @ dec_nat (length fs - length shown) @ '' more entries truncated; pass a larger limit to see them)'' @ [newline]
            else []))"

definition render_last_failures :: "int \<Rightarrow> test_result \<Rightarrow> nat \<Rightarrow> string" where
  "render_last_failures now r limit =
     (let age = humanize_since (now - tr_at r)
      in if \<not> tr_supported r then
           ''no structured failures available for '' @ tr_language r @ '' (last run_tests '' @ age @ '' ago)''
         else if tr_failures r = [] then
           ''last run_tests had no failures ('' @ format_test_count (tr_passed r) @ '', '' @ tr_language r @ '', '' @ age @ '' ago)''
         else render_failure_list r limit age)"

definition msg_no_run_yet :: string where "msg_no_run_yet = ''no run_tests call yet in this session''"

definition handle_last_test_failures :: "int \<Rightarrow> args \<Rightarrow> verify_session \<Rightarrow> tool_result" where
  "handle_last_test_failures now a s =
     (if vs_results s = None then ErrorResult ''last_test_failures: store not configured''
      else case store_get s of
             None \<Rightarrow> TextResult msg_no_run_yet
           | Some r \<Rightarrow> TextResult (render_last_failures now r (nat (parse_last_failures_limit a))))"

section \<open>run_failing_tests\<close>

definition parse_rerun_limit :: "args \<Rightarrow> int" where
  "parse_rerun_limit a = clamp_arg 50 200 a ''limit''"

definition nothing_to_rerun :: "test_result \<Rightarrow> string" where
  "nothing_to_rerun r = ''last run_tests had no failures '' @ em_dash @ '' nothing to rerun ('' @ tr_language r @ '')''"

definition handle_run_failing_tests ::
  "(string \<Rightarrow> bool) \<Rightarrow> (string list \<Rightarrow> string \<Rightarrow> int \<Rightarrow> proc) \<Rightarrow> int \<Rightarrow> fs \<Rightarrow> ws_deps \<Rightarrow> args \<Rightarrow> verify_session
     \<Rightarrow> tool_result \<times> verify_session" where
  "handle_run_failing_tests on_path run now f d a s =
     (if vs_results s = None then (ErrorResult ''run_failing_tests: store not configured'', s)
      else case store_get s of
        None \<Rightarrow> (TextResult msg_no_run_yet, s)
      | Some stored \<Rightarrow>
          (case resolve_workspace d a of
             Inl e \<Rightarrow> (ErrorResult e, s)
           | Inr w \<Rightarrow>
               (case dispatch_by_language f w a of
                  Inl e \<Rightarrow> (ErrorResult e, s)
                | Inr det \<Rightarrow>
                    if \<not> supports_structured_failures det then
                      (TextResult (''run_failing_tests: '' @ language det @ '' detector has no structured failures; rerun run_tests manually''), s)
                    else if tr_failures stored = [] then (TextResult (nothing_to_rerun stored), s)
                    else
                      let t = parse_run_tests_timeout a;
                          argv = compose_go_rerun_argv (tr_failures stored) (nat (parse_rerun_limit a))
                      in if argv = [] then (TextResult (nothing_to_rerun stored), s)
                         else case run_verify_cmd on_path run argv (ws_root w) t of
                                Inl e \<Rightarrow> (ErrorResult (''run_failing_tests: '' @ e), s)
                              | Inr res \<Rightarrow> (TextResult (format_verify_result res t), record_test_result now det res s))))"

section \<open>run_lint and run_typecheck\<close>

definition parse_lint_timeout :: "args \<Rightarrow> int" where
  "parse_lint_timeout a = clamp_arg 120 600 a ''timeout''"

definition format_findings :: "lint_finding list \<Rightarrow> string" where
  "format_findings xs =
     concat (map (\<lambda>x. lf_file x @ '':'' @ dec_int (lf_line x) @ '':'' @ dec_int (lf_column x) @ '':'' @ lf_rule x
       @ '': '' @ lf_message x @ [newline]) xs) @ dec_nat (length xs) @ '' findings'' @ [newline]"

fun lint_err_text :: "lint_err \<Rightarrow> string" where
  "lint_err_text LinterMissing = ''linter binary not found on PATH''"
| "lint_err_text (LintFailed e) = e"

definition lint_error_result :: "detector \<Rightarrow> lint_finding list \<Rightarrow> lint_err option \<Rightarrow> tool_result option" where
  "lint_error_result d xs err =
     (case err of
        None \<Rightarrow> None
      | Some LinterMissing \<Rightarrow>
          Some (ErrorResult (''linter not installed: '' @ (case lint_cmd d of [] \<Rightarrow> ''<unknown>'' | b # _ \<Rightarrow> b)))
      | Some e \<Rightarrow> if xs = [] then Some (ErrorResult (''run_lint: '' @ lint_err_text e)) else None)"

definition handle_run_lint ::
  "(string \<Rightarrow> bool) \<Rightarrow> (string list \<Rightarrow> string \<Rightarrow> int \<Rightarrow> proc) \<Rightarrow> int \<Rightarrow> fs \<Rightarrow> ws_deps \<Rightarrow> args \<Rightarrow> verify_session
     \<Rightarrow> tool_result \<times> verify_session" where
  "handle_run_lint on_path run now f d a s =
     (case resolve_workspace d a of
        Inl e \<Rightarrow> (ErrorResult e, s)
      | Inr w \<Rightarrow>
          (case dispatch_by_language f w a of
             Inl e \<Rightarrow> (ErrorResult e, s)
           | Inr det \<Rightarrow>
               (let (xs, err) = lint_with on_path run (Some det) (ws_root w) (parse_lint_timeout a)
                in case lint_error_result det xs err of
                     Some e \<Rightarrow> (e, s)
                   | None \<Rightarrow>
                       (TextResult (format_findings xs
                          @ (case err of None \<Rightarrow> [] | Some e \<Rightarrow> ''(lint incomplete: '' @ lint_err_text e @ '')'' @ [newline])),
                        if err = None \<and> xs = [] then map_health (observe_green now) s else s))))"

definition parse_typecheck_timeout :: "args \<Rightarrow> int" where
  "parse_typecheck_timeout a = clamp_arg 120 600 a ''timeout''"

definition handle_run_typecheck ::
  "(string \<Rightarrow> bool) \<Rightarrow> (string list \<Rightarrow> string \<Rightarrow> int \<Rightarrow> proc) \<Rightarrow> int \<Rightarrow> fs \<Rightarrow> ws_deps \<Rightarrow> args \<Rightarrow> verify_session
     \<Rightarrow> tool_result \<times> verify_session" where
  "handle_run_typecheck on_path run now f d a s =
     (case resolve_workspace d a of
        Inl e \<Rightarrow> (ErrorResult e, s)
      | Inr w \<Rightarrow>
          (case dispatch_by_language f w a of
             Inl e \<Rightarrow> (ErrorResult e, s)
           | Inr det \<Rightarrow>
               (let t = parse_typecheck_timeout a
                in case run_verify_cmd on_path run (typecheck_cmd det) (ws_root w) t of
                     Inl e \<Rightarrow> (ErrorResult (''run_typecheck: '' @ e), s)
                   | Inr res \<Rightarrow>
                       (TextResult (format_verify_result res t),
                        if r_exit res = 0 then map_health (observe_green now) s else s))))"

section \<open>run_script\<close>

definition script_name_arg :: "args \<Rightarrow> string" where
  "script_name_arg a = trim_space (arg_str0 a ''name'')"

definition parse_run_script_timeout :: "args \<Rightarrow> int" where
  "parse_run_script_timeout a = clamp_arg 300 1800 a ''timeout''"

text \<open>A \<open>map[string]string\<close>: null leaves the empty string, other values are a decoding error.\<close>

fun script_entry :: "string \<times> jval \<Rightarrow> (string \<times> string) option" where
  "script_entry (k, JStr v) = Some (k, v)"
| "script_entry (k, JNull) = Some (k, [])"
| "script_entry _ = None"

text \<open>The wording of the decoder's error is the argument \<open>jerr\<close>.\<close>

definition read_package_scripts :: "(string \<Rightarrow> string) \<Rightarrow> fs \<Rightarrow> string \<Rightarrow> string + (string \<times> string) list" where
  "read_package_scripts jerr f r =
     (let file = fp_join r ''package.json''
      in case k_read_file f file of
           Inl e \<Rightarrow> Inl (if e = ENOENT then ''package.json not found in workspace root''
                         else ''reading package.json: '' @ path_error ''open'' file e)
         | Inr data \<Rightarrow>
             (case package_scripts data of
                None \<Rightarrow> Inl (''parsing package.json: '' @ jerr data)
              | Some ms \<Rightarrow>
                  (case those_opt (map script_entry ms) of
                     None \<Rightarrow> Inl (''parsing package.json: '' @ jerr data)
                   | Some kvs \<Rightarrow> Inr kvs)))"

text \<open>The hand-written insertion sort: the inner loop moves \<open>s[j]\<close> down while its left neighbour is larger.\<close>

fun sink_down :: "nat \<Rightarrow> string list \<Rightarrow> string list" where
  "sink_down 0 s = s"
| "sink_down (Suc j) s =
     (if s ! Suc j < s ! j then sink_down j (s[j := s ! Suc j, Suc j := s ! j]) else s)"

definition sort_strings_in_place :: "string list \<Rightarrow> string list" where
  "sort_strings_in_place s = fold sink_down [1..<length s] s"

definition join_script_names :: "(string \<times> string) list \<Rightarrow> string" where
  "join_script_names kvs =
     (if kvs = [] then ''(none defined)'' else comma_sep (sort_strings_in_place (remdups (map fst kvs))))"

definition handle_run_script ::
  "(string \<Rightarrow> string) \<Rightarrow> (string \<Rightarrow> bool) \<Rightarrow> (string list \<Rightarrow> string \<Rightarrow> int \<Rightarrow> proc) \<Rightarrow> fs \<Rightarrow> ws_deps \<Rightarrow> args \<Rightarrow> tool_result" where
  "handle_run_script jerr on_path run f d a =
     (case resolve_workspace d a of
        Inl e \<Rightarrow> ErrorResult e
      | Inr w \<Rightarrow>
          (case dispatch_by_language f w a of
             Inl e \<Rightarrow> ErrorResult e
           | Inr det \<Rightarrow>
               if script_runner det = [] then
                 ErrorResult (''run_script: only Node projects support scripts today (detected: '' @ language det @ '')'')
               else
                 let name = script_name_arg a; t = parse_run_script_timeout a
                 in if name = [] then ErrorResult ''run_script: name is required''
                    else case read_package_scripts jerr f (ws_root w) of
                           Inl e \<Rightarrow> ErrorResult (''run_script: '' @ e)
                         | Inr kvs \<Rightarrow>
                             if name \<notin> fst ` set kvs then
                               ErrorResult (''run_script: no script named '' @ quote name @ '' in package.json; available: '' @ join_script_names kvs)
                             else (case run_verify_cmd on_path run (script_runner det @ [name]) (ws_root w) t of
                                     Inl e \<Rightarrow> ErrorResult (''run_script: '' @ e)
                                   | Inr res \<Rightarrow> TextResult (format_verify_result res t))))"

section \<open>What the handlers guarantee\<close>

lemma sink_down_insert:
  "length xs = j \<Longrightarrow> sorted xs \<Longrightarrow> sink_down j (xs @ x # ys) = sort (xs @ [x]) @ ys"
proof (induction j arbitrary: xs x ys)
  case (Suc j)
  then obtain l xs' where xs: "xs = xs' @ [l]" "length xs' = j" by (cases xs rule: rev_cases) auto
  then have srt: "sorted xs'" "\<forall>y \<in> set xs'. y \<le> l" using Suc.prems(2) by (auto simp: sorted_append)
  have at: "(xs @ x # ys) ! Suc j = x" "(xs @ x # ys) ! j = l" using xs by (auto simp: nth_append)
  have upd: "(xs @ x # ys)[j := x, Suc j := l] = xs' @ x # l # ys" using xs by (simp add: list_update_append)
  show ?case
  proof (cases "x < l")
    case True
    have "sorted (sort (xs' @ [x]) @ [l])" using srt True by (auto simp: sorted_append)
    then have "sort (xs @ [x]) = sort (xs' @ [x]) @ [l]" unfolding xs by (intro properties_for_sort) simp_all
    with True Suc.IH [OF xs(2) srt(1), of x "l # ys"] at upd show ?thesis by simp
  next
    case False
    then have "sorted (xs @ [x])" using xs srt by (auto simp: sorted_append)
    with False at show ?thesis by (simp add: sorted_sort_id)
  qed
qed simp

text \<open>
  the hand-written insertion sort of the script names returns the sorted list, with duplicates kept.
\<close>

theorem sort_strings_in_place_sorts: "sort_strings_in_place s = sort s"
proof -
  have "k < length s \<longrightarrow> fold sink_down [1..<Suc k] s = sort (take (Suc k) s) @ drop (Suc k) s" for k
  proof (induction k)
    case 0
    show ?case by (cases s) simp_all
  next
    case (Suc k)
    show ?case
    proof
      assume k: "Suc k < length s"
      then have len: "length (sort (take (Suc k) s)) = Suc k" by simp
      have d: "drop (Suc k) s = s ! Suc k # drop (Suc (Suc k)) s" using k by (rule Cons_nth_drop_Suc [symmetric])
      have "fold sink_down [1..<Suc (Suc k)] s = sink_down (Suc k) (sort (take (Suc k) s) @ s ! Suc k # drop (Suc (Suc k)) s)"
        using Suc k d by simp
      also have "\<dots> = sort (sort (take (Suc k) s) @ [s ! Suc k]) @ drop (Suc (Suc k)) s"
        by (rule sink_down_insert [OF len]) simp
      also have "sort (sort (take (Suc k) s) @ [s ! Suc k]) = sort (take (Suc (Suc k)) s)"
        using k by (intro properties_for_sort) (simp_all add: take_Suc_conv_app_nth)
      finally show "fold sink_down [1..<Suc (Suc k)] s = sort (take (Suc (Suc k)) s) @ drop (Suc (Suc k)) s" .
    qed
  qed
  from this [of "length s - 1"] show ?thesis
    by (cases s) (simp_all add: sort_strings_in_place_def)
qed

text \<open>Two process environments that agree on what a handler may start.\<close>

definition same_runs :: "string \<Rightarrow> int \<Rightarrow> (string list \<Rightarrow> string \<Rightarrow> int \<Rightarrow> proc) \<Rightarrow> (string list \<Rightarrow> string \<Rightarrow> int \<Rightarrow> proc) \<Rightarrow> bool" where
  "same_runs r mx run run' \<longleftrightarrow> (\<forall>cmd t. 1 \<le> t \<and> t \<le> mx \<longrightarrow> run cmd r t = run' cmd r t)"

lemma same_runs_verify:
  "same_runs r mx run run' \<Longrightarrow> 1 \<le> t \<Longrightarrow> t \<le> mx \<Longrightarrow> run_verify_cmd on_path run cmd r t = run_verify_cmd on_path run' cmd r t"
  by (cases cmd) (simp_all add: run_verify_cmd_def same_runs_def)

lemma same_runs_lint:
  "same_runs r mx run run' \<Longrightarrow> 1 \<le> t \<Longrightarrow> t \<le> mx \<Longrightarrow> lint_with on_path run d r t = lint_with on_path run' d r t"
  by (auto simp: lint_with_def same_runs_def Let_def split: option.splits list.splits)

lemma same_runs_mono: "same_runs r mx run run' \<Longrightarrow> m \<le> mx \<Longrightarrow> same_runs r m run run'"
  by (auto simp: same_runs_def)

lemma timeout_bounds:
  "1 \<le> parse_run_tests_timeout a" "parse_run_tests_timeout a \<le> 1800"
  "1 \<le> parse_lint_timeout a" "parse_lint_timeout a \<le> 1800"
  "1 \<le> parse_typecheck_timeout a" "parse_typecheck_timeout a \<le> 1800"
  "1 \<le> parse_run_script_timeout a" "parse_run_script_timeout a \<le> 1800"
  using clamp_arg_bounds [of 300 1800 a "''timeout''"] clamp_arg_bounds [of 120 600 a "''timeout''"]
  by (auto simp: parse_run_tests_timeout_def default_run_tests_timeout_def max_run_tests_timeout_def
      parse_lint_timeout_def parse_typecheck_timeout_def parse_run_script_timeout_def)

text \<open>
  no verification tool starts a process outside the root of the workspace the request selects, or
  with a timeout outside one second to half an hour, whatever the arguments: two environments that
  agree on such runs give the same result and the same session.
\<close>

theorem verify_runs_bounded:
  assumes "resolve_workspace d a = Inr w" "same_runs (ws_root w) 1800 run run'"
  shows "handle_run_tests on_path run env f d a s = handle_run_tests on_path run' env f d a s
    \<and> handle_run_failing_tests on_path run now f d a s = handle_run_failing_tests on_path run' now f d a s
    \<and> handle_run_lint on_path run now f d a s = handle_run_lint on_path run' now f d a s
    \<and> handle_run_typecheck on_path run now f d a s = handle_run_typecheck on_path run' now f d a s
    \<and> handle_run_script jerr on_path run f d a = handle_run_script jerr on_path run' f d a"
proof -
  note v = same_runs_verify [OF assms(2) timeout_bounds(1,2)] same_runs_verify [OF assms(2) timeout_bounds(5,6)]
    same_runs_verify [OF assms(2) timeout_bounds(7,8)]
  note l = same_runs_lint [OF assms(2) timeout_bounds(3,4)]
  show ?thesis
    unfolding handle_run_tests_def handle_run_failing_tests_def handle_run_lint_def handle_run_typecheck_def
      handle_run_script_def Let_def assms(1) sum.case v l by blast
qed

definition unlimited :: "string list \<Rightarrow> string \<Rightarrow> int \<Rightarrow> proc" where
  "unlimited cmd cwd t = \<lparr>p_stdout = cwd, p_stderr = [], p_err = (if t \<le> 1800 then RunOk else ExitError 3), p_deadline = False\<rparr>"

definition always_ok :: "string list \<Rightarrow> string \<Rightarrow> int \<Rightarrow> proc" where
  "always_ok cmd cwd t = \<lparr>p_stdout = cwd, p_stderr = [], p_err = RunOk, p_deadline = False\<rparr>"

definition polyglot_ws :: ws_deps where
  "polyglot_ws = \<lparr>dep_workspace = Some \<lparr>ws_root = ''/w'', ws_name = ''w''\<rparr>, dep_workspaces = None\<rparr>"

definition demo_go_fs :: fs where
  "demo_go_fs p =
     (if p = [] \<or> p = [''w''] then Some NDir
      else if p = [''w'', ''go.mod''] then Some (NFile ''module m.io'') else None)"

lemma demo_dispatch:
  "map_of a ''language'' = None \<Longrightarrow> dispatch_by_language demo_go_fs \<lparr>ws_root = ''/w'', ws_name = ''w''\<rparr> a = Inr (GoDet ''/w'')"
proof -
  assume "map_of a ''language'' = None"
  then have "language_hint a = []"
    by (simp add: language_hint_def arg_str0_def arg_str_def to_lower_def trim_space_def trim_right_def)
  moreover have "detect_all demo_go_fs ''/w'' = [GoDet ''/w'']" by code_simp
  ultimately show ?thesis by (simp add: dispatch_by_language_def)
qed

lemma demo_resolve: "map_of a ''workspace'' = None \<Longrightarrow> resolve_workspace polyglot_ws a = Inr \<lparr>ws_root = ''/w'', ws_name = ''w''\<rparr>"
  by (simp add: resolve_workspace_def polyglot_ws_def arg_str0_def arg_str_def trim_space_def trim_right_def)

theorem verify_runs_bounded_witness:
  "fst (handle_run_typecheck (\<lambda>_. True) unlimited 9 demo_go_fs polyglot_ws [(''timeout'', JNum 99999)]
       \<lparr>vs_results = None, vs_cov = None, vs_health = None\<rparr>)
     = TextResult (''/w'' @ newline # ''exit: 0'' @ [newline])"
proof -
  let ?s = "\<lparr>vs_results = None, vs_cov = None, vs_health = None\<rparr>"
  have w: "resolve_workspace polyglot_ws [(''timeout'', JNum 99999)] = Inr \<lparr>ws_root = ''/w'', ws_name = ''w''\<rparr>"
    by (rule demo_resolve) simp
  have "same_runs ''/w'' 1800 unlimited always_ok"
    by (simp add: same_runs_def unlimited_def always_ok_def)
  then have "handle_run_typecheck (\<lambda>_. True) unlimited 9 demo_go_fs polyglot_ws [(''timeout'', JNum 99999)] ?s
     = handle_run_typecheck (\<lambda>_. True) always_ok 9 demo_go_fs polyglot_ws [(''timeout'', JNum 99999)] ?s"
    using verify_runs_bounded [OF w] by simp
  moreover have "run_verify_cmd (\<lambda>_. True) always_ok [''go'', ''vet'', ''./...''] ''/w'' t
      = Inr \<lparr>r_stdout = ''/w'', r_stderr = [], r_exit = 0, r_timed_out = False\<rparr>" for t
    by (simp add: run_verify_cmd_def always_ok_def truncate_output_def verify_output_cap_def)
  moreover have "format_verify_result \<lparr>r_stdout = ''/w'', r_stderr = [], r_exit = 0, r_timed_out = False\<rparr> t
      = ''/w'' @ newline # ''exit: 0'' @ [newline]" for t
    by (simp add: format_verify_result_def ends_nl_def has_suffix_def dec_int_def dec_nat.simps suffix_def)
  ultimately show ?thesis
    by (simp add: handle_run_typecheck_def w demo_dispatch)
qed

text \<open>
  a test run is recorded as it was reported.  An error leaves the session untouched.  A result is
  the rendering of one run of the selected project; with the store wired, a following
  \<open>last_test_failures\<close> renders the failures parsed from that run's output, and the health tracker's
  last-green time moves exactly when the run ended with exit code 0.
\<close>

theorem run_tests_recorded:
  assumes "handle_run_tests on_path run env f d a s = (res, s')"
  shows "case res of
      ErrorResult _ \<Rightarrow> s' = s
    | TextResult body \<Rightarrow> \<exists>w det cmd r.
        resolve_workspace d a = Inr w \<and> dispatch_by_language f w a = Inr det
        \<and> cmd = fst (augment_test_cmd_for_coverage (en_tmp env) det s)
        \<and> run_verify_cmd on_path run cmd (ws_root w) (parse_run_tests_timeout a) = Inr r
        \<and> body = format_verify_result r (parse_run_tests_timeout a)
        \<and> (vs_results s = None \<or> handle_last_test_failures now b s' =
             TextResult (render_last_failures now (test_result_of (en_now env) det r) (nat (parse_last_failures_limit b))))
        \<and> (vs_health s = None \<or> last_green (the (vs_health s')) =
             (if r_exit r = 0 then Some (en_now env) else last_green (the (vs_health s))))"
proof -
  have ing: "vs_results (ingest_coverage pr det r path s0) = vs_results s0" "vs_health (ingest_coverage pr det r path s0) = vs_health s0"
    for pr det r path s0 by (auto simp: ingest_coverage_def Let_def split: option.splits)
  have rcd: "vs_results (record_test_result n det r s) = (if vs_results s = None then None else Some (Some (test_result_of n det r)))"
    "vs_health (record_test_result n det r s) = vs_health s" for n det r
    by (auto simp: record_test_result_def split: option.splits)
  have green: "last_green (observe_test_result n t) = last_green t" "last_green (observe_green m t) = Some m" for n m t
    by (simp_all add: observe_test_result_def observe_green_def Let_def)
  show ?thesis
  proof (cases "resolve_workspace d a")
    case w: (Inr w)
    show ?thesis
    proof (cases "dispatch_by_language f w a")
      case det: (Inr det)
      obtain cmd path where cp: "augment_test_cmd_for_coverage (en_tmp env) det s = (cmd, path)"
        by (cases "augment_test_cmd_for_coverage (en_tmp env) det s")
      show ?thesis
      proof (cases "run_verify_cmd on_path run cmd (ws_root w) (parse_run_tests_timeout a)")
        case r: (Inr r)
        have res: "res = TextResult (format_verify_result r (parse_run_tests_timeout a))"
          and st: "vs_results s' = vs_results (record_test_result (en_now env) det r s)"
          and h: "vs_health s' = map_option (\<lambda>t. (if r_exit r = 0 then observe_green (en_now env) else id)
              (observe_test_result (int (length (parse_test_failures det (r_stdout r) (r_stderr r)))) t)) (vs_health s)"
          using assms by (auto simp: handle_run_tests_def w det cp r Let_def ing rcd option.map_comp comp_def)
        have "vs_results s = None \<or> handle_last_test_failures now b s' =
             TextResult (render_last_failures now (test_result_of (en_now env) det r) (nat (parse_last_failures_limit b)))"
          by (simp add: handle_last_test_failures_def store_get_def st rcd)
        moreover have "vs_health s = None \<or> last_green (the (vs_health s')) =
             (if r_exit r = 0 then Some (en_now env) else last_green (the (vs_health s)))"
          by (cases "vs_health s") (simp_all add: h green)
        ultimately show ?thesis unfolding res using w det cp r by auto
      qed (use assms in \<open>auto simp: handle_run_tests_def w det cp\<close>)
    qed (use assms in \<open>auto simp: handle_run_tests_def w\<close>)
  qed (use assms in \<open>auto simp: handle_run_tests_def\<close>)
qed

theorem run_tests_recorded_witness:
  "\<exists>body. fst (handle_run_tests (\<lambda>_. True) always_ok \<lparr>en_now = 9, en_tmp = None, en_profile = None\<rparr> demo_go_fs polyglot_ws []
      \<lparr>vs_results = Some None, vs_cov = None, vs_health = Some (health_new default_config)\<rparr>) = TextResult body
    \<and> last_green (the (vs_health (snd (handle_run_tests (\<lambda>_. True) always_ok \<lparr>en_now = 9, en_tmp = None, en_profile = None\<rparr>
         demo_go_fs polyglot_ws [] \<lparr>vs_results = Some None, vs_cov = None, vs_health = Some (health_new default_config)\<rparr>)))) = Some 9"
proof -
  let ?s = "\<lparr>vs_results = Some None, vs_cov = None, vs_health = Some (health_new default_config)\<rparr>"
  let ?h = "handle_run_tests (\<lambda>_. True) always_ok \<lparr>en_now = 9, en_tmp = None, en_profile = None\<rparr> demo_go_fs polyglot_ws [] ?s"
  have w: "resolve_workspace polyglot_ws [] = Inr \<lparr>ws_root = ''/w'', ws_name = ''w''\<rparr>" by (rule demo_resolve) simp
  have det: "dispatch_by_language demo_go_fs \<lparr>ws_root = ''/w'', ws_name = ''w''\<rparr> [] = Inr (GoDet ''/w'')" by (rule demo_dispatch) simp
  have run: "run_verify_cmd (\<lambda>_. True) always_ok (c # cs) cwd t = Inr r \<Longrightarrow> r_exit r = 0" for c cs cwd t r
    by (auto simp: run_verify_cmd_def always_ok_def)
  have cmd: "fst (augment_test_cmd_for_coverage None (GoDet ''/w'') ?s) = ''go'' # [''test'', ''-json'', ''-count=1'', ''./...'']"
    by (simp add: augment_test_cmd_for_coverage_def)
  have ok: "\<exists>b. fst ?h = TextResult b"
    by (simp add: handle_run_tests_def w det augment_test_cmd_for_coverage_def run_verify_cmd_def always_ok_def Let_def)
  then obtain b where b: "fst ?h = TextResult b" by blast
  have "?h = (TextResult b, snd ?h)" using b by (metis prod.collapse)
  from run_tests_recorded [OF this] w det cmd run show ?thesis using b by fastforce
qed

end
