(* ===== verification/SshConfig.thy ===== *)
theory SshConfig
  imports ReadTool
begin

text \<open>
  The editor of \<open>~/.ssh/config\<close> in \<open>cmd/sandbox-forward/sshsetup.go\<close>: shell quoting, the rendered
  \<open>Host\<close> block and its insertion or replacement in an existing file.
\<close>

section \<open>Names and quoting\<close>

definition ascii_alnum :: "char \<Rightarrow> bool" where
  "ascii_alnum c \<longleftrightarrow> between (CHR ''0'') (CHR ''9'') c \<or> between (CHR ''A'') (CHR ''Z'') c \<or> between (CHR ''a'') (CHR ''z'') c"

definition safe_host_char :: "char \<Rightarrow> bool" where
  "safe_host_char c \<longleftrightarrow> ascii_alnum c \<or> c = CHR ''-'' \<or> c = CHR ''_''"

definition is_safe_host_name :: "string \<Rightarrow> bool" where
  "is_safe_host_name s \<longleftrightarrow> s \<noteq> [] \<and> list_all safe_host_char s"

definition shell_plain :: "char \<Rightarrow> bool" where
  "shell_plain c \<longleftrightarrow> ascii_alnum c \<or> c \<in> set ''-_./:=@''"

abbreviation sq :: char where "sq \<equiv> CHR 0x27"
abbreviation backslash :: char where "backslash \<equiv> CHR 0x5C"

definition quote_escape :: "char \<Rightarrow> string" where
  "quote_escape c = (if c = sq then [sq, backslash, sq, sq] else [c])"

definition shell_quote :: "string \<Rightarrow> string" where
  "shell_quote s =
     (if s = [] then [sq, sq]
      else if list_all shell_plain s then s
      else sq # concat (map quote_escape s) @ [sq])"

text \<open>
  What the shell makes of a word, as POSIX documents it: inside single quotes every byte is itself,
  a backslash outside quotes makes the next byte literal, a blank ends the word.  Any other byte
  that may have a special meaning makes the reading fail.
\<close>

fun sh_read :: "bool \<Rightarrow> string \<Rightarrow> (string \<times> string) option" where
  "sh_read True [] = None"
| "sh_read True (c # s) =
     (if c = sq then sh_read False s else map_option (\<lambda>(w, r). (c # w, r)) (sh_read True s))"
| "sh_read False [] = Some ([], [])"
| "sh_read False (c # s) =
     (if c = sq then sh_read True s
      else if c = backslash then (case s of [] \<Rightarrow> None | d # s' \<Rightarrow> map_option (\<lambda>(w, r). (d # w, r)) (sh_read False s'))
      else if c = CHR '' '' then Some ([], c # s)
      else if shell_plain c then map_option (\<lambda>(w, r). (c # w, r)) (sh_read False s)
      else None)"

fun sh_words :: "nat \<Rightarrow> string \<Rightarrow> string list option" where
  "sh_words 0 s = None"
| "sh_words (Suc n) s =
     (case sh_read False s of
        None \<Rightarrow> None
      | Some (w, []) \<Rightarrow> Some [w]
      | Some (w, _ # r) \<Rightarrow> map_option (Cons w) (sh_words n r))"

definition word_end :: "string \<Rightarrow> bool" where
  "word_end rest \<longleftrightarrow> rest = [] \<or> hd rest = CHR '' ''"

lemma shell_plain_special: "\<not> shell_plain sq" "\<not> shell_plain backslash" "\<not> shell_plain (CHR '' '')" "\<not> shell_plain newline"
  by code_simp+

lemma shell_plain_neq: "shell_plain c \<Longrightarrow> c \<noteq> sq \<and> c \<noteq> backslash \<and> c \<noteq> CHR '' ''"
  using shell_plain_special by metis

lemma sh_read_end: "word_end rest \<Longrightarrow> sh_read False rest = Some ([], rest)"
  by (cases rest) (auto simp: word_end_def)

lemma sh_read_plain:
  "list_all shell_plain s \<Longrightarrow> word_end rest \<Longrightarrow> sh_read False (s @ rest) = Some (s, rest)"
  by (induction s) (auto simp: sh_read_end dest: shell_plain_neq)

lemma sh_read_quoted:
  "word_end rest \<Longrightarrow> sh_read True (concat (map quote_escape s) @ sq # rest) = Some (s, rest)"
  by (induction s) (auto simp: sh_read_end quote_escape_def)

lemma sh_read_shell_quote: "word_end rest \<Longrightarrow> sh_read False (shell_quote s @ rest) = Some (s, rest)"
  by (auto simp: shell_quote_def sh_read_plain sh_read_quoted sh_read_end)



definition auth_flags :: "string list" where
  "auth_flags = [''--bearer'', ''--bearer-file'', ''--cookie'', ''--header'', ''-bearer'', ''-bearer-file'', ''-cookie'', ''-header'']"

fun extract_auth_args :: "string list \<Rightarrow> string list" where
  "extract_auth_args [] = []"
| "extract_auth_args [a] = (if a \<in> set auth_flags \<or> list_ex (\<lambda>p. has_prefix a (p @ ''='')) auth_flags then [a] else [])"
| "extract_auth_args (a # b # as) =
     (if a \<in> set auth_flags then a # b # extract_auth_args as
      else if list_ex (\<lambda>p. has_prefix a (p @ ''='')) auth_flags then a # extract_auth_args (b # as)
      else extract_auth_args (b # as))"

definition proxy_command :: "string \<Rightarrow> string list \<Rightarrow> string" where
  "proxy_command server auth =
     ''sandbox-forward proxy --ssh --server '' @ shell_quote server @ concat (map (\<lambda>a. CHR '' '' # shell_quote a) auth)"

definition build_ssh_config_block :: "string \<Rightarrow> string \<Rightarrow> string \<Rightarrow> string list \<Rightarrow> string" where
  "build_ssh_config_block name server key auth =
     ''Host '' @ name @ [newline]
     @ ''  ProxyCommand '' @ proxy_command server auth @ [newline]
     @ ''  User sandbox'' @ [newline]
     @ ''  IdentityFile '' @ shell_quote key @ [newline]
     @ ''  StrictHostKeyChecking no'' @ [newline]
     @ ''  UserKnownHostsFile /dev/null'' @ [newline]"

lemma sh_words_step: "word_end rest \<Longrightarrow>
  sh_words (Suc n) (shell_quote s @ rest) = (case rest of [] \<Rightarrow> Some [s] | _ # r \<Rightarrow> map_option (Cons s) (sh_words n r))"
  by (cases rest) (simp_all add: sh_read_shell_quote [of "[]", simplified] sh_read_shell_quote word_end_def)

lemma sh_words_args:
  "length auth \<le> n \<Longrightarrow>
   sh_words (Suc n) (shell_quote s @ concat (map (\<lambda>a. CHR '' '' # shell_quote a) auth)) = Some (s # auth)"
proof (induction auth arbitrary: s n)
  case Nil
  then show ?case using sh_words_step [of "[]" n s] by (simp add: word_end_def)
next
  case (Cons a auth)
  then obtain m where m: "n = Suc m" by (cases n) auto
  have "word_end (CHR '' '' # x)" for x by (simp add: word_end_def)
  from sh_words_step [OF this] Cons m show ?case by simp
qed

text \<open>
  \<open>ssh\<close> runs the intended command.  The \<open>ProxyCommand\<close> of the block, split by the shell, is
  \<open>sandbox-forward proxy --ssh --server\<close> followed by exactly the server and the authentication
  arguments, whatever quotes, blanks or metacharacters they contain.
\<close>

theorem proxy_command_argv:
  "sh_words (5 + length auth) (proxy_command server auth)
    = Some ([''sandbox-forward'', ''proxy'', ''--ssh'', ''--server'', server] @ auth)"
proof -
  let ?t = "concat (map (\<lambda>a. CHR '' '' # shell_quote a) auth)"
  have q: "shell_quote w = w" if "w \<noteq> []" "list_all shell_plain w" for w
    using that by (simp add: shell_quote_def)
  have p: "list_all shell_plain ''sandbox-forward''" "list_all shell_plain ''proxy''" "list_all shell_plain ''--ssh''"
    "list_all shell_plain ''--server''" by code_simp+
  have "proxy_command server auth = shell_quote ''sandbox-forward'' @ CHR '' '' # shell_quote ''proxy'' @ CHR '' ''
      # shell_quote ''--ssh'' @ CHR '' '' # shell_quote ''--server'' @ CHR '' '' # shell_quote server @ ?t"
    using p by (simp add: proxy_command_def q)
  moreover have "5 + length auth = Suc (Suc (Suc (Suc (Suc (length auth)))))" by simp
  moreover have "word_end (CHR '' '' # x)" for x by (simp add: word_end_def)
  ultimately show ?thesis
    by (simp only: sh_words_step [OF \<open>word_end (CHR '' '' # _)\<close>] list.case sh_words_args [OF order_refl] option.map append.simps)
qed

section \<open>Finding and replacing a block\<close>

definition is_blank :: "char \<Rightarrow> bool" where
  "is_blank c \<longleftrightarrow> c = CHR '' '' \<or> c = CHR 0x09"

definition is_host_line :: "string \<Rightarrow> bool" where
  "is_host_line ln' =
     (let t = dropWhile is_blank ln'
      in 5 \<le> length t \<and> (to_lower (take 5 t) = ''host '' \<or> to_lower (take 5 t) = ''host'' @ [CHR 0x09]))"

definition host_line_name :: "string \<Rightarrow> string" where
  "host_line_name ln' = takeWhile (\<lambda>c. \<not> is_blank c) (dropWhile is_blank (drop 5 (dropWhile is_blank ln')))"

text \<open>The loop of \<open>findHostBlock\<close> over the lines from number \<open>i\<close> on.\<close>

fun host_loop :: "string \<Rightarrow> nat \<Rightarrow> nat option \<Rightarrow> string list \<Rightarrow> (nat \<times> nat) option" where
  "host_loop name i start [] = (case start of None \<Rightarrow> None | Some s \<Rightarrow> Some (s, i))"
| "host_loop name i start (l # ls) =
     (if \<not> is_host_line l then host_loop name (Suc i) start ls
      else if start = None \<and> host_line_name l = name then host_loop name (Suc i) (Some i) ls
      else case start of Some s \<Rightarrow> Some (s, i) | None \<Rightarrow> host_loop name (Suc i) None ls)"

definition find_host_block :: "string list \<Rightarrow> string \<Rightarrow> (nat \<times> nat) option" where
  "find_host_block ls name = host_loop name 0 None ls"

definition write_lines :: "string list \<Rightarrow> nat \<Rightarrow> nat \<Rightarrow> string" where
  "write_lines ls a b =
     concat (map (\<lambda>i. if i = length ls - 1 \<and> ls ! i = [] then []
                      else ls ! i @ (if i < length ls - 1 then [newline] else [])) [a..<b])"

definition append_host_block :: "string \<Rightarrow> string \<Rightarrow> string" where
  "append_host_block existing block =
     existing @ (if has_suffix existing [newline] then [] else [newline])
     @ (if \<not> has_suffix existing [newline, newline] \<and> existing \<noteq> [] then [newline] else []) @ block"

definition splice_host_block :: "string list \<Rightarrow> nat \<Rightarrow> nat \<Rightarrow> string \<Rightarrow> string" where
  "splice_host_block ls a b block =
     (let s = write_lines ls 0 a @ block @ write_lines ls b (length ls)
      in if has_suffix s [newline] then s else s @ [newline])"

definition replace_host_block :: "string \<Rightarrow> string \<Rightarrow> string \<Rightarrow> string" where
  "replace_host_block existing name block =
     (if existing = [] then block
      else let ls = split_on newline existing
           in case find_host_block ls name of
                None \<Rightarrow> append_host_block existing block
              | Some (a, b) \<Rightarrow> splice_host_block ls a b block)"

section \<open>The editor on lines\<close>

definition unlines :: "string list \<Rightarrow> string" where
  "unlines ls = concat (map (\<lambda>l. l @ [newline]) ls)"

lemma unlines_append [simp]: "unlines (xs @ ys) = unlines xs @ unlines ys"
  by (simp add: unlines_def)

lemma split_unlines: "\<forall>l \<in> set ls. newline \<notin> set l \<Longrightarrow> split_on newline (unlines ls) = ls @ [[]]"
  by (induction ls) (auto simp: unlines_def split_on_append_sep split_on_no_sep)

lemma raw_lines_unlines: "\<forall>l \<in> set ls. newline \<notin> set l \<Longrightarrow> raw_lines (unlines ls) = ls"
  by (simp add: raw_lines_def split_unlines)

lemma raw_lines_free: "l \<in> set (raw_lines s) \<Longrightarrow> newline \<notin> set l"
  unfolding raw_lines_def Let_def by (metis in_set_butlastD split_on_free)

lemma unlines_has_suffix: "ls \<noteq> [] \<Longrightarrow> has_suffix (unlines ls) [newline]"
  by (cases ls rule: rev_cases) (auto simp: unlines_def has_suffix_def suffix_def)

lemma split_raw:
  "split_on newline s = (if s = [] \<or> has_suffix s [newline] then raw_lines s @ [[]] else raw_lines s)"
proof (cases "s = [] \<or> has_suffix s [newline]")
  case True
  then show ?thesis
  proof
    assume "has_suffix s [newline]"
    then obtain t where t: "s = t @ newline # []" by (auto simp: has_suffix_def suffix_def)
    then have "split_on newline s = split_on newline t @ [[]]" by (simp add: split_on_append_sep)
    then show ?thesis using True by (simp add: raw_lines_def)
  qed (simp add: raw_lines_def)
next
  case False
  have "last (split_on newline s) \<noteq> []"
  proof
    assume l: "last (split_on newline s) = []"
    obtain ps where ps: "split_on newline s = ps @ [[]]" using l by (metis append_butlast_last_id split_on_ne)
    have "s = join [newline] (ps @ [[]])" using join_split_on [of newline s] ps by simp
    then have "s = [] \<or> has_suffix s [newline]"
      by (cases "ps = []") (auto simp: join_append has_suffix_def suffix_def)
    with False show False by simp
  qed
  then show ?thesis using False by (simp add: raw_lines_def)
qed

lemma raw_lines_join: "s \<noteq> [] \<Longrightarrow> s @ (if has_suffix s [newline] then [] else [newline]) = unlines (raw_lines s)"
proof -
  assume s: "s \<noteq> []"
  have j: "join [newline] (ls @ [[]]) = unlines ls" for ls
    by (induction ls) (auto simp: unlines_def join_Cons)
  have k: "ls \<noteq> [] \<Longrightarrow> join [newline] ls @ [newline] = unlines ls" for ls
    by (induction ls) (auto simp: unlines_def join_Cons)
  show ?thesis
  proof (cases "has_suffix s [newline]")
    case True
    then show ?thesis using s split_raw [of s] j join_split_on [of newline s] by auto
  next
    case False
    then show ?thesis using s split_raw [of s] k [of "raw_lines s"] join_split_on [of newline s] split_on_ne [of newline s] by auto
  qed
qed

lemma has_suffix_last: "has_suffix s [c] \<longleftrightarrow> s \<noteq> [] \<and> last s = c"
  by (cases s rule: rev_cases) (auto simp: has_suffix_def suffix_def)

lemma raw_last:
  assumes "s \<noteq> []" "\<not> has_suffix s [newline]"
  shows "last (raw_lines s) \<noteq> []"
proof
  assume l: "last (raw_lines s) = []"
  have eq: "split_on newline s = raw_lines s" using assms by (simp add: split_raw)
  then have ne: "raw_lines s \<noteq> []" by (metis split_on_ne)
  have "raw_lines s = butlast (raw_lines s)" using l by (subst (1) raw_lines_def) (simp add: eq Let_def)
  then show False using ne by (metis append_butlast_last_id append_self_conv not_Cons_self2)
qed

lemma unlines_butlast: "ls \<noteq> [] \<Longrightarrow> unlines ls = unlines (butlast ls) @ last ls @ [newline]"
  by (cases ls rule: rev_cases) (simp_all add: unlines_def)

lemma write_lines_raw:
  assumes "s \<noteq> []" "b \<le> length (split_on newline s)" "a \<le> b"
  shows "write_lines (split_on newline s) a b @ (if has_suffix s [newline] \<or> b < length (split_on newline s) \<or> a = b then [] else [newline])
    = unlines (take (b - a) (drop a (raw_lines s)))"
proof -
  let ?ls = "split_on newline s" and ?L = "raw_lines s"
  have sp: "?ls = (if has_suffix s [newline] then ?L @ [[]] else ?L)" using split_raw [of s] assms(1) by simp
  have nz: "?ls \<noteq> []" by simp
  have last_ne: "?L ! (length ?L - 1) \<noteq> []" if "\<not> has_suffix s [newline]"
    using raw_last [OF assms(1) that] that sp nz by (metis last_conv_nth)
  show ?thesis using assms(2,3)
  proof (induction b)
    case 0
    then show ?case by (simp add: write_lines_def unlines_def)
  next
    case (Suc b)
    show ?case
    proof (cases "a = Suc b")
      case True
      then show ?thesis by (simp add: write_lines_def unlines_def)
    next
      case False
      with Suc.prems have ab: "a \<le> b" "b < length ?ls" by auto
      with Suc.IH have ih: "write_lines ?ls a b = unlines (take (b - a) (drop a ?L))" by simp
      have step: "write_lines ?ls a (Suc b) = write_lines ?ls a b
          @ (if b = length ?ls - 1 \<and> ?ls ! b = [] then [] else ?ls ! b @ (if b < length ?ls - 1 then [newline] else []))"
        using ab by (simp add: write_lines_def)
      show ?thesis
      proof (cases "b < length ?L")
        case True
        then have tk: "take (Suc b - a) (drop a ?L) = take (b - a) (drop a ?L) @ [?L ! b]"
          using ab by (simp add: Suc_diff_le take_Suc_conv_app_nth)
        have nth: "?ls ! b = ?L ! b" using True sp by (simp add: nth_append)
        show ?thesis
        proof (cases "has_suffix s [newline]")
          case True
          then have "b < length ?ls - 1" using sp \<open>b < length ?L\<close> by simp
          then show ?thesis using True step ih tk nth ab by (simp add: unlines_def)
        next
          case False
          then have len: "length ?ls = length ?L" using sp by simp
          show ?thesis
          proof (cases "Suc b = length ?ls")
            case True
            then have "?L ! b \<noteq> []" using last_ne [OF False] len by (metis diff_Suc_1)
            then show ?thesis using True False step ih tk nth ab by (auto simp: unlines_def)
          next
            case False
            then have "b < length ?ls - 1" using ab by simp
            then show ?thesis using False step ih tk nth ab by (auto simp: unlines_def)
          qed
        qed
      next
        case False
        then have t: "has_suffix s [newline]" "b = length ?L" using sp ab by (auto split: if_splits)
        then have "?ls ! b = []" "b = length ?ls - 1" using sp by (simp_all add: nth_append)
        then show ?thesis using step ih t ab by simp
      qed
    qed
  qed
qed

text \<open>The specification: the lines before the named block, the block, and the lines after it.\<close>

definition names_host :: "string \<Rightarrow> string \<Rightarrow> bool" where
  "names_host name l \<longleftrightarrow> is_host_line l \<and> host_line_name l = name"

definition before_block :: "string \<Rightarrow> string list \<Rightarrow> string list" where
  "before_block name L = takeWhile (\<lambda>l. \<not> names_host name l) L"

definition after_block :: "string \<Rightarrow> string list \<Rightarrow> string list" where
  "after_block name L = dropWhile (\<lambda>l. \<not> is_host_line l) (tl (dropWhile (\<lambda>l. \<not> names_host name l) L))"

lemma host_loop_started: "host_loop name i (Some s) ls = Some (s, i + length (takeWhile (\<lambda>l. \<not> is_host_line l) ls))"
  by (induction ls arbitrary: i) auto

lemma host_loop_find:
  "host_loop name i None ls =
     (let pre = takeWhile (\<lambda>l. \<not> names_host name l) ls; rest = dropWhile (\<lambda>l. \<not> names_host name l) ls
      in if rest = [] then None
         else Some (i + length pre, Suc (i + length pre) + length (takeWhile (\<lambda>l. \<not> is_host_line l) (tl rest))))"
proof (induction ls arbitrary: i)
  case (Cons l ls)
  show ?case
  proof (cases "names_host name l")
    case True
    then show ?thesis by (simp add: names_host_def host_loop_started)
  next
    case False
    then show ?thesis using Cons.IH [of "Suc i"] by (auto simp: names_host_def Let_def)
  qed
qed simp

lemma blank_no_host [simp]: "\<not> is_host_line []" "\<not> names_host name []"
  by (simp_all add: is_host_line_def names_host_def)

lemma takeWhile_blank: "P [] \<Longrightarrow> takeWhile P (L @ [[]]) = (if list_all P L then L @ [[]] else takeWhile P L)"
  by (induction L) auto

lemma drop_after: "drop (length (takeWhile P xs)) xs = dropWhile P xs"
  by (induction xs) auto

lemma find_raw:
  assumes "e \<noteq> []"
  shows "find_host_block (split_on newline e) name =
    (if list_all (\<lambda>l. \<not> names_host name l) (raw_lines e) then None
     else Some (length (before_block name (raw_lines e)),
       (if after_block name (raw_lines e) = [] then length (split_on newline e)
        else length (raw_lines e) - length (after_block name (raw_lines e)))))"
proof -
  let ?P = "\<lambda>l. \<not> names_host name l" and ?Q = "\<lambda>l. \<not> is_host_line l"
  define L where "L = raw_lines e"
  obtain z where sp: "split_on newline e = L @ z" "z = [] \<or> z = [[]]"
    using split_raw [of e] assms by (auto simp: L_def split: if_splits)
  have dz: "dropWhile ?P z = []" using sp(2) by auto
  show ?thesis
  proof (cases "list_all ?P L")
    case True
    then have "dropWhile ?P (L @ z) = []" using dz by (simp add: list_all_iff)
    then show ?thesis using True by (simp add: find_host_block_def host_loop_find sp(1) L_def [symmetric])
  next
    case False
    then obtain pre h rest where L: "L = pre @ h # rest" "list_all ?P pre" "\<not> ?P h"
      by (metis split_list_first_prop list_all_iff)
    then have tw: "takeWhile ?P (L @ z) = pre" "dropWhile ?P (L @ z) = h # rest @ z" "takeWhile ?P L = pre" "dropWhile ?P L = h # rest"
      by (simp_all add: list_all_iff takeWhile_append2 dropWhile_append2)
    have ab: "after_block name L = dropWhile ?Q rest" "before_block name L = pre"
      by (simp_all add: after_block_def before_block_def tw)
    have fnd: "find_host_block (L @ z) name = Some (length pre, Suc (length pre) + length (takeWhile ?Q (rest @ z)))"
      by (simp add: find_host_block_def host_loop_find tw Let_def)
    have len: "Suc (length pre) + length (takeWhile ?Q (rest @ z)) =
        (if dropWhile ?Q rest = [] then length (L @ z) else length L - length (dropWhile ?Q rest))"
    proof (cases "dropWhile ?Q rest = []")
      case True
      then have "\<forall>x \<in> set (rest @ z). ?Q x" using sp(2) by auto
      then have "takeWhile ?Q (rest @ z) = rest @ z" by (simp only: takeWhile_eq_all_conv)
      then have "length (takeWhile ?Q (rest @ z)) = length rest + length z" by (metis length_append)
      moreover have "length (L @ z) = Suc (length pre) + length rest + length z" using L by simp
      ultimately show ?thesis unfolding if_P [OF True] by linarith
    next
      case False
      then obtain x where "x \<in> set rest" "\<not> ?Q x" by auto
      then have "takeWhile ?Q (rest @ z) = takeWhile ?Q rest" by (simp add: takeWhile_append1)
      moreover have "length rest = length (takeWhile ?Q rest) + length (dropWhile ?Q rest)"
        by (metis length_append takeWhile_dropWhile_id)
      ultimately show ?thesis using L unfolding if_not_P [OF False] by simp
    qed
    show ?thesis unfolding L_def [symmetric] sp(1) fnd ab len using False by simp
  qed
qed

lemma after_suffix: "\<exists>xs. L = xs @ after_block name L"
  unfolding after_block_def by (metis append_assoc dropWhile_eq_drop append_take_drop_id drop_Suc)

text \<open>No block of that name: the new one goes to the end.\<close>

lemma replace_appends:
  assumes "e \<noteq> []" "list_all (\<lambda>l. \<not> names_host name l) (raw_lines e)"
  shows "before_block name (raw_lines e) = raw_lines e" "after_block name (raw_lines e) = []"
    and "replace_host_block e name block = unlines (raw_lines e) @ (if has_suffix e [newline, newline] then [] else [newline]) @ block"
proof -
  have d: "dropWhile (\<lambda>l. \<not> names_host name l) (raw_lines e) = []" using assms(2) by (simp add: list_all_iff)
  show "before_block name (raw_lines e) = raw_lines e"
    using assms(2) by (simp add: before_block_def list_all_iff takeWhile_eq_all_conv)
  show "after_block name (raw_lines e) = []" unfolding after_block_def d by simp
  have "replace_host_block e name block = append_host_block e block"
    using assms find_raw [OF assms(1), of name] by (simp add: replace_host_block_def)
  then show "replace_host_block e name block = unlines (raw_lines e) @ (if has_suffix e [newline, newline] then [] else [newline]) @ block"
    using raw_lines_join [OF assms(1)] assms(1) by (simp add: append_host_block_def)
qed

text \<open>Where an existing block begins and ends.\<close>

lemma block_bounds:
  assumes "\<not> list_all (\<lambda>l. \<not> names_host name l) L"
  shows "length (before_block name L) < length L" "length (after_block name L) < length L"
proof -
  let ?d = "dropWhile (\<lambda>l. \<not> names_host name l) L"
  have ne: "?d \<noteq> []" using assms by (simp add: list_all_iff)
  have "length L = length (before_block name L) + length ?d"
    unfolding before_block_def by (metis length_append takeWhile_dropWhile_id)
  then show "length (before_block name L) < length L" using ne by simp
  have "length (tl ?d) < length L"
    using ne by (metis length_dropWhile_le length_tl diff_less length_greater_0_conv less_le_trans zero_less_one)
  then show "length (after_block name L) < length L" unfolding after_block_def by (metis length_dropWhile_le le_less_trans)
qed

text \<open>The newline that closes the file is written once.\<close>

lemma unclosed_tail:
  assumes "e \<noteq> []" "\<not> has_suffix e [newline]" "ys @ A = raw_lines e" "A \<noteq> []" "t @ [newline] = unlines A"
  shows "\<not> has_suffix t [newline] \<and> t \<noteq> []"
proof -
  define x where "x = last A"
  have xL: "x = last (raw_lines e)" unfolding x_def using assms(3,4) by (metis last_appendR)
  have "raw_lines e \<noteq> []" using assms(3,4) by auto
  then have nl: "newline \<notin> set x" using raw_lines_free [of "last (raw_lines e)" e] xL by simp
  have xne: "x \<noteq> []" using raw_last [OF assms(1,2)] xL by simp
  have "t = unlines (butlast A) @ x"
    using assms(5) unlines_butlast [OF assms(4)] unfolding x_def by (metis append_assoc butlast_snoc)
  moreover have "last x \<noteq> newline" using xne nl last_in_set by metis
  then have "\<not> has_suffix (u @ x) [newline]" for u using xne by (simp add: has_suffix_last)
  ultimately show ?thesis using xne by simp
qed

lemma closing_newline:
  assumes "has_suffix block [newline]" "e \<noteq> []" "ys @ A = raw_lines e"
    and t: "t @ (if has_suffix e [newline] \<or> A = [] then [] else [newline]) = unlines A"
  shows "(if has_suffix (u @ block @ t) [newline] then u @ block @ t else (u @ block @ t) @ [newline]) = u @ block @ unlines A"
proof (cases "A = []")
  case True
  then have "t = []" using t by (simp add: unlines_def)
  moreover have "has_suffix (u @ block) [newline]" using assms(1) by (simp add: has_suffix_def suffix_append)
  ultimately show ?thesis using True by (simp add: unlines_def)
next
  case ne: False
  have hs: "has_suffix (unlines A) [newline]" by (rule unlines_has_suffix [OF ne])
  show ?thesis
  proof (cases "has_suffix e [newline]")
    case True
    then have w: "t = unlines A" using t by simp
    then have "has_suffix (u @ block @ t) [newline]" using hs by (simp add: has_suffix_def suffix_def) (metis append.assoc)
    then show ?thesis using w by simp
  next
    case False
    then have w: "t @ [newline] = unlines A" using t ne by simp
    from unclosed_tail [OF assms(2) False assms(3) ne w] show ?thesis using w by (auto simp: has_suffix_last)
  qed
qed

lemma replace_lines:
  assumes "has_suffix block [newline]"
  shows "replace_host_block e name block =
    (let L = raw_lines e
     in unlines (before_block name L
          @ (if list_all (\<lambda>l. \<not> names_host name l) L \<and> e \<noteq> [] \<and> \<not> has_suffix e [newline, newline] then [[]] else []))
        @ block @ unlines (after_block name L))"
proof (cases "e = []")
  case True
  then show ?thesis
    by (simp add: replace_host_block_def raw_lines_def before_block_def after_block_def unlines_def)
next
  case False
  define L where "L = raw_lines e"
  show ?thesis
  proof (cases "list_all (\<lambda>l. \<not> names_host name l) L")
    case True
    have "unlines [[]] = [newline]" "unlines [] = []" by (simp_all add: unlines_def)
    then show ?thesis using replace_appends [OF False True [unfolded L_def]] True False by (simp add: L_def Let_def)
  next
    case nn: False
    let ?ls = "split_on newline e" and ?a = "length (before_block name L)"
    define b where "b = (if after_block name L = [] then length ?ls else length L - length (after_block name L))"
    have r: "replace_host_block e name block = splice_host_block ?ls ?a b block"
      using False nn find_raw [OF False, of name, folded L_def] by (simp add: replace_host_block_def b_def Let_def)
    note bounds = block_bounds [OF nn]
    have lenL: "length L \<le> length ?ls" using split_raw [of e] False by (auto simp: L_def)
    have bl: "b \<le> length ?ls" using lenL by (auto simp: b_def)
    obtain ys where ys: "ys @ after_block name L = L" using after_suffix [of L name] by metis
    have w1: "write_lines ?ls 0 ?a = unlines (before_block name L)"
      using write_lines_raw [OF False, of ?a 0] bounds(1) lenL
      by (simp add: L_def [symmetric]) (simp add: before_block_def takeWhile_eq_take [symmetric])
    have dropb: "drop b L = after_block name L"
      using bounds(2) ys lenL by (auto simp: b_def) (metis append_eq_conv_conj diff_add_inverse2 length_append)
    have bn: "b = length ?ls \<longleftrightarrow> after_block name L = []"
    proof (cases "after_block name L = []")
      case False
      then have "0 < length (after_block name L)" by (rule iffD2 [OF length_greater_0_conv])
      then have "length L - length (after_block name L) < length ?ls" using bounds(2) lenL by linarith
      then show ?thesis using False by (simp add: b_def)
    qed (simp add: b_def)
    have "length (after_block name L) = length L - b" using dropb by (metis length_drop)
    then have "take (length ?ls - b) (after_block name L) = after_block name L" using lenL by simp
    then have "write_lines ?ls b (length ?ls) @ (if has_suffix e [newline] \<or> after_block name L = [] then [] else [newline])
        = unlines (after_block name L)"
      using write_lines_raw [OF False order_refl bl] by (simp add: L_def [symmetric] dropb bn)
    from closing_newline [OF assms False ys [unfolded L_def] this [unfolded L_def]]
    show ?thesis unfolding r splice_host_block_def Let_def L_def [symmetric] w1 using nn by simp
  qed
qed

lemma find_hosts_append:
  "before_block name (pre @ h # rest) = pre" "after_block name (pre @ h # rest) = dropWhile (\<lambda>l. \<not> is_host_line l) rest"
  if "list_all (\<lambda>l. \<not> names_host name l) pre" "names_host name h"
  using that by (simp_all add: before_block_def after_block_def list_all_iff takeWhile_append2 dropWhile_append2)

lemma before_no_name: "list_all (\<lambda>l. \<not> names_host name l) (before_block name L)"
  unfolding before_block_def list_all_iff by (blast dest: set_takeWhileD)

text \<open>A block as \<open>buildSSHConfigBlock\<close> renders it: one \<open>Host\<close> line and lines that are none.\<close>

definition is_block :: "string \<Rightarrow> string \<Rightarrow> bool" where
  "is_block name block \<longleftrightarrow>
     (\<exists>h body. block = unlines (h # body) \<and> (\<forall>l \<in> set (h # body). newline \<notin> set l)
        \<and> names_host name h \<and> list_all (\<lambda>l. \<not> is_host_line l) body)"


lemma newline_free_fixed:
  "newline \<notin> set ''  ProxyCommand ''" "newline \<notin> set ''  User sandbox''" "newline \<notin> set ''  IdentityFile ''"
  "newline \<notin> set ''  StrictHostKeyChecking no''" "newline \<notin> set ''  UserKnownHostsFile /dev/null''"
  "newline \<notin> set ''sandbox-forward proxy --ssh --server ''"
  by code_simp+

lemma to_lower_host: "to_lower ''Host '' = ''host ''"
  by code_simp

lemma quote_free: "newline \<notin> set s \<Longrightarrow> newline \<notin> set (shell_quote s)"
  by (auto simp: shell_quote_def quote_escape_def)

text \<open>Every block the tool writes for a safe name is such a block.\<close>

lemma build_is_block:
  assumes "is_safe_host_name name" "newline \<notin> set server" "newline \<notin> set key" "\<forall>a \<in> set auth. newline \<notin> set a"
  shows "is_block name (build_ssh_config_block name server key auth)"
proof -
  have nb: "\<not> safe_host_char (CHR '' '')" "\<not> safe_host_char (CHR 0x09)" "\<not> safe_host_char newline" by code_simp+
  have name: "name \<noteq> []" "\<forall>c \<in> set name. \<not> is_blank c" "newline \<notin> set name"
    using assms(1) nb by (auto simp: is_safe_host_name_def list_all_iff is_blank_def)
  have "dropWhile is_blank name = name" using name(1,2) by (cases name) auto
  then have h: "names_host name (''Host '' @ name)"
    using name(2) to_lower_host by (simp add: names_host_def is_host_line_def host_line_name_def is_blank_def takeWhile_eq_all_conv)
  let ?body = "[''  ProxyCommand '' @ proxy_command server auth, ''  User sandbox'', ''  IdentityFile '' @ shell_quote key,
    ''  StrictHostKeyChecking no'', ''  UserKnownHostsFile /dev/null'']"
  have "list_all (\<lambda>l. \<not> is_host_line l) ?body"
    by (simp add: is_host_line_def is_blank_def to_lower_def lower_char_def less_eq_char_def)
  moreover have "newline \<notin> set (proxy_command server auth)"
    using assms(2,4) newline_free_fixed(6) quote_free by (auto simp: proxy_command_def)
  then have "\<forall>l \<in> set ((''Host '' @ name) # ?body). newline \<notin> set l"
    using name(3) quote_free [OF assms(3)] newline_free_fixed by simp
  moreover have "build_ssh_config_block name server key auth = unlines ((''Host '' @ name) # ?body)"
    by (simp add: build_ssh_config_block_def unlines_def)
  ultimately show ?thesis using h unfolding is_block_def by blast
qed


text \<open>
  a section that is not a \<open>Host\<close> block is lost.  A block is taken to run to the next \<open>Host\<close> line, so
  a \<open>Match\<close> section that follows it, which \<open>ssh\<close> treats as a section of its own, disappears with the
  update.
\<close>

theorem match_section_lost:
  "let e = ''Host box'' @ [newline] @ ''  User u'' @ [newline] @ ''Match user root'' @ [newline] @ ''  Port 22'' @ [newline]
   in replace_host_block e ''box'' (build_ssh_config_block ''box'' ''s'' ''/k'' []) = build_ssh_config_block ''box'' ''s'' ''/k'' []"
  by code_simp

end
