(* ===== verification/ForwardCli.thy ===== *)
theory ForwardCli
  imports SshConfig Coverage
begin

text \<open>
  The command line of \<open>sandbox-forward\<close> (\<open>cmd/sandbox-forward/auth.go\<close>, \<open>proxy.go\<close>, \<open>sshsetup.go\<close>): flag
  parsing as the package \<open>flag\<close> does it, the headers the auth flags make, the plan of \<open>proxy\<close> and the
  steps of \<open>ssh-setup\<close> with their roll-back.  URL parsing, key generation, the HTTP exchange and the
  outcome of each file operation are arguments.
\<close>

section \<open>Package flag\<close>

datatype flag_kind = FString | FPair | FInt | FBool

type_synonym flag_set = "(string \<times> flag_kind) list"

definition parse_bool :: "string \<Rightarrow> bool option" where
  "parse_bool s =
     (if s \<in> set [''1'', ''t'', ''T'', ''TRUE'', ''true'', ''True''] then Some True
      else if s \<in> set [''0'', ''f'', ''F'', ''FALSE'', ''false'', ''False''] then Some False else None)"

text \<open>\<open>Set\<close> of a flag; \<open>pint\<close> is \<open>strconv.ParseInt\<close> with base 0 and its error text.  The callbacks of \<open>--cookie\<close> and \<open>--header\<close> want a \<open>=\<close>.\<close>

fun flag_set_error :: "(string \<Rightarrow> string + int) \<Rightarrow> string \<Rightarrow> flag_kind \<Rightarrow> string \<Rightarrow> string option" where
  "flag_set_error pint name FString v = None"
| "flag_set_error pint name FPair v =
     (if CHR ''='' \<in> set v then None
      else Some (''invalid value '' @ quote v @ '' for flag -'' @ name @ '': --'' @ name @ '' must be ''
             @ (if name = ''cookie'' then ''NAME'' else ''KEY'') @ ''=VALUE (got '' @ quote v @ '')''))"
| "flag_set_error pint name FInt v =
     (case pint v of Inl e \<Rightarrow> Some (''invalid value '' @ quote v @ '' for flag -'' @ name @ '': '' @ e) | Inr _ \<Rightarrow> None)"
| "flag_set_error pint name FBool v =
     (if parse_bool v = None then Some (''invalid boolean value '' @ quote v @ '' for -'' @ name @ '': parse error'') else None)"

definition flag_name :: "string \<Rightarrow> string \<times> string option" where
  "flag_name body = (case split_first (CHR ''='') (drop 1 body) of (n, v) \<Rightarrow> (take 1 body @ n, v))"

text \<open>\<open>FlagSet.Parse\<close>: the settings in order and the remaining arguments, or an error.\<close>

fun flag_parse :: "(string \<Rightarrow> string + int) \<Rightarrow> flag_set \<Rightarrow> string list \<Rightarrow> string + ((string \<times> string) list \<times> string list)" where
  "flag_parse pint fs [] = Inr ([], [])"
| "flag_parse pint fs (s # as) =
     (if length s < 2 \<or> hd s \<noteq> CHR ''-'' then Inr ([], s # as)
      else if s = ''--'' then Inr ([], as)
      else
        let body = (if s ! 1 = CHR ''-'' then drop 2 s else drop 1 s)
        in if body = [] \<or> hd body = CHR ''-'' \<or> hd body = CHR ''='' then Inl (''bad flag syntax: '' @ s)
           else
             let (name, value) = flag_name body
             in case map_of fs name of
                  None \<Rightarrow> Inl (if name = ''help'' \<or> name = ''h'' then ''flag: help requested''
                              else ''flag provided but not defined: -'' @ name)
                | Some kind \<Rightarrow>
                    (case value of
                       Some v \<Rightarrow>
                         (case flag_set_error pint name kind v of
                            Some e \<Rightarrow> Inl e
                          | None \<Rightarrow> (case flag_parse pint fs as of Inl e \<Rightarrow> Inl e | Inr (ss, r) \<Rightarrow> Inr ((name, v) # ss, r)))
                     | None \<Rightarrow>
                         if kind = FBool then
                           (case flag_parse pint fs as of Inl e \<Rightarrow> Inl e | Inr (ss, r) \<Rightarrow> Inr ((name, ''true'') # ss, r))
                         else (case as of
                                 [] \<Rightarrow> Inl (''flag needs an argument: -'' @ name)
                               | v # as' \<Rightarrow>
                                   (case flag_set_error pint name kind v of
                                      Some e \<Rightarrow> Inl e
                                    | None \<Rightarrow> (case flag_parse pint fs as' of Inl e \<Rightarrow> Inl e
                                               | Inr (ss, r) \<Rightarrow> Inr ((name, v) # ss, r))))))"

text \<open>A scalar flag keeps its last setting, a repeatable one all.\<close>

definition flag_last :: "string \<Rightarrow> string \<Rightarrow> (string \<times> string) list \<Rightarrow> string" where
  "flag_last name dflt ss = (case map_of (rev ss) name of None \<Rightarrow> dflt | Some v \<Rightarrow> v)"

definition flag_all :: "string \<Rightarrow> (string \<times> string) list \<Rightarrow> string list" where
  "flag_all name ss = map snd (filter (\<lambda>(n, _). n = name) ss)"

section \<open>Authentication\<close>

record auth_config =
  au_bearer :: string
  au_bearer_file :: string
  au_cookies :: "string list"
  au_headers :: "string list"

definition auth_flag_set :: flag_set where
  "auth_flag_set = [(''bearer'', FString), (''bearer-file'', FString), (''cookie'', FPair), (''header'', FPair)]"

definition auth_of :: "(string \<times> string) list \<Rightarrow> auth_config" where
  "auth_of ss = \<lparr>au_bearer = flag_last ''bearer'' [] ss, au_bearer_file = flag_last ''bearer-file'' [] ss,
     au_cookies = flag_all ''cookie'' ss, au_headers = flag_all ''header'' ss\<rparr>"

definition resolve_bearer :: "(string \<Rightarrow> string + string) \<Rightarrow> auth_config \<Rightarrow> string + string" where
  "resolve_bearer read a =
     (if au_bearer a \<noteq> [] \<and> au_bearer_file a \<noteq> [] then Inl ''--bearer and --bearer-file are mutually exclusive''
      else if au_bearer_file a \<noteq> [] then
        (case read (au_bearer_file a) of
           Inl e \<Rightarrow> Inl (''read bearer file: '' @ e)
         | Inr b \<Rightarrow> Inr (trim_right (\<lambda>c. c = CHR 0x0D \<or> c = newline) b))
      else Inr (au_bearer a))"

text \<open>\<open>http.Header\<close> as the list of its entries in the order of \<open>Add\<close>; \<open>canon\<close> is the canonical form of a key.\<close>

type_synonym headers = "(string \<times> string) list"

definition header_set :: "string \<Rightarrow> string \<Rightarrow> headers \<Rightarrow> headers" where
  "header_set k v h = filter (\<lambda>(k', _). k' \<noteq> k) h @ [(k, v)]"

fun add_cookies :: "string list \<Rightarrow> headers \<Rightarrow> string + headers" where
  "add_cookies [] h = Inr h"
| "add_cookies (c # cs) h =
     (if CHR ''='' \<notin> set c then Inl (''malformed cookie '' @ quote c) else add_cookies cs (h @ [(''Cookie'', c)]))"

fun add_headers :: "(string \<Rightarrow> string) \<Rightarrow> string list \<Rightarrow> headers \<Rightarrow> string + headers" where
  "add_headers canon [] h = Inr h"
| "add_headers canon (kv # kvs) h =
     (case split_first (CHR ''='') kv of
        (_, None) \<Rightarrow> Inl (''malformed header '' @ quote kv)
      | (k, Some v) \<Rightarrow> add_headers canon kvs (h @ [(canon k, v)]))"

definition auth_apply :: "(string \<Rightarrow> string) \<Rightarrow> (string \<Rightarrow> string + string) \<Rightarrow> auth_config \<Rightarrow> headers \<Rightarrow> string + headers" where
  "auth_apply canon read a h =
     (case resolve_bearer read a of
        Inl e \<Rightarrow> Inl e
      | Inr b \<Rightarrow>
          (case add_cookies (au_cookies a) (if b \<noteq> [] then header_set ''Authorization'' (''Bearer '' @ b) h else h) of
             Inl e \<Rightarrow> Inl e
           | Inr h' \<Rightarrow> add_headers canon (au_headers a) h'))"

section \<open>proxy\<close>

record url =
  url_scheme :: string
  url_host :: string
  url_path :: string
  url_query :: "(string \<times> string) list"

definition normalize_server_url :: "(string \<Rightarrow> string + url) \<Rightarrow> (url \<Rightarrow> string) \<Rightarrow> string \<Rightarrow> string + url" where
  "normalize_server_url parse hostname raw =
     (let s = trim_right (\<lambda>c. c = CHR ''/'') raw;
          s' = (if str_contains s ''://'' then s else ''https://'' @ s)
      in case parse s' of
           Inl e \<Rightarrow> Inl e
         | Inr u \<Rightarrow>
             if url_scheme u \<noteq> ''http'' \<and> url_scheme u \<noteq> ''https'' then
               Inl (''unsupported scheme '' @ quote (url_scheme u) @ '' (want http or https)'')
             else if hostname u = [] then Inl (''missing host in '' @ quote raw)
             else Inr u)"

definition build_port_forward_url :: "(string \<Rightarrow> string + url) \<Rightarrow> (url \<Rightarrow> string) \<Rightarrow> string \<Rightarrow> int \<Rightarrow> string + url" where
  "build_port_forward_url parse hostname server port =
     (case normalize_server_url parse hostname server of
        Inl e \<Rightarrow> Inl e
      | Inr u \<Rightarrow>
          Inr (u\<lparr>url_scheme := (if url_scheme u = ''http'' then ''ws'' else if url_scheme u = ''https'' then ''wss'' else url_scheme u),
                 url_path := ''/api/port-forward'',
                 url_query := filter (\<lambda>(k, _). k \<noteq> ''port'') (url_query u) @ [(''port'', dec_int port)]\<rparr>))"

datatype http_reply = HttpFailed string | HttpReply int string

definition fetch_ssh_port ::
  "(string \<Rightarrow> string + url) \<Rightarrow> (url \<Rightarrow> string) \<Rightarrow> (url \<Rightarrow> headers \<Rightarrow> http_reply) \<Rightarrow> (string \<Rightarrow> string + int) \<Rightarrow> string \<Rightarrow> headers \<Rightarrow> string + int" where
  "fetch_ssh_port parse hostname get decode server h =
     (case normalize_server_url parse hostname server of
        Inl e \<Rightarrow> Inl e
      | Inr u \<Rightarrow>
          (case get (u\<lparr>url_path := ''/api/ssh-port''\<rparr>) h of
             HttpFailed e \<Rightarrow> Inl e
           | HttpReply code body \<Rightarrow>
               if code \<noteq> 200 then Inl (''ssh-port returned '' @ dec_int code @ '': '' @ trim_space (take 1024 body))
               else (case decode body of
                       Inl e \<Rightarrow> Inl (''decode ssh-port: '' @ e)
                     | Inr p \<Rightarrow> if p \<le> 0 then Inl (''ssh-port returned non-positive port '' @ dec_int p) else Inr p)))"

datatype proxy_plan = Stdio_Tunnel url headers | Listener int url headers

definition proxy_flag_set :: flag_set where
  "proxy_flag_set = [(''server'', FString), (''port'', FInt), (''local-port'', FInt), (''ssh'', FBool), (''stdio'', FBool)] @ auth_flag_set"

record proxy_env =
  pe_int :: "string \<Rightarrow> string + int"
  pe_canon :: "string \<Rightarrow> string"
  pe_read :: "string \<Rightarrow> string + string"
  pe_parse :: "string \<Rightarrow> string + url"
  pe_hostname :: "url \<Rightarrow> string"
  pe_get :: "url \<Rightarrow> headers \<Rightarrow> http_reply"
  pe_decode :: "string \<Rightarrow> string + int"

definition int_flag :: "proxy_env \<Rightarrow> string \<Rightarrow> (string \<times> string) list \<Rightarrow> int" where
  "int_flag e name ss = (case map_of (rev ss) name of None \<Rightarrow> 0 | Some v \<Rightarrow> (case pe_int e v of Inl _ \<Rightarrow> 0 | Inr n \<Rightarrow> n))"

definition bool_flag :: "string \<Rightarrow> (string \<times> string) list \<Rightarrow> bool" where
  "bool_flag name ss \<longleftrightarrow> (case map_of (rev ss) name of None \<Rightarrow> False | Some v \<Rightarrow> parse_bool v = Some True)"

text \<open>\<open>runProxy\<close> up to the tunnel it opens.\<close>

definition run_proxy :: "proxy_env \<Rightarrow> string list \<Rightarrow> string + proxy_plan" where
  "run_proxy e as =
     (case flag_parse (pe_int e) proxy_flag_set as of
        Inl err \<Rightarrow> Inl err
      | Inr (ss, _) \<Rightarrow>
          let server = flag_last ''server'' [] ss; ssh = bool_flag ''ssh'' ss; stdio = (ssh \<or> bool_flag ''stdio'' ss);
              port = int_flag e ''port'' ss; lport = int_flag e ''local-port'' ss
          in if server = [] then Inl ''--server is required''
             else if \<not> ssh \<and> port = 0 then Inl ''--port is required (or pass --ssh to resolve it)''
             else case auth_apply (pe_canon e) (pe_read e) (auth_of ss) [] of
                    Inl err \<Rightarrow> Inl err
                  | Inr h \<Rightarrow>
                      (case (if ssh then fetch_ssh_port (pe_parse e) (pe_hostname e) (pe_get e) (pe_decode e) server h else Inr port) of
                         Inl err \<Rightarrow> Inl (''resolve ssh port: '' @ err)
                       | Inr p \<Rightarrow>
                           (case build_port_forward_url (pe_parse e) (pe_hostname e) server p of
                              Inl err \<Rightarrow> Inl (''build ws url: '' @ err)
                            | Inr u \<Rightarrow> if stdio then Inr (Stdio_Tunnel u h)
                                       else Inr (Listener (if lport = 0 then port else lport) u h))))"

section \<open>ssh-setup\<close>

record setup_state =
  st_priv :: "string option"
  st_pub :: "string option"
  st_posted :: "string list"
  st_config :: "string option"

text \<open>
  What the steps of one run answer; an error is \<open>Some\<close> text or \<open>Inl\<close>.  A failing
  \<open>os.WriteFile\<close> also says what it leaves of the file, which it truncates first.
\<close>

record setup_env =
  su_home :: "string + string"
  su_mkdir_keys :: "string option"
  su_keygen :: "string + (string \<times> string)"
  su_write_priv :: "(string \<times> string option) option"
  su_write_pub :: "(string \<times> string option) option"
  su_post :: "url \<Rightarrow> headers \<Rightarrow> string \<Rightarrow> http_reply"
  su_mkdir_ssh :: "string option"
  su_config :: "string option"

text \<open>\<open>upsertSSHConfigBlock\<close>: a failing read, temporary file, chmod, close or rename leaves the file.\<close>

definition upsert_ssh_config_block :: "string option \<Rightarrow> string \<Rightarrow> string \<Rightarrow> setup_state \<Rightarrow> string option \<times> setup_state" where
  "upsert_ssh_config_block flt name block st =
     (case flt of
        Some e \<Rightarrow> (Some e, st)
      | None \<Rightarrow>
          (None, st\<lparr>st_config := Some (replace_host_block (case st_config st of None \<Rightarrow> [] | Some c \<Rightarrow> c) name block)\<rparr>))"

definition post_authorized_key :: "proxy_env \<Rightarrow> (url \<Rightarrow> headers \<Rightarrow> string \<Rightarrow> http_reply) \<Rightarrow> string \<Rightarrow> headers \<Rightarrow> string \<Rightarrow> string option" where
  "post_authorized_key e post server h pub =
     (case normalize_server_url (pe_parse e) (pe_hostname e) server of
        Inl err \<Rightarrow> Some err
      | Inr u \<Rightarrow>
          (case post (u\<lparr>url_path := ''/api/ssh-authorized-keys''\<rparr>) (header_set ''Content-Type'' ''application/json'' [] @ h) pub of
             HttpFailed err \<Rightarrow> Some err
           | HttpReply code body \<Rightarrow>
               if code < 200 \<or> 300 \<le> code then Some (''status '' @ dec_int code @ '': '' @ trim_space (take 1024 body)) else None))"

definition setup_flag_set :: flag_set where
  "setup_flag_set = (''server'', FString) # auth_flag_set"

definition run_ssh_setup :: "proxy_env \<Rightarrow> setup_env \<Rightarrow> string list \<Rightarrow> setup_state \<Rightarrow> string option \<times> setup_state" where
  "run_ssh_setup e su as st =
     (case flag_parse (pe_int e) setup_flag_set as of
        Inl err \<Rightarrow> (Some err, st)
      | Inr (ss, rest) \<Rightarrow>
          if length rest \<noteq> 1 then (Some ''ssh-setup requires exactly one NAME argument'', st)
          else
            let name = hd rest; server = flag_last ''server'' [] ss
            in if \<not> is_safe_host_name name then (Some (''NAME must match [A-Za-z0-9_-]+ (got '' @ quote name @ '')''), st)
               else if server = [] then (Some ''--server is required'', st)
               else case auth_apply (pe_canon e) (pe_read e) (auth_of ss) [] of
                 Inl err \<Rightarrow> (Some err, st)
               | Inr h \<Rightarrow>
                 (case su_home su of
                    Inl err \<Rightarrow> (Some (''home dir: '' @ err), st)
                  | Inr home \<Rightarrow>
                    (case su_mkdir_keys su of
                       Some err \<Rightarrow> (Some (''mkdir keys dir: '' @ err), st)
                     | None \<Rightarrow>
                       let priv = fp_join (fp_join (fp_join (fp_join home ''.config'') ''sandbox'') ''keys'') name
                       in case su_keygen su of
                         Inl err \<Rightarrow> (Some (''generate key: '' @ err), st)
                       | Inr (pem, pub) \<Rightarrow>
                         (case su_write_priv su of
                            Some (err, left) \<Rightarrow> (Some (''write private key: '' @ err), st\<lparr>st_priv := left\<rparr>)
                          | None \<Rightarrow>
                            let st1 = st\<lparr>st_priv := Some pem\<rparr>
                            in case su_write_pub su of
                              Some (err, left) \<Rightarrow> (Some (''write public key: '' @ err), st1\<lparr>st_priv := None, st_pub := left\<rparr>)
                            | None \<Rightarrow>
                              let st2 = st1\<lparr>st_pub := Some (pub @ [newline])\<rparr>
                              in case post_authorized_key e (su_post su) server h pub of
                                Some err \<Rightarrow> (Some (''POST /api/ssh-authorized-keys: '' @ err), st2\<lparr>st_priv := None, st_pub := None\<rparr>)
                              | None \<Rightarrow>
                                let st3 = st2\<lparr>st_posted := st_posted st2 @ [pub]\<rparr>
                                in case su_mkdir_ssh su of
                                  Some err \<Rightarrow> (Some (''mkdir .ssh: '' @ err), st3)
                                | None \<Rightarrow>
                                  (case upsert_ssh_config_block (su_config su) name
                                          (build_ssh_config_block name server priv (extract_auth_args as)) st3 of
                                     (Some err, st4) \<Rightarrow> (Some (''update ssh config: '' @ err), st4)
                                   | (None, st4) \<Rightarrow> (None, st4))))))"

section \<open>What the commands guarantee\<close>

fun plan_url :: "proxy_plan \<Rightarrow> url" where
  "plan_url (Stdio_Tunnel u h) = u"
| "plan_url (Listener p u h) = u"

fun is_stdio :: "proxy_plan \<Rightarrow> bool" where
  "is_stdio (Stdio_Tunnel u h) = True"
| "is_stdio (Listener p u h) = False"

lemma build_port_forward_url_ok:
  "build_port_forward_url parse hostname server p = Inr u \<Longrightarrow>
     url_scheme u \<in> {''ws'', ''wss''} \<and> url_path u = ''/api/port-forward''
     \<and> filter (\<lambda>(k, _). k = ''port'') (url_query u) = [(''port'', dec_int p)]"
  by (auto simp: build_port_forward_url_def normalize_server_url_def Let_def filter_empty_conv split: sum.splits if_splits)

text \<open>
  the tunnel goes where the flags say.  A plan of \<open>proxy\<close> always targets \<open>/api/port-forward\<close> over
  \<open>ws\<close> or \<open>wss\<close> with exactly one \<open>port\<close>; with \<open>--ssh\<close> it is a stdio tunnel to the positive port the
  server reported, without it the port is the one given, and never 0.
\<close>

theorem run_proxy_plan:
  assumes "flag_parse (pe_int e) proxy_flag_set as = Inr (ss, rest)" "run_proxy e as = Inr plan"
  shows "url_scheme (plan_url plan) \<in> {''ws'', ''wss''} \<and> url_path (plan_url plan) = ''/api/port-forward''
    \<and> (\<exists>p. filter (\<lambda>(k, _). k = ''port'') (url_query (plan_url plan)) = [(''port'', dec_int p)]
         \<and> (if bool_flag ''ssh'' ss then 0 < p \<and> is_stdio plan else p = int_flag e ''port'' ss \<and> p \<noteq> 0
              \<and> (is_stdio plan \<longleftrightarrow> bool_flag ''stdio'' ss)))"
proof -
  let ?ssh = "bool_flag ''ssh'' ss"
  obtain h where h: "auth_apply (pe_canon e) (pe_read e) (auth_of ss) [] = Inr h"
    and np: "?ssh \<or> int_flag e ''port'' ss \<noteq> 0"
    using assms by (auto simp: run_proxy_def Let_def split: sum.splits if_splits)
  let ?srv = "flag_last ''server'' [] ss"
  obtain p where p: "(if ?ssh then fetch_ssh_port (pe_parse e) (pe_hostname e) (pe_get e) (pe_decode e) ?srv h
      else Inr (int_flag e ''port'' ss)) = Inr p"
    using assms h unfolding run_proxy_def Let_def by (auto split: sum.splits if_splits)
  obtain u where u: "build_port_forward_url (pe_parse e) (pe_hostname e) ?srv p = Inr u"
    using assms h p unfolding run_proxy_def Let_def by (auto split: sum.splits if_splits)
  have plan: "plan_url plan = u" "is_stdio plan \<longleftrightarrow> ?ssh \<or> bool_flag ''stdio'' ss"
    using assms h p u unfolding run_proxy_def Let_def by (auto split: sum.splits if_splits)
  have "0 < p" if ?ssh
    using p that by (auto simp: fetch_ssh_port_def split: sum.splits http_reply.splits if_splits)
  then show ?thesis using build_port_forward_url_ok [OF u] plan p np
    by (intro conjI exI [of _ p]) (auto split: if_splits)
qed

definition demo_url :: "string \<Rightarrow> string + url" where
  "demo_url s = Inr \<lparr>url_scheme = ''https'', url_host = ''s'', url_path = [], url_query = []\<rparr>"

definition demo_env :: proxy_env where
  "demo_env = \<lparr>pe_int = (\<lambda>s. if s \<noteq> [] \<and> list_all is_digit s then Inr (int (digits_val s)) else Inl ''parse error''), pe_canon = (\<lambda>k. k),
     pe_read = (\<lambda>_. Inl ''no file''), pe_parse = demo_url, pe_hostname = url_host,
     pe_get = (\<lambda>_ _. HttpReply 200 ''22''), pe_decode = (\<lambda>b. Inr (int (digits_val b)))\<rparr>"

theorem run_proxy_plan_witness:
  "\<exists>plan. run_proxy demo_env [''--server'', ''s'', ''--ssh''] = Inr plan \<and> url_path (plan_url plan) = ''/api/port-forward''"
proof -
  have a: "flag_parse (pe_int demo_env) proxy_flag_set [''--server'', ''s'', ''--ssh''] = Inr ([(''server'', ''s''), (''ssh'', ''true'')], [])"
    by code_simp
  obtain plan where r: "run_proxy demo_env [''--server'', ''s'', ''--ssh''] = Inr plan"
  proof (rule that)
    show "run_proxy demo_env [''--server'', ''s'', ''--ssh'']
      = Inr (Stdio_Tunnel \<lparr>url_scheme = ''wss'', url_host = ''s'', url_path = ''/api/port-forward'', url_query = [(''port'', ''22'')]\<rparr> [])"
      by code_simp
  qed
  with run_proxy_plan [OF a r] show ?thesis by blast
qed

text \<open>The setup past its checks, step by step.\<close>

lemma run_ssh_setup_cases:
  assumes "run_ssh_setup e su as st = (res, st')"
  obtains (early) err where "res = Some err" "st' = st"
  | (no_priv) err left where "\<exists>m. res = Some m" "su_write_priv su = Some (err, left)" "st' = st\<lparr>st_priv := left\<rparr>"
  | (no_pub) err left where "\<exists>m. res = Some m" "su_write_pub su = Some (err, left)" "st' = st\<lparr>st_priv := None, st_pub := left\<rparr>"
  | (rolled_back) err where "res = Some err" "st' = st\<lparr>st_priv := None, st_pub := None\<rparr>"
  | (late) err pem pub where "res = Some err"
      "st' = st\<lparr>st_priv := Some pem, st_pub := Some (pub @ [newline]), st_posted := st_posted st @ [pub]\<rparr>"
  | (done_all) name server key pem pub where "res = None" "is_safe_host_name name" "server \<noteq> []"
      "st' = st\<lparr>st_priv := Some pem, st_pub := Some (pub @ [newline]), st_posted := st_posted st @ [pub],
         st_config := Some (replace_host_block (case st_config st of None \<Rightarrow> [] | Some c \<Rightarrow> c) name
           (build_ssh_config_block name server key (extract_auth_args as)))\<rparr>"
proof (cases "flag_parse (pe_int e) setup_flag_set as")
  case (Inl err)
  then show thesis using assms early by (auto simp: run_ssh_setup_def)
next
  case (Inr sr)
  obtain ss rest where sr: "sr = (ss, rest)" by (cases sr)
  note r = assms [unfolded run_ssh_setup_def Inr sr Let_def sum.case prod.case]
  show thesis
  proof (cases "length rest \<noteq> 1 \<or> \<not> is_safe_host_name (hd rest) \<or> flag_last ''server'' [] ss = []")
    case True
    then show thesis using r early by (auto split: if_splits)
  next
    case ok: False
    then have r2: "(case auth_apply (pe_canon e) (pe_read e) (auth_of ss) [] of Inl err \<Rightarrow> False | Inr _ \<Rightarrow> True)
        \<and> \<not> isl (su_home su) \<and> su_mkdir_keys su = None \<and> \<not> isl (su_keygen su) \<or> (\<exists>err. res = Some err \<and> st' = st)"
      using r by (auto split: sum.splits option.splits if_splits prod.splits)
    show thesis
    proof (cases "\<exists>err. res = Some err \<and> st' = st")
      case True
      then show thesis using early by blast
    next
      case False
      with r2 obtain h home pem pub where ok2: "auth_apply (pe_canon e) (pe_read e) (auth_of ss) [] = Inr h" "su_home su = Inr home"
        "su_mkdir_keys su = None" "su_keygen su = Inr (pem, pub)"
        by (cases "su_home su"; cases "su_keygen su") (auto split: sum.splits)
      note r3 = r [unfolded ok2 sum.case option.case prod.case]
      show thesis
        using r3 ok no_priv no_pub rolled_back late done_all
        by (cases "su_write_priv su"; cases "su_write_pub su"; cases "post_authorized_key e (su_post su) (flag_last ''server'' [] ss) h pub";
            cases "su_mkdir_ssh su"; cases "su_config su")
          (auto simp: upsert_ssh_config_block_def)
    qed
  qed
qed


definition demo_setup :: setup_env where
  "demo_setup = \<lparr>su_home = Inr ''/home/u'', su_mkdir_keys = None, su_keygen = Inr (''PEM'', ''ssh-ed25519 AAA box''),
     su_write_priv = None, su_write_pub = None, su_post = (\<lambda>_ _ _. HttpReply 503 []), su_mkdir_ssh = None, su_config = None\<rparr>"

definition demo_setup_state :: setup_state where
  "demo_setup_state = \<lparr>st_priv = Some ''OLD'', st_pub = Some ''old'', st_posted = [''old''], st_config = Some ''Host box''\<rparr>"

lemma demo_setup_run:
  "run_ssh_setup demo_env demo_setup [''--server'', ''s'', ''box''] demo_setup_state
     = (Some ''POST /api/ssh-authorized-keys: status 503: '', demo_setup_state\<lparr>st_priv := None, st_pub := None\<rparr>)"
  by code_simp


text \<open>
  the documented command line does not work.  The usage text puts the name before the flags, but
  flag parsing stops at the first argument that is no flag: every call that starts with a name and
  goes on is refused.
\<close>

theorem documented_usage_refused:
  assumes "length name < 2 \<or> hd name \<noteq> CHR ''-''" "as \<noteq> []"
  shows "run_ssh_setup e su (name # as) st = (Some ''ssh-setup requires exactly one NAME argument'', st)"
  using assms by (cases as) (auto simp: run_ssh_setup_def)

theorem documented_usage_refused_witness:
  "run_ssh_setup demo_env demo_setup [''box'', ''--server'', ''s''] demo_setup_state
     = (Some ''ssh-setup requires exactly one NAME argument'', demo_setup_state)"
  by (rule documented_usage_refused) simp_all

text \<open>
  a failed rerun destroys working keys.  When \<open>ssh-setup\<close> runs again for a name that is set up
  and the server refuses the new key, the roll-back removes the files of the earlier, still
  accepted key, while the configuration keeps pointing at them.
\<close>

theorem rerun_destroys_keys:
  "\<exists>e su as st st' err. st_priv st \<noteq> None \<and> st_posted st \<noteq> [] \<and> run_ssh_setup e su as st = (Some err, st')
     \<and> st_priv st' = None \<and> st_pub st' = None \<and> st_posted st' = st_posted st \<and> st_config st' = st_config st"
  using demo_setup_run by (intro exI [of _ demo_env] exI [of _ demo_setup] exI [of _ "[''--server'', ''s'', ''box'']"]
    exI [of _ demo_setup_state] exI) (auto simp: demo_setup_state_def)

end
