(* ===== verification/LspWire.thy ===== *)
theory LspWire
  imports Coverage
begin

text \<open>
  The frames of the language-server protocol (\<open>internal/lsp/wire.go\<close>): a header with the length of
  the body, an empty line, the body.  The input is what the server writes until its output closes.
  \<open>make([]byte, n)\<close> panics when \<open>n\<close> bytes cannot be allocated, which is a result of its own.
\<close>

section \<open>Writing and reading one message\<close>

definition crlf :: string where "crlf = [CHR 0x0D, newline]"

definition write_message :: "string \<Rightarrow> string" where
  "write_message body = ''Content-Length: '' @ dec_nat (length body) @ crlf @ crlf @ body"

definition content_length_prefix :: string where "content_length_prefix = ''Content-Length:''"

definition parse_content_length_line :: "string \<Rightarrow> nat option" where
  "parse_content_length_line line =
     (if \<not> has_prefix line content_length_prefix then None
      else case go_atoi (trim_space (drop (length content_length_prefix) line)) of
             None \<Rightarrow> None
           | Some v \<Rightarrow> if v < 0 then None else Some (nat v))"

definition is_eol :: "char \<Rightarrow> bool" where "is_eol c \<longleftrightarrow> c = CHR 0x0D \<or> c = newline"

text \<open>The header loop; \<open>len\<close> is the last length seen.\<close>

function read_content_length :: "nat option \<Rightarrow> string \<Rightarrow> string + (nat \<times> string)" where
  "read_content_length len s =
     (case split_first newline s of
        (_, None) \<Rightarrow> Inl ''lsp: read header: EOF''
      | (l, Some rest) \<Rightarrow>
          let line = trim_right is_eol l
          in if line = [] then (case len of None \<Rightarrow> Inl ''lsp: missing Content-Length header'' | Some n \<Rightarrow> Inr (n, rest))
             else read_content_length (case parse_content_length_line line of None \<Rightarrow> len | Some v \<Rightarrow> Some v) rest)"
  by pat_completeness auto
termination by (relation "measure (\<lambda>(_, s). length s)") (auto dest!: split_first_shorter [OF sym])

declare read_content_length.simps [simp del]

datatype wire_frame = Frame string string | FrameError string | AllocPanic

definition read_message :: "(nat \<Rightarrow> bool) \<Rightarrow> string \<Rightarrow> wire_frame" where
  "read_message alloc s =
     (case read_content_length None s of
        Inl e \<Rightarrow> FrameError e
      | Inr (n, rest) \<Rightarrow>
          if \<not> alloc n then AllocPanic
          else if length rest < n then
            FrameError (''lsp: read body: '' @ (if rest = [] then ''EOF'' else ''unexpected EOF''))
          else Frame (take n rest) (drop n rest))"

text \<open>The frames of an input in order, as the read loop takes them, and why it ends.\<close>

datatype loop_end = LoopError string | LoopPanic

lemma read_content_length_shorter: "read_content_length len s = Inr (n, rest) \<Longrightarrow> length rest < length s"
proof (induction len s rule: read_content_length.induct)
  case (1 len s)
  obtain l r where lr: "split_first newline s = (l, r)" by (cases "split_first newline s")
  with 1(2) obtain rest' where r: "r = Some rest'"
    by (cases r) (simp_all add: read_content_length.simps [of len s])
  note short = split_first_shorter [OF lr [unfolded r]]
  show ?case
  proof (cases "trim_right is_eol l = []")
    case True
    with 1(2) lr r short show ?thesis by (simp add: read_content_length.simps [of len s] split: option.splits)
  next
    case False
    with 1(2) lr r
    have "read_content_length (case parse_content_length_line (trim_right is_eol l) of None \<Rightarrow> len | Some v \<Rightarrow> Some v) rest' = Inr (n, rest)"
      by (simp add: read_content_length.simps [of len s])
    with 1(1) [OF lr [symmetric] r refl False] short show ?thesis by simp
  qed
qed

lemma read_message_shorter: "read_message alloc s = Frame b rest \<Longrightarrow> length rest < length s"
  by (auto simp: read_message_def split: sum.splits prod.splits if_splits dest!: read_content_length_shorter)

function read_frames :: "(nat \<Rightarrow> bool) \<Rightarrow> string \<Rightarrow> string list \<times> loop_end" where
  "read_frames alloc s =
     (case read_message alloc s of
        Frame b rest \<Rightarrow> (let (bs, e) = read_frames alloc rest in (b # bs, e))
      | FrameError e \<Rightarrow> ([], LoopError e)
      | AllocPanic \<Rightarrow> ([], LoopPanic))"
  by pat_completeness auto
termination by (relation "measure (\<lambda>(_, s). length s)") (auto dest: read_message_shorter)

declare read_frames.simps [simp del]

section \<open>Round trips\<close>

lemma dec_nat_plain: "newline \<notin> set (dec_nat n)" "CHR 0x0D \<notin> set (dec_nat n)"
  by (auto simp: is_digit_def less_eq_char_def dest!: dec_nat_digits)

lemma trim_space_digits: "trim_space (CHR '' '' # dec_nat n) = dec_nat n"
proof -
  have ns: "\<not> is_space c" if "c \<in> set (dec_nat n)" for c
    using dec_nat_digits [OF that] by (auto simp: is_digit_def is_space_def less_eq_char_def)
  have "dropWhile is_space (dec_nat n) = dec_nat n"
    using ns [OF hd_in_set [OF dec_nat_ne]] by (cases "dec_nat n") auto
  moreover have "dropWhile is_space (rev (dec_nat n)) = rev (dec_nat n)"
    using ns [OF last_in_set [OF dec_nat_ne]] by (cases "rev (dec_nat n)") (auto simp: last_rev hd_rev [symmetric] dest: arg_cong [of _ _ hd])
  ultimately show ?thesis by (simp add: trim_space_def trim_right_def is_space_def)
qed

lemma go_atoi_dec_nat: "n < 2 ^ 63 \<Longrightarrow> go_atoi (dec_nat n) = Some (int n)"
proof -
  assume n: "n < 2 ^ 63"
  obtain c r where c: "dec_nat n = c # r" by (cases "dec_nat n") auto
  then have "is_digit c" using dec_nat_digits [of c n] by simp
  then have sign: "c \<noteq> CHR ''-''" "c \<noteq> CHR ''+''" by (auto simp: is_digit_def less_eq_char_def)
  have digs: "list_all is_digit (c # r)" unfolding c [symmetric] list_all_iff using dec_nat_digits by blast
  have val: "digits_val (c # r) = n" unfolding c [symmetric] by simp
  have "int n < 2 ^ 63" using n by simp
  then show ?thesis using sign digs by (simp add: go_atoi_def c val)
qed

lemma parse_own_header:
  assumes "n < 2 ^ 63"
  shows "parse_content_length_line (''Content-Length: '' @ dec_nat n) = Some n"
proof -
  have "drop (length content_length_prefix) (''Content-Length: '' @ dec_nat n) = CHR '' '' # dec_nat n"
    by (simp add: content_length_prefix_def)
  moreover have "has_prefix (''Content-Length: '' @ dec_nat n) content_length_prefix"
    by (simp add: has_prefix_def content_length_prefix_def)
  ultimately show ?thesis using assms
    by (simp add: parse_content_length_line_def trim_space_digits go_atoi_dec_nat)
qed

lemma trim_header_line: "trim_right is_eol (''Content-Length: '' @ dec_nat n @ [CHR 0x0D]) = ''Content-Length: '' @ dec_nat n"
proof -
  have "\<not> is_eol (last (dec_nat n))"
    using dec_nat_plain [of n] last_in_set [OF dec_nat_ne [of n]] by (metis is_eol_def)
  then show ?thesis using dec_nat_ne [of n]
    by (cases "dec_nat n" rule: rev_cases) (auto simp: trim_right_def is_eol_def)
qed

lemma read_own_header:
  assumes "n < 2 ^ 63"
  shows "read_content_length None (''Content-Length: '' @ dec_nat n @ crlf @ crlf @ rest) = Inr (n, rest)"
proof -
  define l where "l = ''Content-Length: '' @ dec_nat n @ [CHR 0x0D]"
  have trimmed: "trim_right is_eol l = ''Content-Length: '' @ dec_nat n" unfolding l_def by (rule trim_header_line)
  have "newline \<notin> set l" using dec_nat_plain by (simp add: l_def)
  then have "split_first newline (l @ newline # crlf @ rest) = (l, Some (crlf @ rest))" by (rule split_first_append)
  then have "read_content_length None (l @ newline # crlf @ rest) = read_content_length (Some n) (crlf @ rest)"
    using parse_own_header [OF assms]
    by (subst read_content_length.simps) (simp only: prod.case option.case trimmed Let_def, simp)
  also have "\<dots> = Inr (n, rest)"
    by (subst read_content_length.simps) (simp add: crlf_def trim_right_def is_eol_def)
  finally show ?thesis by (simp add: crlf_def l_def)
qed

lemma read_written:
  assumes "length body < 2 ^ 63" "alloc (length body)"
  shows "read_message alloc (write_message body @ rest) = Frame body rest"
  using assms read_own_header [OF assms(1)] by (simp add: read_message_def write_message_def)

definition header_line :: "nat \<Rightarrow> string" where
  "header_line n = ''Content-Length: '' @ dec_nat n @ crlf"

lemma write_message_header: "write_message body = header_line (length body) @ crlf @ body"
  by (simp add: write_message_def header_line_def)

lemma prefix_append_cases:
  assumes "prefix p (a @ b)"
  obtains (short) "strict_prefix p a" | (long) q where "p = a @ q" "prefix q b"
  using assms by (cases "p = a") (auto simp: prefix_append strict_prefix_def)

lemma header_line_cut:
  assumes "strict_prefix p (header_line n)"
  shows "newline \<notin> set p"
proof -
  define l where "l = ''Content-Length: '' @ dec_nat n @ [CHR 0x0D]"
  have "header_line n = l @ [newline]" by (simp add: header_line_def crlf_def l_def)
  with assms have "prefix p l" by (auto simp: strict_prefix_def)
  moreover have "newline \<notin> set l" using dec_nat_plain by (simp add: l_def)
  ultimately show ?thesis by (auto dest: set_mono_prefix)
qed

lemma truncated_is_error:
  assumes "strict_prefix p (write_message body)" "length body < 2 ^ 63" "alloc (length body)"
  shows "\<exists>e. read_message alloc p = FrameError e"
proof -
  let ?n = "length body"
  have "prefix p (header_line ?n @ crlf @ body)" "p \<noteq> header_line ?n @ crlf @ body"
    using assms(1) by (auto simp: write_message_header strict_prefix_def)
  then show ?thesis
  proof (cases rule: prefix_append_cases)
    case short
    then have "split_first newline p = (p, None)" by (intro split_first_none header_line_cut)
    then show ?thesis by (simp add: read_message_def read_content_length.simps)
  next
    case (long q)
    from long(2) show ?thesis
    proof (cases rule: prefix_append_cases)
      case short
      then have q: "newline \<notin> set q" "q = [] \<or> q = [CHR 0x0D]"
        by (auto simp: strict_prefix_def crlf_def prefix_Cons)
      define l where "l = ''Content-Length: '' @ dec_nat ?n @ [CHR 0x0D]"
      have p: "p = l @ newline # q" by (simp add: long l_def header_line_def crlf_def)
      have "newline \<notin> set l" using dec_nat_plain by (simp add: l_def)
      then have "split_first newline p = (l, Some q)" unfolding p by (rule split_first_append)
      moreover have "trim_right is_eol l = ''Content-Length: '' @ dec_nat ?n" unfolding l_def by (rule trim_header_line)
      ultimately have "read_content_length None p = read_content_length (Some ?n) q"
        using parse_own_header [OF assms(2)] by (subst read_content_length.simps) (simp add: Let_def)
      also have "\<dots> = Inl ''lsp: read header: EOF''"
        using split_first_none [OF q(1)] by (simp add: read_content_length.simps)
      finally show ?thesis by (simp add: read_message_def)
    next
      case body: (long b)
      have "p = ''Content-Length: '' @ dec_nat ?n @ crlf @ crlf @ b" using long body by (simp add: header_line_def)
      moreover have "length b < ?n"
        using body long \<open>p \<noteq> _\<close> prefix_length_less [of b body] by (auto simp: strict_prefix_def)
      ultimately show ?thesis using read_own_header [OF assms(2), of b] by (simp add: read_message_def assms(3))
    qed
  qed
qed

text \<open>
  C14: framing is exact, wherever the stream is cut.  If the server has written any initial part of a
  sequence of messages, the read loop delivers exactly the messages that are complete in it, unchanged
  and in order, and then ends with an error; it never delivers a partial body and never panics.
\<close>

theorem frames_of_prefix:
  assumes "\<forall>m \<in> set ms. length m < 2 ^ 63 \<and> alloc (length m)" "prefix p (concat (map write_message ms))"
  shows "\<exists>k \<le> length ms. \<exists>e. read_frames alloc p = (take k ms, LoopError e)
    \<and> length (concat (map write_message (take k ms))) \<le> length p
    \<and> (k < length ms \<longrightarrow> length p < length (concat (map write_message (take (Suc k) ms))))"
  using assms
proof (induction ms arbitrary: p)
  case Nil
  then have "read_frames alloc p = ([], LoopError ''lsp: read header: EOF'')"
    by (simp add: read_frames.simps [of alloc "[]"] read_message_def read_content_length.simps)
  then show ?case by simp
next
  case (Cons m ms)
  then have m: "length m < 2 ^ 63" "alloc (length m)" by auto
  have "prefix p (write_message m @ concat (map write_message ms))" using Cons.prems(2) by simp
  then show ?case
  proof (cases rule: prefix_append_cases)
    case short
    then obtain e where "read_message alloc p = FrameError e" using truncated_is_error m by blast
    then have "read_frames alloc p = (take 0 (m # ms), LoopError e)" by (simp add: read_frames.simps [of alloc p])
    moreover have "length p < length (write_message m)" using short by (rule prefix_length_less)
    ultimately show ?thesis by (intro exI [of _ 0]) auto
  next
    case (long q)
    obtain k e where k: "k \<le> length ms" "read_frames alloc q = (take k ms, LoopError e)"
      "length (concat (map write_message (take k ms))) \<le> length q"
      "k < length ms \<longrightarrow> length q < length (concat (map write_message (take (Suc k) ms)))"
      using Cons.IH [of q] Cons.prems(1) long(2) by auto
    have "read_frames alloc p = (m # take k ms, LoopError e)"
      using read_written [of m alloc q, OF m] k(2) by (subst read_frames.simps) (simp add: long(1))
    then show ?thesis using k long(1) by (intro exI [of _ "Suc k"]) auto
  qed
qed

theorem frames_of_prefix_witness:
  "\<exists>e. read_frames (\<lambda>n. n < 100) (write_message ''{}'' @ ''Content-Le'') = ([''{}''], LoopError e)"
proof -
  have "prefix (write_message ''{}'' @ ''Content-Le'') (concat (map write_message [''{}'', ''[]'']))"
    by (simp add: write_message_def)
  then obtain k e where k: "k \<le> length [''{}'', ''[]'']"
    "read_frames (\<lambda>n. n < 100) (write_message ''{}'' @ ''Content-Le'') = (take k [''{}'', ''[]''], LoopError e)"
    "length (concat (map write_message (take k [''{}'', ''[]'']))) \<le> length (write_message ''{}'' @ ''Content-Le'')"
    "k < length [''{}'', ''[]''] \<longrightarrow>
       length (write_message ''{}'' @ ''Content-Le'') < length (concat (map write_message (take (Suc k) [''{}'', ''[]''])))"
    using frames_of_prefix [of "[''{}'', ''[]'']" "\<lambda>n. n < 100" "write_message ''{}'' @ ''Content-Le''"] by (auto simp del: length_append)
  have "length (write_message ''{}'') = 23" "length (write_message ''[]'') = 23" by code_simp+
  moreover have "k = 0 \<or> k = 1 \<or> k = 2" using k(1) by auto
  ultimately have "k = 1" using k(3,4) by (auto simp: numeral_2_eq_2)
  with k(2) show ?thesis by simp
qed

text \<open>
  the length is trusted.  A server that announces more than can be allocated takes the whole
  sandbox down: the loop does not end with an error but with the panic of \<open>make\<close>, before a byte of the
  body has come.
\<close>

theorem announced_length_panics:
  assumes "n < 2 ^ 63" "\<not> alloc n"
  shows "read_frames alloc (header_line n @ crlf @ rest) = ([], LoopPanic)"
proof -
  have "read_content_length None (header_line n @ crlf @ rest) = Inr (n, rest)"
    using read_own_header [OF assms(1), of rest] by (simp add: header_line_def)
  then have "read_message alloc (header_line n @ crlf @ rest) = AllocPanic" using assms(2) by (simp add: read_message_def)
  then show ?thesis by (subst read_frames.simps) simp
qed

theorem announced_length_panics_witness:
  "read_frames (\<lambda>n. n < 2 ^ 47) (header_line (2 ^ 62) @ crlf @ ''{}'') = ([], LoopPanic)"
  by (rule announced_length_panics) simp_all

end
