(* ===== verification/LspClient.thy ===== *)
theory LspClient
  imports LspWire Verify "HOL-Library.AList"
begin

text \<open>
  The language-server client (\<open>internal/lsp/client.go\<close>, \<open>types.go\<close>): file URIs, the decoding of
  answers, the request table with its read loop, and the operations \<open>Start\<close>, \<open>Definition\<close>,
  \<open>References\<close>, \<open>Rename\<close> and \<open>Shutdown\<close>.

  A request is answered through a channel of capacity one, kept in \<open>cl_box\<close>; \<open>cl_inflight\<close> holds
  the numbers that are registered.  Each locked region of the code is one operation here.  What the
  server does is an argument: the events that arrive while a request waits, in order.  A wait whose
  events run out has no result (\<open>None\<close>): the call never returns.
\<close>

section \<open>File URIs\<close>

definition hex_digit :: "nat \<Rightarrow> char" where
  "hex_digit n = (if n < 10 then digit_char n else char_of (55 + n))"

definition path_keeps :: "char \<Rightarrow> bool" where
  "path_keeps c \<longleftrightarrow> between (CHR ''a'') (CHR ''z'') c \<or> between (CHR ''A'') (CHR ''Z'') c \<or> is_digit c \<or> c \<in> set ''-_.~$&+,/:;=@''"

definition escape_char :: "char \<Rightarrow> string" where
  "escape_char c = (if path_keeps c then [c] else [CHR ''%'', hex_digit (of_char c div 16), hex_digit (of_char c mod 16)])"

definition path_to_uri :: "string \<Rightarrow> string" where
  "path_to_uri p = ''file://'' @ concat (map escape_char p)"

fun url_unescape :: "string \<Rightarrow> string option" where
  "url_unescape [] = Some []"
| "url_unescape (c # s) =
     (if c \<noteq> CHR ''%'' then map_option (Cons c) (url_unescape s)
      else case s of
             a # b # r \<Rightarrow>
               (case (hex_val a, hex_val b) of
                  (Some x, Some y) \<Rightarrow> map_option (Cons (char_of (16 * x + y))) (url_unescape r)
                | _ \<Rightarrow> None)
           | _ \<Rightarrow> None)"

text \<open>
  \<open>url.Parse\<close> as far as \<open>uriToPath\<close> looks at it: \<open>Some p\<close> for a URI of scheme \<open>file\<close> with path \<open>p\<close>.
  The validation of a host is an argument.
\<close>

definition is_ctl :: "char \<Rightarrow> bool" where
  "is_ctl c \<longleftrightarrow> (of_char c :: nat) < 32 \<or> of_char c = (127 :: nat)"

definition file_uri_path :: "(string \<Rightarrow> bool) \<Rightarrow> string \<Rightarrow> string option" where
  "file_uri_path host_ok uri =
     (let (u, frag) = split_first (CHR ''#'') uri
      in if list_ex is_ctl u \<or> (case frag of None \<Rightarrow> False | Some f \<Rightarrow> url_unescape f = None) then None
         else if to_lower (take 5 u) \<noteq> ''file:'' then None
         else
           let rest = fst (split_first (CHR ''?'') (drop 5 u))
           in if \<not> has_prefix rest [slash] then Some []
              else if has_prefix rest [slash, slash] then
                let after = drop 2 rest; host = takeWhile (\<lambda>c. c \<noteq> slash) after
                in if host_ok host then url_unescape (drop (length host) after) else None
              else url_unescape rest)"

definition uri_to_path :: "(string \<Rightarrow> bool) \<Rightarrow> string \<Rightarrow> string" where
  "uri_to_path host_ok uri = (case file_uri_path host_ok uri of None \<Rightarrow> uri | Some p \<Rightarrow> p)"

definition uri_to_rel :: "(string \<Rightarrow> bool) \<Rightarrow> string \<Rightarrow> string \<Rightarrow> string" where
  "uri_to_rel host_ok uri wroot =
     (let p = uri_to_path host_ok uri
      in case fp_rel wroot p of
           Some rel \<Rightarrow> if \<not> has_prefix rel ''..'' then rel else p
         | None \<Rightarrow> p)"

definition abs_file :: "string \<Rightarrow> string \<Rightarrow> string" where
  "abs_file wroot file = (if is_abs file then file else fp_join wroot file)"

definition language_id_for_file :: "string \<Rightarrow> string" where
  "language_id_for_file file =
     (let e = fp_ext file
      in if e = ''.go'' then ''go'' else if e = ''.py'' then ''python'' else if e = ''.rs'' then ''rust''
         else if e = ''.ts'' then ''typescript'' else if e = ''.tsx'' then ''typescriptreact''
         else if e = ''.js'' then ''javascript'' else if e = ''.jsx'' then ''javascriptreact'' else [])"

section \<open>Positions and edits\<close>

record location =
  loc_uri :: string
  loc_line :: int
  loc_col :: int
  loc_end_line :: int
  loc_end_col :: int

record text_edit =
  te_line :: int
  te_col :: int
  te_end_line :: int
  te_end_col :: int
  te_new :: string

type_synonym workspace_edit = "(string \<times> text_edit list) list"

record lsp_position =
  ps_line :: int
  ps_character :: int

record lsp_range =
  rg_start :: lsp_position
  rg_end :: lsp_position

definition zero_range :: lsp_range where
  "zero_range = \<lparr>rg_start = \<lparr>ps_line = 0, ps_character = 0\<rparr>, rg_end = \<lparr>ps_line = 0, ps_character = 0\<rparr>\<rparr>"

fun decode_position :: "lsp_position \<Rightarrow> jval \<Rightarrow> lsp_position option" where
  "decode_position p (JObj kvs) =
     (case (int_field ''line'' (ps_line p) kvs, int_field ''character'' (ps_character p) kvs) of
        (Some l, Some c) \<Rightarrow> Some \<lparr>ps_line = l, ps_character = c\<rparr>
      | _ \<Rightarrow> None)"
| "decode_position p JNull = Some p"
| "decode_position p _ = None"

text \<open>A field that is a struct: every member of that name is decoded into it.\<close>

fun struct_field :: "('a \<Rightarrow> jval \<Rightarrow> 'a option) \<Rightarrow> string \<Rightarrow> 'a \<Rightarrow> (string \<times> jval) list \<Rightarrow> 'a option" where
  "struct_field dec name v [] = Some v"
| "struct_field dec name v ((k, x) # kvs) =
     (if to_lower k = to_lower name then (case dec v x of None \<Rightarrow> None | Some w \<Rightarrow> struct_field dec name w kvs)
      else struct_field dec name v kvs)"

fun decode_range :: "lsp_range \<Rightarrow> jval \<Rightarrow> lsp_range option" where
  "decode_range r (JObj kvs) =
     (case (struct_field decode_position ''start'' (rg_start r) kvs, struct_field decode_position ''end'' (rg_end r) kvs) of
        (Some s, Some e) \<Rightarrow> Some \<lparr>rg_start = s, rg_end = e\<rparr>
      | _ \<Rightarrow> None)"
| "decode_range r JNull = Some r"
| "decode_range r _ = None"

fun decode_location :: "jval \<Rightarrow> (string \<times> lsp_range) option" where
  "decode_location (JObj kvs) =
     (case (string_field ''uri'' [] kvs, struct_field decode_range ''range'' zero_range kvs) of
        (Some u, Some r) \<Rightarrow> Some (u, r)
      | _ \<Rightarrow> None)"
| "decode_location JNull = Some ([], zero_range)"
| "decode_location _ = None"

definition to_location :: "(string \<Rightarrow> bool) \<Rightarrow> string \<Rightarrow> string \<times> lsp_range \<Rightarrow> location" where
  "to_location host_ok wroot = (\<lambda>(u, r).
     \<lparr>loc_uri = uri_to_rel host_ok u wroot, loc_line = ps_line (rg_start r) + 1, loc_col = ps_character (rg_start r) + 1,
      loc_end_line = ps_line (rg_end r) + 1, loc_end_col = ps_character (rg_end r) + 1\<rparr>)"

definition decode_locations :: "(string \<Rightarrow> bool) \<Rightarrow> string \<Rightarrow> jval option \<Rightarrow> string + location list" where
  "decode_locations host_ok wroot raw =
     (case raw of
        None \<Rightarrow> Inr []
      | Some JNull \<Rightarrow> Inr []
      | Some (JArr vs) \<Rightarrow>
          (case those_opt (map decode_location vs) of
             None \<Rightarrow> Inl ''lsp: decode locations''
           | Some ls \<Rightarrow> Inr (map (to_location host_ok wroot) ls))
      | Some v \<Rightarrow>
          (case decode_location v of
             None \<Rightarrow> Inl ''lsp: decode location''
           | Some l \<Rightarrow> Inr [to_location host_ok wroot l]))"

fun decode_text_edit :: "jval \<Rightarrow> (lsp_range \<times> string) option" where
  "decode_text_edit (JObj kvs) =
     (case (struct_field decode_range ''range'' zero_range kvs, string_field ''newText'' [] kvs) of
        (Some r, Some t) \<Rightarrow> Some (r, t)
      | _ \<Rightarrow> None)"
| "decode_text_edit JNull = Some (zero_range, [])"
| "decode_text_edit _ = None"

definition to_text_edit :: "lsp_range \<times> string \<Rightarrow> text_edit" where
  "to_text_edit = (\<lambda>(r, t).
     \<lparr>te_line = ps_line (rg_start r) + 1, te_col = ps_character (rg_start r) + 1,
      te_end_line = ps_line (rg_end r) + 1, te_end_col = ps_character (rg_end r) + 1, te_new = t\<rparr>)"

fun decode_edits :: "jval \<Rightarrow> (lsp_range \<times> string) list option" where
  "decode_edits (JArr vs) = those_opt (map decode_text_edit vs)"
| "decode_edits JNull = Some []"
| "decode_edits _ = None"

text \<open>The member \<open>changes\<close>: a map, so of equal keys the last one counts.\<close>

type_synonym wire_changes = "(string \<times> (lsp_range \<times> string) list) list"

fun decode_changes :: "wire_changes \<Rightarrow> jval \<Rightarrow> wire_changes option" where
  "decode_changes old (JObj kvs) =
     (case those_opt (map (\<lambda>(k, v). map_option (Pair k) (decode_edits v)) kvs) of
        None \<Rightarrow> None
      | Some es \<Rightarrow> Some (AList.merge old (AList.clearjunk (rev es))))"
| "decode_changes old JNull = Some []"
| "decode_changes old _ = None"

fun decode_document_uri :: "string \<Rightarrow> jval \<Rightarrow> string option" where
  "decode_document_uri u (JObj kvs) = string_field ''uri'' u kvs"
| "decode_document_uri u JNull = Some u"
| "decode_document_uri u _ = None"

fun decode_document_change :: "jval \<Rightarrow> (string \<times> (lsp_range \<times> string) list) option" where
  "decode_document_change (JObj kvs) =
     (case (struct_field decode_document_uri ''textDocument'' [] kvs, array_field ''edits'' [] kvs) of
        (Some u, Some es) \<Rightarrow> map_option (Pair u) (those_opt (map decode_text_edit es))
      | _ \<Rightarrow> None)"
| "decode_document_change JNull = Some ([], [])"
| "decode_document_change _ = None"

definition add_edits :: "string \<Rightarrow> text_edit list \<Rightarrow> workspace_edit \<Rightarrow> workspace_edit" where
  "add_edits rel es out = AList.update rel ((case map_of out rel of None \<Rightarrow> [] | Some old \<Rightarrow> old) @ es) out"

definition merge_edits :: "(string \<Rightarrow> bool) \<Rightarrow> string \<Rightarrow> (string \<times> (lsp_range \<times> string) list) list \<Rightarrow> workspace_edit" where
  "merge_edits host_ok wroot ds = foldl (\<lambda>out (u, es). add_edits (uri_to_rel host_ok u wroot) (map to_text_edit es) out) [] ds"

definition decode_workspace_edit :: "(string \<Rightarrow> bool) \<Rightarrow> string \<Rightarrow> jval option \<Rightarrow> string + workspace_edit" where
  "decode_workspace_edit host_ok wroot raw =
     (case raw of
        None \<Rightarrow> Inr []
      | Some JNull \<Rightarrow> Inr []
      | Some (JObj kvs) \<Rightarrow>
          (case (struct_field decode_changes ''changes'' [] kvs, array_field ''documentChanges'' [] kvs) of
             (Some ch, Some dcs) \<Rightarrow>
               (case those_opt (map decode_document_change dcs) of
                  None \<Rightarrow> Inl ''lsp: decode workspace edit''
                | Some ds \<Rightarrow> Inr (merge_edits host_ok wroot (ch @ ds)))
           | _ \<Rightarrow> Inl ''lsp: decode workspace edit'')
      | Some _ \<Rightarrow> Inl ''lsp: decode workspace edit'')"

section \<open>Answers of the server\<close>

record response =
  rs_id :: "int option"
  rs_result :: "jval option"
  rs_error :: "string option"

fun id_field :: "int option \<Rightarrow> (string \<times> jval) list \<Rightarrow> int option option" where
  "id_field v [] = Some v"
| "id_field v ((k, x) # kvs) =
     (if to_lower k = ''id'' then
        (case x of
           JNull \<Rightarrow> id_field None kvs
         | JNum _ \<Rightarrow> (case int_field ''id'' 0 [(k, x)] of None \<Rightarrow> None | Some n \<Rightarrow> id_field (Some n) kvs)
         | _ \<Rightarrow> None)
      else id_field v kvs)"

fun raw_field :: "string \<Rightarrow> jval option \<Rightarrow> (string \<times> jval) list \<Rightarrow> jval option" where
  "raw_field name v [] = v"
| "raw_field name v ((k, x) # kvs) = raw_field name (if to_lower k = to_lower name then Some x else v) kvs"

fun decode_rpc_error :: "string option \<Rightarrow> jval \<Rightarrow> string option option" where
  "decode_rpc_error old (JObj kvs) =
     (case (int_field ''code'' 0 kvs, string_field ''message'' (case old of None \<Rightarrow> [] | Some m \<Rightarrow> m) kvs) of
        (Some _, Some m) \<Rightarrow> Some (Some m)
      | _ \<Rightarrow> None)"
| "decode_rpc_error old JNull = Some None"
| "decode_rpc_error old _ = None"

definition decode_response :: "string \<Rightarrow> response option" where
  "decode_response body =
     (case json_parse body of
        Some (JObj kvs) \<Rightarrow>
          (case (string_field ''jsonrpc'' [] kvs, id_field None kvs, string_field ''method'' [] kvs,
                 struct_field decode_rpc_error ''error'' None kvs) of
             (Some _, Some i, Some _, Some e) \<Rightarrow> Some \<lparr>rs_id = i, rs_result = raw_field ''result'' None kvs, rs_error = e\<rparr>
           | _ \<Rightarrow> None)
      | Some JNull \<Rightarrow> Some \<lparr>rs_id = None, rs_result = None, rs_error = None\<rparr>
      | _ \<Rightarrow> None)"

section \<open>The client\<close>

text \<open>
  \<open>cl_stdin\<close> says that the pipe to the server exists, \<open>cl_running\<close> that the process has been started and not
  been waited for.  \<open>cl_sent\<close> logs the frames written to the server: the request number, if any, and the method
  with its parameters.
\<close>

record client =
  cl_root :: string
  cl_argv :: "string list"
  cl_started :: "string option option"
  cl_stdin :: bool
  cl_running :: bool
  cl_closed :: bool
  cl_next :: nat
  cl_inflight :: "nat set"
  cl_box :: "nat \<Rightarrow> response option"
  cl_last :: int
  cl_opened :: "string set"
  cl_sent :: "(nat option \<times> string \<times> jval) list"

definition new_client :: "string \<Rightarrow> string list \<Rightarrow> client" where
  "new_client ws argv =
     \<lparr>cl_root = ws, cl_argv = argv, cl_started = None, cl_stdin = False, cl_running = False, cl_closed = False, cl_next = 0,
      cl_inflight = {}, cl_box = (\<lambda>_. None), cl_last = 0, cl_opened = {}, cl_sent = []\<rparr>"

definition register_call :: "client \<Rightarrow> nat \<times> client" where
  "register_call c =
     (let i = Suc (cl_next c) in (i, c\<lparr>cl_next := i, cl_inflight := insert i (cl_inflight c)\<rparr>))"

definition drop_call :: "nat \<Rightarrow> client \<Rightarrow> client" where
  "drop_call i c = c\<lparr>cl_inflight := cl_inflight c - {i}\<rparr>"

definition deliver :: "int \<Rightarrow> response \<Rightarrow> client \<Rightarrow> client" where
  "deliver i r c =
     (if 0 \<le> i \<and> nat i \<in> cl_inflight c
      then c\<lparr>cl_inflight := cl_inflight c - {nat i}, cl_box := (cl_box c)(nat i \<mapsto> r)\<rparr>
      else c)"

text \<open>One turn of the read loop on a frame.\<close>

definition handle_frame :: "string \<Rightarrow> client \<Rightarrow> client" where
  "handle_frame body c =
     (case decode_response body of
        None \<Rightarrow> c
      | Some r \<Rightarrow> (case rs_id r of None \<Rightarrow> c | Some i \<Rightarrow> deliver i r c))"

definition error_response :: "string \<Rightarrow> response" where
  "error_response e = \<lparr>rs_id = None, rs_result = None, rs_error = Some e\<rparr>"

text \<open>\<open>failAllInflight\<close>: the flag is stored before the lock is taken.\<close>

definition set_closed :: "client \<Rightarrow> client" where "set_closed c = c\<lparr>cl_closed := True\<rparr>"

definition fail_inflight :: "string \<Rightarrow> client \<Rightarrow> client" where
  "fail_inflight e c =
     c\<lparr>cl_box := (\<lambda>i. if i \<in> cl_inflight c then Some (error_response e) else cl_box c i), cl_inflight := {}\<rparr>"

definition fail_all_inflight :: "string \<Rightarrow> client \<Rightarrow> client" where
  "fail_all_inflight e c = fail_inflight e (set_closed c)"

text \<open>The end of a wait: the answer has come.\<close>

definition take_answer :: "int \<Rightarrow> string \<Rightarrow> response \<Rightarrow> client \<Rightarrow> (string + jval option) \<times> client" where
  "take_answer now method r c =
     (case rs_error r of
        Some m \<Rightarrow> (Inl (''lsp: '' @ method @ '': '' @ m), c)
      | None \<Rightarrow> (Inr (rs_result r), c\<lparr>cl_last := now\<rparr>))"

datatype lsp_event = Got string | LoopEnds string | CtxDone string

text \<open>A wait: the read loop works on what arrives until the answer is in the channel or the context ends.\<close>

fun await :: "int \<Rightarrow> string \<Rightarrow> nat \<Rightarrow> lsp_event list \<Rightarrow> client \<Rightarrow> ((string + jval option) \<times> client) option" where
  "await now method i evs c =
     (case cl_box c i of
        Some r \<Rightarrow> Some (take_answer now method r (c\<lparr>cl_box := (cl_box c)(i := None)\<rparr>))
      | None \<Rightarrow>
          (case evs of
             [] \<Rightarrow> None
           | Got body # es \<Rightarrow> await now method i es (handle_frame body c)
           | LoopEnds e # es \<Rightarrow> await now method i es (fail_all_inflight e c)
           | CtxDone e # es \<Rightarrow> Some (Inl e, drop_call i c)))"

declare await.simps [simp del]

record lsp_env =
  le_on_path :: "string \<Rightarrow> bool"
  le_spawn :: "string option"
  le_write :: "string \<Rightarrow> string option"
  le_events :: "nat \<Rightarrow> lsp_event list"
  le_now :: int
  le_read :: "string \<Rightarrow> string option"
  le_host_ok :: "string \<Rightarrow> bool"

definition err_closed :: string where "err_closed = ''lsp: client closed''"

definition lsp_call :: "lsp_env \<Rightarrow> string \<Rightarrow> jval \<Rightarrow> client \<Rightarrow> ((string + jval option) \<times> client) option" where
  "lsp_call env method params c =
     (if cl_closed c then Some (Inl err_closed, c)
      else
        let (i, c1) = register_call c
        in case le_write env method of
             Some e \<Rightarrow> Some (Inl e, drop_call i c1)
           | None \<Rightarrow> await (le_now env) method i (le_events env i) (c1\<lparr>cl_sent := cl_sent c1 @ [(Some i, method, params)]\<rparr>))"

definition notify :: "lsp_env \<Rightarrow> string \<Rightarrow> jval \<Rightarrow> client \<Rightarrow> string option \<times> client" where
  "notify env method params c =
     (case le_write env method of
        Some e \<Rightarrow> (Some e, c)
      | None \<Rightarrow> (None, c\<lparr>cl_sent := cl_sent c @ [(None, method, params)]\<rparr>))"

section \<open>Start\<close>

definition initialize_params :: "string \<Rightarrow> jval" where
  "initialize_params ws =
     JObj [(''processId'', JNull), (''rootUri'', JStr (path_to_uri ws)),
       (''capabilities'', JObj [(''textDocument'', JObj
          [(''synchronization'', JObj [(''didSave'', JBool False), (''willSave'', JBool False), (''willSaveWaitUntil'', JBool False)]),
           (''definition'', JObj []), (''references'', JObj []), (''rename'', JObj [])])])]"

definition handshake :: "lsp_env \<Rightarrow> client \<Rightarrow> (string option \<times> client) option" where
  "handshake env c =
     (case lsp_call env ''initialize'' (initialize_params (cl_root c)) c of
        None \<Rightarrow> None
      | Some (Inl e, c1) \<Rightarrow> Some (Some (''lsp: initialize: '' @ e), c1)
      | Some (Inr _, c1) \<Rightarrow>
          (case notify env ''initialized'' (JObj []) c1 of
             (Some e, c2) \<Rightarrow> Some (Some (''lsp: initialized: '' @ e), c2)
           | (None, c2) \<Rightarrow> Some (None, c2)))"

definition do_start :: "lsp_env \<Rightarrow> client \<Rightarrow> (string option \<times> client) option" where
  "do_start env c =
     (case cl_argv c of
        [] \<Rightarrow> Some (Some ''lsp: empty argv'', c)
      | bin # _ \<Rightarrow>
          if \<not> le_on_path env bin then Some (Some (''lsp: '' @ bin @ '' not found on PATH''), c)
          else case le_spawn env of
                 Some e \<Rightarrow> Some (Some e, c)
               | None \<Rightarrow> handshake env (c\<lparr>cl_stdin := True, cl_running := True\<rparr>))"

definition lsp_start :: "lsp_env \<Rightarrow> client \<Rightarrow> (string option \<times> client) option" where
  "lsp_start env c =
     (case cl_started c of
        Some r \<Rightarrow> Some (r, c)
      | None \<Rightarrow>
          (case do_start env c of
             None \<Rightarrow> None
           | Some (r, c') \<Rightarrow> Some (r, c'\<lparr>cl_started := Some r\<rparr>)))"

section \<open>The queries\<close>

definition ensure_open :: "lsp_env \<Rightarrow> string \<Rightarrow> client \<Rightarrow> client" where
  "ensure_open env file c =
     (let p = abs_file (cl_root c) file; c1 = c\<lparr>cl_opened := insert p (cl_opened c)\<rparr>
      in if p \<in> cl_opened c then c1
         else case le_read env p of
                None \<Rightarrow> c1
              | Some content \<Rightarrow>
                  if \<not> cl_stdin c then c1
                  else snd (notify env ''textDocument/didOpen''
                    (JObj [(''textDocument'', JObj [(''uri'', JStr (path_to_uri p)),
                       (''languageId'', JStr (language_id_for_file file)), (''version'', JNum 1), (''text'', JStr content)])]) c1))"

definition position_params :: "string \<Rightarrow> string \<Rightarrow> int \<Rightarrow> int \<Rightarrow> (string \<times> jval) list" where
  "position_params ws file line col =
     [(''textDocument'', JObj [(''uri'', JStr (path_to_uri (abs_file ws file)))]),
      (''position'', JObj [(''line'', JNum (of_int (line - 1))), (''character'', JNum (of_int (col - 1)))])]"

definition reference_params :: "string \<Rightarrow> string \<Rightarrow> int \<Rightarrow> int \<Rightarrow> (string \<times> jval) list" where
  "reference_params ws file line col =
     position_params ws file line col @ [(''context'', JObj [(''includeDeclaration'', JBool True)])]"

definition rename_params :: "string \<Rightarrow> string \<Rightarrow> int \<Rightarrow> int \<Rightarrow> string \<Rightarrow> (string \<times> jval) list" where
  "rename_params ws file line col new = position_params ws file line col @ [(''newName'', JStr new)]"

text \<open>The common body of the three queries.\<close>

definition lsp_query :: "lsp_env \<Rightarrow> string \<Rightarrow> (string \<times> jval) list \<Rightarrow> (jval option \<Rightarrow> string + 'a) \<Rightarrow> string \<Rightarrow> client
    \<Rightarrow> ((string + 'a) \<times> client) option" where
  "lsp_query env method params dec file c =
     (case lsp_start env c of
        None \<Rightarrow> None
      | Some (Some e, c1) \<Rightarrow> Some (Inl e, c1)
      | Some (None, c1) \<Rightarrow>
          (case lsp_call env method (JObj params) (ensure_open env file c1) of
             None \<Rightarrow> None
           | Some (Inl e, c2) \<Rightarrow> Some (Inl e, c2)
           | Some (Inr raw, c2) \<Rightarrow> Some (dec raw, c2)))"

definition lsp_definition :: "lsp_env \<Rightarrow> string \<Rightarrow> int \<Rightarrow> int \<Rightarrow> client \<Rightarrow> ((string + location list) \<times> client) option" where
  "lsp_definition env file line col c =
     lsp_query env ''textDocument/definition'' (position_params (cl_root c) file line col)
       (decode_locations (le_host_ok env) (cl_root c)) file c"

definition lsp_references :: "lsp_env \<Rightarrow> string \<Rightarrow> int \<Rightarrow> int \<Rightarrow> client \<Rightarrow> ((string + location list) \<times> client) option" where
  "lsp_references env file line col c =
     lsp_query env ''textDocument/references'' (reference_params (cl_root c) file line col)
       (decode_locations (le_host_ok env) (cl_root c)) file c"

definition lsp_rename :: "lsp_env \<Rightarrow> string \<Rightarrow> int \<Rightarrow> int \<Rightarrow> string \<Rightarrow> client \<Rightarrow> ((string + workspace_edit) \<times> client) option" where
  "lsp_rename env file line col new c =
     lsp_query env ''textDocument/rename'' (rename_params (cl_root c) file line col new)
       (decode_workspace_edit (le_host_ok env) (cl_root c)) file c"

text \<open>
  \<open>Shutdown\<close>.  Writing to a pipe that was never made dereferences a nil interface.  The process has ended
  when it returns: it is waited for, and killed after two seconds.
\<close>

datatype 'a run = Returns 'a | Hangs | Panics

definition lsp_shutdown :: "lsp_env \<Rightarrow> client \<Rightarrow> client run" where
  "lsp_shutdown env c =
     (if cl_closed c then Returns c
      else case lsp_call env ''shutdown'' JNull (set_closed c) of
             None \<Rightarrow> Hangs
           | Some (_, c1) \<Rightarrow>
               if \<not> cl_stdin c1 then Panics
               else Returns ((snd (notify env ''exit'' JNull c1))\<lparr>cl_running := False\<rparr>))"

section \<open>URIs round trip\<close>

lemma hex_digit_val:
  assumes "n < 16"
  shows "hex_val (hex_digit n) = Some n"
proof (cases "n < 10")
  case True
  then show ?thesis by (simp add: hex_digit_def hex_val_def digit_char_props)
next
  case False
  then show ?thesis using assms
    by (simp add: hex_digit_def hex_val_def is_digit_def less_eq_char_def)
qed

lemma hex_digit_kept: "n < 16 \<Longrightarrow> path_keeps (hex_digit n)"
  by (cases "n < 10") (auto simp: hex_digit_def path_keeps_def digit_char_props less_eq_char_def)

lemma path_keeps_plain: "path_keeps c \<Longrightarrow> c \<noteq> CHR ''%'' \<and> c \<noteq> CHR ''#'' \<and> c \<noteq> CHR ''?'' \<and> \<not> is_ctl c"
  by (auto simp: path_keeps_def is_ctl_def is_digit_def less_eq_char_def)

lemma unescape_escape: "url_unescape (escape_char c @ s) = map_option (Cons c) (url_unescape s)"
proof (cases "path_keeps c")
  case True
  then show ?thesis using path_keeps_plain by (simp add: escape_char_def)
next
  case False
  have b: "of_char c < (256 :: nat)" by (rule nat_of_char_less_256)
  then have "(of_char c :: nat) div 16 < 16" by (simp add: less_mult_imp_div_less)
  moreover have "16 * (of_char c div 16) + of_char c mod 16 = (of_char c :: nat)" by simp
  ultimately show ?thesis using False by (simp add: escape_char_def hex_digit_val)
qed

lemma unescape_escaped_path: "url_unescape (concat (map escape_char p)) = Some p"
  by (induction p) (simp_all add: unescape_escape)

lemma escaped_clean: "x \<in> set (escape_char c) \<Longrightarrow> x \<noteq> CHR ''#'' \<and> x \<noteq> CHR ''?'' \<and> \<not> is_ctl x"
proof -
  assume x: "x \<in> set (escape_char c)"
  have "(of_char c :: nat) div 16 < 16" using nat_of_char_less_256 [of c] by (simp add: less_mult_imp_div_less)
  then have "path_keeps x \<or> x = CHR ''%''"
    using x hex_digit_kept [of "of_char c div 16"] hex_digit_kept [of "of_char c mod 16"]
    by (auto simp: escape_char_def split: if_splits)
  then show ?thesis
    using path_keeps_plain [of x] by (auto simp: is_ctl_def)
qed

theorem uri_roundtrip:
  assumes "host_ok []" "is_abs p"
  shows "uri_to_path host_ok (path_to_uri p) = p"
proof -
  define e where "e = concat (map escape_char p)"
  have uri: "path_to_uri p = ''file://'' @ e" by (simp add: path_to_uri_def e_def)
  have clean: "CHR ''#'' \<notin> set e" "CHR ''?'' \<notin> set e" "\<not> list_ex is_ctl e"
    using escaped_clean by (auto simp: e_def list_ex_iff)
  obtain p' where p: "p = slash # p'" using assms(2) by (auto simp: is_abs_iff)
  have slash_e: "e = slash # concat (map escape_char p')" by (simp add: e_def p escape_char_def path_keeps_def)
  have "split_first (CHR ''#'') (path_to_uri p) = (path_to_uri p, None)"
    using clean(1) by (intro split_first_none) (simp add: uri)
  moreover have "split_first (CHR ''?'') (slash # slash # e) = (slash # slash # e, None)"
    using clean(2) by (intro split_first_none) simp
  moreover have "\<not> list_ex is_ctl (path_to_uri p)" using clean(3) by (simp add: uri is_ctl_def)
  moreover have "to_lower (take 5 (path_to_uri p)) = ''file:''" by (simp add: uri to_lower_def lower_char_def less_eq_char_def)
  moreover have "drop 5 (path_to_uri p) = slash # slash # e" by (simp add: uri)
  moreover have "url_unescape e = Some p" by (simp add: e_def unescape_escaped_path)
  moreover have "takeWhile (\<lambda>c. c \<noteq> slash) e = []" by (simp add: slash_e)
  ultimately show ?thesis
    using assms(1) by (simp add: uri_to_path_def file_uri_path_def Let_def has_prefix_def)
qed

end
