(* ===== verification/LspTable.thy ===== *)
theory LspTable
  imports LspSession
begin

text \<open>
  The callers of one language-server client and its read loop, interleaved (\<open>call\<close>, \<open>readLoop\<close>,
  \<open>failAllInflight\<close> and \<open>Shutdown\<close> of \<open>internal/lsp/client.go\<close>).  A caller is a number; its program
  counter says which part of \<open>call\<close> it has done.  Every step is one atomic access or one locked
  region; \<open>failAllInflight\<close> is two, as in the code.
\<close>

section \<open>Steps\<close>

datatype call_pc = NotCalled | Checked | Registered nat | Waiting nat | Refused | Returned "string + jval option"

datatype loop_state = Reading | Ending string | Ended

record lsp_world =
  wd_client :: client
  wd_pc :: "nat \<Rightarrow> call_pc"
  wd_loop :: loop_state

datatype lsp_action = Check nat | Register nat | Write nat "string option" | Answer nat int | Cancel nat string
  | FrameIn string | LoopStop string | LoopFail | CloseFlag

inductive lsp_step :: "lsp_action \<Rightarrow> lsp_world \<Rightarrow> lsp_world \<Rightarrow> bool" where
  check: "wd_pc w t = NotCalled \<Longrightarrow>
    lsp_step (Check t) w (w\<lparr>wd_pc := (wd_pc w)(t := if cl_closed (wd_client w) then Refused else Checked)\<rparr>)"
| register: "wd_pc w t = Checked \<Longrightarrow> register_call (wd_client w) = (i, c) \<Longrightarrow>
    lsp_step (Register t) w (w\<lparr>wd_client := c, wd_pc := (wd_pc w)(t := Registered i)\<rparr>)"
| write_ok: "wd_pc w t = Registered i \<Longrightarrow>
    lsp_step (Write t None) w (w\<lparr>wd_pc := (wd_pc w)(t := Waiting i)\<rparr>)"
| write_failed: "wd_pc w t = Registered i \<Longrightarrow>
    lsp_step (Write t (Some e)) w (w\<lparr>wd_client := drop_call i (wd_client w), wd_pc := (wd_pc w)(t := Returned (Inl e))\<rparr>)"
| answer: "wd_pc w t = Waiting i \<Longrightarrow> cl_box (wd_client w) i = Some r \<Longrightarrow>
    take_answer now m r ((wd_client w)\<lparr>cl_box := (cl_box (wd_client w))(i := None)\<rparr>) = (res, c) \<Longrightarrow>
    lsp_step (Answer t now) w (w\<lparr>wd_client := c, wd_pc := (wd_pc w)(t := Returned res)\<rparr>)"
| cancel: "wd_pc w t = Waiting i \<Longrightarrow>
    lsp_step (Cancel t e) w (w\<lparr>wd_client := drop_call i (wd_client w), wd_pc := (wd_pc w)(t := Returned (Inl e))\<rparr>)"
| frame: "wd_loop w = Reading \<Longrightarrow> lsp_step (FrameIn b) w (w\<lparr>wd_client := handle_frame b (wd_client w)\<rparr>)"
| loop_stop: "wd_loop w = Reading \<Longrightarrow>
    lsp_step (LoopStop e) w (w\<lparr>wd_client := set_closed (wd_client w), wd_loop := Ending e\<rparr>)"
| loop_fail: "wd_loop w = Ending e \<Longrightarrow>
    lsp_step LoopFail w (w\<lparr>wd_client := fail_inflight e (wd_client w), wd_loop := Ended\<rparr>)"
| close_flag: "lsp_step CloseFlag w (w\<lparr>wd_client := set_closed (wd_client w)\<rparr>)"

inductive_cases lsp_stepE: "lsp_step a w w'"

inductive lsp_runs :: "lsp_action set \<Rightarrow> lsp_world \<Rightarrow> lsp_world \<Rightarrow> bool" for A where
  refl: "lsp_runs A w w"
| step: "lsp_runs A w w' \<Longrightarrow> lsp_step a w' w'' \<Longrightarrow> a \<in> A \<Longrightarrow> lsp_runs A w w''"

definition lsp_world_init :: "string \<Rightarrow> string list \<Rightarrow> lsp_world" where
  "lsp_world_init ws argv = \<lparr>wd_client = new_client ws argv, wd_pc = (\<lambda>_. NotCalled), wd_loop = Reading\<rparr>"

section \<open>The request table\<close>

fun pc_id :: "call_pc \<Rightarrow> nat option" where
  "pc_id (Registered i) = Some i"
| "pc_id (Waiting i) = Some i"
| "pc_id _ = None"

text \<open>The table over what it depends on: the last number, the registered numbers, the channels and who holds which number.\<close>

definition table_ok :: "nat \<Rightarrow> nat set \<Rightarrow> (nat \<Rightarrow> response option) \<Rightarrow> (nat \<Rightarrow> nat option) \<Rightarrow> bool" where
  "table_ok n fl box h \<longleftrightarrow>
     (\<forall>t i. h t = Some i \<longrightarrow> i \<le> n \<and> (i \<in> fl \<longleftrightarrow> box i = None))
     \<and> (\<forall>t u i. h t = Some i \<longrightarrow> h u = Some i \<longrightarrow> t = u)
     \<and> (\<forall>i \<in> fl. \<exists>t. h t = Some i) \<and> (\<forall>i > n. box i = None)"

lemma table_okD:
  assumes "table_ok n fl box h"
  shows "h t = Some i \<Longrightarrow> i \<le> n" "h t = Some i \<Longrightarrow> i \<in> fl \<longleftrightarrow> box i = None"
    "h t = Some i \<Longrightarrow> h u = Some i \<Longrightarrow> t = u" "i \<in> fl \<Longrightarrow> \<exists>t. h t = Some i" "n < i \<Longrightarrow> box i = None"
  using assms by (auto simp: table_ok_def)

definition table_inv :: "lsp_world \<Rightarrow> bool" where
  "table_inv w \<longleftrightarrow> table_ok (cl_next (wd_client w)) (cl_inflight (wd_client w)) (cl_box (wd_client w)) (\<lambda>t. pc_id (wd_pc w t))"

lemma table_ok_none: "table_ok n fl box h \<Longrightarrow> h t = None \<Longrightarrow> h = h(t := None)"
  by (rule ext) simp

lemma table_ok_register:
  assumes "table_ok n fl box h" "h t = None"
  shows "table_ok (Suc n) (insert (Suc n) fl) box (h(t \<mapsto> Suc n))"
proof -
  note d = table_okD [OF assms(1)]
  have fresh: "h u \<noteq> Some (Suc n)" for u using d(1) [of u "Suc n"] by auto
  have "\<exists>u. (h(t \<mapsto> Suc n)) u = Some i" if "i \<in> insert (Suc n) fl" for i
    using that d(4) [of i] assms(2) by (metis fun_upd_other fun_upd_same insertE option.distinct(1))
  then show ?thesis using d(1,2,3,5) fresh unfolding table_ok_def
    by (intro conjI allI impI ballI) (auto simp: le_Suc_eq split: if_splits)
qed

lemma table_ok_release:
  assumes "table_ok n fl box h" "h t = Some i" "fl' \<subseteq> fl - {i}" "\<And>j. j \<noteq> i \<Longrightarrow> j \<in> fl' \<longleftrightarrow> j \<in> fl"
    "\<And>j. j \<noteq> i \<Longrightarrow> box' j = box j" "box' i = None \<or> box' i = box i"
  shows "table_ok n fl' box' (h(t := None))"
proof -
  note d = table_okD [OF assms(1)]
  have other: "h u \<noteq> Some i" if "u \<noteq> t" for u using that d(3) [OF assms(2)] by blast
  have "\<exists>u. (h(t := None)) u = Some j" if "j \<in> fl'" for j
  proof -
    have "j \<in> fl" "j \<noteq> i" using that assms(3) by auto
    with d(4) assms(2) show ?thesis by (metis fun_upd_other option.inject)
  qed
  moreover have "box' j = None" if "n < j" for j
    using that d(1) [OF assms(2)] d(5) [OF that] assms(5) [of j] by (cases "j = i") auto
  moreover have "j \<le> n \<and> (j \<in> fl' \<longleftrightarrow> box' j = None)" if "(h(t := None)) u = Some j" for u j
    using that other [of u] d(1,2) [of u j] assms(4,5) [of j] by (cases "u = t"; cases "j = i") auto
  ultimately show ?thesis using d(3) unfolding table_ok_def by (auto split: if_splits)
qed

lemma table_ok_deliver:
  assumes "table_ok n fl box h" "i \<in> fl"
  shows "table_ok n (fl - {i}) (box(i \<mapsto> r)) h"
proof -
  note d = table_okD [OF assms(1)]
  obtain t where "h t = Some i" using d(4) [OF assms(2)] by blast
  then have "i \<le> n" by (rule d(1))
  then show ?thesis using d unfolding table_ok_def by (intro conjI allI impI ballI) (auto split: if_splits)
qed

lemma table_ok_fail:
  assumes "table_ok n fl box h"
  shows "table_ok n {} (\<lambda>i. if i \<in> fl then Some r else box i) h"
proof -
  note d = table_okD [OF assms]
  have "i \<notin> fl" if "n < i" for i using d(1,4) that by (meson leD)
  then show ?thesis using d unfolding table_ok_def by (intro conjI allI impI ballI) (auto split: if_splits)
qed

lemma pc_update: "(\<lambda>u. pc_id ((f(t := p)) u)) = (\<lambda>u. pc_id (f u))(t := pc_id p)"
  by (rule ext) simp

lemma table_inv_init: "table_inv (lsp_world_init ws argv)"
  by (simp add: table_inv_def table_ok_def lsp_world_init_def new_client_def)

lemma take_answer_table: "take_answer now m r c = (res, c') \<Longrightarrow>
    cl_next c' = cl_next c \<and> cl_inflight c' = cl_inflight c \<and> cl_box c' = cl_box c \<and> cl_closed c' = cl_closed c"
  by (auto simp: take_answer_def split: option.splits)

lemma table_inv_step: "lsp_step a w w' \<Longrightarrow> table_inv w \<Longrightarrow> table_inv w'"
proof (induction rule: lsp_step.induct)
  case (check w t)
  then have "pc_id (wd_pc w t) = None" by simp
  then have "(\<lambda>u. pc_id (wd_pc w u))(t := None) = (\<lambda>u. pc_id (wd_pc w u))" by (auto intro: ext)
  with check show ?case by (simp add: table_inv_def pc_update del: fun_upd_apply)
next
  case (register w t i c)
  then show ?case
    using table_ok_register [of "cl_next (wd_client w)" "cl_inflight (wd_client w)" "cl_box (wd_client w)" "\<lambda>u. pc_id (wd_pc w u)" t]
    by (auto simp: table_inv_def pc_update register_call_def Let_def simp del: fun_upd_apply)
next
  case (write_ok w t i)
  then have "(\<lambda>u. pc_id (wd_pc w u))(t \<mapsto> i) = (\<lambda>u. pc_id (wd_pc w u))" by (auto intro: ext)
  with write_ok show ?case by (simp add: table_inv_def pc_update del: fun_upd_apply)
next
  case (write_failed w t i e)
  then show ?case
    unfolding table_inv_def by (simp add: pc_update drop_call_def del: fun_upd_apply) (rule table_ok_release, auto)
next
  case (answer w t i r now m res c)
  then have ok: "table_ok (cl_next (wd_client w)) (cl_inflight (wd_client w)) (cl_box (wd_client w)) (\<lambda>u. pc_id (wd_pc w u))"
    by (simp add: table_inv_def)
  have h: "pc_id (wd_pc w t) = Some i" using answer(1) by simp
  have c: "cl_next c = cl_next (wd_client w)" "cl_inflight c = cl_inflight (wd_client w)" "cl_box c = (cl_box (wd_client w))(i := None)"
    using take_answer_table [OF answer(3)] by simp_all
  have "i \<notin> cl_inflight (wd_client w)" using table_okD(2) [OF ok h] answer(2) by simp
  then have "table_ok (cl_next (wd_client w)) (cl_inflight (wd_client w)) ((cl_box (wd_client w))(i := None)) ((\<lambda>u. pc_id (wd_pc w u))(t := None))"
    by (intro table_ok_release [OF ok h]) auto
  then show ?case by (simp add: table_inv_def pc_update c del: fun_upd_apply)
next
  case (cancel w t i e)
  then show ?case
    unfolding table_inv_def by (simp add: pc_update drop_call_def del: fun_upd_apply) (rule table_ok_release, auto)
next
  case (frame w b)
  then show ?case
    by (auto simp: table_inv_def handle_frame_def deliver_def table_ok_deliver simp del: fun_upd_apply split: option.splits)
next
  case (loop_fail w e)
  then show ?case by (auto simp: table_inv_def fail_inflight_def intro: table_ok_fail)
qed (simp_all add: table_inv_def set_closed_def)

lemma table_inv_runs: "lsp_runs A w w' \<Longrightarrow> table_inv w \<Longrightarrow> table_inv w'"
  by (induction rule: lsp_runs.induct) (auto intro: table_inv_step)



text \<open>The run used below: a caller passes the check, the loop ends, then the caller registers.\<close>

definition late_actions :: "lsp_action set" where
  "late_actions = {Check 0, Register 0, Write 0 None, LoopStop ''lsp: missing Content-Length header'', LoopFail}"

definition late_world :: "string \<Rightarrow> string list \<Rightarrow> lsp_world" where
  "late_world ws argv = \<lparr>wd_client = (new_client ws argv)\<lparr>cl_closed := True, cl_next := 1, cl_inflight := {1}\<rparr>,
     wd_pc = (\<lambda>_. NotCalled)(0 := Waiting 1), wd_loop = Ended\<rparr>"

lemma late_run: "lsp_runs late_actions (lsp_world_init ws argv) (late_world ws argv)"
proof -
  let ?e = "''lsp: missing Content-Length header''"
  let ?c = "new_client ws argv"
  let ?w1 = "\<lparr>wd_client = ?c, wd_pc = (\<lambda>_. NotCalled)(0 := Checked), wd_loop = Reading\<rparr>"
  let ?w2 = "\<lparr>wd_client = set_closed ?c, wd_pc = (\<lambda>_. NotCalled)(0 := Checked), wd_loop = Ending ?e\<rparr>"
  let ?w3 = "\<lparr>wd_client = set_closed ?c, wd_pc = (\<lambda>_. NotCalled)(0 := Checked), wd_loop = Ended\<rparr>"
  let ?c4 = "?c\<lparr>cl_closed := True, cl_next := 1, cl_inflight := {1}\<rparr>"
  let ?w4 = "\<lparr>wd_client = ?c4, wd_pc = (\<lambda>_. NotCalled)(0 := Registered 1), wd_loop = Ended\<rparr>"
  have s1: "lsp_step (Check 0) (lsp_world_init ws argv) ?w1"
    using lsp_step.check [of "lsp_world_init ws argv" 0] by (simp add: lsp_world_init_def new_client_def)
  have s2: "lsp_step (LoopStop ?e) ?w1 ?w2" using lsp_step.loop_stop [of ?w1 ?e] by simp
  have s3: "lsp_step LoopFail ?w2 ?w3"
    using lsp_step.loop_fail [of ?w2 ?e] by (simp add: fail_inflight_def set_closed_def new_client_def)
  have s4: "lsp_step (Register 0) ?w3 ?w4"
    using lsp_step.register [of ?w3 0 1 ?c4] by (simp add: register_call_def set_closed_def new_client_def)
  have s5: "lsp_step (Write 0 None) ?w4 (late_world ws argv)"
    using lsp_step.write_ok [of ?w4 0 1] by (simp add: late_world_def)
  note runs = lsp_runs.step [where A = late_actions]
  show ?thesis
    by (rule runs [OF runs [OF runs [OF runs [OF runs [OF lsp_runs.refl s1] s2] s3] s4] s5])
      (simp_all add: late_actions_def)
qed

lemma lsp_runs_more: "lsp_runs A w w' \<Longrightarrow> A \<subseteq> B \<Longrightarrow> lsp_runs B w w'"
  by (induction rule: lsp_runs.induct) (auto intro: lsp_runs.intros)


text \<open>Once the loop is gone, nothing fills the channel of a registered number.\<close>

lemma stuck_step:
  assumes "lsp_step a w w'" "\<forall>e. a \<noteq> Cancel t e" "wd_pc w t = Waiting i" "wd_loop w = Ended"
    "i \<in> cl_inflight (wd_client w)" "table_inv w"
  shows "wd_pc w' t = Waiting i \<and> wd_loop w' = Ended \<and> i \<in> cl_inflight (wd_client w')"
proof -
  have ok: "table_ok (cl_next (wd_client w)) (cl_inflight (wd_client w)) (cl_box (wd_client w)) (\<lambda>u. pc_id (wd_pc w u))"
    using assms(6) by (simp add: table_inv_def)
  have empty: "cl_box (wd_client w) i = None" using table_okD(2) [OF ok, of t i] assms(3,5) by simp
  have alone: "wd_pc w u \<noteq> Registered i" "wd_pc w u = Waiting i \<Longrightarrow> u = t" for u
    using table_okD(3) [OF ok, of u i t] assms(3) by auto
  from assms(1) show ?thesis
  proof cases
    case (register u j c)
    then show ?thesis using assms(3-5) by (auto simp: register_call_def Let_def)
  next
    case (write_failed u j e)
    then have "j \<noteq> i" "u \<noteq> t" using alone(1) assms(3) by auto
    then show ?thesis using write_failed(2) assms(3-5) by (simp add: drop_call_def)
  next
    case (answer u j r now m res c)
    then have "u \<noteq> t" using empty assms(3) by auto
    then show ?thesis using answer(2) take_answer_table [OF answer(5)] assms(3-5) by simp
  next
    case (cancel u j e)
    then have "u \<noteq> t" using assms(2) by auto
    then have "j \<noteq> i" using alone(2) cancel(3) by auto
    then show ?thesis using \<open>u \<noteq> t\<close> cancel(2) assms(3-5) by (simp add: drop_call_def)
  qed (use assms(3-5) in \<open>auto simp: set_closed_def\<close>)
qed

lemma stuck_runs:
  assumes "lsp_runs A w w'" "\<forall>e. Cancel t e \<notin> A" "wd_pc w t = Waiting i" "wd_loop w = Ended"
    "i \<in> cl_inflight (wd_client w)" "table_inv w"
  shows "wd_pc w' t = Waiting i \<and> wd_loop w' = Ended \<and> i \<in> cl_inflight (wd_client w') \<and> table_inv w'"
  using assms
proof (induction rule: lsp_runs.induct)
  case (step w w' a w'')
  then have "wd_pc w' t = Waiting i" "wd_loop w' = Ended" "i \<in> cl_inflight (wd_client w')" "table_inv w'" by auto
  moreover have "\<forall>e. a \<noteq> Cancel t e" using step.hyps(3) step.prems(1) by blast
  ultimately show ?case using stuck_step [OF step.hyps(2)] table_inv_step [OF step.hyps(2)] by blast
qed simp

text \<open>
  a call can wait for ever.  A caller that passes the check of the closed flag just before the read
  loop ends registers its request after \<open>failAllInflight\<close> has emptied the table.  From then on no step
  of any other party ends its wait: only the caller's own context can.
\<close>

theorem late_call_waits_for_ever:
  "\<exists>A w. lsp_runs A (lsp_world_init ws argv) w \<and> wd_pc w 0 = Waiting 1 \<and> wd_loop w = Ended
     \<and> (\<forall>w'. lsp_runs (- {a. \<exists>e. a = Cancel 0 e}) w w' \<longrightarrow> wd_pc w' 0 = Waiting 1)"
proof (intro exI conjI allI impI)
  show "lsp_runs late_actions (lsp_world_init ws argv) (late_world ws argv)" by (rule late_run)
  show "wd_pc (late_world ws argv) 0 = Waiting 1" "wd_loop (late_world ws argv) = Ended" by (simp_all add: late_world_def)
  fix w' assume "lsp_runs (- {a. \<exists>e. a = Cancel 0 e}) (late_world ws argv) w'"
  then show "wd_pc w' 0 = Waiting 1"
    using stuck_runs [of _ "late_world ws argv" w' 0 1] table_inv_runs [OF late_run table_inv_init]
    by (auto simp: late_world_def)
qed

end
