(* ===== verification/LspRegistry.thy ===== *)
theory LspRegistry
  imports LspSession
begin

text \<open>
  The pool of language-server clients (\<open>internal/lsp/registry.go\<close>), one per workspace and language.
  The map is an association list, its order being the order the code happens to iterate in.  The
  clients \<open>Get\<close> took out of the map after a failed start are kept in \<open>lr_dropped\<close>: the code forgets
  them, but their processes may still run.
\<close>

section \<open>Operations\<close>

record lsp_registry =
  lr_idle :: int
  lr_clients :: "(string \<times> client) list"
  lr_dropped :: "client list"

definition default_idle_timeout :: int where "default_idle_timeout = 600000000000"

definition new_registry :: "int \<Rightarrow> lsp_registry" where
  "new_registry idle = \<lparr>lr_idle = (if idle \<le> 0 then default_idle_timeout else idle), lr_clients = [], lr_dropped = []\<rparr>"

definition reg_key :: "string \<Rightarrow> string \<Rightarrow> string" where
  "reg_key ws lang = ws @ CHR 0x00 # lang"

text \<open>The first locked region of \<open>Get\<close>: find or insert the client.\<close>

definition registry_lookup :: "string \<Rightarrow> string list \<Rightarrow> string \<Rightarrow> lsp_registry \<Rightarrow> client \<times> lsp_registry" where
  "registry_lookup ws argv key g =
     (case map_of (lr_clients g) key of
        Some c \<Rightarrow> (c, g)
      | None \<Rightarrow> (let c = new_client ws argv in (c, g\<lparr>lr_clients := AList.update key c (lr_clients g)\<rparr>)))"

definition lsp_get :: "lsp_env \<Rightarrow> (string \<Rightarrow> string list) \<Rightarrow> string \<Rightarrow> string \<Rightarrow> lsp_registry \<Rightarrow> ((string + client) \<times> lsp_registry) option" where
  "lsp_get env resolver ws lang g =
     (let argv = resolver lang; key = reg_key ws lang
      in if argv = [] then Some (Inl (''LSP not configured for '' @ lang), g)
         else
           let (c, g1) = registry_lookup ws argv key g
           in case lsp_start env c of
                None \<Rightarrow> None
              | Some (Some e, c1) \<Rightarrow> Some (Inl e, g1\<lparr>lr_clients := AList.delete key (lr_clients g1), lr_dropped := c1 # lr_dropped g1\<rparr>)
              | Some (None, c1) \<Rightarrow> Some (Inr c1, g1\<lparr>lr_clients := AList.update key c1 (lr_clients g1)\<rparr>))"

fun shutdown_all :: "lsp_env \<Rightarrow> client list \<Rightarrow> client list run" where
  "shutdown_all env [] = Returns []"
| "shutdown_all env (c # cs) =
     (case lsp_shutdown env c of
        Returns d \<Rightarrow> (case shutdown_all env cs of Returns ds \<Rightarrow> Returns (d # ds) | Hangs \<Rightarrow> Hangs | Panics \<Rightarrow> Panics)
      | Hangs \<Rightarrow> Hangs
      | Panics \<Rightarrow> Panics)"

definition registry_shutdown :: "lsp_env \<Rightarrow> lsp_registry \<Rightarrow> (client list \<times> lsp_registry) run" where
  "registry_shutdown env g =
     (case shutdown_all env (map snd (lr_clients g)) of
        Returns ds \<Rightarrow> Returns (ds, g\<lparr>lr_clients := []\<rparr>) | Hangs \<Rightarrow> Hangs | Panics \<Rightarrow> Panics)"

definition is_idle :: "int \<Rightarrow> int \<Rightarrow> client \<Rightarrow> bool" where
  "is_idle now idle c \<longleftrightarrow> cl_last c \<noteq> 0 \<and> cl_last c < now - idle"

definition reap_idle :: "lsp_env \<Rightarrow> lsp_registry \<Rightarrow> (client list \<times> lsp_registry) run" where
  "reap_idle env g =
     (let kill = filter (\<lambda>(_, c). is_idle (le_now env) (lr_idle g) c) (lr_clients g);
          keep = filter (\<lambda>(_, c). \<not> is_idle (le_now env) (lr_idle g) c) (lr_clients g)
      in case shutdown_all env (map snd kill) of
           Returns ds \<Rightarrow> Returns (ds, g\<lparr>lr_clients := keep\<rparr>) | Hangs \<Rightarrow> Hangs | Panics \<Rightarrow> Panics)"

definition sweep_interval :: "int \<Rightarrow> int" where
  "sweep_interval idle =
     (let i = idle div 2; i1 = (if i > 60000000000 then 60000000000 else i) in if i1 < 1000000000 then 1000000000 else i1)"

section \<open>The pool\<close>

text \<open>The registry is well-formed: one client per key, made for that workspace and language, with a pipe once it has answered.\<close>

definition client_ok :: "string \<Rightarrow> string list \<Rightarrow> client \<Rightarrow> bool" where
  "client_ok ws argv c \<longleftrightarrow> cl_root c = ws \<and> cl_argv c = argv \<and> (cl_last c \<noteq> 0 \<or> cl_started c = Some None \<longrightarrow> cl_stdin c)"

definition reg_ok :: "(string \<Rightarrow> string list) \<Rightarrow> lsp_registry \<Rightarrow> bool" where
  "reg_ok resolver g \<longleftrightarrow> distinct (map fst (lr_clients g))
     \<and> (\<forall>(k, c) \<in> set (lr_clients g). \<exists>ws lang. k = reg_key ws lang \<and> CHR 0x00 \<notin> set ws \<and> client_ok ws (resolver lang) c)"

lemma reg_key_inj:
  assumes "CHR 0x00 \<notin> set ws" "CHR 0x00 \<notin> set ws'" "reg_key ws lang = reg_key ws' lang'"
  shows "ws = ws' \<and> lang = lang'"
  using split_first_append [OF assms(1), of lang] split_first_append [OF assms(2), of lang'] assms(3)
  unfolding reg_key_def by (metis option.inject prod.inject)

text \<open>The request of \<open>Shutdown\<close> meets the flag \<open>Shutdown\<close> has just set.\<close>

lemma shutdown_eq:
  "lsp_shutdown env c =
     (if cl_closed c then Returns c
      else if \<not> cl_stdin c then Panics
      else Returns (c\<lparr>cl_closed := True, cl_running := False,
             cl_sent := cl_sent c @ (if le_write env ''exit'' = None then [(None, ''exit'', JNull)] else [])\<rparr>))"
proof -
  have "lsp_call env ''shutdown'' JNull (set_closed c) = Some (Inl err_closed, set_closed c)"
    by (simp add: lsp_call_def set_closed_def)
  then show ?thesis
    by (cases "le_write env ''exit''") (simp_all add: lsp_shutdown_def notify_def set_closed_def)
qed

lemma shutdown_closes: "lsp_shutdown env c = Returns d \<Longrightarrow> cl_closed d \<and> (\<not> cl_closed c \<longrightarrow> \<not> cl_running d)"
  by (auto simp: shutdown_eq split: if_splits)

lemma shutdown_stdin: "cl_stdin c \<Longrightarrow> \<exists>d. lsp_shutdown env c = Returns d"
  by (simp add: shutdown_eq)

lemma shutdown_all_stdin: "list_all cl_stdin cs \<Longrightarrow> \<exists>ds. shutdown_all env cs = Returns ds \<and> list_all2 (\<lambda>c d. lsp_shutdown env c = Returns d) cs ds"
proof (induction cs)
  case (Cons c cs)
  then obtain d ds where "lsp_shutdown env c = Returns d" "shutdown_all env cs = Returns ds"
    "list_all2 (\<lambda>c d. lsp_shutdown env c = Returns d) cs ds" using shutdown_stdin by fastforce
  then show ?case by simp
qed simp

text \<open>
  the sweep removes exactly the idle clients.  A sweep never fails: it shuts down the clients whose
  last answer is older than the timeout, their processes do not run any more when it returns, and every
  other client stays as it was.
\<close>

theorem reap_idle_exact:
  assumes "reg_ok resolver g"
  shows "\<exists>ds. reap_idle env g = Returns (ds, g\<lparr>lr_clients := filter (\<lambda>(_, c). \<not> is_idle (le_now env) (lr_idle g) c) (lr_clients g)\<rparr>)
    \<and> length ds = length (filter (\<lambda>(_, c). is_idle (le_now env) (lr_idle g) c) (lr_clients g))
    \<and> (\<forall>d \<in> set ds. cl_closed d)"
proof -
  let ?kill = "filter (\<lambda>(_, c). is_idle (le_now env) (lr_idle g) c) (lr_clients g)"
  have "list_all cl_stdin (map snd ?kill)"
    using assms by (fastforce simp: list_all_iff reg_ok_def client_ok_def is_idle_def)
  then obtain ds where ds: "shutdown_all env (map snd ?kill) = Returns ds"
    "list_all2 (\<lambda>c d. lsp_shutdown env c = Returns d) (map snd ?kill) ds" using shutdown_all_stdin by blast
  have "\<forall>d \<in> set ds. cl_closed d"
    using ds(2) shutdown_closes by (fastforce simp: list_all2_conv_all_nth in_set_conv_nth)
  moreover have "length ds = length ?kill" using ds(2) by (auto dest: list_all2_lengthD)
  ultimately show ?thesis using ds(1) by (simp add: reap_idle_def Let_def)
qed


definition two_clients :: lsp_registry where
  "two_clients = \<lparr>lr_idle = 600, lr_clients =
     [(reg_key ''/w'' ''go'', demo_client\<lparr>cl_last := 5\<rparr>), (reg_key ''/v'' ''go'', demo_client\<lparr>cl_root := ''/v'', cl_last := 900\<rparr>)],
     lr_dropped = []\<rparr>"

theorem reap_idle_exact_witness:
  "\<exists>ds. reap_idle (demo_lsp\<lparr>le_now := 1000\<rparr>) two_clients
     = Returns (ds, two_clients\<lparr>lr_clients := [(reg_key ''/v'' ''go'', demo_client\<lparr>cl_root := ''/v'', cl_last := 900\<rparr>)]\<rparr>)
     \<and> length ds = 1 \<and> (\<forall>d \<in> set ds. cl_closed d)"
proof -
  have "reg_ok (\<lambda>_. [''gopls'']) two_clients"
    unfolding reg_ok_def two_clients_def client_ok_def
    by (auto simp: demo_client_def new_client_def reg_key_def)
  from reap_idle_exact [OF this, of "demo_lsp\<lparr>le_now := 1000\<rparr>"] show ?thesis
    by (simp add: two_clients_def is_idle_def)
qed

lemma await_fields:
  "await now m i evs c = Some (r, d) \<Longrightarrow> cl_root d = cl_root c \<and> cl_argv d = cl_argv c \<and> cl_stdin d = cl_stdin c
     \<and> cl_running d = cl_running c \<and> cl_started d = cl_started c"
proof (induction evs arbitrary: c)
  case Nil
  then show ?case by (auto simp: await.simps [of _ _ _ "[]"] take_answer_def split: option.splits)
next
  case (Cons ev evs)
  show ?case
  proof (cases "cl_box c i")
    case None
    then show ?thesis using Cons.prems Cons.IH
      by (cases ev)
        (auto simp: await.simps [of _ _ _ "_ # _"] handle_frame_def deliver_def fail_all_inflight_def fail_inflight_def set_closed_def drop_call_def
          split: option.splits if_splits)
  next
    case (Some x)
    then show ?thesis using Cons.prems by (auto simp: await_answered take_answer_def split: option.splits)
  qed
qed

lemma lsp_call_fields:
  "lsp_call env m p c = Some (r, d) \<Longrightarrow> cl_root d = cl_root c \<and> cl_argv d = cl_argv c \<and> cl_stdin d = cl_stdin c
     \<and> cl_running d = cl_running c \<and> cl_started d = cl_started c"
  by (auto simp: lsp_call_def register_call_def drop_call_def Let_def split: if_splits option.splits dest!: await_fields)

lemma handshake_fields:
  "handshake env c = Some (r, d) \<Longrightarrow> cl_root d = cl_root c \<and> cl_argv d = cl_argv c \<and> cl_stdin d = cl_stdin c
     \<and> cl_running d = cl_running c"
  by (auto simp: handshake_def notify_def split: option.splits sum.splits prod.splits dest!: lsp_call_fields)

lemma lsp_start_fields:
  assumes "lsp_start env c = Some (r, d)"
  shows "cl_root d = cl_root c \<and> cl_argv d = cl_argv c \<and> cl_started d = Some r \<and> (cl_started c = None \<and> r = None \<longrightarrow> cl_stdin d)
    \<and> (cl_started c \<noteq> None \<longrightarrow> d = c) \<and> (cl_stdin c \<longrightarrow> cl_stdin d)"
  using assms
  by (auto simp: lsp_start_def do_start_def split: option.splits list.splits if_splits dest!: handshake_fields)

lemma registry_lookup_spec:
  assumes "registry_lookup ws argv key g = (c, g1)" "distinct (map fst (lr_clients g))"
  shows "distinct (map fst (lr_clients g1)) \<and> map_of (lr_clients g1) = (map_of (lr_clients g))(key \<mapsto> c)
    \<and> (map_of (lr_clients g) key = Some c \<or> map_of (lr_clients g) key = None \<and> c = new_client ws argv)"
  using assms by (auto simp: registry_lookup_def Let_def update_conv' distinct_update split: option.splits)

lemma registry_lookup_client:
  assumes "reg_ok resolver g" "CHR 0x00 \<notin> set ws" "registry_lookup ws (resolver lang) (reg_key ws lang) g = (c, g')"
  shows "cl_root c = ws" "cl_argv c = resolver lang"
proof -
  have "distinct (map fst (lr_clients g))" using assms(1) by (simp add: reg_ok_def)
  note spec = registry_lookup_spec [OF assms(3) this]
  have "cl_root c = ws \<and> cl_argv c = resolver lang"
  proof (cases "map_of (lr_clients g) (reg_key ws lang) = Some c")
    case True
    then have "(reg_key ws lang, c) \<in> set (lr_clients g)" by (rule map_of_SomeD)
    then obtain ws' lang' where "reg_key ws lang = reg_key ws' lang'" "CHR 0x00 \<notin> set ws'" "client_ok ws' (resolver lang') c"
      using assms(1) by (auto simp: reg_ok_def)
    then show ?thesis using reg_key_inj [OF assms(2)] by (metis client_ok_def)
  next
    case False
    then show ?thesis using spec by (simp add: new_client_def)
  qed
  then show "cl_root c = ws" "cl_argv c = resolver lang" by simp_all
qed

text \<open>
  C28: \<open>Get\<close> keeps the pool.  It answers with a started client of the asked workspace and language, or
  with an error and without such a client in the pool; every other client stays; and after a success a
  second call answers with the same client without starting anything.
\<close>

theorem registry_get_correct:
  assumes "reg_ok resolver g" "CHR 0x00 \<notin> set ws" "lsp_get env resolver ws lang g = Some (res, g')"
  shows "(\<forall>k. k \<noteq> reg_key ws lang \<longrightarrow> map_of (lr_clients g') k = map_of (lr_clients g) k)
    \<and> (case res of
         Inl e \<Rightarrow> resolver lang = [] \<and> g' = g \<or> map_of (lr_clients g') (reg_key ws lang) = None
       | Inr c \<Rightarrow> cl_root c = ws \<and> cl_argv c = resolver lang \<and> cl_started c = Some None
           \<and> (\<forall>env'. lsp_get env' resolver ws lang g' = Some (Inr c, g')))"
proof (cases "resolver lang = []")
  case True
  then show ?thesis using assms(3) by (auto simp: lsp_get_def)
next
  case False
  let ?key = "reg_key ws lang"
  obtain c g1 where l: "registry_lookup ws (resolver lang) ?key g = (c, g1)" by (cases "registry_lookup ws (resolver lang) ?key g")
  have "distinct (map fst (lr_clients g))" using assms(1) by (simp add: reg_ok_def)
  note spec = registry_lookup_spec [OF l this]
  note c = registry_lookup_client [OF assms(1,2) l]
  obtain r c1 where st: "lsp_start env c = Some (r, c1)"
    using assms(3) False l by (auto simp: lsp_get_def Let_def split: option.splits)
  note f = lsp_start_fields [OF st]
  show ?thesis
  proof (cases r)
    case None
    then have res: "res = Inr c1" "g' = g1\<lparr>lr_clients := AList.update ?key c1 (lr_clients g1)\<rparr>"
      using assms(3) False l st by (auto simp: lsp_get_def Let_def)
    then have m: "map_of (lr_clients g') = (map_of (lr_clients g))(?key \<mapsto> c1)" using spec by (simp add: update_conv')
    then have again: "AList.update ?key c1 (lr_clients g') = lr_clients g'" by (intro update_triv) simp
    have "lsp_start env' c1 = Some (None, c1)" for env' using f None by (simp add: lsp_start_def)
    then have "lsp_get env' resolver ws lang g' = Some (Inr c1, g')" for env'
      using False m again by (simp add: lsp_get_def registry_lookup_def Let_def)
    then show ?thesis using m f c None res(1) by simp
  next
    case (Some e)
    then have "res = Inl e" "lr_clients g' = AList.delete ?key (lr_clients g1)"
      using assms(3) False l st by (auto simp: lsp_get_def Let_def)
    then show ?thesis using spec by (simp add: delete_conv')
  qed
qed

theorem registry_get_correct_witness:
  "\<exists>c. lsp_get demo_lsp (\<lambda>_. [''gopls'']) ''/w'' ''go'' two_clients = Some (Inr c, two_clients)
     \<and> cl_root c = ''/w'' \<and> cl_started c = Some None"
proof -
  have ok: "reg_ok (\<lambda>_. [''gopls'']) two_clients"
    unfolding reg_ok_def two_clients_def client_ok_def by (auto simp: demo_client_def new_client_def reg_key_def)
  have g: "lsp_get demo_lsp (\<lambda>_. [''gopls'']) ''/w'' ''go'' two_clients = Some (Inr (demo_client\<lparr>cl_last := 5\<rparr>), two_clients)"
    by (simp add: lsp_get_def registry_lookup_def Let_def two_clients_def lsp_start_def demo_client_def new_client_def)
  have "CHR 0x00 \<notin> set ''/w''" by simp
  from registry_get_correct [OF ok this g] g show ?thesis by auto
qed

text \<open>
  the language server never gets the \<open>shutdown\<close> request of its protocol.  \<open>Shutdown\<close> sets the closed
  flag before it issues the request, so the request is refused by its own check and only the \<open>exit\<close>
  notification is written.
\<close>

theorem shutdown_request_never_sent:
  assumes "lsp_shutdown env c = Returns d"
  shows "cl_sent d = cl_sent c \<or> cl_sent d = cl_sent c @ [(None, ''exit'', JNull)]"
  using assms by (auto simp: shutdown_eq split: if_splits)

theorem shutdown_request_never_sent_witness:
  "\<exists>d. lsp_shutdown demo_lsp demo_client = Returns d \<and> (cl_sent d = [] \<or> cl_sent d = [(None, ''exit'', JNull)])"
proof -
  obtain d where d: "lsp_shutdown demo_lsp demo_client = Returns d"
    using shutdown_stdin [of demo_client demo_lsp] by (auto simp: demo_client_def)
  from shutdown_request_never_sent [OF d] d show ?thesis by (simp add: demo_client_fields(7))
qed

text \<open>
  a dead language server is not replaced.  When the read loop has ended, \<open>Get\<close> keeps answering with
  the dead client and every query on it fails, which does not count as a use; only the sweep after the
  idle timeout removes it.
\<close>

theorem dead_client_kept:
  assumes "map_of (lr_clients g) (reg_key ws lang) = Some c" "cl_started c = Some None" "cl_closed c" "resolver lang \<noteq> []"
  shows "lsp_get env resolver ws lang g = Some (Inr c, g)
    \<and> (\<exists>d. lsp_definition env f line col c = Some (Inl err_closed, d) \<and> cl_last d = cl_last c)"
proof
  show "lsp_get env resolver ws lang g = Some (Inr c, g)"
    using assms by (simp add: lsp_get_def registry_lookup_def lsp_start_def update_triv)
  show "\<exists>d. lsp_definition env f line col c = Some (Inl err_closed, d) \<and> cl_last d = cl_last c"
    using assms(2,3) ensure_open_static [of env f c] by (simp add: lsp_definition_def lsp_query_def lsp_start_def lsp_call_def)
qed

definition dead_pool :: lsp_registry where
  "dead_pool = \<lparr>lr_idle = 600, lr_clients = [(reg_key ''/w'' ''go'', fail_all_inflight ''EOF'' demo_client)], lr_dropped = []\<rparr>"

theorem dead_client_kept_witness:
  "\<exists>d. lsp_definition demo_lsp ''b.go'' 3 9 (fail_all_inflight ''EOF'' demo_client) = Some (Inl err_closed, d)"
proof -
  have "map_of (lr_clients dead_pool) (reg_key ''/w'' ''go'') = Some (fail_all_inflight ''EOF'' demo_client)"
    "cl_started (fail_all_inflight ''EOF'' demo_client) = Some None" "cl_closed (fail_all_inflight ''EOF'' demo_client)"
    by (simp_all add: dead_pool_def fail_all_inflight_def fail_inflight_def set_closed_def demo_client_def)
  from dead_client_kept [OF this, of "\<lambda>_. [''gopls'']" demo_lsp "''b.go''" 3 9] show ?thesis by auto
qed

text \<open>
  a failed handshake leaks the server.  When the answer to \<open>initialize\<close> does not come in time, \<open>Get\<close>
  forgets the client while its process is still running and nothing will ever stop it.
\<close>

theorem failed_handshake_leaks:
  "\<exists>env g e. lsp_get env (\<lambda>_. [''gopls'']) ''/w'' ''go'' (new_registry 0) = Some (Inl e, g)
     \<and> lr_clients g = [] \<and> list_ex cl_running (lr_dropped g)"
proof -
  let ?env = "demo_lsp\<lparr>le_events := (\<lambda>_. [CtxDone ''context deadline exceeded''])\<rparr>"
  let ?c = "new_client ''/w'' [''gopls'']"
  have "\<exists>e d. lsp_start ?env ?c = Some (Some e, d) \<and> cl_running d"
    by (simp add: lsp_start_def do_start_def handshake_def lsp_call_def register_call_def await.simps [of _ _ _ "_ # _"]
        demo_lsp_def new_client_def drop_call_def)
  then obtain e d where st: "lsp_start ?env ?c = Some (Some e, d)" "cl_running d" by blast
  have "lsp_get ?env (\<lambda>_. [''gopls'']) ''/w'' ''go'' (new_registry 0)
    = Some (Inl e, (new_registry 0)\<lparr>lr_clients := [], lr_dropped := [d]\<rparr>)"
    using st(1) by (simp add: lsp_get_def registry_lookup_def new_registry_def Let_def)
  then show ?thesis using st(2) by (intro exI conjI) (assumption, simp_all)
qed

text \<open>
  stopping the sandbox while a server is being started panics.  Between the insertion of a new client
  and the start of its process, \<open>Shutdown\<close> of the registry writes to a pipe that does not exist yet.
\<close>

theorem shutdown_during_start_panics:
  assumes "lr_clients g = []"
  shows "registry_shutdown env (snd (registry_lookup ws argv (reg_key ws lang) g)) = Panics"
  using assms by (simp add: registry_shutdown_def registry_lookup_def Let_def shutdown_eq new_client_def)

theorem shutdown_during_start_panics_witness:
  "registry_shutdown demo_lsp (snd (registry_lookup ''/w'' [''gopls''] (reg_key ''/w'' ''go'') (new_registry 0))) = Panics"
  by (rule shutdown_during_start_panics) (simp add: new_registry_def)

end
