(* ===== verification/LspTools.thy ===== *)
theory LspTools
  imports LspRegistry ReadTool "HOL-Library.Multiset"
begin

text \<open>
  The tools over the language server: \<open>find_definition\<close>, \<open>find_references\<close> and \<open>rename_symbol\<close>
  (\<open>internal/tools/lsp_common.go\<close>, \<open>lsp_find_definition.go\<close>, \<open>lsp_find_references.go\<close>,
  \<open>lsp_rename_symbol.go\<close>).  None of them has an operation on the file system that writes: the tree is
  read only.  \<open>None\<close> as the result of a handler is a call that never returns, as in LspClient.
\<close>

section \<open>Arguments, files and clients\<close>

definition parse_lsp_pos_args :: "args \<Rightarrow> string + (string \<times> int \<times> int)" where
  "parse_lsp_pos_args a =
     (let file = arg_str0 a ''file_path''
      in if file = [] then Inl ''file_path is required''
         else case arg_int a ''line'' of
                None \<Rightarrow> Inl ''line is required (1-based)''
              | Some line \<Rightarrow>
                  if line \<le> 0 then Inl ''line is required (1-based)''
                  else case arg_int a ''col'' of
                         None \<Rightarrow> Inl ''col is required (1-based)''
                       | Some col \<Rightarrow> if col \<le> 0 then Inl ''col is required (1-based)'' else Inr (file, line, col))"

definition parse_rename_args :: "args \<Rightarrow> string + (string \<times> int \<times> int \<times> string)" where
  "parse_rename_args a =
     (case parse_lsp_pos_args a of
        Inl e \<Rightarrow> Inl e
      | Inr (file, line, col) \<Rightarrow>
          let new = arg_str0 a ''new_name'' in if new = [] then Inl ''new_name is required'' else Inr (file, line, col, new))"

definition resolve_lsp_file :: "fs \<Rightarrow> workspace \<Rightarrow> string \<Rightarrow> string + (string \<times> string)" where
  "resolve_lsp_file f w p =
     (case resolve f w p of
        Inl e \<Rightarrow> Inl (''resolve path: '' @ resolve_err_text e)
      | Inr r \<Rightarrow>
          (case k_stat f r of
             Inl e \<Rightarrow> Inl (''stat: '' @ path_error ''stat'' r e)
           | Inr NDir \<Rightarrow> Inl (''path is a directory: '' @ p)
           | Inr _ \<Rightarrow> Inr (r, case fp_rel (ws_root w) r of Some rel \<Rightarrow> rel | None \<Rightarrow> p)))"

definition no_detector_text :: string where
  "no_detector_text = ''no language detected in workspace '' @ em_dash @ '' LSP navigation requires a recognised project (go.mod, etc.)''"

definition gopls_hint :: string where
  "gopls_hint = ''gopls not found on PATH. See docs/concepts/language-support for the image composition model (gopls ships in codegen-sandbox-tools-go).''"

text \<open>\<open>acquireLSPClient\<close>; the resolver of the registry is an argument, as the server sets it up.\<close>

definition acquire_lsp_client ::
  "lsp_env \<Rightarrow> (string \<Rightarrow> string list) \<Rightarrow> fs \<Rightarrow> workspace \<Rightarrow> lsp_registry option \<Rightarrow> ((string + string \<times> client) \<times> lsp_registry option) option" where
  "acquire_lsp_client env resolver f w og =
     (case og of
        None \<Rightarrow> Some (Inl ''LSP registry unavailable (BUG)'', None)
      | Some g \<Rightarrow>
          (case detect f (ws_root w) of
             None \<Rightarrow> Some (Inl no_detector_text, Some g)
           | Some d \<Rightarrow>
               if lsp_command d = [] then Some (Inl (''LSP not configured for '' @ language d), Some g)
               else case lsp_get env resolver (ws_root w) (language d) g of
                      None \<Rightarrow> None
                    | Some (Inl e, g') \<Rightarrow>
                        Some (Inl (if str_contains e ''not found on PATH'' \<and> language d = ''go'' then gopls_hint else e), Some g')
                    | Some (Inr c, g') \<Rightarrow> Some (Inr (language d, c), Some g')))"

section \<open>Locations\<close>

definition abs_from_rel :: "string \<Rightarrow> string \<Rightarrow> string" where
  "abs_from_rel top_dir p = (if is_abs p then p else fp_join top_dir p)"

definition preview_line :: "fs \<Rightarrow> string \<Rightarrow> int \<Rightarrow> string" where
  "preview_line f p line =
     (if line \<le> 0 then []
      else case k_read_file f p of
             Inl _ \<Rightarrow> []
           | Inr data \<Rightarrow>
               let toks = fst (scan_lines data)
               in if nat line \<le> length toks then trim_space (toks ! (nat line - 1)) else [])"

definition location_line :: "fs \<Rightarrow> string \<Rightarrow> nat \<Rightarrow> location \<Rightarrow> string" where
  "location_line f top_dir i l =
     (let pv = preview_line f (abs_from_rel top_dir (loc_uri l)) (loc_line l)
      in ''  '' @ dec_nat (i + 1) @ ''. '' @ loc_uri l @ '':'' @ dec_int (loc_line l) @ '':'' @ dec_int (loc_col l)
         @ (if pv = [] then [] else ''  '' @ pv) @ [newline])"

definition format_location_list :: "fs \<Rightarrow> string \<Rightarrow> string \<Rightarrow> location list \<Rightarrow> string" where
  "format_location_list f header top_dir ls =
     trim_nl (header @ [newline] @ concat (map (\<lambda>(i, l). location_line f top_dir i l) (enumerate 0 ls)))"

definition at_pos :: "string \<Rightarrow> int \<Rightarrow> int \<Rightarrow> string" where
  "at_pos rel line col = rel @ '':'' @ dec_int line @ '':'' @ dec_int col"

definition keep_client :: "string \<Rightarrow> string \<Rightarrow> client \<Rightarrow> lsp_registry option \<Rightarrow> lsp_registry option" where
  "keep_client ws lang c og = map_option (\<lambda>g. g\<lparr>lr_clients := AList.update (reg_key ws lang) c (lr_clients g)\<rparr>) og"

record lsp_deps =
  ld_env :: lsp_env
  ld_resolver :: "string \<Rightarrow> string list"
  ld_ws :: workspace
  ld_fs :: fs

text \<open>The shared body of \<open>find_definition\<close> and \<open>find_references\<close>: the query and the words differ.\<close>

definition handle_locations ::
  "(lsp_env \<Rightarrow> string \<Rightarrow> int \<Rightarrow> int \<Rightarrow> client \<Rightarrow> ((string + location list) \<times> client) option) \<Rightarrow> string \<Rightarrow> string \<Rightarrow> lsp_deps \<Rightarrow> args
    \<Rightarrow> lsp_registry option \<Rightarrow> (tool_result \<times> lsp_registry option) option" where
  "handle_locations query tool noun d a og =
     (case parse_lsp_pos_args a of
        Inl e \<Rightarrow> Some (ErrorResult e, og)
      | Inr (file, line, col) \<Rightarrow>
          (case resolve_lsp_file (ld_fs d) (ld_ws d) file of
             Inl e \<Rightarrow> Some (ErrorResult e, og)
           | Inr (_, rel) \<Rightarrow>
               (case acquire_lsp_client (ld_env d) (ld_resolver d) (ld_fs d) (ld_ws d) og of
                  None \<Rightarrow> None
                | Some (Inl e, og') \<Rightarrow> Some (ErrorResult e, og')
                | Some (Inr (lang, c), og') \<Rightarrow>
                    (case query (ld_env d) rel line col c of
                       None \<Rightarrow> None
                     | Some (res, c') \<Rightarrow>
                         let og2 = keep_client (ws_root (ld_ws d)) lang c' og'
                         in case res of
                              Inl e \<Rightarrow> Some (ErrorResult (tool @ '': '' @ e), og2)
                            | Inr ls \<Rightarrow>
                                if ls = [] then Some (TextResult (''no '' @ noun @ '' found at '' @ at_pos rel line col), og2)
                                else Some (TextResult (format_location_list (ld_fs d)
                                       (''Found '' @ dec_nat (length ls) @ '' '' @ noun @ ''(s) for symbol at '' @ at_pos rel line col @ '':'')
                                       (ws_root (ld_ws d)) ls), og2)))))"

definition handle_find_definition :: "lsp_deps \<Rightarrow> args \<Rightarrow> lsp_registry option \<Rightarrow> (tool_result \<times> lsp_registry option) option" where
  "handle_find_definition = handle_locations lsp_definition ''find_definition'' ''definition''"

definition handle_find_references :: "lsp_deps \<Rightarrow> args \<Rightarrow> lsp_registry option \<Rightarrow> (tool_result \<times> lsp_registry option) option" where
  "handle_find_references = handle_locations lsp_references ''find_references'' ''reference''"

section \<open>Renames\<close>

text \<open>
  \<open>writeHunk\<close>; \<open>None\<close> is the panic of slicing with a negative bound.  Columns count bytes here, as in
  the code.
\<close>

definition write_hunk :: "string list \<Rightarrow> text_edit \<Rightarrow> string option" where
  "write_hunk ls e =
     (let idx = te_line e - 1
      in if idx < 0 \<or> int (length ls) \<le> idx then Some (''@@ '' @ dec_int (te_line e) @ '',1 @@'' @ [newline] @ ''+'' @ te_new e @ [newline])
         else
           let before = ls ! nat idx; n = int (length before);
               end_col = min (te_end_col e - 1) n;
               start_col = min (min (te_col e - 1) n) end_col
           in if start_col < 0 \<or> end_col < 0 then None
              else
                let after = take (nat start_col) before @ te_new e @ drop (nat end_col) before
                in Some (''@@ -'' @ dec_int (te_line e) @ '',1 +'' @ dec_int (te_line e) @ '',1 @@'' @ [newline]
                     @ ''-'' @ before @ [newline] @ ''+'' @ after @ [newline]))"

definition edit_before :: "text_edit \<Rightarrow> text_edit \<Rightarrow> bool" where
  "edit_before a b \<longleftrightarrow> (if te_line a \<noteq> te_line b then te_line a < te_line b else te_col a < te_col b)"

text \<open>\<open>sort.Slice\<close> of fewer than twelve edits is an insertion sort; edits at one position are left in order.\<close>

fun insert_edit :: "text_edit \<Rightarrow> text_edit list \<Rightarrow> text_edit list" where
  "insert_edit e [] = [e]"
| "insert_edit e (x # xs) = (if edit_before x e then x # insert_edit e xs else e # x # xs)"

fun sort_edits :: "text_edit list \<Rightarrow> text_edit list" where
  "sort_edits [] = []"
| "sort_edits (e # es) = insert_edit e (sort_edits es)"

fun write_hunks :: "string list \<Rightarrow> text_edit list \<Rightarrow> string option" where
  "write_hunks ls [] = Some []"
| "write_hunks ls (e # es) =
     (case write_hunk ls e of None \<Rightarrow> None | Some h \<Rightarrow> map_option (append h) (write_hunks ls es))"

definition render_file_diff :: "fs \<Rightarrow> string \<Rightarrow> string \<Rightarrow> text_edit list \<Rightarrow> string option" where
  "render_file_diff f top_dir rel es =
     (let hd_lines = ''--- a/'' @ rel @ [newline] @ ''+++ b/'' @ rel @ [newline]; p = abs_from_rel top_dir rel
      in case k_read_file f p of
           Inl e \<Rightarrow> Some (hd_lines @ ''(file unreadable: '' @ path_error ''open'' p e @ '')'' @ [newline])
         | Inr data \<Rightarrow> map_option (append hd_lines) (write_hunks (split_on newline data) (sort_edits es)))"

definition arrow :: string where "arrow = [CHR 0xE2, CHR 0x86, CHR 0x92]"

definition format_rename_edit :: "fs \<Rightarrow> string \<Rightarrow> string \<Rightarrow> workspace_edit \<Rightarrow> string option" where
  "format_rename_edit f top_dir new ed =
     (let files = sort (map fst ed); edits = (\<lambda>p. case map_of ed p of None \<Rightarrow> [] | Some es \<Rightarrow> es)
      in case those_opt (map (\<lambda>p. render_file_diff f top_dir p (edits p)) files) of
           None \<Rightarrow> None
         | Some ds \<Rightarrow>
             Some (trim_nl (''Rename '' @ arrow @ '' '' @ quote new @ '' would touch '' @ dec_nat (length files) @ '' file(s):'' @ [newline]
               @ concat (map (\<lambda>p. ''  - '' @ p @ '' ('' @ dec_nat (length (edits p)) @ '' edit(s))'' @ [newline]) files)
               @ [newline] @ ''Review the diff below; apply via Edit once approved:'' @ [newline, newline]
               @ concat (map (\<lambda>x. x @ [newline]) ds))))"

text \<open>A panic while rendering leaves the handler without a result of its own.\<close>

datatype handler_end = Answered tool_result | HandlerPanic

definition handle_rename_symbol ::
  "lsp_deps \<Rightarrow> tracker option \<Rightarrow> args \<Rightarrow> lsp_registry option \<Rightarrow> (handler_end \<times> lsp_registry option) option" where
  "handle_rename_symbol d tr a og =
     (case parse_rename_args a of
        Inl e \<Rightarrow> Some (Answered (ErrorResult e), og)
      | Inr (file, line, col, new) \<Rightarrow>
          (case resolve_lsp_file (ld_fs d) (ld_ws d) file of
             Inl e \<Rightarrow> Some (Answered (ErrorResult e), og)
           | Inr (p, rel) \<Rightarrow>
               if (case tr of None \<Rightarrow> False | Some t \<Rightarrow> \<not> has_been_read t p) then
                 Some (Answered (ErrorResult (''refusing to rename from '' @ file @ '': Read it first'')), og)
               else
                 (case acquire_lsp_client (ld_env d) (ld_resolver d) (ld_fs d) (ld_ws d) og of
                    None \<Rightarrow> None
                  | Some (Inl e, og') \<Rightarrow> Some (Answered (ErrorResult e), og')
                  | Some (Inr (lang, c), og') \<Rightarrow>
                      (case lsp_rename (ld_env d) rel line col new c of
                         None \<Rightarrow> None
                       | Some (res, c') \<Rightarrow>
                           let og2 = keep_client (ws_root (ld_ws d)) lang c' og'
                           in case res of
                                Inl e \<Rightarrow> Some (Answered (ErrorResult (''rename_symbol: '' @ e)), og2)
                              | Inr ed \<Rightarrow>
                                  if ed = [] then Some (Answered (TextResult (''no rename available at '' @ at_pos rel line col)), og2)
                                  else case format_rename_edit (ld_fs d) (ws_root (ld_ws d)) new ed of
                                         None \<Rightarrow> Some (HandlerPanic, og2)
                                       | Some t \<Rightarrow> Some (Answered (TextResult t), og2)))))"


section \<open>What the tools show\<close>

lemma insert_edit_mset: "mset (insert_edit e es) = add_mset e (mset es)"
  by (induction es) auto

lemma edit_order: "edit_before b a \<Longrightarrow> \<not> edit_before a b"
  by (auto simp: edit_before_def split: if_splits)

lemma edit_before_trans': "\<not> edit_before b a \<Longrightarrow> \<not> edit_before c b \<Longrightarrow> \<not> edit_before c a"
  by (auto simp: edit_before_def split: if_splits)

lemma insert_edit_sorted: "sorted_wrt (\<lambda>a b. \<not> edit_before b a) es \<Longrightarrow> sorted_wrt (\<lambda>a b. \<not> edit_before b a) (insert_edit e es)"
proof (induction es)
  case (Cons x es)
  have "set (insert_edit e es) = insert e (set es)" by (metis insert_edit_mset set_mset_add_mset_insert set_mset_mset)
  then show ?case using Cons by (auto dest: edit_order edit_before_trans')
qed simp

text \<open>
  the diff of a rename shows every edit once and in the order of the file.
\<close>

theorem sort_edits_correct:
  "mset (sort_edits es) = mset es \<and> sorted_wrt (\<lambda>a b. \<not> edit_before b a) (sort_edits es)"
  by (induction es) (auto simp: insert_edit_mset insert_edit_sorted)

text \<open>
  a rename is computed for read files only.  Unless the file has been read, \<open>rename_symbol\<close> sends
  nothing to the language server and starts none: the pool is as before.
\<close>

theorem rename_needs_read:
  assumes "parse_rename_args a = Inr (file, line, col, new)" "resolve_lsp_file (ld_fs d) (ld_ws d) file = Inr (p, rel)"
    "\<not> has_been_read t p"
  shows "handle_rename_symbol d (Some t) a og
    = Some (Answered (ErrorResult (''refusing to rename from '' @ file @ '': Read it first'')), og)"
  using assms by (simp add: handle_rename_symbol_def)

text \<open>
  previews leave the workspace.  The path of a location is used as the server gave it, so the line of
  any file the process can read appears in the answer when a location names it; the comment on the call
  says that its caller keeps it inside the workspace.
\<close>

theorem preview_outside_workspace:
  assumes "is_abs p" "k_read_file f p = Inr data" "0 < line" "nat line \<le> length (fst (scan_lines data))"
    "trim_space (fst (scan_lines data) ! (nat line - 1)) \<noteq> []"
  shows "\<exists>a. location_line f top_dir i \<lparr>loc_uri = p, loc_line = line, loc_col = c, loc_end_line = el, loc_end_col = ec\<rparr>
    = a @ ''  '' @ trim_space (fst (scan_lines data) ! (nat line - 1)) @ [newline]"
  using assms by (auto simp: location_line_def preview_line_def abs_from_rel_def Let_def)

definition secret_fs :: fs where
  "secret_fs = (\<lambda>_. None)([] \<mapsto> NDir, [''w''] \<mapsto> NDir, [''etc''] \<mapsto> NDir, [''etc'', ''key''] \<mapsto> NFile ''s3cret'')"

theorem preview_outside_workspace_witness:
  "\<exists>a. location_line secret_fs ''/w'' 0 \<lparr>loc_uri = ''/etc/key'', loc_line = 1, loc_col = 1, loc_end_line = 1, loc_end_col = 1\<rparr>
    = a @ ''  s3cret'' @ [newline]"
proof -
  have r: "k_read_file secret_fs ''/etc/key'' = Inr ''s3cret''"
    by (simp add: k_read_file_def k_stat_def k_lookup_def node_at_def walk.simps secret_fs_def kernel_max_links_def)
  have s: "fst (scan_lines ''s3cret'') = [''s3cret'']"
    by (simp add: scan_lines_def raw_lines_def drop_cr_def scan_token_max_def Let_def)
  have t: "trim_space ''s3cret'' = ''s3cret''" by code_simp
  show ?thesis
    using preview_outside_workspace [OF _ r, of 1 "''/w''" 0 1 1 1] by (simp add: s t is_abs_def)
qed

text \<open>
  columns are taken for bytes.  The protocol counts UTF-16 code units; on a line with an accented
  letter before it, renaming the last identifier replaces the byte before it instead.
\<close>

definition accented_line :: string where
  "accented_line = [CHR 0xC3, CHR 0xA9] @ '' := x''"

theorem columns_are_bytes:
  "write_hunk [accented_line] \<lparr>te_line = 1, te_col = 6, te_end_line = 1, te_end_col = 7, te_new = ''y''\<rparr>
    = Some (''@@ -1,1 +1,1 @@'' @ [newline] @ ''-'' @ accented_line @ [newline] @ ''+'' @ [CHR 0xC3, CHR 0xA9] @ '' :=yx'' @ [newline])"
  by code_simp

end
