(* ===== verification/Scrub.thy ===== *)
theory Scrub
  imports GoRegexp
begin

text \<open>
  The redaction of secrets in every tool result (\<open>internal/scrub/scrub.go\<close> and \<open>scrubMiddleware\<close> of
  \<open>internal/server/middleware.go\<close>): thirteen patterns, applied in order, each to the output of the one
  before.  Patterns work on bytes; under \<open>(?i)\<close> the two Unicode letters that fold to \<open>k\<close> and \<open>s\<close> are
  not matched here.
\<close>

section \<open>The patterns\<close>

abbreviation dash :: char where "dash \<equiv> CHR ''-''"
abbreviation underscore :: char where "underscore \<equiv> CHR ''_''"

definition cls_key :: "char \<Rightarrow> bool" where "cls_key c \<longleftrightarrow> cls_alnum c \<or> c = underscore \<or> c = dash"
definition cls_akey :: "char \<Rightarrow> bool" where "cls_akey c \<longleftrightarrow> is_digit c \<or> cls_upper c"
definition not_space :: "char \<Rightarrow> bool" where "not_space c \<longleftrightarrow> \<not> cls_space c"

abbreviation at_words :: "re list \<Rightarrow> re" where "at_words rs \<equiv> rseqs (RWordB # rs @ [RWordB])"

definition pem_line :: "string \<Rightarrow> re list" where
  "pem_line what = [rlit (''-----'' @ what @ '' ''), ropt (RSeq (rplus (RCls cls_upper)) (rchr (CHR '' ''))), rlit ''PRIVATE KEY-----'']"

definition env_names :: "string list" where
  "env_names = [''API_KEY'', ''TOKEN'', ''SECRET'', ''PASSWORD'', ''PASSWD'', ''PRIVATE_KEY'']"

definition patterns :: "(string \<times> re) list" where
  "patterns =
    [(''aws-access-key'', at_words [ralts [rlit ''AKIA'', rlit ''ASIA''], rtimes 16 (RCls cls_akey)]),
     (''github-fine-grained-pat'', at_words [rlit ''github_pat_'', ratleast 82 (RCls (\<lambda>c. cls_alnum c \<or> c = underscore))]),
     (''github-pat'', at_words [rlit ''ghp_'', ratleast 36 (RCls cls_alnum)]),
     (''github-oauth'', at_words [rlit ''gh'', RCls (\<lambda>c. c \<in> set ''ousr''), rchr underscore, ratleast 36 (RCls cls_alnum)]),
     (''anthropic-api-key'', at_words [rlit ''sk-ant-'', ratleast 20 (RCls cls_key)]),
     (''openai-api-key'', at_words [rlit ''sk-'', ropt (rlit ''proj-''), ratleast 20 (RCls cls_key)]),
     (''google-api-key'', at_words [rlit ''AIza'', rtimes 35 (RCls cls_key)]),
     (''slack-token'', at_words [rlit ''xox'', RCls (\<lambda>c. c \<in> set ''abpr''), rchr dash, ratleast 10 (RCls (\<lambda>c. cls_alnum c \<or> c = dash))]),
     (''stripe-live-key'', at_words [ralts [rlit ''sk'', rlit ''rk''], rlit ''_live_'', ratleast 24 (RCls cls_alnum)]),
     (''jwt'', at_words [rlit ''eyJ'', ratleast 10 (RCls cls_key), rlit ''.eyJ'', ratleast 10 (RCls cls_key), rchr (CHR ''.''),
                         ratleast 10 (RCls cls_key)]),
     (''pem-private-key'', rseqs (pem_line ''BEGIN'' @ [RStar False (RCls (\<lambda>_. True))] @ pem_line ''END'')),
     (''basic-auth-url'', rseqs [RCls cls_lower, RStar True (RCls (\<lambda>c. cls_lower c \<or> is_digit c \<or> c \<in> set ''+.-'')), rlit ''://'',
        rplus (RCls (\<lambda>c. c \<noteq> CHR '':'' \<and> \<not> cls_space c \<and> c \<noteq> CHR ''/'' \<and> c \<noteq> CHR ''@'')), rchr (CHR '':''),
        rplus (RCls (\<lambda>c. c \<noteq> CHR ''@'' \<and> \<not> cls_space c)), rchr (CHR ''@''),
        rplus (RCls (\<lambda>c. is_word c \<or> c = CHR ''.'' \<or> c = dash))]),
     (''secret-env-assignment'', rseqs [RWordB, ralts (map rlit_ci env_names), RStar True (RCls cls_space), rchr (CHR ''=''),
        RStar True (RCls cls_space), RCls (\<lambda>c. c \<noteq> CHR ''['' \<and> \<not> cls_space c), RStar True (RCls not_space)])]"

section \<open>Scrubbing\<close>

record scrub_stat =
  sc_pattern :: string
  sc_hits :: nat
  sc_bytes :: nat

definition redacted :: "string \<Rightarrow> string" where
  "redacted name = ''[REDACTED:'' @ name @ '']''"

fun with_stats_over :: "(string \<times> re) list \<Rightarrow> string \<Rightarrow> string \<times> scrub_stat list" where
  "with_stats_over [] text = (text, [])"
| "with_stats_over ((name, r) # ps) text =
     (let ms = find_all r text
      in if ms = [] then with_stats_over ps text
         else
           let st = \<lparr>sc_pattern = name, sc_hits = length ms, sc_bytes = sum_list (map (\<lambda>(a, b). length (slice text a b)) ms)\<rparr>;
               (out, sts) = with_stats_over ps (replace_all r text (redacted name))
           in (out, st # sts))"

definition with_stats :: "string \<Rightarrow> string \<times> scrub_stat list" where
  "with_stats text = with_stats_over patterns text"

definition scrub :: "string \<Rightarrow> string" where
  "scrub text = fst (with_stats text)"

text \<open>A tool result is a list of contents; only texts are touched, and only if the handler returned no error.\<close>

datatype content = TextContent string | OtherContent string

fun scrub_content :: "content \<Rightarrow> content" where
  "scrub_content (TextContent t) = TextContent (scrub t)"
| "scrub_content (OtherContent x) = OtherContent x"

fun scrub_middleware :: "string + content list option \<Rightarrow> string + content list option" where
  "scrub_middleware (Inl err) = Inl err"
| "scrub_middleware (Inr None) = Inr None"
| "scrub_middleware (Inr (Some cs)) = Inr (Some (map scrub_content cs))"

section \<open>No pattern matches the empty text\<close>

primrec min_len :: "re \<Rightarrow> nat" where
  "min_len REps = 0"
| "min_len (RCls p) = 1"
| "min_len (RSeq a b) = min_len a + min_len b"
| "min_len (RAlt a b) = min (min_len a) (min_len b)"
| "min_len (RStar g a) = 0"
| "min_len (RGroup k a) = min_len a"
| "min_len RBegin = 0"
| "min_len REnd = 0"
| "min_len RBeginLine = 0"
| "min_len RWordB = 0"

lemma matches_min_len: "matches s r i j \<Longrightarrow> i + min_len r \<le> j"
  by (induction rule: matches.induct) auto

lemma min_len_rlit [simp]: "min_len (rlit w) = length w"
  by (induction w rule: rlit.induct) (simp_all add: rchr_def)

lemma min_len_rlit_ci [simp]: "min_len (rlit_ci w) = length w"
  by (induction w rule: rlit_ci.induct) (simp_all add: rchr_ci_def)

lemma min_len_rseqs_ge: "r \<in> set rs \<Longrightarrow> min_len r \<le> min_len (rseqs rs)"
  by (induction rs rule: rseqs.induct) auto

lemma rseqs_ne: "r \<in> set rs \<Longrightarrow> 0 < min_len r \<Longrightarrow> matches s (rseqs rs) i j \<Longrightarrow> i < j"
  using matches_min_len [of s "rseqs rs" i j] min_len_rseqs_ge [of r rs] by simp

lemma patterns_ne:
  assumes "(name, r) \<in> set patterns" "matches s r i j"
  shows "i < j"
proof -
  have "0 < min_len r" using assms(1)
    by (auto simp: patterns_def pem_line_def env_names_def rchr_def rplus_def)
  with matches_min_len [OF assms(2)] show ?thesis by simp
qed

section \<open>Every occurrence is hit\<close>

lemma find_at_leftmost: "find_at r s p = Some (a, b, c) \<Longrightarrow> p \<le> i \<Longrightarrow> matches s r i j \<Longrightarrow> i \<le> length s \<Longrightarrow> a \<le> i"
proof (rule ccontr)
  assume f: "find_at r s p = Some (a, b, c)" and i: "p \<le> i" "matches s r i j" "i \<le> length s" "\<not> a \<le> i"
  then have "rmatch r s (i, []) = []" using find_from_Some [of _ r s p a b c] by (auto simp: find_at_def)
  with rmatch_complete [OF i(2,3), of "[]"] show False by simp
qed

lemma find_all_from_hits:
  assumes "\<And>a b. matches s r a b \<Longrightarrow> a < b" "p \<le> i" "matches s r i j" "i \<le> length s" "length s < n + p"
  shows "\<exists>(a, b) \<in> set (find_all_from n r s p). a < j \<and> i < b"
  using assms(2,5)
proof (induction n arbitrary: p)
  case (Suc n)
  from find_at_None [of r s p i j] Suc.prems(1) assms(3,4)
  obtain a b c where f: "find_at r s p = Some (a, b, c)" by (cases "find_at r s p") auto
  have le: "p \<le> length s" using Suc.prems(1) assms(4) by simp
  note f1 = find_at_Some [OF f le]
  have ab: "a < b" using assms(1) f1(4) by blast
  have ai: "a \<le> i" by (rule find_at_leftmost [OF f Suc.prems(1) assms(3,4)])
  show ?case
  proof (cases "i < b")
    case True
    then show ?thesis using ai assms(1) [OF assms(3)] f by auto
  next
    case False
    have "\<exists>(a, b) \<in> set (find_all_from n r s b). a < j \<and> i < b"
      using False Suc.prems(2) f1(1) ab by (intro Suc.IH) auto
    then show ?thesis using f ab by auto
  qed
qed (use assms(4) in simp)

text \<open>The found spans are matches, in order and apart, within the text.\<close>

lemma find_all_from_spans:
  assumes "\<And>a b. matches s r a b \<Longrightarrow> a < b" "p \<le> length s"
  shows "(\<forall>(a, b) \<in> set (find_all_from n r s p). p \<le> a \<and> b \<le> length s \<and> matches s r a b)
    \<and> sorted_wrt (\<lambda>x y. snd x \<le> fst y) (find_all_from n r s p)"
  using assms(2)
proof (induction n arbitrary: p)
  case (Suc n)
  show ?case
  proof (cases "find_at r s p")
    case (Some x)
    obtain a b c where x: "x = (a, b, c)" by (cases x) auto
    note f1 = find_at_Some [OF Some [unfolded x] Suc.prems]
    have ab: "a < b" using assms(1) f1(4) by blast
    have "(\<forall>(a', b') \<in> set (find_all_from n r s b). b \<le> a' \<and> b' \<le> length s \<and> matches s r a' b')
      \<and> sorted_wrt (\<lambda>x y. snd x \<le> fst y) (find_all_from n r s b)" by (rule Suc.IH) (rule f1(3))
    then show ?thesis using f1 ab Some x by fastforce
  qed simp
qed simp

section \<open>Nothing else is touched\<close>

text \<open>\<open>weave ks ms\<close>: the kept pieces with the others between them.\<close>

fun weave :: "string list \<Rightarrow> string list \<Rightarrow> string" where
  "weave [k] [] = k"
| "weave (k # ks) (m # ms) = k @ m @ weave ks ms"
| "weave _ _ = []"

fun kept :: "string \<Rightarrow> nat \<Rightarrow> (nat \<times> nat) list \<Rightarrow> string list" where
  "kept s i [] = [drop i s]"
| "kept s i ((a, b) # ms) = slice s i a # kept s b ms"

lemma kept_ne: "kept s i ms \<noteq> []"
  by (cases "(s, i, ms)" rule: kept.cases) auto

lemma splice_weave: "splice s repl i ms = weave (kept s i ms) (map (\<lambda>_. repl) ms)"
proof (induction s i ms rule: kept.induct)
  case (2 s i a b ms)
  then show ?case by simp
qed simp

lemma text_weave:
  assumes "sorted_wrt (\<lambda>x y. snd x \<le> fst y) ms" "\<forall>(a, b) \<in> set ms. i \<le> a \<and> a \<le> b \<and> b \<le> length s" "i \<le> length s"
  shows "drop i s = weave (kept s i ms) (map (\<lambda>(a, b). slice s a b) ms)"
  using assms
proof (induction s i ms rule: kept.induct)
  case (2 s i a b ms)
  have "drop i s = slice s i a @ slice s a b @ drop b s"
    using 2(3) by (auto simp: slice_def) (metis append_take_drop_id drop_drop le_add_diff_inverse2 take_drop)
  moreover have "drop b s = weave (kept s b ms) (map (\<lambda>(a, b). slice s a b) ms)"
    using 2 by (intro 2(1)) auto
  ultimately show ?case by simp
qed simp

section \<open>The passes\<close>

definition pass_text :: "nat \<Rightarrow> string \<Rightarrow> string" where
  "pass_text k text = foldl (\<lambda>t (name, r). replace_all r t (redacted name)) text (take k patterns)"

definition pass_stat :: "nat \<Rightarrow> string \<Rightarrow> scrub_stat list" where
  "pass_stat k text =
     (let (name, r) = patterns ! k; t = pass_text k text; ms = find_all r t
      in if ms = [] then []
         else [\<lparr>sc_pattern = name, sc_hits = length ms, sc_bytes = sum_list (map (\<lambda>(a, b). length (slice t a b)) ms)\<rparr>])"

lemma with_stats_over_pass:
  "k \<le> length patterns \<Longrightarrow>
     with_stats_over (drop k patterns) (pass_text k text) = (pass_text (length patterns) text, concat (map (\<lambda>i. pass_stat i text) [k..<length patterns]))"
proof (induction "length patterns - k" arbitrary: k)
  case 0
  then show ?case by simp
next
  case (Suc n)
  then have k: "k < length patterns" by simp
  obtain name r where nr: "patterns ! k = (name, r)" by (cases "patterns ! k")
  have d: "drop k patterns = (name, r) # drop (Suc k) patterns" using Cons_nth_drop_Suc [OF k] nr by simp
  have t: "pass_text (Suc k) text = replace_all r (pass_text k text) (redacted name)"
    using k nr by (simp add: pass_text_def take_Suc_conv_app_nth)
  have same: "replace_all r u v = u" if "find_all r u = []" for u v using that by (simp add: replace_all_def)
  have ih: "with_stats_over (drop (Suc k) patterns) (pass_text (Suc k) text)
      = (pass_text (length patterns) text, concat (map (\<lambda>i. pass_stat i text) [Suc k..<length patterns]))"
    using Suc k by (intro Suc(1)) auto
  show ?case
  proof (cases "find_all r (pass_text k text) = []")
    case True
    then have "pass_stat k text = []" by (simp add: pass_stat_def nr)
    then show ?thesis using k ih True same [OF True] by (simp add: d upt_conv_Cons t del: upt_Suc)
  next
    case False
    then show ?thesis using k ih by (simp add: d upt_conv_Cons t pass_stat_def nr Let_def del: upt_Suc)
  qed
qed

lemma pass_text_0: "pass_text 0 text = text"
  by (simp add: pass_text_def)

lemma pass_exact:
  assumes "(name, r) \<in> set patterns"
  shows "(\<forall>(a, b) \<in> set (find_all r t). matches t r a b)"
    "sorted_wrt (\<lambda>x y. snd x \<le> fst y) (find_all r t)"
    "i \<le> length t \<Longrightarrow> matches t r i j \<Longrightarrow> \<exists>(a, b) \<in> set (find_all r t). a < j \<and> i < b"
    "t = weave (kept t 0 (find_all r t)) (map (\<lambda>(a, b). slice t a b) (find_all r t))"
proof -
  have ne: "\<And>a b. matches t r a b \<Longrightarrow> a < b" using patterns_ne [OF assms] by blast
  note spans = find_all_from_spans [of t r 0 "Suc (length t)", OF ne le0, folded find_all_def]
  show m: "\<forall>(a, b) \<in> set (find_all r t). matches t r a b" using spans by blast
  show sw: "sorted_wrt (\<lambda>x y. snd x \<le> fst y) (find_all r t)" using spans by blast
  show "\<exists>(a, b) \<in> set (find_all r t). a < j \<and> i < b" if "i \<le> length t" "matches t r i j"
    unfolding find_all_def using that by (intro find_all_from_hits [OF ne]) simp_all
  have "\<forall>(a, b) \<in> set (find_all r t). 0 \<le> a \<and> a \<le> b \<and> b \<le> length t"
    using spans ne less_imp_le by blast
  from text_weave [OF sw this le0] show "t = weave (kept t 0 (find_all r t)) (map (\<lambda>(a, b). slice t a b) (find_all r t))" by simp
qed

lemma pass_text_Suc:
  assumes "k < length patterns" "patterns ! k = (name, r)"
  shows "pass_text (Suc k) text = weave (kept (pass_text k text) 0 (find_all r (pass_text k text)))
    (map (\<lambda>_. redacted name) (find_all r (pass_text k text)))"
proof -
  have "pass_text (Suc k) text = replace_all r (pass_text k text) (redacted name)"
    using assms by (simp add: pass_text_def take_Suc_conv_app_nth)
  then show ?thesis by (simp only: replace_all_def splice_weave)
qed

text \<open>
  C17: scrubbing is complete and touches nothing else.  The output is the text after the thirteen passes,
  and the statistics count their hits.  In every pass the redacted spans are matches of the pattern, in
  order and apart; every occurrence of the pattern anywhere in the text overlaps a redacted span; and
  the output is the input with exactly those spans replaced by the label.
\<close>

theorem scrub_exact:
  "with_stats text = (pass_text (length patterns) text, concat (map (\<lambda>k. pass_stat k text) [0..<length patterns]))
   \<and> (\<forall>k < length patterns. \<forall>name r t. patterns ! k = (name, r) \<longrightarrow> t = pass_text k text \<longrightarrow>
        (\<forall>(a, b) \<in> set (find_all r t). matches t r a b)
      \<and> sorted_wrt (\<lambda>x y. snd x \<le> fst y) (find_all r t)
      \<and> (\<forall>i j. i \<le> length t \<longrightarrow> matches t r i j \<longrightarrow> (\<exists>(a, b) \<in> set (find_all r t). a < j \<and> i < b))
      \<and> (\<exists>ks. t = weave ks (map (\<lambda>(a, b). slice t a b) (find_all r t))
            \<and> pass_text (Suc k) text = weave ks (map (\<lambda>_. redacted name) (find_all r t))))"
proof (intro conjI allI impI)
  show "with_stats text = (pass_text (length patterns) text, concat (map (\<lambda>k. pass_stat k text) [0..<length patterns]))"
    using with_stats_over_pass [of 0 "text"] unfolding with_stats_def pass_text_0 drop_0 by blast
next
  fix k name r t
  assume k: "k < length patterns" "patterns ! k = (name, r)" "t = pass_text k text"
  have p: "(name, r) \<in> set patterns" using nth_mem [OF k(1)] unfolding k(2) .
  note e = pass_exact [OF p, where t = t]
  show "\<forall>(a, b) \<in> set (find_all r t). matches t r a b" by (rule e(1))
  show "sorted_wrt (\<lambda>x y. snd x \<le> fst y) (find_all r t)" by (rule e(2))
  show "\<exists>(a, b) \<in> set (find_all r t). a < j \<and> i < b" if "i \<le> length t" "matches t r i j" for i j
    by (rule e(3)) (rule that)+
  show "\<exists>ks. t = weave ks (map (\<lambda>(a, b). slice t a b) (find_all r t))
      \<and> pass_text (Suc k) text = weave ks (map (\<lambda>_. redacted name) (find_all r t))"
    using e(4) pass_text_Suc [OF k(1,2), of "text"] unfolding k(3) by blast
qed

definition demo_key :: string where "demo_key = ''AKIA0123456789ABCDEF''"

theorem scrub_exact_witness:
  "\<exists>(a, b) \<in> set (find_all (snd (patterns ! 0)) demo_key). a < 20 \<and> 0 < b"
proof -
  obtain name r where nr: "patterns ! 0 = (name, r)" by (cases "patterns ! 0")
  have "list_ex (\<lambda>st. fst st = 20) (rmatch (snd (patterns ! 0)) demo_key (0, []))" by code_simp
  then obtain c where "(20, c) \<in> set (rmatch r demo_key (0, []))" by (auto simp: list_ex_iff nr)
  then have "matches demo_key r 0 20" using rmatch_sound by fastforce
  moreover have "0 < length patterns" by (simp add: patterns_def)
  ultimately show ?thesis using scrub_exact [of demo_key] nr by (auto simp: pass_text_0)
qed

text \<open>
  assignments with a prefixed name are not redacted.  The word boundary before \<open>PASSWORD\<close> fails after an
  underscore, so the usual form of such variables in a dump of the environment passes unchanged.
\<close>

theorem prefixed_assignment_kept: "scrub ''DB_PASSWORD=hunter2'' = ''DB_PASSWORD=hunter2''"
  by code_simp

end
