(* ===== verification/Secrets.thy ===== *)
theory Secrets
  imports FileSystem "HOL-Library.AList"
begin

text \<open>
  Operator-configured secrets: the store (\<open>internal/secrets/store.go\<close>) and the tools \<open>secret\<close> and
  \<open>secrets_available\<close> (\<open>internal/tools/secret.go\<close>).  The listing of the secrets directory is an
  argument: the names \<open>os.ReadDir\<close> returns, with the directories among them marked, or none if it
  fails.  Log lines are a result beside the answer.
\<close>

section \<open>The store\<close>

record secret_store =
  ss_env :: "(string \<times> string) list"
  ss_dir :: string

datatype secret_source = SourceEnv | SourceFile

fun source_name :: "secret_source \<Rightarrow> string" where
  "source_name SourceEnv = ''env''"
| "source_name SourceFile = ''file''"

definition env_prefix :: string where "env_prefix = ''CODEGEN_SANDBOX_SECRET_''"

text \<open>\<open>parseEnv\<close>: a later entry of the same name replaces an earlier one.\<close>

definition env_entry :: "string \<Rightarrow> (string \<times> string) option" where
  "env_entry kv =
     (case split_first (CHR ''='') kv of
        (_, None) \<Rightarrow> None
      | (key, Some v) \<Rightarrow>
          if \<not> has_prefix key env_prefix then None
          else let name = to_lower (drop (length env_prefix) key) in if name = [] then None else Some (name, v))"

fun parse_env :: "string list \<Rightarrow> (string \<times> string) list \<Rightarrow> (string \<times> string) list" where
  "parse_env [] out = out"
| "parse_env (kv # env) out = parse_env env (case env_entry kv of None \<Rightarrow> out | Some (n, v) \<Rightarrow> AList.update n v out)"

definition new_secret_store :: "string \<Rightarrow> string list \<Rightarrow> secret_store" where
  "new_secret_store dir env = \<lparr>ss_env = parse_env env [], ss_dir = dir\<rparr>"

definition is_safe_name :: "string \<Rightarrow> bool" where
  "is_safe_name name \<longleftrightarrow> name \<noteq> [] \<and> hd name \<noteq> CHR ''.'' \<and> slash \<notin> set name \<and> CHR 0x5C \<notin> set name"

definition secret_get :: "fs \<Rightarrow> secret_store option \<Rightarrow> string \<Rightarrow> (string \<times> secret_source) option" where
  "secret_get f st name =
     (case st of
        None \<Rightarrow> None
      | Some s \<Rightarrow>
          let key = to_lower name
          in case map_of (ss_env s) key of
               Some v \<Rightarrow> Some (v, SourceEnv)
             | None \<Rightarrow>
                 if ss_dir s = [] \<or> \<not> is_safe_name key then None
                 else (case k_read_file f (ss_dir s @ slash # key) of
                         Inl _ \<Rightarrow> None
                       | Inr b \<Rightarrow> Some (trim_nl b, SourceFile)))"

definition secret_names :: "(string \<times> bool) list option \<Rightarrow> secret_store option \<Rightarrow> string list" where
  "secret_names entries st =
     (case st of
        None \<Rightarrow> []
      | Some s \<Rightarrow>
          remdups (map fst (ss_env s) @
            (if ss_dir s = [] then []
             else case entries of
                    None \<Rightarrow> []
                  | Some es \<Rightarrow> map fst (filter (\<lambda>(n, is_dir). \<not> is_dir \<and> is_safe_name n) es))))"

section \<open>The tools\<close>

definition secret_char :: "char \<Rightarrow> bool" where
  "secret_char c \<longleftrightarrow> between (CHR ''a'') (CHR ''z'') c \<or> between (CHR ''A'') (CHR ''Z'') c \<or> is_digit c \<or> c = CHR ''_'' \<or> c = CHR ''-''"

definition is_valid_secret_name :: "string \<Rightarrow> bool" where
  "is_valid_secret_name name \<longleftrightarrow> name \<noteq> [] \<and> list_all secret_char name"

definition sorted_names :: "(string \<times> bool) list option \<Rightarrow> secret_store option \<Rightarrow> string list" where
  "sorted_names entries st = sort (secret_names entries st)"

definition audit_line :: "string \<Rightarrow> string \<Rightarrow> secret_source \<Rightarrow> string" where
  "audit_line name v src =
     ''api secret sub=mcp name='' @ to_lower name @ '' len='' @ dec_nat (length v) @ '' source='' @ source_name src"

definition handle_secret :: "fs \<Rightarrow> (string \<times> bool) list option \<Rightarrow> secret_store option \<Rightarrow> args \<Rightarrow> tool_result \<times> string list" where
  "handle_secret f entries st a =
     (let name = arg_str0 a ''name''
      in if name = [] then (ErrorResult ''name is required'', [])
         else if \<not> is_valid_secret_name name then (ErrorResult (''invalid secret name: '' @ name), [])
         else if st = None then (ErrorResult ''secrets not configured'', [])
         else case secret_get f st name of
                None \<Rightarrow>
                  (ErrorResult (''unknown secret: '' @ to_lower name @ '' (available: '' @ comma_sep (sorted_names entries st) @ '')''), [])
              | Some (v, src) \<Rightarrow> (TextResult v, [audit_line name v src]))"

definition handle_secrets_available :: "(string \<times> bool) list option \<Rightarrow> secret_store option \<Rightarrow> args \<Rightarrow> tool_result" where
  "handle_secrets_available entries st a = TextResult (join [newline] (sorted_names entries st))"

section \<open>What the store answers\<close>

text \<open>The last entry of the environment for a name, as a specification of \<open>parseEnv\<close>.\<close>

lemma parse_env_map: "map_of (parse_env env out) = map_of out ++ map_of (rev (List.map_filter env_entry env))"
proof (induction env arbitrary: out)
  case (Cons kv env)
  then show ?case
    by (auto simp: List.map_filter_simps update_conv' map_add_def fun_eq_iff split: option.splits)
qed (simp add: List.map_filter_simps)

lemma parse_env_distinct: "distinct (map fst out) \<Longrightarrow> distinct (map fst (parse_env env out))"
  by (induction env arbitrary: out) (auto simp: distinct_update split: option.splits)

text \<open>
  the tool answers exactly from the configured sources and logs every access.  A value comes from
  the last environment variable of that name, case ignored, and only if there is none from the file of
  that name directly in the secrets directory, whose name can be no path; each answer with a value writes
  one line with the name and the length, and every other answer writes none.
\<close>

theorem secret_answers_exact:
  assumes "handle_secret f entries (Some (new_secret_store dir env)) a = (res, lg)"
  shows "case res of
      TextResult v \<Rightarrow> \<exists>key src. key = to_lower (arg_str0 a ''name'') \<and> list_all secret_char key
        \<and> lg = [''api secret sub=mcp name='' @ key @ '' len='' @ dec_nat (length v) @ '' source='' @ source_name src]
        \<and> (case map_of (rev (List.map_filter env_entry env)) key of
             Some w \<Rightarrow> v = w \<and> src = SourceEnv
           | None \<Rightarrow> src = SourceFile \<and> dir \<noteq> [] \<and> plain key \<and> (\<exists>b. k_read_file f (dir @ slash # key) = Inr b \<and> v = trim_nl b))
    | ErrorResult e \<Rightarrow> lg = []"
proof (cases res)
  case (ErrorResult e)
  then show ?thesis using assms by (auto simp: handle_secret_def Let_def split: if_splits option.splits prod.splits)
next
  case (TextResult v)
  define key where "key = to_lower (arg_str0 a ''name'')"
  define s where "s = new_secret_store dir env"
  have ok: "is_valid_secret_name (arg_str0 a ''name'')" and
    h: "\<exists>src. secret_get f (Some s) (arg_str0 a ''name'') = Some (v, src) \<and> lg = [audit_line (arg_str0 a ''name'') v src]"
    using assms TextResult by (auto simp: handle_secret_def Let_def s_def split: if_splits option.splits)
  then obtain src where src: "secret_get f (Some s) (arg_str0 a ''name'') = Some (v, src)" "lg = [audit_line (arg_str0 a ''name'') v src]" by blast
  have lower: "secret_char (lower_char c)" if "secret_char c" for c
  proof (cases "CHR ''A'' \<le> c \<and> c \<le> CHR ''Z''")
    case True
    then have "(65::nat) \<le> of_char c" "of_char c \<le> (90::nat)" by (auto simp: less_eq_char_def)
    then have "CHR ''a'' \<le> lower_char c \<and> lower_char c \<le> CHR ''z''" using True by (simp add: lower_char_def less_eq_char_def)
    then show ?thesis by (simp add: secret_char_def)
  next
    case False
    then have "lower_char c = c" by (auto simp: lower_char_def)
    then show ?thesis using that by simp
  qed
  have valid: "list_all secret_char key" using ok lower by (auto simp: key_def is_valid_secret_name_def to_lower_def list_all_iff)
  have env: "map_of (ss_env s) key = map_of (rev (List.map_filter env_entry env)) key"
    by (simp add: s_def new_secret_store_def parse_env_map)
  have "case map_of (rev (List.map_filter env_entry env)) key of
      Some w \<Rightarrow> v = w \<and> src = SourceEnv
    | None \<Rightarrow> src = SourceFile \<and> dir \<noteq> [] \<and> is_safe_name key \<and> (\<exists>b. k_read_file f (dir @ slash # key) = Inr b \<and> v = trim_nl b)"
    using src(1) env by (auto simp: secret_get_def Let_def key_def [symmetric] s_def new_secret_store_def split: option.splits if_splits sum.splits)
  moreover have "plain key" if "is_safe_name key" using that by (auto simp: is_safe_name_def plain_def)
  ultimately show ?thesis using TextResult src(2) valid
    by (auto simp: key_def audit_line_def split: option.splits)
qed

definition demo_env_list :: "string list" where
  "demo_env_list = [''PATH=/bin'', ''CODEGEN_SANDBOX_SECRET_NPM=old'', ''CODEGEN_SANDBOX_SECRET_npm=tok'']"

theorem secret_answers_exact_witness:
  "\<exists>lg. handle_secret (\<lambda>_. None) None (Some (new_secret_store [] demo_env_list)) [(''name'', JStr ''Npm'')] = (TextResult ''tok'', lg)
     \<and> lg = [''api secret sub=mcp name=npm len=3 source=env'']"
proof -
  have h: "handle_secret (\<lambda>_. None) None (Some (new_secret_store [] demo_env_list)) [(''name'', JStr ''Npm'')]
    = (TextResult ''tok'', [''api secret sub=mcp name=npm len=3 source=env''])" by code_simp
  have l: "to_lower (arg_str0 [(''name'', JStr ''Npm'')] ''name'') = ''npm''" by code_simp
  have m: "map_of (rev (List.map_filter env_entry demo_env_list)) ''npm'' = Some ''tok''" by code_simp
  have "dec_nat 3 = ''3''" by code_simp
  with secret_answers_exact [OF h] h show ?thesis by (auto simp: l m)
qed

text \<open>
  listed names can be unreachable.  \<open>Names\<close> does not lower the names of files as its comment says, but
  \<open>Get\<close> does: a secret file with an upper-case letter is listed as available and never found.
\<close>

theorem upper_case_file_unreachable:
  assumes "(n, False) \<in> set es" "is_safe_name n" "dir \<noteq> []" "map_of (parse_env env []) (to_lower n) = None"
    "k_read_file f (dir @ slash # to_lower n) = Inl e"
  shows "n \<in> set (sorted_names (Some es) (Some (new_secret_store dir env)))
    \<and> secret_get f (Some (new_secret_store dir env)) n = None"
  using assms by (force simp: sorted_names_def secret_names_def secret_get_def new_secret_store_def Let_def)

definition upper_fs :: fs where
  "upper_fs = (\<lambda>_. None)([] \<mapsto> NDir, [''s''] \<mapsto> NDir, [''s'', ''TOKEN''] \<mapsto> NFile ''x'')"

theorem upper_case_file_unreachable_witness:
  "''TOKEN'' \<in> set (sorted_names (Some [(''TOKEN'', False)]) (Some (new_secret_store ''/s'' [])))
    \<and> secret_get upper_fs (Some (new_secret_store ''/s'' [])) ''TOKEN'' = None"
proof (rule upper_case_file_unreachable)
  have "to_lower ''TOKEN'' = ''token''" by code_simp
  then show "k_read_file upper_fs (''/s'' @ slash # to_lower ''TOKEN'') = Inl ENOENT"
    by (simp add: k_read_file_def k_stat_def k_lookup_def node_at_def walk.simps upper_fs_def kernel_max_links_def)
qed (simp_all add: is_safe_name_def)

end
