(* ===== verification/Glob.thy ===== *)
theory Glob
  imports WorkspaceSet Exec "HOL-Library.Product_Lexorder" "HOL-Library.Multiset"
begin

text \<open>
  The tools \<open>Glob\<close> and \<open>Grep\<close> over ripgrep (\<open>internal/tools/glob.go\<close>, \<open>grep.go\<close>, \<open>ripgrep.go\<close>): glob
  patterns with \<open>**\<close>, the argument vectors, the order and the cut of the results.  The ripgrep process
  is an argument, from argument vector and working directory to its outcome, as are the times
  \<open>os.Stat\<close> reports.
\<close>

section \<open>Matching one path element\<close>

text \<open>\<open>utf8.DecodeRuneInString\<close>: code point and width; an invalid byte is U+FFFD of width 1.\<close>

definition cont_byte :: "nat \<Rightarrow> nat \<Rightarrow> string \<Rightarrow> nat \<Rightarrow> bool" where
  "cont_byte lo hi s i \<longleftrightarrow> i < length s \<and> lo \<le> of_char (s ! i) \<and> of_char (s ! i) \<le> hi"

definition low6 :: "string \<Rightarrow> nat \<Rightarrow> nat" where "low6 s i = of_char (s ! i) mod 64"

definition rune_error :: nat where "rune_error = 65533"

definition decode_rune :: "string \<Rightarrow> nat \<times> nat" where
  "decode_rune s =
     (case s of
        [] \<Rightarrow> (rune_error, 0)
      | c # _ \<Rightarrow>
          let b = (of_char c :: nat)
          in if b < 128 then (b, 1)
             else if 194 \<le> b \<and> b \<le> 223 \<and> cont_byte 128 191 s 1 then ((b mod 32) * 64 + low6 s 1, 2)
             else if 224 \<le> b \<and> b \<le> 239 \<and> cont_byte (if b = 224 then 160 else 128) (if b = 237 then 159 else 191) s 1
                    \<and> cont_byte 128 191 s 2 then
               ((b mod 16) * 4096 + low6 s 1 * 64 + low6 s 2, 3)
             else if 240 \<le> b \<and> b \<le> 244 \<and> cont_byte (if b = 240 then 144 else 128) (if b = 244 then 143 else 191) s 1
                    \<and> cont_byte 128 191 s 2 \<and> cont_byte 128 191 s 3 then
               ((b mod 8) * 262144 + low6 s 1 * 4096 + low6 s 2 * 64 + low6 s 3, 4)
             else (rune_error, 1))"

lemma decode_rune_width: "s \<noteq> [] \<Longrightarrow> 0 < snd (decode_rune s)"
  by (auto simp: decode_rune_def Let_def split: list.splits)

text \<open>\<open>filepath.Match\<close>: the pattern as items; \<open>None\<close> is \<open>ErrBadPattern\<close>.\<close>

datatype glob_item = GStar | GByte char | GAny | GCls bool "(nat \<times> nat) list"

definition get_esc :: "string \<Rightarrow> (nat \<times> string) option" where
  "get_esc s =
     (case s of
        [] \<Rightarrow> None
      | c # r \<Rightarrow>
          if c = CHR ''-'' \<or> c = CHR '']'' then None
          else let t = (if c = CHR 0x5C then r else s)
               in if t = [] then None
                  else let (x, n) = decode_rune t
                       in if x = rune_error \<and> n = 1 \<or> drop n t = [] then None else Some (x, drop n t))"

lemma get_esc_shorter: "get_esc s = Some (x, r) \<Longrightarrow> length r < length s"
  using decode_rune_width [of s] decode_rune_width [of "tl s"]
  by (auto simp: get_esc_def Let_def split: list.splits if_splits prod.splits)

text \<open>The ranges of a class up to its closing bracket.\<close>

function class_ranges :: "bool \<Rightarrow> string \<Rightarrow> ((nat \<times> nat) list \<times> string) option" where
  "class_ranges some s =
     (if some \<and> s \<noteq> [] \<and> hd s = CHR '']'' then Some ([], tl s)
      else case get_esc s of
             None \<Rightarrow> None
           | Some (lo, r) \<Rightarrow>
               if hd r = CHR ''-'' then
                 (case get_esc (tl r) of
                    None \<Rightarrow> None
                  | Some (hi, r2) \<Rightarrow> map_option (\<lambda>(rs, t). ((lo, hi) # rs, t)) (class_ranges True r2))
               else map_option (\<lambda>(rs, t). ((lo, lo) # rs, t)) (class_ranges True r))"
  by pat_completeness auto
termination by (relation "measure (\<lambda>(_, s). length s)") (auto dest!: get_esc_shorter)

declare class_ranges.simps [simp del]

lemma class_ranges_shorter: "class_ranges some s = Some (rs, t) \<Longrightarrow> length t < length s"
proof (induction some s arbitrary: rs t rule: class_ranges.induct)
  case (1 some s)
  show ?case
  proof (cases "some \<and> s \<noteq> [] \<and> hd s = CHR '']''")
    case True
    have "class_ranges some s = Some ([], tl s)" using True by (subst class_ranges.simps) simp
    then show ?thesis using 1(3) True by (cases s) auto
  next
    case closed: False
    then obtain lo r where r: "get_esc s = Some (lo, r)"
      using 1(3) by (auto simp: class_ranges.simps [of some s] split: option.splits)
    note lt = get_esc_shorter [OF r]
    show ?thesis
    proof (cases "hd r = CHR ''-''")
      case True
      then obtain hi r2 rs' where h: "get_esc (tl r) = Some (hi, r2)" "class_ranges True r2 = Some (rs', t)"
        using 1(3) r closed by (auto simp: class_ranges.simps [of some s] split: option.splits)
      have "length t < length r2" using 1(1) [OF closed r refl True h(1) refl h(2)] .
      then show ?thesis using lt get_esc_shorter [OF h(1)] by simp
    next
      case False
      then obtain rs' where h: "class_ranges True r = Some (rs', t)"
        using 1(3) r closed by (auto simp: class_ranges.simps [of some s] split: option.splits)
      have "length t < length r" using 1(2) [OF closed r refl False h] .
      then show ?thesis using lt by simp
    qed
  qed
qed


function parse_glob :: "string \<Rightarrow> glob_item list option" where
  "parse_glob [] = Some []"
| "parse_glob (c # s) =
     (if c = CHR ''*'' then map_option (Cons GStar) (parse_glob s)
      else if c = CHR ''?'' then map_option (Cons GAny) (parse_glob s)
      else if c = CHR ''['' then
        (let (neg, r) = (if s \<noteq> [] \<and> hd s = CHR ''^'' then (True, tl s) else (False, s))
         in case class_ranges False r of
              None \<Rightarrow> None
            | Some (rs, t) \<Rightarrow> map_option (Cons (GCls neg rs)) (parse_glob t))
      else if c = CHR 0x5C then (case s of [] \<Rightarrow> None | d # r \<Rightarrow> map_option (Cons (GByte d)) (parse_glob r))
      else map_option (Cons (GByte c)) (parse_glob s))"
  by pat_completeness auto
termination by (relation "measure length") (auto dest!: class_ranges_shorter split: if_splits)

definition in_class :: "bool \<Rightarrow> (nat \<times> nat) list \<Rightarrow> nat \<Rightarrow> bool" where
  "in_class neg rs x \<longleftrightarrow> (list_ex (\<lambda>(lo, hi). lo \<le> x \<and> x \<le> hi) rs) \<noteq> neg"

text \<open>A star is any run of bytes without a separator, a question mark one rune that is no separator.\<close>

function glob_match :: "glob_item list \<Rightarrow> string \<Rightarrow> bool" where
  "glob_match [] s \<longleftrightarrow> s = []"
| "glob_match (GStar # is) s \<longleftrightarrow> 
     (if glob_match is s then True else if s = [] \<or> hd s = slash then False else glob_match (GStar # is) (tl s))"
| "glob_match (GByte c # is) s \<longleftrightarrow> (if s = [] \<or> hd s \<noteq> c then False else glob_match is (tl s))"
| "glob_match (GAny # is) s \<longleftrightarrow> s \<noteq> [] \<and> hd s \<noteq> slash \<and> glob_match is (drop (snd (decode_rune s)) s)"
| "glob_match (GCls neg rs # is) s \<longleftrightarrow>
     s \<noteq> [] \<and> in_class neg rs (fst (decode_rune s)) \<and> glob_match is (drop (snd (decode_rune s)) s)"
  by pat_completeness auto
termination by (relation "measures [\<lambda>(is, s). length is, \<lambda>(is, s). length s]") (auto simp: neq_Nil_conv)

definition fp_match :: "string \<Rightarrow> string \<Rightarrow> bool" where
  "fp_match pat name = (case parse_glob pat of None \<Rightarrow> False | Some is \<Rightarrow> glob_match is name)"

section \<open>Double stars\<close>

definition pop_segment :: "string \<Rightarrow> string \<times> string" where
  "pop_segment s = (case split_first slash s of (a, None) \<Rightarrow> (a, []) | (a, Some r) \<Rightarrow> (a, r))"

lemma pop_segment_shorter: "s \<noteq> [] \<Longrightarrow> length (snd (pop_segment s)) < length s"
  by (auto simp: pop_segment_def split: prod.splits option.splits dest!: split_first_join)

lemma pop_segment_le: "length (snd (pop_segment s)) \<le> length s"
  by (auto simp: pop_segment_def split: prod.splits option.splits dest!: split_first_join)

function doublestar_match :: "string \<Rightarrow> string \<Rightarrow> bool" where
  "doublestar_match pat path =
     (if pat = [] then path = []
      else if pat = ''**'' then True
      else if has_prefix pat ''**/'' then
        doublestar_match (drop 3 pat) path
        \<or> (case split_first slash path of (_, None) \<Rightarrow> False | (_, Some rest) \<Rightarrow> doublestar_match pat rest)
      else
        let (pp, prest) = pop_segment pat; (qp, qrest) = pop_segment path
        in fp_match pp qp \<and> (if prest = [] then qrest = [] else doublestar_match prest qrest))"
  by pat_completeness auto
termination
proof (relation "measure (\<lambda>(p, q). length p + length q)", goal_cases)
  case 1
  show ?case by simp
next
  case (2 pat path)
  then show ?case by (cases pat) auto
next
  case (3 pat path x a b)
  then show ?case by (auto dest!: split_first_shorter [OF sym])
next
  case (4 pat path x pp prest y qp qrest)
  then have "length prest < length pat" "length qrest \<le> length path"
    using pop_segment_shorter [of pat] pop_segment_le [of path] by (metis snd_conv)+
  then show ?case by simp
qed

declare doublestar_match.simps [simp del]

definition match_doublestar :: "string \<Rightarrow> string \<Rightarrow> bool" where
  "match_doublestar pat path =
     (if slash \<notin> set pat then
        fp_match pat (case last_index path slash of None \<Rightarrow> path | Some i \<Rightarrow> drop (Suc i) path)
      else doublestar_match pat path)"


section \<open>ripgrep\<close>

type_synonym rg = "string list \<Rightarrow> string \<Rightarrow> proc"

definition run_err_text :: "run_err \<Rightarrow> string" where
  "run_err_text e = (case e of RunOk \<Rightarrow> [] | ExitError c \<Rightarrow> ''exit status '' @ dec_int c | OtherError m \<Rightarrow> m)"

definition run_ripgrep :: "(string \<Rightarrow> bool) \<Rightarrow> rg \<Rightarrow> string list \<Rightarrow> string \<Rightarrow> string + string" where
  "run_ripgrep on_path run argv cwd =
     (if \<not> on_path ''rg'' then Inl ''ripgrep (rg) not found on PATH''
      else
        let p = run argv cwd
        in case p_err p of
             RunOk \<Rightarrow> Inr (p_stdout p)
           | ExitError c \<Rightarrow> if c = 1 then Inr [] else Inl (''rg: '' @ run_err_text (p_err p) @ '': '' @ p_stderr p)
           | OtherError m \<Rightarrow> Inl (''rg: '' @ m @ '': '' @ p_stderr p))"

section \<open>Glob\<close>

definition split_lines :: "string \<Rightarrow> string list" where
  "split_lines b = (let s = trim_nl b in if s = [] then [] else split_on newline s)"

definition parse_glob_limit :: "args \<Rightarrow> nat" where
  "parse_glob_limit a = (case arg_int a ''limit'' of Some v \<Rightarrow> if 0 < v then nat v else 100 | None \<Rightarrow> 100)"

definition resolve_glob_scope :: "fs \<Rightarrow> workspace \<Rightarrow> args \<Rightarrow> string + string" where
  "resolve_glob_scope f w a =
     (let p = arg_str0 a ''path''
      in if p = [] then Inr []
         else case resolve f w p of
                Inl e \<Rightarrow> Inl (''resolve path: '' @ resolve_err_text e)
              | Inr r \<Rightarrow>
                  (case k_stat f r of
                     Inl e \<Rightarrow> Inl (''stat path: '' @ path_error ''stat'' r e)
                   | Inr NDir \<Rightarrow>
                       (case fp_rel (ws_root w) r of
                          None \<Rightarrow> Inl ''relative path''
                        | Some rel \<Rightarrow> if rel = ''.'' then Inr [] else Inr rel)
                   | Inr _ \<Rightarrow> Inl (''path is not a directory: '' @ p)))"

definition build_glob_rg_args :: "string \<Rightarrow> string list" where
  "build_glob_rg_args scope = [''--files'', ''--no-require-git'', ''--color=never''] @ (if scope = [] then [] else [scope])"

text \<open>\<open>sortByMtimeDesc\<close>: files without a time last, newer first, then by path.\<close>

definition mtime_key :: "(string \<Rightarrow> int option) \<Rightarrow> string \<Rightarrow> string \<Rightarrow> bool \<times> int \<times> string" where
  "mtime_key mtime cwd p = (case mtime (fp_join cwd p) of None \<Rightarrow> (True, 0, p) | Some t \<Rightarrow> (False, - t, p))"

definition sort_by_mtime_desc :: "(string \<Rightarrow> int option) \<Rightarrow> string \<Rightarrow> string list \<Rightarrow> string list" where
  "sort_by_mtime_desc mtime cwd paths = sort_key (mtime_key mtime cwd) paths"

record rg_deps =
  rd_ws :: ws_deps
  rd_fs :: fs
  rd_on_path :: "string \<Rightarrow> bool"
  rd_rg :: rg
  rd_mtime :: "string \<Rightarrow> int option"

definition handle_glob :: "rg_deps \<Rightarrow> args \<Rightarrow> tool_result" where
  "handle_glob d a =
     (case resolve_workspace (rd_ws d) a of
        Inl e \<Rightarrow> ErrorResult e
      | Inr w \<Rightarrow>
          let pat = arg_str0 a ''pattern''
          in if pat = [] then ErrorResult ''pattern is required''
             else case resolve_glob_scope (rd_fs d) w a of
                    Inl e \<Rightarrow> ErrorResult e
                  | Inr scope \<Rightarrow>
                      (case run_ripgrep (rd_on_path d) (rd_rg d) (build_glob_rg_args scope) (ws_root w) of
                         Inl e \<Rightarrow> ErrorResult (''glob: '' @ e)
                       | Inr out \<Rightarrow>
                           let paths = filter (match_doublestar pat) (split_lines out)
                           in TextResult (join [newline] (take (parse_glob_limit a) (sort_by_mtime_desc (rd_mtime d) (ws_root w) paths)))))"

section \<open>Grep\<close>

definition grep_mode_args :: "string \<Rightarrow> string + string list" where
  "grep_mode_args mode =
     (if mode = ''content'' then Inr [''-n'', ''--no-heading'']
      else if mode = ''files_with_matches'' then Inr [''-l'']
      else if mode = ''count'' then Inr [''-c'']
      else Inl (''unknown output_mode: '' @ mode @ '' (valid: content, files_with_matches, count)''))"

definition build_grep_rg_args :: "args \<Rightarrow> string \<Rightarrow> string + string list" where
  "build_grep_rg_args a pat =
     (let m = arg_str0 a ''output_mode''; mode = (if m = [] then ''content'' else m); g = arg_str0 a ''glob''
      in case grep_mode_args mode of
           Inl e \<Rightarrow> Inl e
         | Inr ms \<Rightarrow>
             Inr ([''--no-require-git'', ''--color=never''] @ ms @ (if arg_bool a ''case_insensitive'' then [''-i''] else [])
               @ (if g = [] then [] else [''-g'', g]) @ [''--'', pat]))"

definition rel_to_root :: "string \<Rightarrow> string \<Rightarrow> string option" where
  "rel_to_root wroot p = (if p = wroot then Some [] else fp_rel wroot p)"

definition resolve_grep_scope :: "fs \<Rightarrow> workspace \<Rightarrow> args \<Rightarrow> string + string" where
  "resolve_grep_scope f w a =
     (let p = arg_str0 a ''path''
      in if p = [] then Inr []
         else case resolve f w p of
                Inl e \<Rightarrow> Inl (''resolve path: '' @ resolve_err_text e)
              | Inr r \<Rightarrow>
                  (case k_stat f r of
                     Inl e \<Rightarrow> Inl (''stat path: '' @ path_error ''stat'' r e)
                   | Inr _ \<Rightarrow> (case rel_to_root (ws_root w) r of None \<Rightarrow> Inl ''relative path'' | Some rel \<Rightarrow> Inr rel)))"

text \<open>\<open>strings.SplitAfter(s, "\n")\<close>.\<close>

fun split_after_nl :: "string \<Rightarrow> string list" where
  "split_after_nl [] = [[]]"
| "split_after_nl (c # s) =
     (if c = newline then [c] # split_after_nl s
      else case split_after_nl s of [] \<Rightarrow> [[c]] | l # ls \<Rightarrow> (c # l) # ls)"

definition truncate_lines :: "string \<Rightarrow> nat \<Rightarrow> string" where
  "truncate_lines s n = (let ls = split_after_nl s in if length ls \<le> n then s else concat (take n ls))"

definition handle_grep :: "rg_deps \<Rightarrow> args \<Rightarrow> tool_result" where
  "handle_grep d a =
     (case resolve_workspace (rd_ws d) a of
        Inl e \<Rightarrow> ErrorResult e
      | Inr w \<Rightarrow>
          let pat = arg_str0 a ''pattern''
          in if pat = [] then ErrorResult ''pattern is required''
             else case build_grep_rg_args a pat of
                    Inl e \<Rightarrow> ErrorResult e
                  | Inr argv \<Rightarrow>
                      (case resolve_grep_scope (rd_fs d) w a of
                         Inl e \<Rightarrow> ErrorResult e
                       | Inr scope \<Rightarrow>
                           (case run_ripgrep (rd_on_path d) (rd_rg d) (argv @ (if scope = [] then [] else [scope])) (ws_root w) of
                              Inl e \<Rightarrow> ErrorResult (''grep: '' @ e)
                            | Inr out \<Rightarrow>
                                TextResult (case arg_int a ''head_limit'' of
                                    Some v \<Rightarrow> if 0 < v then truncate_lines out (nat v) else out
                                  | None \<Rightarrow> out))))"

section \<open>Patterns against a reference\<close>

text \<open>Gitignore's meaning on path elements: \<open>**\<close> stands for zero or more of them.\<close>

fun glob_spec :: "string list \<Rightarrow> string list \<Rightarrow> bool" where
  "glob_spec [] qs \<longleftrightarrow> qs = []"
| "glob_spec (p # ps) qs \<longleftrightarrow>
     (if p = ''**'' then glob_spec ps qs \<or> (case qs of [] \<Rightarrow> False | q # qs' \<Rightarrow> glob_spec (p # ps) qs')
      else (case qs of [] \<Rightarrow> False | q # qs' \<Rightarrow> fp_match p q \<and> glob_spec ps qs'))"

definition elems_ok :: "string list \<Rightarrow> bool" where
  "elems_ok ps \<longleftrightarrow> (\<forall>p \<in> set ps. p \<noteq> [] \<and> slash \<notin> set p)"

lemma elems_ok_Cons [simp]: "elems_ok (p # ps) \<longleftrightarrow> p \<noteq> [] \<and> slash \<notin> set p \<and> elems_ok ps"
  by (auto simp: elems_ok_def)

lemma join_elems_empty: "elems_ok ps \<Longrightarrow> join [slash] ps = [] \<longleftrightarrow> ps = []"
  by (cases ps) (auto simp: join_Cons)

lemma split_first_join_elems:
  "slash \<notin> set p \<Longrightarrow> split_first slash (join [slash] (p # ps)) = (p, if ps = [] then None else Some (join [slash] ps))"
  by (cases ps) (auto simp: split_first_none split_first_append)

lemma pop_join_elems:
  "slash \<notin> set p \<Longrightarrow> pop_segment (join [slash] (p # ps)) = (p, join [slash] ps)"
  using split_first_join_elems [of p ps] by (cases ps) (auto simp: pop_segment_def)

lemma star_prefix_join:
  assumes "slash \<notin> set p"
  shows "has_prefix (join [slash] (p # ps)) ''**/'' \<longleftrightarrow> p = ''**'' \<and> ps \<noteq> []"
proof
  assume "has_prefix (join [slash] (p # ps)) ''**/''"
  then obtain r where "join [slash] (p # ps) = ''**'' @ slash # r" by (auto simp: has_prefix_def prefix_def)
  then have "split_first slash (join [slash] (p # ps)) = (''**'', Some r)"
    using split_first_append [of slash "''**''" r] by simp
  with split_first_join_elems [OF assms, of ps] show "p = ''**'' \<and> ps \<noteq> []" by (auto split: if_splits)
next
  assume "p = ''**'' \<and> ps \<noteq> []"
  then show "has_prefix (join [slash] (p # ps)) ''**/''" by (cases ps) (auto simp: has_prefix_def)
qed

lemma glob_spec_any: "glob_spec [''**''] qs"
  by (induction qs) auto

lemma glob_spec_nil: "glob_spec ps [] \<Longrightarrow> ps \<noteq> [] \<Longrightarrow> glob_spec ps qs"
proof (induction ps arbitrary: qs)
  case (Cons p ps)
  then have p: "p = ''**''" "glob_spec ps []" by (auto split: if_splits)
  show ?case
  proof (cases "ps = []")
    case True
    then show ?thesis using p glob_spec_any by simp
  next
    case False
    then have "glob_spec ps qs" for qs using Cons.IH p by blast
    then show ?thesis using p by simp
  qed
qed simp

text \<open>One turn of the matcher, by the first element of the pattern.\<close>

lemma star_join:
  assumes "slash \<notin> set p"
  shows "join [slash] (p # ps) = ''**'' \<longleftrightarrow> p = ''**'' \<and> ps = []"
proof (cases ps)
  case (Cons x xs)
  then have "slash \<in> set (join [slash] (p # ps))" by simp
  moreover have "slash \<notin> set ''**''" by simp
  ultimately have "join [slash] (p # ps) \<noteq> ''**''" by metis
  then show ?thesis using Cons by simp
qed simp

lemma doublestar_skip:
  assumes "ps \<noteq> []"
  shows "doublestar_match (join [slash] (''**'' # ps)) path \<longleftrightarrow> doublestar_match (join [slash] ps) path
    \<or> (case split_first slash path of (_, None) \<Rightarrow> False | (_, Some rest) \<Rightarrow> doublestar_match (join [slash] (''**'' # ps)) rest)"
proof -
  let ?pat = "join [slash] (''**'' # ps)"
  have "has_prefix ?pat ''**/''" "?pat \<noteq> ''**''" "?pat \<noteq> []"
    using star_prefix_join [of "''**''" ps] star_join [of "''**''" ps] assms by (auto simp: join_Cons)
  moreover have "drop 3 ?pat = join [slash] ps" using assms by (cases ps) auto
  ultimately show ?thesis by (subst doublestar_match.simps) simp
qed

lemma doublestar_elem:
  assumes "elems_ok (p # ps)" "p \<noteq> ''**''" "pop_segment path = (qp, qr)"
  shows "doublestar_match (join [slash] (p # ps)) path \<longleftrightarrow>
    fp_match p qp \<and> (if ps = [] then qr = [] else doublestar_match (join [slash] ps) qr)"
proof -
  let ?pat = "join [slash] (p # ps)"
  have ok: "slash \<notin> set p" "elems_ok ps" using assms(1) by simp_all
  have "\<not> has_prefix ?pat ''**/''" "?pat \<noteq> ''**''" "?pat \<noteq> []"
    using star_prefix_join [OF ok(1)] star_join [OF ok(1)] join_elems_empty [OF assms(1)] assms(2) by auto
  then show ?thesis
    using assms(3) join_elems_empty [OF ok(2)] pop_join_elems [OF ok(1)] by (subst doublestar_match.simps) (simp add: Let_def)
qed

text \<open>The tail of a path at its first slash.\<close>

lemma split_first_path:
  assumes "elems_ok qs"
  shows "(case split_first slash (join [slash] qs) of (_, None) \<Rightarrow> False | (_, Some rest) \<Rightarrow> P rest)
    \<longleftrightarrow> (case qs of [] \<Rightarrow> False | q # qs' \<Rightarrow> qs' \<noteq> [] \<and> P (join [slash] qs'))"
proof (cases qs)
  case (Cons q qs')
  then show ?thesis using assms split_first_join_elems [of q qs'] by simp
qed simp


definition slash_elems :: "string \<Rightarrow> string list" where "slash_elems s = split_on slash s"


text \<open>
  a star matches an element that is not there.  A pattern that asks for a file one level down also
  matches a file at the root, since the matcher takes a missing element for an empty one.
\<close>

theorem star_matches_missing_element:
  "match_doublestar ''*/*'' ''go.mod'' \<and> \<not> glob_spec [''*'', ''*''] [''go.mod'']"
  by code_simp

section \<open>What the tools run\<close>

definition grep_flags :: "string set" where
  "grep_flags = {''--no-require-git'', ''--color=never'', ''-n'', ''--no-heading'', ''-l'', ''-c'', ''-i''}"

lemma grep_flags_mem:
  "''--no-require-git'' \<in> grep_flags" "''--color=never'' \<in> grep_flags" "''-n'' \<in> grep_flags" "''--no-heading'' \<in> grep_flags"
  "''-l'' \<in> grep_flags" "''-c'' \<in> grep_flags" "''-i'' \<in> grep_flags"
  unfolding grep_flags_def by blast+

lemma grep_mode_args_flags: "grep_mode_args m = Inr ms \<Longrightarrow> set ms \<subseteq> grep_flags"
  unfolding grep_mode_args_def using grep_flags_mem
  by (cases "m = ''content''"; cases "m = ''files_with_matches''"; cases "m = ''count''") (simp_all only: if_True if_False sum.inject sum.distinct, auto)

text \<open>
  the pattern of \<open>Grep\<close> is never an option.  The only elements of the argument vector that come from
  the request are the pattern and the scope, both after the end-of-options mark, and the value of \<open>-g\<close>,
  which follows its flag; everything before is fixed.
\<close>

theorem grep_args_safe:
  assumes "build_grep_rg_args a pat = Inr argv"
  shows "\<exists>fixed opt_glob. argv = fixed @ opt_glob @ [''--'', pat] \<and> set fixed \<subseteq> grep_flags
    \<and> (opt_glob = [] \<or> opt_glob = [''-g'', arg_str0 a ''glob''])"
proof -
  let ?g = "arg_str0 a ''glob''" and ?m = "arg_str0 a ''output_mode''"
  obtain ms where m: "grep_mode_args (if ?m = [] then ''content'' else ?m) = Inr ms"
    using assms unfolding build_grep_rg_args_def Let_def by (cases "grep_mode_args (if ?m = [] then ''content'' else ?m)") simp_all
  define opt_i where "opt_i = (if arg_bool a ''case_insensitive'' then [''-i''] else [])"
  define opt_glob where "opt_glob = (if ?g = [] then [] else [''-g'', ?g])"
  have "argv = ([''--no-require-git'', ''--color=never''] @ ms @ opt_i) @ opt_glob @ [''--'', pat]"
    using assms m unfolding build_grep_rg_args_def Let_def opt_i_def opt_glob_def by (simp only: sum.case sum.inject append_assoc)
  moreover have "set opt_i \<subseteq> grep_flags" using grep_flags_mem(7) by (cases "arg_bool a ''case_insensitive''") (simp_all add: opt_i_def)
  then have "set ([''--no-require-git'', ''--color=never''] @ ms @ opt_i) \<subseteq> grep_flags"
    using grep_mode_args_flags [OF m] grep_flags_mem(1,2) by (simp only: set_append list.set Un_subset_iff insert_subset empty_subsetI)
  moreover have "opt_glob = [] \<or> opt_glob = [''-g'', ?g]" by (simp add: opt_glob_def)
  ultimately show ?thesis by blast
qed

theorem grep_args_safe_witness:
  "\<exists>fixed opt_glob. [''--no-require-git'', ''--color=never'', ''-l'', ''--'', ''-rf''] = fixed @ opt_glob @ [''--'', ''-rf'']"
proof -
  have "build_grep_rg_args [(''output_mode'', JStr ''files_with_matches'')] ''-rf''
    = Inr [''--no-require-git'', ''--color=never'', ''-l'', ''--'', ''-rf'']" by code_simp
  from grep_args_safe [OF this] show ?thesis by blast
qed

text \<open>
  the scope of \<open>Glob\<close> can be an option.  It is the last argument without an end-of-options mark before
  it, so a directory of the workspace whose name starts with a dash is read by ripgrep as a flag.
\<close>

definition flag_fs :: fs where
  "flag_fs = (\<lambda>_. None)([] \<mapsto> NDir, [''w''] \<mapsto> NDir, [''w'', ''--follow''] \<mapsto> NDir)"

theorem glob_scope_is_option:
  "resolve_glob_scope flag_fs \<lparr>ws_root = ''/w'', ws_name = ''w''\<rparr> [(''path'', JStr ''./--follow'')] = Inr ''--follow''
   \<and> build_glob_rg_args ''--follow'' = [''--files'', ''--no-require-git'', ''--color=never'', ''--follow'']"
  by code_simp

section \<open>What the tools answer\<close>

text \<open>
  \<open>Glob\<close> answers with the files ripgrep lists in the workspace that match the pattern, newest first and
  no more than the limit; ripgrep always runs in the workspace root, so ignored files stay hidden.
\<close>

theorem glob_answer_exact:
  assumes "handle_glob d a = TextResult body"
  shows "\<exists>w scope out paths. resolve_workspace (rd_ws d) a = Inr w \<and> resolve_glob_scope (rd_fs d) w a = Inr scope
    \<and> run_ripgrep (rd_on_path d) (rd_rg d) ([''--files'', ''--no-require-git'', ''--color=never''] @ (if scope = [] then [] else [scope])) (ws_root w) = Inr out
    \<and> body = join [newline] (take (parse_glob_limit a) paths)
    \<and> mset paths = filter_mset (match_doublestar (arg_str0 a ''pattern'')) (mset (split_lines out))
    \<and> sorted_wrt (\<lambda>p q. mtime_key (rd_mtime d) (ws_root w) p \<le> mtime_key (rd_mtime d) (ws_root w) q) paths"
proof -
  obtain w scope out where h: "resolve_workspace (rd_ws d) a = Inr w" "resolve_glob_scope (rd_fs d) w a = Inr scope"
    "run_ripgrep (rd_on_path d) (rd_rg d) (build_glob_rg_args scope) (ws_root w) = Inr out"
    "body = join [newline] (take (parse_glob_limit a) (sort_by_mtime_desc (rd_mtime d) (ws_root w)
       (filter (match_doublestar (arg_str0 a ''pattern'')) (split_lines out))))"
    using assms by (auto simp: handle_glob_def Let_def split: sum.splits if_splits)
  let ?ps = "sort_by_mtime_desc (rd_mtime d) (ws_root w) (filter (match_doublestar (arg_str0 a ''pattern'')) (split_lines out))"
  have "sorted (map (mtime_key (rd_mtime d) (ws_root w)) ?ps)" by (simp add: sort_by_mtime_desc_def)
  moreover have "mset ?ps = filter_mset (match_doublestar (arg_str0 a ''pattern'')) (mset (split_lines out))"
    by (simp add: sort_by_mtime_desc_def)
  ultimately show ?thesis using h
    by (intro exI [of _ w] exI [of _ scope] exI [of _ out] exI [of _ ?ps]) (simp add: sorted_map build_glob_rg_args_def)
qed

end
