(* ===== verification/SearchTool.thy ===== *)
theory SearchTool
  imports SearchIndex ReadTool
begin

text \<open>
  The tool \<open>search_code\<close> (\<open>internal/tools/search_code.go\<close>): the cache of one index per workspace root and
  the rendering of the results.  Building an index, the printing of scores and of durations are
  arguments; a build yields an index or fails.
\<close>

section \<open>The cache\<close>

record cached_index =
  ci_idx :: search_index
  ci_took :: int
  ci_noted :: bool
  ci_failed :: bool

type_synonym index_cache = "string \<rightharpoonup> cached_index"

text \<open>The two locked regions of \<open>getOrBuildIndex\<close>: take what is there, or store what was built meanwhile.\<close>

definition cache_take :: "string \<Rightarrow> index_cache \<Rightarrow> (cached_index \<times> bool) option \<times> index_cache" where
  "cache_take r m =
     (case m r of
        None \<Rightarrow> (None, m)
      | Some c \<Rightarrow> (Some (c\<lparr>ci_noted := True\<rparr>, \<not> ci_noted c), m(r \<mapsto> c\<lparr>ci_noted := True\<rparr>)))"

definition cache_store :: "string \<Rightarrow> cached_index \<Rightarrow> index_cache \<Rightarrow> (cached_index \<times> bool) \<times> index_cache" where
  "cache_store r built m =
     (case cache_take r m of
        (Some x, m') \<Rightarrow> (x, m')
      | (None, _) \<Rightarrow> ((built\<lparr>ci_noted := True\<rparr>, True), m(r \<mapsto> built\<lparr>ci_noted := True\<rparr>)))"

definition get_or_build_index :: "(string \<Rightarrow> search_index option) \<Rightarrow> int \<Rightarrow> string \<Rightarrow> index_cache \<Rightarrow> (cached_index \<times> bool) \<times> index_cache" where
  "get_or_build_index build took r m =
     (case cache_take r m of
        (Some x, m') \<Rightarrow> (x, m')
      | (None, _) \<Rightarrow>
          cache_store r \<lparr>ci_idx = (case build r of Some ix \<Rightarrow> ix | None \<Rightarrow> new_index r), ci_took = took, ci_noted = False, ci_failed = (build r = None)\<rparr> m)"

section \<open>The answer\<close>

definition parse_search_limit :: "args \<Rightarrow> int" where
  "parse_search_limit a = clamp_arg 20 100 a ''limit''"

definition truncate_excerpt :: "string \<Rightarrow> string" where "truncate_excerpt s = truncate_at s 200"

definition symbol_kind_tag :: "code_unit \<Rightarrow> string" where
  "symbol_kind_tag u = (if u_kind u = [] then [] else ''['' @ u_kind u @ '']'')"

definition write_result :: "(rat \<Rightarrow> string) \<Rightarrow> nat \<Rightarrow> code_unit \<times> rat \<Rightarrow> string" where
  "write_result fmt n res =
     (let u = fst res
      in dec_nat n @ ''. '' @ u_file u @ ''   '' @ u_symbol u @ ''  '' @ symbol_kind_tag u @ [newline]
         @ (if u_signature u = [] then [] else ''   '' @ u_signature u @ [newline])
         @ (if u_doc u = [] then [] else ''   '' @ truncate_excerpt (u_doc u) @ [newline])
         @ ''   score '' @ fmt (snd res) @ [newline, newline])"

definition cold_start_budget :: int where "cold_start_budget = 5000000000"

definition format_results :: "(rat \<Rightarrow> string) \<Rightarrow> (int \<Rightarrow> string) \<Rightarrow> string \<Rightarrow> (code_unit \<times> rat) list \<Rightarrow> bool \<Rightarrow> int \<Rightarrow> string" where
  "format_results fmt dur query rs first_build took =
     (if rs = [] then ''no results for '' @ quote query @ [newline]
      else dec_nat (length rs) @ '' results for '' @ quote query @ '':'' @ [newline, newline]
           @ concat (map (\<lambda>(i, x). write_result fmt (i + 1) x) (enumerate 0 rs)))
     @ (if first_build then
          [newline] @ ''(first call: index built in '' @ dur took
          @ (if took > cold_start_budget then '' '' @ em_dash @ '' exceeds 5s cold-start budget)'' else '')'') @ [newline]
        else [])"

definition empty_workspace_message :: string where
  "empty_workspace_message = ''no Go files found '' @ em_dash @ '' semantic search currently Go-only''"

record search_deps =
  sd_root :: string
  sd_build :: "string \<Rightarrow> search_index option"
  sd_took :: int
  sd_log :: "rat \<Rightarrow> rat"
  sd_fmt :: "rat \<Rightarrow> string"
  sd_dur :: "int \<Rightarrow> string"

definition handle_search_code :: "search_deps \<Rightarrow> args \<Rightarrow> index_cache \<Rightarrow> tool_result \<times> index_cache" where
  "handle_search_code d a m =
     (let query = arg_str0 a ''query''
      in if trim_space query = [] then (ErrorResult ''query is required'', m)
         else
           let ((c, first_build), m') = get_or_build_index (sd_build d) (sd_took d) (sd_root d) m
           in if ci_failed c then (ErrorResult ''search_code: failed to build index'', m')
              else if file_count (ci_idx c) = 0 then (TextResult empty_workspace_message, m')
              else (TextResult (format_results (sd_fmt d) (sd_dur d) query
                      (index_search (sd_log d) (ci_idx c) query (parse_search_limit a)) first_build (ci_took c)), m'))"

section \<open>What a session sees\<close>

text \<open>
  the index is built once and the note about it is given once.  After the first search of a workspace
  the cache holds its index for good: a later search never builds, answers from that index, and does not
  repeat the note on the build.
\<close>

theorem search_builds_once:
  assumes "handle_search_code d a m = (res, m')" "trim_space (arg_str0 a ''query'') \<noteq> []"
  shows "\<exists>c. m' (sd_root d) = Some c \<and> ci_noted c
    \<and> (\<forall>d' b. sd_root d' = sd_root d \<longrightarrow> trim_space (arg_str0 b ''query'') \<noteq> [] \<longrightarrow>
         handle_search_code d' b m' =
           (if ci_failed c then ErrorResult ''search_code: failed to build index''
            else if file_count (ci_idx c) = 0 then TextResult empty_workspace_message
            else TextResult (format_results (sd_fmt d') (sd_dur d') (arg_str0 b ''query'')
                   (index_search (sd_log d') (ci_idx c) (arg_str0 b ''query'') (parse_search_limit b)) False (ci_took c)), m'))"
proof -
  obtain c fb where g: "get_or_build_index (sd_build d) (sd_took d) (sd_root d) m = ((c, fb), m')"
    using assms by (auto simp: handle_search_code_def Let_def split: prod.splits if_splits)
  then have c: "m' (sd_root d) = Some c" "ci_noted c"
    by (auto simp: get_or_build_index_def cache_store_def cache_take_def split: option.splits)
  have same: "c\<lparr>ci_noted := True\<rparr> = c" using c(2) by simp
  have "get_or_build_index bd tk (sd_root d) m' = ((c, False), m')" for bd tk
    using c same by (simp add: get_or_build_index_def cache_take_def fun_upd_idem)
  then show ?thesis using c by (intro exI [of _ c]) (simp add: handle_search_code_def Let_def)
qed

definition demo_search :: search_deps where
  "demo_search = \<lparr>sd_root = ''/w'', sd_build = (\<lambda>_. None), sd_took = 1, sd_log = (\<lambda>x. x), sd_fmt = (\<lambda>_. ''1''), sd_dur = (\<lambda>_. ''1ms'')\<rparr>"

text \<open>
  a failed build is final.  The failure is cached like an index, so a search after a failed one fails
  again without trying, whatever has been repaired since.
\<close>

theorem search_failure_is_final:
  assumes "m (sd_root d) = None" "sd_build d (sd_root d) = None" "sd_root d' = sd_root d"
    "trim_space (arg_str0 a ''query'') \<noteq> []" "trim_space (arg_str0 b ''query'') \<noteq> []"
  shows "fst (handle_search_code d' b (snd (handle_search_code d a m))) = ErrorResult ''search_code: failed to build index''"
proof -
  have f: "handle_search_code d a m = (ErrorResult ''search_code: failed to build index'',
      m(sd_root d \<mapsto> \<lparr>ci_idx = new_index (sd_root d), ci_took = sd_took d, ci_noted = True, ci_failed = True\<rparr>))"
    using assms(1,2,4) by (simp add: handle_search_code_def get_or_build_index_def cache_store_def cache_take_def Let_def)
  show ?thesis unfolding f using assms(3,5)
    by (simp add: handle_search_code_def get_or_build_index_def cache_take_def Let_def)
qed

theorem search_builds_once_witness:
  "\<exists>c. snd (handle_search_code demo_search [(''query'', JStr ''parse'')] (\<lambda>_. None)) ''/w'' = Some c \<and> ci_noted c"
proof -
  have "trim_space (arg_str0 [(''query'', JStr ''parse'')] ''query'') \<noteq> []" by code_simp
  moreover obtain res m' where r: "handle_search_code demo_search [(''query'', JStr ''parse'')] (\<lambda>_. None) = (res, m')"
    by (cases "handle_search_code demo_search [(''query'', JStr ''parse'')] (\<lambda>_. None)")
  ultimately show ?thesis using search_builds_once [OF r] by (auto simp: r demo_search_def)
qed

end
