(* ===== verification/AstEdit.thy ===== *)
theory AstEdit
  imports EditTool
begin

text \<open>
  The structured edits of Go files: the lookups of \<open>internal/ast\<close> over a parsed file and the tools
  \<open>edit_function_body\<close>, \<open>insert_after_method\<close> and \<open>change_function_signature\<close>
  (\<open>internal/tools/ast_*.go\<close>).  The parser \<open>go/parser\<close> is an argument: it returns the declarations of a
  file with the byte offsets of their parts, or an error.  A handler that panics returns \<open>None\<close>.
\<close>

section \<open>Declarations and matches\<close>

datatype type_expr = StarExpr type_expr | TIdent string | IndexExpr type_expr | IndexListExpr type_expr | OtherExpr

record func_decl =
  fd_name :: string
  fd_recv :: "type_expr list option"
  fd_pos :: nat
  fd_line :: nat
  fd_body :: "(nat \<times> nat) option"

datatype ast_decl = FuncNode func_decl | OtherNode

type_synonym go_parser = "string \<Rightarrow> string + ast_decl list"

record ast_match =
  am_name :: string
  am_line :: nat
  am_sig :: nat
  am_body :: nat
  am_end :: nat

definition match_from_func_decl :: "func_decl \<Rightarrow> string \<Rightarrow> ast_match" where
  "match_from_func_decl d nm =
     (let (bs, be) = (case fd_body d of None \<Rightarrow> (0, 0) | Some se \<Rightarrow> se)
      in \<lparr>am_name = nm, am_line = fd_line d, am_sig = fd_pos d, am_body = bs, am_end = be\<rparr>)"

fun type_expr_name :: "type_expr \<Rightarrow> string" where
  "type_expr_name (StarExpr t) = type_expr_name t"
| "type_expr_name (TIdent n) = n"
| "type_expr_name (IndexExpr t) = type_expr_name t"
| "type_expr_name (IndexListExpr t) = type_expr_name t"
| "type_expr_name OtherExpr = []"

definition receiver_type_name :: "func_decl \<Rightarrow> string" where
  "receiver_type_name d = (case fd_recv d of None \<Rightarrow> [] | Some [] \<Rightarrow> [] | Some (t # _) \<Rightarrow> type_expr_name t)"

definition trim_prefix :: "string \<Rightarrow> string \<Rightarrow> string" where
  "trim_prefix s p = (if has_prefix s p then drop (length p) s else s)"

definition trim_suffix :: "string \<Rightarrow> string \<Rightarrow> string" where
  "trim_suffix s p = (if has_suffix s p then take (length s - length p) s else s)"

definition normalize_receiver_type :: "string \<Rightarrow> string" where
  "normalize_receiver_type s = trim_prefix (trim_suffix (trim_prefix (trim_space s) ''('') '')'') ''*''"

definition full_method_name :: "string \<Rightarrow> string \<Rightarrow> string" where
  "full_method_name recv nm = ''(*'' @ normalize_receiver_type recv @ '').'' @ nm"

definition func_decls :: "ast_decl list \<Rightarrow> func_decl list" where
  "func_decls ds = concat (map (\<lambda>d. case d of FuncNode fd \<Rightarrow> [fd] | OtherNode \<Rightarrow> []) ds)"

definition find_function :: "ast_decl list \<Rightarrow> string \<Rightarrow> ast_match list" where
  "find_function ds nm =
     map (\<lambda>d. match_from_func_decl d nm) (filter (\<lambda>d. fd_recv d = None \<and> fd_name d = nm) (func_decls ds))"

definition find_method :: "ast_decl list \<Rightarrow> string \<Rightarrow> string \<Rightarrow> ast_match list" where
  "find_method ds recv nm =
     map (\<lambda>d. match_from_func_decl d (full_method_name recv nm))
       (filter (\<lambda>d. fd_recv d \<noteq> None \<and> fd_name d = nm \<and> receiver_type_name d = normalize_receiver_type recv)
         (func_decls ds))"

definition list_methods :: "ast_decl list \<Rightarrow> string \<Rightarrow> ast_match list" where
  "list_methods ds recv =
     map (\<lambda>d. match_from_func_decl d (full_method_name recv (fd_name d)))
       (filter (\<lambda>d. fd_recv d \<noteq> None \<and> receiver_type_name d = normalize_receiver_type recv) (func_decls ds))"

definition validate_func_decl :: "go_parser \<Rightarrow> string \<Rightarrow> string option" where
  "validate_func_decl parse t =
     (case parse (''package _validate'' @ [newline] @ t @ [newline]) of Inl e \<Rightarrow> Some e | Inr _ \<Rightarrow> None)"

definition ast_detect :: "string \<Rightarrow> string" where
  "ast_detect p = (if to_lower (fp_ext p) = ''.go'' then ''go'' else [])"

definition replace_range :: "string \<Rightarrow> nat \<Rightarrow> nat \<Rightarrow> string \<Rightarrow> string + string" where
  "replace_range src a b new =
     (if b < a \<or> length src < b
      then Inl (''invalid range ['' @ dec_nat a @ '':'' @ dec_nat b @ ''] over source of length '' @ dec_nat (length src))
      else Inr (take a src @ new @ drop b src))"

definition format_matches :: "ast_match list \<Rightarrow> string" where
  "format_matches ms = join '', '' (map (\<lambda>m. ''line '' @ dec_nat (am_line m)) ms)"

definition render_region :: "string \<Rightarrow> int \<Rightarrow> int \<Rightarrow> string" where
  "render_region src a b =
     (if a < 0 \<or> int (length src) < b \<or> b < a then [] else take (nat (b - a)) (drop (nat a) src))"

section \<open>The common part of the tools\<close>

definition ast_load_target :: "go_parser \<Rightarrow> workspace \<Rightarrow> file_session \<Rightarrow> string
    \<Rightarrow> (string + string \<times> string \<times> ast_decl list) \<times> file_session" where
  "ast_load_target parse w s p =
     (case resolve_edit_target w s p of
        (Inl e, s1) \<Rightarrow> (Inl e, s1)
      | (Inr r, s1) \<Rightarrow>
          if ast_detect r = [] then (Inl (''no AST support for '' @ p @ '' (known extensions: .go)''), s1)
          else
            (case k_read_file (se_fs s1) r of
               Inl e \<Rightarrow> (Inl (''read: '' @ path_error ''open'' r e), s1)
             | Inr data \<Rightarrow>
                 (case parse data of
                    Inl e \<Rightarrow> (Inl (''parse error: '' @ e), s1)
                  | Inr ds \<Rightarrow> (Inr (r, data, ds), s1))))"

definition err_ambiguous :: "string \<Rightarrow> ast_match list \<Rightarrow> string" where
  "err_ambiguous nm ms = ''ambiguous: '' @ nm @ '' matches '' @ dec_nat (length ms) @ '' declarations at '' @ format_matches ms"

definition require_single_match :: "ast_match list \<Rightarrow> string \<Rightarrow> string \<Rightarrow> string + ast_match" where
  "require_single_match ms not_found nm =
     (case ms of [] \<Rightarrow> Inl not_found | [m] \<Rightarrow> Inr m | _ \<Rightarrow> Inl (err_ambiguous nm ms))"

definition unified_diff_region :: "string \<Rightarrow> string \<Rightarrow> nat \<Rightarrow> string" where
  "unified_diff_region before after line =
     (let ls = (\<lambda>mark t. concat (map (\<lambda>l. mark # l @ [newline]) (split_on newline (trim_nl t))))
      in trim_nl (''--- before'' @ [newline] @ ''+++ after'' @ [newline] @ ''@@ starting line '' @ dec_nat line @ '' @@''
           @ [newline] @ ls (CHR ''-'') before @ ls (CHR ''+'') after))"

definition line_of_offset :: "string \<Rightarrow> nat \<Rightarrow> nat" where
  "line_of_offset src off = Suc (count_list (take off src) newline)"

definition is_blank_char :: "char \<Rightarrow> bool" where "is_blank_char c \<longleftrightarrow> c = CHR '' '' \<or> c = CHR 0x09"

definition line_indent_at_offset :: "string \<Rightarrow> nat \<Rightarrow> string" where
  "line_indent_at_offset src off =
     (let start = off - length (takeWhile (\<lambda>c. c \<noteq> newline) (rev (take off src)))
      in takeWhile is_blank_char (drop start src))"

definition rel_for_report :: "string \<Rightarrow> string \<Rightarrow> string" where
  "rel_for_report wroot r = (case fp_rel wroot r of None \<Rightarrow> r | Some rel \<Rightarrow> rel)"

text \<open>
  Between loading the file and writing it a handler decides: it panics, refuses with an error result, or
  has the new content and, for the path to report, the text of the answer.
\<close>

datatype ast_plan = Panics | Refuse string | Splice string "string \<Rightarrow> string"

definition run_plan :: "go_parser \<Rightarrow> write_faults \<Rightarrow> nat \<Rightarrow> nat \<Rightarrow> workspace \<Rightarrow> string
    \<Rightarrow> (string \<Rightarrow> ast_decl list \<Rightarrow> ast_plan) \<Rightarrow> file_session \<Rightarrow> tool_result option \<times> file_session" where
  "run_plan parse flts pid nano w p plan s =
     (case ast_load_target parse w s p of
        (Inl e, s1) \<Rightarrow> (Some (ErrorResult e), s1)
      | (Inr (r, data, ds), s1) \<Rightarrow>
          (case plan data ds of
             Panics \<Rightarrow> (None, s1)
           | Refuse e \<Rightarrow> (Some (ErrorResult e), s1)
           | Splice updated report \<Rightarrow>
               (case atomic_write flts pid nano (se_fs s1) r updated of
                  (Some e, f2) \<Rightarrow> (Some (ErrorResult (''write: '' @ e)), s1\<lparr>se_fs := f2\<rparr>)
                | (None, f2) \<Rightarrow> (Some (TextResult (report (rel_for_report (ws_root w) r))), s1\<lparr>se_fs := f2\<rparr>))))"

text \<open>\<open>s[a:b]\<close>; \<open>None\<close> is the run-time panic.\<close>

definition go_slice :: "string \<Rightarrow> nat \<Rightarrow> nat \<Rightarrow> string option" where
  "go_slice s a b = (if a \<le> b \<and> b \<le> length s then Some (take (b - a) (drop a s)) else None)"

definition replacement_error :: "string \<Rightarrow> string" where "replacement_error e = ''replacement did not parse: '' @ e"

section \<open>edit_function_body\<close>

definition parse_edit_body_args :: "args \<Rightarrow> string + string \<times> string \<times> string" where
  "parse_edit_body_args a =
     (let p = arg_str0 a ''file_path''; f = arg_str0 a ''function_name''
      in if p = [] then Inl ''file_path is required''
         else if f = [] then Inl ''function_name is required''
         else if map_of a ''new_body'' = None then Inl ''new_body is required''
         else Inr (p, f, arg_str0 a ''new_body''))"

definition split_method_name :: "string \<Rightarrow> (string \<times> string) option" where
  "split_method_name nm =
     (if \<not> has_prefix nm ''('' then None
      else case str_index nm '')'' of
             None \<Rightarrow> None
           | Some i \<Rightarrow>
               if length nm < i + 2 \<or> nm ! (i + 1) \<noteq> CHR ''.'' then None
               else
                 let recv = take (i - 1) (drop 1 nm); meth = drop (i + 2) nm
                 in if recv = [] \<or> meth = [] then None else Some (recv, meth))"

definition resolve_function_or_method :: "ast_decl list \<Rightarrow> string \<Rightarrow> string \<Rightarrow> string + ast_match" where
  "resolve_function_or_method ds nm p =
     (case split_method_name nm of
        Some (recv, meth) \<Rightarrow>
          require_single_match (find_method ds recv meth) (''method '' @ nm @ '' not found in '' @ p) nm
      | None \<Rightarrow> require_single_match (find_function ds nm) (''function '' @ nm @ '' not found in '' @ p) nm)"

definition braced :: "string \<Rightarrow> string" where "braced body = ''{'' @ body @ ''}''"

text \<open>The outer \<open>None\<close> is the panic of the slice, the inner one the absence of an error.\<close>

definition validate_new_body :: "go_parser \<Rightarrow> string \<Rightarrow> ast_match \<Rightarrow> string \<Rightarrow> string option option" where
  "validate_new_body parse src m body =
     (case go_slice src (am_sig m) (am_body m) of
        None \<Rightarrow> None
      | Some sig \<Rightarrow> Some (map_option replacement_error (validate_func_decl parse (sig @ braced body))))"

definition splice_body :: "string \<Rightarrow> ast_match \<Rightarrow> string \<Rightarrow> string + string" where
  "splice_body src m body =
     (case replace_range src (am_body m) (am_end m) (braced body) of Inl e \<Rightarrow> Inl (''splice: '' @ e) | Inr out \<Rightarrow> Inr out)"

definition delta :: "string \<Rightarrow> string \<Rightarrow> int" where "delta before after = int (length after) - int (length before)"

definition format_edit_body_result :: "string \<Rightarrow> ast_match \<Rightarrow> string \<Rightarrow> string \<Rightarrow> string" where
  "format_edit_body_result rel m before after =
     ''edit_function_body: modified '' @ rel @ '' at line '' @ dec_nat (am_line m) @ [newline]
     @ unified_diff_region (render_region before (int (am_sig m)) (int (am_end m)))
         (render_region after (int (am_sig m)) (int (am_end m) + delta before after)) (am_line m)"

definition edit_body_plan :: "go_parser \<Rightarrow> string \<Rightarrow> string \<Rightarrow> string \<Rightarrow> string \<Rightarrow> ast_decl list \<Rightarrow> ast_plan" where
  "edit_body_plan parse p nm body data ds =
     (case resolve_function_or_method ds nm p of
        Inl e \<Rightarrow> Refuse e
      | Inr m \<Rightarrow>
          (case validate_new_body parse data m body of
             None \<Rightarrow> Panics
           | Some (Some e) \<Rightarrow> Refuse e
           | Some None \<Rightarrow>
               (case splice_body data m body of
                  Inl e \<Rightarrow> Refuse e
                | Inr updated \<Rightarrow> Splice updated (\<lambda>rel. format_edit_body_result rel m data updated))))"

definition handle_edit_function_body :: "go_parser \<Rightarrow> write_faults \<Rightarrow> nat \<Rightarrow> nat \<Rightarrow> workspace \<Rightarrow> args
    \<Rightarrow> file_session \<Rightarrow> tool_result option \<times> file_session" where
  "handle_edit_function_body parse flts pid nano w a s =
     (case parse_edit_body_args a of
        Inl e \<Rightarrow> (Some (ErrorResult e), s)
      | Inr (p, nm, body) \<Rightarrow> run_plan parse flts pid nano w p (edit_body_plan parse p nm body) s)"

section \<open>insert_after_method\<close>

record insert_args =
  ia_path :: string
  ia_recv :: string
  ia_anchor :: string
  ia_new :: string

definition parse_insert_args :: "args \<Rightarrow> string + insert_args" where
  "parse_insert_args a =
     (let p = arg_str0 a ''file_path''; r = arg_str0 a ''receiver_type''; m = arg_str0 a ''method_name'';
          n = arg_str0 a ''new_method''
      in if p = [] then Inl ''file_path is required''
         else if r = [] then Inl ''receiver_type is required''
         else if m = [] then Inl ''method_name is required''
         else if n = [] then Inl ''new_method is required''
         else Inr \<lparr>ia_path = p, ia_recv = r, ia_anchor = m, ia_new = n\<rparr>)"

definition format_method_not_found :: "ast_decl list \<Rightarrow> insert_args \<Rightarrow> string" where
  "format_method_not_found ds p =
     (let existing = list_methods ds (ia_recv p)
      in ''method '' @ ia_anchor p @ '' not found on '' @ ia_recv p @ '' in '' @ ia_path p
         @ (if existing = [] then '' (no methods found on that receiver)''
            else '' (available: '' @ join '', '' (map am_name existing) @ '')''))"

definition resolve_anchor_method :: "ast_decl list \<Rightarrow> insert_args \<Rightarrow> string + ast_match" where
  "resolve_anchor_method ds p =
     (let ms = find_method ds (ia_recv p) (ia_anchor p)
      in if ms = [] then Inl (format_method_not_found ds p)
         else if 1 < length ms then Inl (err_ambiguous (ia_anchor p) ms)
         else Inr (hd ms))"

definition reindent_method :: "string \<Rightarrow> string \<Rightarrow> string" where
  "reindent_method meth indent =
     (if indent = [] then meth
      else join [newline] (map (\<lambda>l. if trim_space l = [] then l else indent @ l) (split_on newline meth)))"

definition splice_after_method :: "string \<Rightarrow> ast_match \<Rightarrow> string \<Rightarrow> string + string \<times> nat" where
  "splice_after_method src m new =
     (case replace_range src (am_end m) (am_end m)
         ([newline, newline] @ reindent_method new (line_indent_at_offset src (am_sig m))) of
        Inl e \<Rightarrow> Inl (''splice: '' @ e)
      | Inr out \<Rightarrow> Inr (out, line_of_offset src (am_end m) + 2))"

definition format_insert_result :: "string \<Rightarrow> nat \<Rightarrow> string \<Rightarrow> string" where
  "format_insert_result rel line new =
     ''insert_after_method: inserted '' @ dec_nat (length new) @ '' bytes in '' @ rel @ '' at line '' @ dec_nat line
     @ [newline] @ ''+'' @ join [newline, CHR ''+''] (split_on newline (trim_nl new))"

definition insert_plan :: "go_parser \<Rightarrow> insert_args \<Rightarrow> string \<Rightarrow> ast_decl list \<Rightarrow> ast_plan" where
  "insert_plan parse p data ds =
     (case resolve_anchor_method ds p of
        Inl e \<Rightarrow> Refuse e
      | Inr m \<Rightarrow>
          (case validate_func_decl parse (ia_new p) of
             Some e \<Rightarrow> Refuse (replacement_error e)
           | None \<Rightarrow>
               (case splice_after_method data m (ia_new p) of
                  Inl e \<Rightarrow> Refuse e
                | Inr (updated, line) \<Rightarrow> Splice updated (\<lambda>rel. format_insert_result rel line (ia_new p)))))"

definition handle_insert_after_method :: "go_parser \<Rightarrow> write_faults \<Rightarrow> nat \<Rightarrow> nat \<Rightarrow> workspace \<Rightarrow> args
    \<Rightarrow> file_session \<Rightarrow> tool_result option \<times> file_session" where
  "handle_insert_after_method parse flts pid nano w a s =
     (case parse_insert_args a of
        Inl e \<Rightarrow> (Some (ErrorResult e), s)
      | Inr p \<Rightarrow> run_plan parse flts pid nano w (ia_path p) (insert_plan parse p) s)"

section \<open>change_function_signature\<close>

definition parse_change_sig_args :: "args \<Rightarrow> string + string \<times> string \<times> string" where
  "parse_change_sig_args a =
     (let p = arg_str0 a ''file_path''; f = arg_str0 a ''function_name''; n = arg_str0 a ''new_signature''
      in if p = [] then Inl ''file_path is required''
         else if f = [] then Inl ''function_name is required''
         else if n = [] then Inl ''new_signature is required''
         else Inr (p, f, n))"

definition is_ws :: "char \<Rightarrow> bool" where "is_ws c \<longleftrightarrow> c = CHR '' '' \<or> c = CHR 0x09 \<or> c = newline"

definition validate_new_signature :: "go_parser \<Rightarrow> string \<Rightarrow> string option" where
  "validate_new_signature parse sig =
     map_option replacement_error (validate_func_decl parse (trim_right is_ws sig @ '' {}''))"

definition ends_with_whitespace :: "string \<Rightarrow> bool" where
  "ends_with_whitespace s \<longleftrightarrow> s \<noteq> [] \<and> is_ws (last s)"

definition splice_signature :: "string \<Rightarrow> ast_match \<Rightarrow> string \<Rightarrow> string + string" where
  "splice_signature src m sig =
     (case replace_range src (am_sig m) (am_body m) (sig @ (if ends_with_whitespace sig then [] else '' '')) of
        Inl e \<Rightarrow> Inl (''splice: '' @ e)
      | Inr out \<Rightarrow> Inr out)"

definition format_change_sig_result :: "string \<Rightarrow> ast_match \<Rightarrow> string \<Rightarrow> string \<Rightarrow> string" where
  "format_change_sig_result rel m before after =
     ''change_function_signature: modified '' @ rel @ '' at line '' @ dec_nat (am_line m) @ [newline]
     @ unified_diff_region (render_region before (int (am_sig m)) (int (am_body m)))
         (render_region after (int (am_sig m)) (int (am_body m) + delta before after)) (am_line m)"

definition change_sig_plan :: "go_parser \<Rightarrow> string \<Rightarrow> string \<Rightarrow> string \<Rightarrow> string \<Rightarrow> ast_decl list \<Rightarrow> ast_plan" where
  "change_sig_plan parse p nm sig data ds =
     (case resolve_function_or_method ds nm p of
        Inl e \<Rightarrow> Refuse e
      | Inr m \<Rightarrow>
          (case validate_new_signature parse sig of
             Some e \<Rightarrow> Refuse e
           | None \<Rightarrow>
               (case splice_signature data m sig of
                  Inl e \<Rightarrow> Refuse e
                | Inr updated \<Rightarrow> Splice updated (\<lambda>rel. format_change_sig_result rel m data updated))))"

definition handle_change_function_signature :: "go_parser \<Rightarrow> write_faults \<Rightarrow> nat \<Rightarrow> nat \<Rightarrow> workspace \<Rightarrow> args
    \<Rightarrow> file_session \<Rightarrow> tool_result option \<times> file_session" where
  "handle_change_function_signature parse flts pid nano w a s =
     (case parse_change_sig_args a of
        Inl e \<Rightarrow> (Some (ErrorResult e), s)
      | Inr (p, nm, sig) \<Rightarrow> run_plan parse flts pid nano w p (change_sig_plan parse p nm sig) s)"

section \<open>What an edit changes\<close>

lemma ast_load_target_ok:
  "ast_load_target parse w s p = (Inr (r, data, ds), s1) \<Longrightarrow>
     s1 = s \<and> resolve (se_fs s) w p = Inr r \<and> r \<in> se_tracker s \<and> k_read_file (se_fs s) r = Inr data
     \<and> parse data = Inr ds \<and> ast_detect r = ''go''"
  by (auto simp: ast_load_target_def ast_detect_def split: prod.splits sum.splits if_splits dest!: resolve_edit_target_ok)

lemma ast_load_target_state: "ast_load_target parse w s p = (x, s1) \<Longrightarrow> se_fs s1 = se_fs s \<and> se_tracker s1 = se_tracker s"
  by (auto simp: ast_load_target_def split: prod.splits sum.splits if_splits dest!: resolve_edit_target_state)

text \<open>
  The contract of the three tools: only a file of the workspace that was marked as read and parses
  changes, to the content the plan made of it, and an answer other than an error means that it did.
\<close>

definition edited_by :: "go_parser \<Rightarrow> (string \<Rightarrow> ast_decl list \<Rightarrow> ast_plan) \<Rightarrow> file_session \<Rightarrow> phys \<Rightarrow> string \<Rightarrow> string \<Rightarrow> bool" where
  "edited_by parse plan s q data updated \<longleftrightarrow>
     se_fs s q = Some (NFile data) \<and> abs_path q \<in> se_tracker s
     \<and> (\<exists>ds rep. parse data = Inr ds \<and> plan data ds = Splice updated rep)"

lemma run_plan_confined:
  assumes "fs_wf (se_fs s)" "ws_ok (se_fs s) w" "lookups_ok (se_fs s) w p"
    and "run_plan parse flts pid nano w p plan s = (res, s')"
  shows "(\<forall>x. \<not> prefix (root_of w) x \<longrightarrow> se_fs s' x = se_fs s x)
    \<and> (\<forall>x. se_fs s x \<noteq> None \<and> se_fs s' x \<noteq> se_fs s x \<longrightarrow>
        (\<exists>data updated. edited_by parse plan s x data updated \<and> se_fs s' x = Some (NFile updated)))
    \<and> (\<forall>t. res = Some (TextResult t) \<longrightarrow> (\<exists>q data updated. resolve (se_fs s) w p = Inr (abs_path q)
        \<and> edited_by parse plan s q data updated \<and> se_fs s' = replaced (se_fs s) q updated))
    \<and> (res = None \<longrightarrow> se_fs s' = se_fs s \<and> (\<exists>data ds. parse data = Inr ds \<and> plan data ds = Panics))"
proof -
  obtain x s1 where x: "ast_load_target parse w s p = (x, s1)" by (cases "ast_load_target parse w s p")
  note st = ast_load_target_state [OF x]
  show ?thesis
  proof (cases x)
    case (Inl e)
    then show ?thesis using assms(4) x st by (auto simp: run_plan_def)
  next
    case (Inr y)
    then obtain r data ds where y: "x = Inr (r, data, ds)" by (cases y) auto
    note ok = ast_load_target_ok [OF x [unfolded y]]
    show ?thesis
    proof (cases "plan data ds")
      case Panics
      then show ?thesis using assms(4) x y ok by (auto simp: run_plan_def)
    next
      case (Refuse e)
      then show ?thesis using assms(4) x y ok by (auto simp: run_plan_def)
    next
      case (Splice updated rep)
      obtain err f2 where aw: "atomic_write flts pid nano (se_fs s) r updated = (err, f2)"
        by (cases "atomic_write flts pid nano (se_fs s) r updated")
      have r: "accepts w (se_fs s) p = Some r" "confined_request w (se_fs s) p"
        "se_fs s (root_of w) = Some NDir" "k_read_file (se_fs s) r = Inr data"
        using ok assms(2,3) ws_okE by (auto simp: accepts_def confined_request_def)
      from ws_paths.overwrite_confined [OF assms(1) r(2,1,3,4) aw]
      obtain q where q: "r = abs_path q" "prefix (root_of w) q" "se_fs s q = Some (NFile data)"
        "\<And>x. x \<noteq> q \<Longrightarrow> \<not> prefix (root_of w) x \<or> se_fs s x \<noteq> None \<Longrightarrow> f2 x = se_fs s x"
        "f2 q = se_fs s q \<or> f2 q = Some (NFile updated)" "err = None \<longrightarrow> f2 = replaced (se_fs s) q updated"
        by metis
      have e: "edited_by parse plan s q data updated" using q(1,3) ok Splice by (auto simp: edited_by_def)
      have s': "se_fs s' = f2" "err = None \<longleftrightarrow> (\<exists>t. res = Some (TextResult t))" "res \<noteq> None"
        using assms(4) x y ok Splice aw by (auto simp: run_plan_def split: option.splits)
      have "\<exists>data updated. edited_by parse plan s x data updated \<and> se_fs s' x = Some (NFile updated)"
        if "se_fs s x \<noteq> None \<and> se_fs s' x \<noteq> se_fs s x" for x
      proof -
        from that have "x = q" using q(4) s'(1) by metis
        with e q(5) that s'(1) show ?thesis by auto
      qed
      moreover have "se_fs s' x = se_fs s x" if "\<not> prefix (root_of w) x" for x
        using q(2,4) s'(1) that by metis
      moreover have "\<exists>q data updated. resolve (se_fs s) w p = Inr (abs_path q)
          \<and> edited_by parse plan s q data updated \<and> se_fs s' = replaced (se_fs s) q updated" if "res = Some (TextResult t)" for t
        using e ok q(1,6) s'(1,2) that by blast
      ultimately show ?thesis using s'(3) by blast
    qed
  qed
qed

lemma run_plan_change:
  assumes "fs_wf (se_fs s)" "ws_ok (se_fs s) w" "lookups_ok (se_fs s) w p"
    and "run_plan parse flts pid nano w p plan s = (res, s')"
    and R: "\<And>data ds updated rep. parse data = Inr ds \<Longrightarrow> plan data ds = Splice updated rep \<Longrightarrow> R data updated"
  shows "(\<forall>x. \<not> prefix (root_of w) x \<longrightarrow> se_fs s' x = se_fs s x)
    \<and> (\<forall>x. se_fs s x \<noteq> None \<and> se_fs s' x \<noteq> se_fs s x \<longrightarrow> abs_path x \<in> se_tracker s
        \<and> (\<exists>data updated. se_fs s x = Some (NFile data) \<and> R data updated \<and> se_fs s' x = Some (NFile updated)))
    \<and> (\<forall>t. res = Some (TextResult t) \<longrightarrow> (\<exists>q data updated. resolve (se_fs s) w p = Inr (abs_path q)
        \<and> se_fs s q = Some (NFile data) \<and> R data updated \<and> se_fs s' = replaced (se_fs s) q updated))"
proof -
  have e: "edited_by parse plan s x data updated \<Longrightarrow>
      abs_path x \<in> se_tracker s \<and> se_fs s x = Some (NFile data) \<and> R data updated" for x data updated
    using R by (auto simp: edited_by_def)
  note conf = run_plan_confined [OF assms(1-4)]
  show ?thesis
  proof (intro conjI allI impI)
    fix x assume "\<not> prefix (root_of w) x"
    then show "se_fs s' x = se_fs s x" using conf by simp
  next
    fix x assume "se_fs s x \<noteq> None \<and> se_fs s' x \<noteq> se_fs s x"
    then obtain data updated where x: "edited_by parse plan s x data updated" "se_fs s' x = Some (NFile updated)"
      using conf by metis
    show "abs_path x \<in> se_tracker s" using e [OF x(1)] by simp
    show "\<exists>data updated. se_fs s x = Some (NFile data) \<and> R data updated \<and> se_fs s' x = Some (NFile updated)"
      using e [OF x(1)] x(2) by blast
  next
    fix t assume "res = Some (TextResult t)"
    then obtain q data updated where x: "resolve (se_fs s) w p = Inr (abs_path q)"
      "edited_by parse plan s q data updated" "se_fs s' = replaced (se_fs s) q updated"
      using conf by metis
    then show "\<exists>q data updated. resolve (se_fs s) w p = Inr (abs_path q)
        \<and> se_fs s q = Some (NFile data) \<and> R data updated \<and> se_fs s' = replaced (se_fs s) q updated"
      using e [OF x(2)] by blast
  qed
qed

text \<open>The declarations a name stands for.\<close>

definition is_named :: "string \<Rightarrow> func_decl \<Rightarrow> bool" where
  "is_named nm d \<longleftrightarrow>
     (case split_method_name nm of
        None \<Rightarrow> fd_recv d = None \<and> fd_name d = nm
      | Some (recv, meth) \<Rightarrow> fd_recv d \<noteq> None \<and> fd_name d = meth \<and> receiver_type_name d = normalize_receiver_type recv)"

lemma require_single_ok: "require_single_match ms e nm = Inr m \<longleftrightarrow> ms = [m]"
  by (auto simp: require_single_match_def split: list.splits)

lemma resolve_named:
  "resolve_function_or_method ds nm p = Inr m \<Longrightarrow>
     \<exists>d n. filter (is_named nm) (func_decls ds) = [d] \<and> m = match_from_func_decl d n"
  unfolding resolve_function_or_method_def is_named_def find_function_def find_method_def
  by (auto simp: require_single_ok map_eq_Cons_conv split: option.splits) (metis option.distinct(1))+

lemma named_resolves:
  "filter (is_named nm) (func_decls ds) = [d] \<Longrightarrow> \<exists>n. resolve_function_or_method ds nm p = Inr (match_from_func_decl d n)"
  unfolding resolve_function_or_method_def is_named_def find_function_def find_method_def
  by (auto simp: require_single_match_def conj_ac split: option.splits prod.splits)

text \<open>
  What the parser is taken to promise: a function declaration follows the package clause, and its body
  lies behind its start, inside the file, from a brace to behind a brace.
\<close>

definition parser_ok :: "go_parser \<Rightarrow> bool" where
  "parser_ok parse \<longleftrightarrow> (\<forall>src ds d. parse src = Inr ds \<and> d \<in> set (func_decls ds) \<longrightarrow>
     0 < fd_pos d \<and> fd_pos d \<le> length src \<and>
     (\<forall>l e. fd_body d = Some (l, e) \<longrightarrow> fd_pos d \<le> l \<and> l < e \<and> e \<le> length src))"

definition parses :: "go_parser \<Rightarrow> string \<Rightarrow> bool" where
  "parses parse t \<longleftrightarrow> (\<exists>ds. parse (''package _validate'' @ [newline] @ t @ [newline]) = Inr ds)"

lemma validate_parses: "validate_func_decl parse t = None \<longleftrightarrow> parses parse t"
  by (auto simp: validate_func_decl_def parses_def split: sum.splits)

lemma filter_single_in: "filter P xs = [d] \<Longrightarrow> d \<in> set xs"
  by (drule arg_cong [of _ _ set]) auto

lemmas match_fields = match_from_func_decl_def split_beta

lemma edit_body_plan_splice:
  assumes "edit_body_plan parse p nm body data ds = Splice updated rep" "parse data = Inr ds" "parser_ok parse"
  shows "\<exists>d l e. filter (is_named nm) (func_decls ds) = [d] \<and> fd_body d = Some (l, e) \<and> fd_pos d \<le> l
    \<and> parses parse (take (l - fd_pos d) (drop (fd_pos d) data) @ braced body)
    \<and> updated = take l data @ braced body @ drop e data"
proof -
  obtain m where m: "resolve_function_or_method ds nm p = Inr m" "validate_new_body parse data m body = Some None"
    "splice_body data m body = Inr updated"
    using assms(1) by (auto simp: edit_body_plan_def split: sum.splits option.splits)
  obtain d n where d: "filter (is_named nm) (func_decls ds) = [d]" "m = match_from_func_decl d n"
    using resolve_named [OF m(1)] by blast
  have pos: "0 < fd_pos d" using assms(2,3) filter_single_in [OF d(1)] by (auto simp: parser_ok_def)
  obtain l e where le: "fd_body d = Some (l, e)"
    using m(2) d(2) pos by (cases "fd_body d") (auto simp: validate_new_body_def match_fields go_slice_def)
  have mf: "am_sig m = fd_pos d" "am_body m = l" "am_end m = e" using d(2) le by (auto simp: match_fields)
  have "fd_pos d \<le> l" "parses parse (take (l - fd_pos d) (drop (fd_pos d) data) @ braced body)"
    using m(2) mf by (auto simp: validate_new_body_def go_slice_def validate_parses split: if_splits)
  moreover have "updated = take l data @ braced body @ drop e data"
    using m(3) mf by (auto simp: splice_body_def replace_range_def split: if_splits)
  ultimately show ?thesis using d(1) le by blast
qed

lemma insert_plan_splice:
  assumes "insert_plan parse p data ds = Splice updated rep"
  shows "\<exists>d e. filter (\<lambda>d. fd_recv d \<noteq> None \<and> fd_name d = ia_anchor p
        \<and> receiver_type_name d = normalize_receiver_type (ia_recv p)) (func_decls ds) = [d]
    \<and> e = (case fd_body d of None \<Rightarrow> 0 | Some le \<Rightarrow> snd le) \<and> parses parse (ia_new p)
    \<and> updated = take e data @ [newline, newline]
        @ reindent_method (ia_new p) (line_indent_at_offset data (fd_pos d)) @ drop e data"
proof -
  obtain m line where m: "resolve_anchor_method ds p = Inr m" "validate_func_decl parse (ia_new p) = None"
    "splice_after_method data m (ia_new p) = Inr (updated, line)"
    using assms by (auto simp: insert_plan_def split: sum.splits option.splits)
  have "find_method ds (ia_recv p) (ia_anchor p) = [m]"
    using m(1) by (cases "find_method ds (ia_recv p) (ia_anchor p)") (auto simp: resolve_anchor_method_def Let_def split: if_splits)
  then obtain d n where d: "filter (\<lambda>d. fd_recv d \<noteq> None \<and> fd_name d = ia_anchor p
        \<and> receiver_type_name d = normalize_receiver_type (ia_recv p)) (func_decls ds) = [d]" "m = match_from_func_decl d n"
    by (auto simp: find_method_def map_eq_Cons_conv)
  then have "am_sig m = fd_pos d" "am_end m = (case fd_body d of None \<Rightarrow> 0 | Some le \<Rightarrow> snd le)"
    by (auto simp: match_fields split: option.splits)
  with m(2,3) d(1) show ?thesis
    by (auto simp: splice_after_method_def replace_range_def validate_parses split: if_splits)
qed

lemma change_sig_plan_splice:
  assumes "change_sig_plan parse p nm sig data ds = Splice updated rep" "parse data = Inr ds" "parser_ok parse"
  shows "\<exists>d l e. filter (is_named nm) (func_decls ds) = [d] \<and> fd_body d = Some (l, e) \<and> fd_pos d \<le> l
    \<and> parses parse (trim_right is_ws sig @ '' {}'')
    \<and> updated = take (fd_pos d) data @ sig @ (if ends_with_whitespace sig then [] else '' '') @ drop l data"
proof -
  obtain m where m: "resolve_function_or_method ds nm p = Inr m" "validate_new_signature parse sig = None"
    "splice_signature data m sig = Inr updated"
    using assms(1) by (auto simp: change_sig_plan_def split: sum.splits option.splits)
  obtain d n where d: "filter (is_named nm) (func_decls ds) = [d]" "m = match_from_func_decl d n"
    using resolve_named [OF m(1)] by blast
  have pos: "0 < fd_pos d" using assms(2,3) filter_single_in [OF d(1)] by (auto simp: parser_ok_def)
  have range: "am_sig m \<le> am_body m" "updated = take (am_sig m) data @ (sig @ (if ends_with_whitespace sig then [] else '' '')) @ drop (am_body m) data"
    using m(3) by (auto simp: splice_signature_def replace_range_def split: if_splits)
  obtain l e where le: "fd_body d = Some (l, e)"
    using range(1) d(2) pos by (cases "fd_body d") (auto simp: match_fields)
  have mf: "am_sig m = fd_pos d" "am_body m = l" using d(2) le by (auto simp: match_fields)
  then show ?thesis
    using range d(1) le m(2) by (auto simp: validate_new_signature_def validate_parses)
qed

definition body_edit :: "go_parser \<Rightarrow> string \<Rightarrow> string \<Rightarrow> string \<Rightarrow> string \<Rightarrow> bool" where
  "body_edit parse nm body data updated \<longleftrightarrow>
     (\<exists>ds d l e. parse data = Inr ds \<and> filter (is_named nm) (func_decls ds) = [d] \<and> fd_body d = Some (l, e)
        \<and> parses parse (take (l - fd_pos d) (drop (fd_pos d) data) @ braced body)
        \<and> updated = take l data @ braced body @ drop e data)"

text \<open>
  C16: \<open>edit_function_body\<close> replaces one body and nothing else.  Nothing outside the workspace changes; a
  file that existed changes only if it was marked as read and parses, exactly one declaration has the
  name, and that one's signature with the new body in braces parses; the new content is the old one with
  the bytes from the opening brace to behind the closing one exchanged.  A call that reports success
  has done this to the file its path resolves to.
\<close>

theorem edit_function_body_exact:
  assumes "fs_wf (se_fs s)" "ws_ok (se_fs s) w" "lookups_ok (se_fs s) w p" "parser_ok parse"
    and "parse_edit_body_args a = Inr (p, nm, body)"
    and "handle_edit_function_body parse flts pid nano w a s = (res, s')"
  shows "(\<forall>x. \<not> prefix (root_of w) x \<longrightarrow> se_fs s' x = se_fs s x)
    \<and> (\<forall>x. se_fs s x \<noteq> None \<and> se_fs s' x \<noteq> se_fs s x \<longrightarrow> abs_path x \<in> se_tracker s
        \<and> (\<exists>data updated. se_fs s x = Some (NFile data) \<and> body_edit parse nm body data updated
            \<and> se_fs s' x = Some (NFile updated)))
    \<and> (\<forall>t. res = Some (TextResult t) \<longrightarrow> (\<exists>q data updated. resolve (se_fs s) w p = Inr (abs_path q)
        \<and> se_fs s q = Some (NFile data) \<and> body_edit parse nm body data updated
        \<and> se_fs s' = replaced (se_fs s) q updated))"
proof (rule run_plan_change [OF assms(1-3)])
  show "run_plan parse flts pid nano w p (edit_body_plan parse p nm body) s = (res, s')"
    using assms(5,6) by (simp add: handle_edit_function_body_def)
  show "parse data = Inr ds \<Longrightarrow> edit_body_plan parse p nm body data ds = Splice updated rep
    \<Longrightarrow> body_edit parse nm body data updated" for data ds updated rep
    using edit_body_plan_splice [OF _ _ assms(4)] unfolding body_edit_def by blast
qed

definition insertion :: "go_parser \<Rightarrow> insert_args \<Rightarrow> string \<Rightarrow> string \<Rightarrow> bool" where
  "insertion parse p data updated \<longleftrightarrow>
     (\<exists>ds d. parse data = Inr ds \<and> parses parse (ia_new p)
        \<and> filter (\<lambda>d. fd_recv d \<noteq> None \<and> fd_name d = ia_anchor p
            \<and> receiver_type_name d = normalize_receiver_type (ia_recv p)) (func_decls ds) = [d]
        \<and> (let e = (case fd_body d of None \<Rightarrow> 0 | Some le \<Rightarrow> snd le)
           in updated = take e data @ [newline, newline]
                @ reindent_method (ia_new p) (line_indent_at_offset data (fd_pos d)) @ drop e data))"

text \<open>
  \<open>insert_after_method\<close> inserts the new declaration, which parses on its own and is indented as the
  anchor is, behind a blank line at the end of the anchor's body, and changes nothing else.  The anchor is
  the only declaration of that name on that receiver; one without a body counts as ending at offset 0.
\<close>

theorem insert_after_method_exact:
  assumes "fs_wf (se_fs s)" "ws_ok (se_fs s) w" "lookups_ok (se_fs s) w (ia_path p)"
    and "parse_insert_args a = Inr p"
    and "handle_insert_after_method parse flts pid nano w a s = (res, s')"
  shows "(\<forall>x. \<not> prefix (root_of w) x \<longrightarrow> se_fs s' x = se_fs s x)
    \<and> (\<forall>x. se_fs s x \<noteq> None \<and> se_fs s' x \<noteq> se_fs s x \<longrightarrow> abs_path x \<in> se_tracker s
        \<and> (\<exists>data updated. se_fs s x = Some (NFile data) \<and> insertion parse p data updated
            \<and> se_fs s' x = Some (NFile updated)))
    \<and> (\<forall>t. res = Some (TextResult t) \<longrightarrow> (\<exists>q data updated. resolve (se_fs s) w (ia_path p) = Inr (abs_path q)
        \<and> se_fs s q = Some (NFile data) \<and> insertion parse p data updated
        \<and> se_fs s' = replaced (se_fs s) q updated))"
proof (rule run_plan_change [OF assms(1-3)])
  show "run_plan parse flts pid nano w (ia_path p) (insert_plan parse p) s = (res, s')"
    using assms(4,5) by (simp add: handle_insert_after_method_def)
  show "parse data = Inr ds \<Longrightarrow> insert_plan parse p data ds = Splice updated rep
    \<Longrightarrow> insertion parse p data updated" for data ds updated rep
    using insert_plan_splice unfolding insertion_def Let_def by blast
qed

definition signature_change :: "go_parser \<Rightarrow> string \<Rightarrow> string \<Rightarrow> string \<Rightarrow> string \<Rightarrow> bool" where
  "signature_change parse nm sig data updated \<longleftrightarrow>
     (\<exists>ds d l e. parse data = Inr ds \<and> filter (is_named nm) (func_decls ds) = [d] \<and> fd_body d = Some (l, e)
        \<and> fd_pos d \<le> l \<and> parses parse (trim_right is_ws sig @ '' {}'')
        \<and> updated = take (fd_pos d) data @ sig @ (if ends_with_whitespace sig then [] else '' '') @ drop l data)"

text \<open>
  \<open>change_function_signature\<close> replaces the bytes from the start of the one declaration of the name to
  its opening brace by the new signature, with a space behind it unless it ends in white space, and
  changes nothing else; the new signature, trimmed and with an empty body, parses.
\<close>

theorem change_function_signature_exact:
  assumes "fs_wf (se_fs s)" "ws_ok (se_fs s) w" "lookups_ok (se_fs s) w p" "parser_ok parse"
    and "parse_change_sig_args a = Inr (p, nm, sig)"
    and "handle_change_function_signature parse flts pid nano w a s = (res, s')"
  shows "(\<forall>x. \<not> prefix (root_of w) x \<longrightarrow> se_fs s' x = se_fs s x)
    \<and> (\<forall>x. se_fs s x \<noteq> None \<and> se_fs s' x \<noteq> se_fs s x \<longrightarrow> abs_path x \<in> se_tracker s
        \<and> (\<exists>data updated. se_fs s x = Some (NFile data) \<and> signature_change parse nm sig data updated
            \<and> se_fs s' x = Some (NFile updated)))
    \<and> (\<forall>t. res = Some (TextResult t) \<longrightarrow> (\<exists>q data updated. resolve (se_fs s) w p = Inr (abs_path q)
        \<and> se_fs s q = Some (NFile data) \<and> signature_change parse nm sig data updated
        \<and> se_fs s' = replaced (se_fs s) q updated))"
proof (rule run_plan_change [OF assms(1-3)])
  show "run_plan parse flts pid nano w p (change_sig_plan parse p nm sig) s = (res, s')"
    using assms(5,6) by (simp add: handle_change_function_signature_def)
  show "parse data = Inr ds \<Longrightarrow> change_sig_plan parse p nm sig data ds = Splice updated rep
    \<Longrightarrow> signature_change parse nm sig data updated" for data ds updated rep
    using change_sig_plan_splice [OF _ _ assms(4)] unfolding signature_change_def by blast
qed

section \<open>Where the checks fall short\<close>

text \<open>
  a declaration without a body breaks two of the tools.  \<open>matchFromFuncDecl\<close> reports offset 0 for the
  missing body: \<open>edit_function_body\<close> then slices the source backwards and panics, and
  \<open>insert_after_method\<close> puts the new method in front of the package clause.
\<close>

theorem bodyless_declaration_mishandled:
  assumes "parser_ok parse" "parse data = Inr ds" "fd_body d = None"
  shows "(filter (is_named nm) (func_decls ds) = [d] \<longrightarrow> edit_body_plan parse p nm body data ds = Panics)
    \<and> (filter (\<lambda>d. fd_recv d \<noteq> None \<and> fd_name d = ia_anchor ip
        \<and> receiver_type_name d = normalize_receiver_type (ia_recv ip)) (func_decls ds) = [d]
        \<and> parses parse (ia_new ip)
      \<longrightarrow> (\<exists>rep. insert_plan parse ip data ds
            = Splice ([newline, newline] @ reindent_method (ia_new ip) (line_indent_at_offset data (fd_pos d)) @ data) rep))"
proof (intro conjI impI)
  assume one: "filter (is_named nm) (func_decls ds) = [d]"
  have "0 < fd_pos d" using assms(1,2) filter_single_in [OF one] by (auto simp: parser_ok_def)
  with named_resolves [OF one, of p] assms(3) show "edit_body_plan parse p nm body data ds = Panics"
    by (auto simp: edit_body_plan_def validate_new_body_def match_fields go_slice_def)
next
  assume one: "filter (\<lambda>d. fd_recv d \<noteq> None \<and> fd_name d = ia_anchor ip
        \<and> receiver_type_name d = normalize_receiver_type (ia_recv ip)) (func_decls ds) = [d] \<and> parses parse (ia_new ip)"
  then have ok: "parses parse (ia_new ip)" by simp
  show "\<exists>rep. insert_plan parse ip data ds
      = Splice ([newline, newline] @ reindent_method (ia_new ip) (line_indent_at_offset data (fd_pos d)) @ data) rep"
    using one ok [folded validate_parses] assms(3)
    by (simp add: insert_plan_def resolve_anchor_method_def find_method_def Let_def splice_after_method_def match_fields
        replace_range_def)
qed

definition demo_go_source :: string where "demo_go_source = ''package m'' @ [newline] @ ''func f() {}''"

definition demo_go_parser :: go_parser where
  "demo_go_parser src =
     (if src = demo_go_source then Inr [FuncNode \<lparr>fd_name = ''f'', fd_recv = None, fd_pos = 10, fd_line = 2, fd_body = Some (19, 21)\<rparr>]
      else Inr [])"

definition demo_go_session :: file_session where
  "demo_go_session = demo_session\<lparr>se_fs := (se_fs demo_session)([''w'', ''m.go''] \<mapsto> NFile demo_go_source), se_tracker := {''/w/m.go''}\<rparr>"

definition demo_body_call :: args where
  "demo_body_call = [(''file_path'', JStr ''m.go''), (''function_name'', JStr ''f''), (''new_body'', JStr ''g()'')]"

lemma demo_go_session_ok:
  "fs_wf (se_fs demo_go_session)" "ws_ok (se_fs demo_go_session) flood_ws" "lookups_ok (se_fs demo_go_session) flood_ws ''m.go''"
proof -
  show "fs_wf (se_fs demo_go_session)"
    using demo_fs_wf unfolding fs_wf_def demo_go_session_def demo_session_def flood_fs_def
    by (auto split: if_splits simp: append_eq_Cons_conv)
  show "ws_ok (se_fs demo_go_session) flood_ws"
    unfolding ws_ok_def
    by (rule exI [of _ "[''w'']"])
       (auto simp: demo_go_session_def demo_session_def flood_fs_def flood_ws_def abs_path_def physical_def plain_def
         prefix_Cons is_link_def split: if_splits)
  show "lookups_ok (se_fs demo_go_session) flood_ws ''m.go''" by code_simp
qed

lemma demo_parser_ok: "parser_ok demo_go_parser"
  by (auto simp: parser_ok_def demo_go_parser_def func_decls_def demo_go_source_def split: if_splits)

text \<open>
  a signature that ends in a newline passes the check, which trims it, and is then spliced as it is:
  the opening brace lands on a line of its own, where Go inserts a semicolon before it.
\<close>

theorem signature_newline_kept:
  "validate_new_signature parse (sig @ [newline]) = validate_new_signature parse sig
   \<and> (am_sig m \<le> am_body m \<and> am_body m \<le> length data \<longrightarrow>
      splice_signature data m (sig @ [newline])
        = Inr (take (am_sig m) data @ sig @ [newline] @ drop (am_body m) data))"
  by (auto simp: validate_new_signature_def trim_right_def is_ws_def splice_signature_def replace_range_def
      ends_with_whitespace_def)

section \<open>An example\<close>

theorem edit_function_body_exact_witness:
  "let (res, s') = handle_edit_function_body demo_go_parser no_faults 7 1 flood_ws demo_body_call demo_go_session
   in \<exists>data updated. body_edit demo_go_parser ''f'' ''g()'' data updated
        \<and> se_fs s' [''w'', ''m.go''] = Some (NFile updated)"
proof -
  let ?h = "handle_edit_function_body demo_go_parser no_faults 7 1 flood_ws demo_body_call demo_go_session"
  have p: "parse_edit_body_args demo_body_call = Inr (''m.go'', ''f'', ''g()'')" by code_simp
  have n: "se_fs demo_go_session [''w'', ''m.go''] \<noteq> None" by code_simp
  have "se_fs (snd ?h) [''w'', ''m.go''] \<noteq> se_fs demo_go_session [''w'', ''m.go'']" by code_simp
  from edit_function_body_exact [OF demo_go_session_ok demo_parser_ok p surjective_pairing, THEN conjunct2, THEN conjunct1,
      rule_format, OF conjI [OF n this]]
  show ?thesis unfolding Let_def split_beta by blast
qed

definition demo_sig_call :: args where
  "demo_sig_call = [(''file_path'', JStr ''m.go''), (''function_name'', JStr ''f''), (''new_signature'', JStr ''func h()'')]"

theorem change_function_signature_exact_witness:
  "let (res, s') = handle_change_function_signature demo_go_parser no_faults 7 1 flood_ws demo_sig_call demo_go_session
   in \<exists>data updated. signature_change demo_go_parser ''f'' ''func h()'' data updated
        \<and> se_fs s' [''w'', ''m.go''] = Some (NFile updated)"
proof -
  let ?h = "handle_change_function_signature demo_go_parser no_faults 7 1 flood_ws demo_sig_call demo_go_session"
  have p: "parse_change_sig_args demo_sig_call = Inr (''m.go'', ''f'', ''func h()'')" by code_simp
  have n: "se_fs demo_go_session [''w'', ''m.go''] \<noteq> None" by code_simp
  have "se_fs (snd ?h) [''w'', ''m.go''] \<noteq> se_fs demo_go_session [''w'', ''m.go'']" by code_simp
  from change_function_signature_exact [OF demo_go_session_ok demo_parser_ok p surjective_pairing, THEN conjunct2, THEN conjunct1,
      rule_format, OF conjI [OF n this]]
  show ?thesis unfolding Let_def split_beta by blast
qed

theorem bodyless_declaration_mishandled_witness:
  "edit_body_plan (\<lambda>src. Inr (if src = ''package m'' then [FuncNode \<lparr>fd_name = ''f'', fd_recv = None, fd_pos = 3, fd_line = 1, fd_body = None\<rparr>] else []))
     ''m.go'' ''f'' ''g()'' ''package m''
     [FuncNode \<lparr>fd_name = ''f'', fd_recv = None, fd_pos = 3, fd_line = 1, fd_body = None\<rparr>] = Panics"
proof -
  let ?d = "\<lparr>fd_name = ''f'', fd_recv = None, fd_pos = 3, fd_line = 1, fd_body = None\<rparr>"
  let ?parse = "\<lambda>src. Inr (if src = ''package m'' then [FuncNode ?d] else []) :: string + ast_decl list"
  have ok: "parser_ok ?parse"
    by (auto simp: parser_ok_def func_decls_def split: if_splits)
  have p: "?parse ''package m'' = Inr [FuncNode ?d]" "fd_body ?d = None" by simp_all
  have "filter (is_named ''f'') (func_decls [FuncNode ?d]) = [?d]" by code_simp
  with bodyless_declaration_mishandled [OF ok p] show ?thesis by blast
qed

end
