(* ===== verification/Snapshots.thy ===== *)
theory Snapshots
  imports WriteTool
begin

text \<open>
  The snapshot tools (\<open>internal/tools/snapshot.go\<close>).  The program \<open>git\<close> is an argument: given the
  extra environment and the arguments it returns an error or none, its combined output, and the file
  system it leaves, in which it keeps its own state.  The listing of a directory is an argument too;
  the error of a call is the text \<open>fmt.Errorf\<close> builds.
\<close>

section \<open>Running git\<close>

type_synonym git = "string list \<Rightarrow> string list \<Rightarrow> fs \<Rightarrow> (string option \<times> string) \<times> fs"
type_synonym lister = "fs \<Rightarrow> phys \<Rightarrow> string list"

definition run_git :: "git \<Rightarrow> string list \<Rightarrow> string list \<Rightarrow> fs \<Rightarrow> (string + string) \<times> fs" where
  "run_git git env argv f =
     (case git env argv f of
        ((None, out), f') \<Rightarrow> (Inr out, f')
      | ((Some e, out), f') \<Rightarrow> (Inl (''git '' @ join '' '' argv @ '': '' @ e @ '': '' @ trim_space out), f'))"

definition snapshot_ref_prefix :: string where "snapshot_ref_prefix = ''refs/sandbox/snapshots/''"

definition snapshot_ref :: "string \<Rightarrow> string" where "snapshot_ref name = snapshot_ref_prefix @ name"

text \<open>\<open>snapshotNamePattern\<close>, whose anchors make it a condition on every character.\<close>

definition name_start :: "char \<Rightarrow> bool" where
  "name_start c \<longleftrightarrow> between (CHR ''A'') (CHR ''Z'') c \<or> between (CHR ''a'') (CHR ''z'') c \<or> is_digit c \<or> c = CHR ''_''"

definition name_char :: "char \<Rightarrow> bool" where
  "name_char c \<longleftrightarrow> name_start c \<or> c = CHR ''.'' \<or> c = CHR ''-''"

definition snapshot_name_pattern :: "string \<Rightarrow> bool" where
  "snapshot_name_pattern s \<longleftrightarrow> (case s of [] \<Rightarrow> False | c # cs \<Rightarrow> name_start c \<and> list_all name_char cs)"

definition parse_snapshot_name :: "args \<Rightarrow> string + string" where
  "parse_snapshot_name a =
     (let name = arg_str0 a ''name''
      in if name = [] then Inl ''name is required''
         else if \<not> snapshot_name_pattern name
         then Inl (''invalid snapshot name '' @ quote name @ '': must match [A-Za-z0-9_-][A-Za-z0-9_.-]*'')
         else Inr name)"

definition git_repo_exists :: "string \<Rightarrow> fs \<Rightarrow> bool" where
  "git_repo_exists wroot f = (case k_stat f (fp_join wroot ''.git'') of Inl _ \<Rightarrow> False | Inr _ \<Rightarrow> True)"

definition ensure_git_repo :: "git \<Rightarrow> string \<Rightarrow> fs \<Rightarrow> string option \<times> fs" where
  "ensure_git_repo git wroot f =
     (if git_repo_exists wroot f then (None, f)
      else case run_git git [] [''init'', ''-b'', ''main''] f of
             (Inl e, f') \<Rightarrow> (Some (''git init: '' @ e), f')
           | (Inr _, f') \<Rightarrow> (None, f'))"

definition snapshot_exists :: "git \<Rightarrow> string \<Rightarrow> fs \<Rightarrow> bool \<times> fs" where
  "snapshot_exists git name f =
     (case run_git git [] [''rev-parse'', ''--verify'', ''--quiet'', snapshot_ref name @ ''^{commit}''] f of
        (Inl _, f') \<Rightarrow> (False, f')
      | (Inr _, f') \<Rightarrow> (True, f'))"

definition temp_index_path :: "nat \<Rightarrow> nat \<Rightarrow> string \<Rightarrow> string" where
  "temp_index_path pid nano wroot =
     fp_join (fp_join wroot ''.git'') (''sandbox-index.'' @ dec_nat pid @ ''.'' @ dec_nat nano)"

definition index_env :: "string \<Rightarrow> string list" where "index_env idx = [''GIT_INDEX_FILE='' @ idx]"

section \<open>snapshot_create\<close>

definition commit_env :: "string list" where
  "commit_env = [''GIT_COMMITTER_NAME=codegen-sandbox'', ''GIT_COMMITTER_EMAIL=sandbox@codegen.local'',
     ''GIT_AUTHOR_NAME=codegen-sandbox'', ''GIT_AUTHOR_EMAIL=sandbox@codegen.local'']"

text \<open>Without the deferred removal of the temporary index.\<close>

definition create_steps :: "git \<Rightarrow> string list \<Rightarrow> string \<Rightarrow> string \<Rightarrow> fs \<Rightarrow> (string + string) \<times> fs" where
  "create_steps git env name desc f =
     (case run_git git env [''add'', ''--all''] f of
        (Inl e, f1) \<Rightarrow> (Inl (''snapshot add: '' @ e), f1)
      | (Inr _, f1) \<Rightarrow>
          (case run_git git env [''write-tree''] f1 of
             (Inl e, f2) \<Rightarrow> (Inl (''write-tree: '' @ e), f2)
           | (Inr tree_out, f2) \<Rightarrow>
               (case run_git git (commit_env @ env) [''commit-tree'', trim_space tree_out, ''-m'', desc] f2 of
                  (Inl e, f3) \<Rightarrow> (Inl (''commit-tree: '' @ e), f3)
                | (Inr sha_out, f3) \<Rightarrow>
                    (case run_git git [] [''update-ref'', snapshot_ref name, trim_space sha_out] f3 of
                       (Inl e, f4) \<Rightarrow> (Inl (''update-ref: '' @ e), f4)
                     | (Inr _, f4) \<Rightarrow> (Inr (trim_space sha_out), f4)))))"

definition create_snapshot :: "git \<Rightarrow> string \<Rightarrow> string \<Rightarrow> string \<Rightarrow> fs \<Rightarrow> (string + string) \<times> fs" where
  "create_snapshot git idx name desc f =
     (case create_steps git (index_env idx) name desc f of (r, f') \<Rightarrow> (r, k_unlink f' idx))"

definition handle_snapshot_create :: "git \<Rightarrow> nat \<Rightarrow> nat \<Rightarrow> workspace \<Rightarrow> args \<Rightarrow> fs \<Rightarrow> tool_result \<times> fs" where
  "handle_snapshot_create git pid nano w a f =
     (case parse_snapshot_name a of
        Inl e \<Rightarrow> (ErrorResult e, f)
      | Inr name \<Rightarrow>
          let d = arg_str0 a ''description''; desc = (if d = [] then ''snapshot: '' @ name else d)
          in case ensure_git_repo git (ws_root w) f of
               (Some e, f1) \<Rightarrow> (ErrorResult e, f1)
             | (None, f1) \<Rightarrow>
                 (case create_snapshot git (temp_index_path pid nano (ws_root w)) name desc f1 of
                    (Inl e, f2) \<Rightarrow> (ErrorResult e, f2)
                  | (Inr sha, f2) \<Rightarrow> (TextResult (''snapshot '' @ name @ '' created: '' @ sha), f2)))"

section \<open>snapshot_list\<close>

record snapshot_entry =
  sn_name :: string
  sn_sha :: string
  sn_time :: string
  sn_desc :: string

text \<open>\<open>strings.SplitN(s, c, n)\<close> for positive \<open>n\<close>.\<close>

fun split_n :: "char \<Rightarrow> nat \<Rightarrow> string \<Rightarrow> string list" where
  "split_n c 0 s = []"
| "split_n c (Suc 0) s = [s]"
| "split_n c (Suc (Suc n)) s =
     (case split_first c s of (a, None) \<Rightarrow> [a] | (a, Some r) \<Rightarrow> a # split_n c (Suc n) r)"

definition tab :: char where "tab = CHR 0x09"

definition ref_name :: "string \<Rightarrow> string" where
  "ref_name s = (if has_prefix s snapshot_ref_prefix then drop (length snapshot_ref_prefix) s else s)"

definition parse_ref_line :: "string \<Rightarrow> snapshot_entry list" where
  "parse_ref_line line =
     (case split_n tab 4 line of
        r # sha # ts # rest \<Rightarrow>
          [\<lparr>sn_name = ref_name r, sn_sha = sha, sn_time = ts, sn_desc = (case rest of [] \<Rightarrow> [] | d # _ \<Rightarrow> d)\<rparr>]
      | _ \<Rightarrow> [])"

definition parse_snapshot_refs :: "string \<Rightarrow> snapshot_entry list" where
  "parse_snapshot_refs s =
     concat (map (\<lambda>line. if line = [] then [] else parse_ref_line line) (split_on newline (trim_nl s)))"

text \<open>\<open>sort.Slice\<close> with the newest first; entries of one time stay in the order of git here.\<close>

fun insert_newest :: "snapshot_entry \<Rightarrow> snapshot_entry list \<Rightarrow> snapshot_entry list" where
  "insert_newest e [] = [e]"
| "insert_newest e (x # xs) = (if sn_time e \<ge> sn_time x then e # x # xs else x # insert_newest e xs)"

definition sort_newest :: "snapshot_entry list \<Rightarrow> snapshot_entry list" where
  "sort_newest es = foldr insert_newest es []"

definition ref_format :: string where
  "ref_format = ''--format=%(refname)%09%(objectname)%09%(committerdate:iso-strict)%09%(subject)''"

definition list_snapshots :: "git \<Rightarrow> fs \<Rightarrow> (string + snapshot_entry list) \<times> fs" where
  "list_snapshots git f =
     (case run_git git [] [''for-each-ref'', ref_format, snapshot_ref_prefix] f of
        (Inl e, f') \<Rightarrow> (Inl e, f')
      | (Inr out, f') \<Rightarrow> (Inr (sort_newest (parse_snapshot_refs out)), f'))"

definition format_snapshot_list :: "snapshot_entry list \<Rightarrow> string" where
  "format_snapshot_list es =
     trim_nl (concat (map (\<lambda>e. sn_name e @ [tab] @ take 12 (sn_sha e) @ [tab] @ sn_time e @ [tab] @ sn_desc e @ [newline]) es))"

definition handle_snapshot_list :: "git \<Rightarrow> workspace \<Rightarrow> fs \<Rightarrow> tool_result \<times> fs" where
  "handle_snapshot_list git w f =
     (if \<not> git_repo_exists (ws_root w) f then (TextResult ''no snapshots'', f)
      else case list_snapshots git f of
             (Inl e, f') \<Rightarrow> (ErrorResult (''snapshot_list: '' @ e), f')
           | (Inr es, f') \<Rightarrow> (TextResult (if es = [] then ''no snapshots'' else format_snapshot_list es), f'))"

section \<open>snapshot_restore\<close>

definition split_non_empty_lines :: "string \<Rightarrow> string list" where
  "split_non_empty_lines s = (let t = trim_nl s in if t = [] then [] else split_on newline t)"

text \<open>An error of \<open>ls-files\<close> counts as no files.\<close>

definition list_worktree_paths :: "git \<Rightarrow> fs \<Rightarrow> string list \<times> fs" where
  "list_worktree_paths git f =
     (case run_git git [] [''ls-files'', ''--cached'', ''--others'', ''--exclude-standard''] f of
        (Inl _, f') \<Rightarrow> ([], f')
      | (Inr out, f') \<Rightarrow> (split_non_empty_lines out, f'))"

definition snapshot_path_set :: "git \<Rightarrow> string list \<Rightarrow> fs \<Rightarrow> (string + string list) \<times> fs" where
  "snapshot_path_set git env f =
     (case run_git git env [''ls-files''] f of
        (Inl e, f') \<Rightarrow> (Inl e, f')
      | (Inr out, f') \<Rightarrow> (Inr (split_non_empty_lines out), f'))"

text \<open>\<open>os.Remove\<close>: a file, a link or an empty directory.\<close>

definition os_remove :: "lister \<Rightarrow> fs \<Rightarrow> string \<Rightarrow> errno + fs" where
  "os_remove ls f p =
     (case k_entry f p of
        Inl e \<Rightarrow> Inl e
      | Inr q \<Rightarrow>
          (case f q of
             None \<Rightarrow> Inl ENOENT
           | Some NDir \<Rightarrow> if ls f q = [] then Inr (f(q := None)) else Inl ENOTEMPTY
           | Some _ \<Rightarrow> Inr (f(q := None))))"

text \<open>The first argument bounds the climb by the length of the path.\<close>

fun prune_empty_dirs :: "nat \<Rightarrow> lister \<Rightarrow> string \<Rightarrow> string \<Rightarrow> fs \<Rightarrow> fs" where
  "prune_empty_dirs 0 ls wroot d f = f"
| "prune_empty_dirs (Suc n) ls wroot d f =
     (if d \<noteq> wroot \<and> has_prefix d wroot then
        case os_remove ls f d of Inl _ \<Rightarrow> f | Inr f' \<Rightarrow> prune_empty_dirs n ls wroot (fp_dir d) f'
      else f)"

fun remove_extras_not_in_snapshot :: "lister \<Rightarrow> string \<Rightarrow> string list \<Rightarrow> string list \<Rightarrow> fs \<Rightarrow> string option \<times> fs" where
  "remove_extras_not_in_snapshot ls wroot [] snap f = (None, f)"
| "remove_extras_not_in_snapshot ls wroot (p # ps) snap f =
     (if p \<in> set snap then remove_extras_not_in_snapshot ls wroot ps snap f
      else
        let r = fp_join wroot p; d = fp_dir r
        in case os_remove ls f r of
             Inl e \<Rightarrow>
               if e = ENOENT then remove_extras_not_in_snapshot ls wroot ps snap (prune_empty_dirs (length d) ls wroot d f)
               else (Some (path_error ''remove'' r e), f)
           | Inr f1 \<Rightarrow> remove_extras_not_in_snapshot ls wroot ps snap (prune_empty_dirs (length d) ls wroot d f1))"

text \<open>The bits of \<open>seen\<close> become two tests; \<open>sort.Strings\<close> orders the keys of the map.\<close>

definition diff_path_sets :: "string list \<Rightarrow> string list \<Rightarrow> string list" where
  "diff_path_sets before after =
     sort (filter (\<lambda>p. \<not> (p \<in> set before \<and> p \<in> set after)) (remdups (before @ after)))"

definition format_restore_result :: "string \<Rightarrow> string list \<Rightarrow> string" where
  "format_restore_result name changed =
     (if changed = [] then ''restored snapshot '' @ name @ '' (no files changed)''
      else trim_nl (''restored snapshot '' @ name @ '' ('' @ dec_nat (length changed) @ '' file(s) changed):'' @ [newline]
             @ concat (map (\<lambda>p. p @ [newline]) changed)))"

definition restore_steps :: "git \<Rightarrow> lister \<Rightarrow> string list \<Rightarrow> string \<Rightarrow> string \<Rightarrow> string list \<Rightarrow> fs
    \<Rightarrow> (string + string list) \<times> fs" where
  "restore_steps git ls env wroot name before f =
     (case run_git git env [''read-tree'', snapshot_ref name] f of
        (Inl e, f1) \<Rightarrow> (Inl (''read-tree: '' @ e), f1)
      | (Inr _, f1) \<Rightarrow>
          (case run_git git env [''checkout-index'', ''-a'', ''-f''] f1 of
             (Inl e, f2) \<Rightarrow> (Inl (''checkout-index: '' @ e), f2)
           | (Inr _, f2) \<Rightarrow>
               (case snapshot_path_set git env f2 of
                  (Inl e, f3) \<Rightarrow> (Inl (''snapshot paths: '' @ e), f3)
                | (Inr snap, f3) \<Rightarrow>
                    (case remove_extras_not_in_snapshot ls wroot before snap f3 of
                       (Some e, f4) \<Rightarrow> (Inl (''cleanup: '' @ e), f4)
                     | (None, f4) \<Rightarrow>
                         (case list_worktree_paths git f4 of (after, f5) \<Rightarrow> (Inr (diff_path_sets before after), f5))))))"

definition restore_snapshot :: "git \<Rightarrow> lister \<Rightarrow> string \<Rightarrow> string \<Rightarrow> string \<Rightarrow> fs \<Rightarrow> (string + string list) \<times> fs" where
  "restore_snapshot git ls idx wroot name f =
     (case list_worktree_paths git f of
        (before, f0) \<Rightarrow>
          (case restore_steps git ls (index_env idx) wroot name before f0 of (r, f') \<Rightarrow> (r, k_unlink f' idx)))"

definition snapshot_not_found :: "string \<Rightarrow> tool_result" where
  "snapshot_not_found name = ErrorResult (''snapshot '' @ quote name @ '' not found'')"

definition handle_snapshot_restore :: "git \<Rightarrow> lister \<Rightarrow> nat \<Rightarrow> nat \<Rightarrow> workspace \<Rightarrow> args \<Rightarrow> fs \<Rightarrow> tool_result \<times> fs" where
  "handle_snapshot_restore git ls pid nano w a f =
     (case parse_snapshot_name a of
        Inl e \<Rightarrow> (ErrorResult e, f)
      | Inr name \<Rightarrow>
          if \<not> git_repo_exists (ws_root w) f then (snapshot_not_found name, f)
          else
            (case snapshot_exists git name f of
               (False, f1) \<Rightarrow> (snapshot_not_found name, f1)
             | (True, f1) \<Rightarrow>
                 (case restore_snapshot git ls (temp_index_path pid nano (ws_root w)) (ws_root w) name f1 of
                    (Inl e, f2) \<Rightarrow> (ErrorResult e, f2)
                  | (Inr changed, f2) \<Rightarrow> (TextResult (format_restore_result name changed), f2))))"

section \<open>snapshot_diff\<close>

definition diff_steps :: "git \<Rightarrow> string list \<Rightarrow> string \<Rightarrow> fs \<Rightarrow> (string + string) \<times> fs" where
  "diff_steps git env name f =
     (case run_git git env [''add'', ''--all''] f of
        (Inl e, f1) \<Rightarrow> (Inl (''diff add: '' @ e), f1)
      | (Inr _, f1) \<Rightarrow>
          (case run_git git env [''write-tree''] f1 of
             (Inl e, f2) \<Rightarrow> (Inl (''diff write-tree: '' @ e), f2)
           | (Inr tree_out, f2) \<Rightarrow>
               (case run_git git env [''diff'', ''--no-color'', snapshot_ref name, trim_space tree_out] f2 of
                  (Inl e, f3) \<Rightarrow> (Inl (''diff: '' @ e), f3)
                | (Inr out, f3) \<Rightarrow> (Inr out, f3))))"

definition diff_snapshot :: "git \<Rightarrow> string \<Rightarrow> string \<Rightarrow> fs \<Rightarrow> (string + string) \<times> fs" where
  "diff_snapshot git idx name f =
     (case diff_steps git (index_env idx) name f of (r, f') \<Rightarrow> (r, k_unlink f' idx))"

definition handle_snapshot_diff :: "git \<Rightarrow> nat \<Rightarrow> nat \<Rightarrow> workspace \<Rightarrow> args \<Rightarrow> fs \<Rightarrow> tool_result \<times> fs" where
  "handle_snapshot_diff git pid nano w a f =
     (case parse_snapshot_name a of
        Inl e \<Rightarrow> (ErrorResult e, f)
      | Inr name \<Rightarrow>
          if \<not> git_repo_exists (ws_root w) f then (snapshot_not_found name, f)
          else
            (case snapshot_exists git name f of
               (False, f1) \<Rightarrow> (snapshot_not_found name, f1)
             | (True, f1) \<Rightarrow>
                 (case diff_snapshot git (temp_index_path pid nano (ws_root w)) name f1 of
                    (Inl e, f2) \<Rightarrow> (ErrorResult e, f2)
                  | (Inr out, f2) \<Rightarrow> (TextResult (if out = [] then ''no differences'' else out), f2))))"

section \<open>What the clean-up of a restore removes\<close>

text \<open>Nothing but directories, or nothing at all, above the path.\<close>

definition clear_path :: "fs \<Rightarrow> phys \<Rightarrow> bool" where
  "clear_path f q \<longleftrightarrow> list_all plain q \<and> (\<forall>p. strict_prefix p q \<longrightarrow> f p = None \<or> f p = Some NDir)"

definition sub_fs :: "fs \<Rightarrow> fs \<Rightarrow> bool" where
  "sub_fs g f \<longleftrightarrow> (\<forall>q. g q = f q \<or> g q = None)"

lemma clear_path_sub: "sub_fs g f \<Longrightarrow> clear_path f q \<Longrightarrow> clear_path g q"
  unfolding clear_path_def sub_fs_def by metis

lemma clear_path_prefix: "clear_path f q \<Longrightarrow> prefix p q \<Longrightarrow> clear_path f p"
  unfolding clear_path_def by (auto simp: list_all_iff dest: set_mono_prefix intro: prefix_order.less_le_trans)

lemma clear_path_physical:
  assumes "clear_path f q" "q \<noteq> []"
  shows "physical f (butlast q)"
  unfolding physical_def
proof (intro conjI allI impI)
  show "list_all plain (butlast q)" using assms(1) by (auto simp: clear_path_def list_all_iff dest: in_set_butlastD)
  fix p assume "prefix p (butlast q)"
  then have "strict_prefix p q"
    using assms(2) by (metis append_butlast_last_id prefix_snoc strict_prefix_def prefix_order.antisym prefixeq_butlast butlast_noteq)
  then show "\<not> is_link (f p)" using assms(1) by (auto simp: clear_path_def)
qed

lemma walk_clear_missing:
  assumes "fs_wf f" "f cur = Some NDir" "q \<noteq> []" "f (cur @ q) = None" "list_all plain q"
    and "\<forall>p. prefix p q \<longrightarrow> f (cur @ p) = None \<or> f (cur @ p) = Some NDir"
  shows "walk f n fl cur q = Inl ENOENT"
  using assms(2-)
proof (induction q arbitrary: cur)
  case (Cons c q)
  have c: "plain c" using Cons.prems by simp
  show ?case
  proof (cases "f (cur @ [c])")
    case None
    with Cons.prems(1) c show ?thesis by (simp add: walk_none)
  next
    case (Some nd)
    moreover have "f (cur @ [c]) = None \<or> f (cur @ [c]) = Some NDir" using Cons.prems(5) by (auto dest: spec [of _ "[c]"])
    ultimately have d: "f (cur @ [c]) = Some NDir" by simp
    have "\<forall>p. prefix p q \<longrightarrow> f ((cur @ [c]) @ p) = None \<or> f ((cur @ [c]) @ p) = Some NDir"
    proof (intro allI impI)
      fix p assume "prefix p q"
      then show "f ((cur @ [c]) @ p) = None \<or> f ((cur @ [c]) @ p) = Some NDir"
        using Cons.prems(5) by (auto dest: spec [of _ "c # p"])
    qed
    with Cons.IH [OF d] Cons.prems d c show ?thesis by (cases "q = []") (auto simp: walk_plain)
  qed
qed simp

lemma os_remove_clear:
  assumes "fs_wf f" "clear_path f q" "q \<noteq> []"
  shows "os_remove ls f (abs_path q) =
    (case f q of None \<Rightarrow> Inl ENOENT
     | Some NDir \<Rightarrow> if ls f q = [] then Inr (f(q := None)) else Inl ENOTEMPTY
     | Some _ \<Rightarrow> Inr (f(q := None)))"
proof -
  let ?b = "butlast q"
  have pl: "list_all plain q" using assms(2) by (simp add: clear_path_def)
  note ph = clear_path_physical [OF assms(2,3)]
  show ?thesis
  proof (cases "f ?b = Some NDir")
    case True
    with k_entry_physical [OF assms(1) ph True pl assms(3)] show ?thesis by (simp add: os_remove_def split: option.splits node.splits)
  next
    case False
    have sb: "strict_prefix ?b q" using assms(3) by (metis butlast_noteq prefixeq_butlast strict_prefix_def)
    then have n: "f ?b = None" using assms(2) False by (auto simp: clear_path_def)
    then have bn: "?b \<noteq> []" using assms(1) by auto
    have "walk f kernel_max_links True [] ?b = Inl ENOENT"
      using assms(1,2) n bn ph sb
      by (intro walk_clear_missing) (auto simp: clear_path_def physical_plain intro: prefix_order.le_less_trans)
    then have "k_entry f (abs_path q) = Inl ENOENT"
      using pl physical_plain [OF ph] walk_root [OF assms(1) physical_plain [OF ph]] by (simp add: k_entry_def k_lookup_def)
    moreover have "f q = None" using fs_wf_missing_below [OF assms(1) n, of "[last q]"] assms(3) by simp
    ultimately show ?thesis by (simp add: os_remove_def)
  qed
qed

lemma fs_wf_remove:
  assumes "fs_wf f" "q \<noteq> []" "\<forall>c. f (q @ [c]) = None"
  shows "fs_wf (f(q := None))"
  using assms by (auto simp: fs_wf_def)

text \<open>A listing that is empty only for empty directories, for the file system and all its parts.\<close>

definition lists_entries :: "lister \<Rightarrow> fs \<Rightarrow> bool" where
  "lists_entries ls f \<longleftrightarrow> (\<forall>g q. sub_fs g f \<and> ls g q = [] \<longrightarrow> (\<forall>c. g (q @ [c]) = None))"

text \<open>What pruning from a directory upwards to the root may do.\<close>

definition pruned :: "phys \<Rightarrow> phys \<Rightarrow> fs \<Rightarrow> fs \<Rightarrow> bool" where
  "pruned rt d g g' \<longleftrightarrow> fs_wf g' \<and>
     (\<forall>q. g' q = g q \<or> g q = Some NDir \<and> g' q = None \<and> prefix q d \<and> strict_prefix rt q)"

lemma sub_fs_trans: "sub_fs h g \<Longrightarrow> sub_fs g f \<Longrightarrow> sub_fs h f"
  unfolding sub_fs_def by metis

lemma has_prefix_abs: "prefix p q \<Longrightarrow> has_prefix (abs_path q) (abs_path p)"
proof -
  assume "prefix p q"
  then obtain r where "q = p @ r" by (auto simp: prefix_def)
  then show ?thesis by (cases "p = []"; cases "r = []") (auto simp: has_prefix_def abs_path_def join_append)
qed

lemma prune_empty_dirs_ok:
  assumes "fs_wf g" "sub_fs g f" "lists_entries ls f" "clear_path f d" "prefix rt d" "f d = None \<or> f d = Some NDir"
  shows "pruned rt d g (prune_empty_dirs n ls (abs_path rt) (abs_path d) g)"
  using assms(1,2,4-)
proof (induction n arbitrary: d g)
  case 0
  then show ?case by (simp add: pruned_def)
next
  case (Suc n)
  have pl: "list_all plain d" "list_all plain rt"
    using Suc.prems(3,4) by (auto simp: clear_path_def list_all_iff dest: set_mono_prefix)
  show ?case
  proof (cases "d = rt")
    case True
    then show ?thesis using Suc.prems(1) by (simp add: pruned_def)
  next
    case False
    then have sp: "strict_prefix rt d" using Suc.prems(4) by (simp add: strict_prefix_def)
    then have ne: "d \<noteq> []" by auto
    have guard: "abs_path d \<noteq> abs_path rt \<and> has_prefix (abs_path d) (abs_path rt)"
      using False pl abs_path_inj has_prefix_abs [OF Suc.prems(4)] by auto
    note rm = os_remove_clear [OF Suc.prems(1) clear_path_sub [OF Suc.prems(2,3)] ne, of ls]
    show ?thesis
    proof (cases "os_remove ls g (abs_path d)")
      case (Inl e)
      then show ?thesis using guard Suc.prems(1) by (simp add: pruned_def)
    next
      case (Inr g1)
      have "g d \<noteq> None" using Inr rm by (cases "g d") auto
      then have gd: "g d = Some NDir" using Suc.prems(2,5) by (metis sub_fs_def)
      then have g1: "g1 = g(d := None)" "ls g d = []" using Inr rm by (auto split: if_splits)
      then have noc: "\<forall>c. g (d @ [c]) = None" using assms(3) Suc.prems(2) by (auto simp: lists_entries_def)
      have w1: "fs_wf g1" using fs_wf_remove [OF Suc.prems(1) ne noc] g1 by simp
      have s1: "sub_fs g1 f" using Suc.prems(2) g1 by (auto simp: sub_fs_def)
      have b: "clear_path f (butlast d)" by (rule clear_path_prefix [OF Suc.prems(3) prefixeq_butlast])
      have pb: "prefix rt (butlast d)" using sp by (metis append_butlast_last_id ne prefix_snoc strict_prefix_def)
      have ih: "pruned rt (butlast d) g1 (prune_empty_dirs n ls (abs_path rt) (abs_path (butlast d)) g1)"
        using Suc.IH [OF w1 s1 b pb] Suc.prems(3) sp ne
        by (metis clear_path_def append_butlast_last_id prefixI strict_prefixI' butlast_noteq prefixeq_butlast strict_prefix_def)
      have eq: "prune_empty_dirs (Suc n) ls (abs_path rt) (abs_path d) g
          = prune_empty_dirs n ls (abs_path rt) (abs_path (butlast d)) g1"
        using guard Inr pl(1) by simp
      have up: "prefix q (butlast d) \<Longrightarrow> prefix q d" for q by (meson prefix_order.trans prefixeq_butlast)
      show ?thesis
        unfolding pruned_def eq
      proof (intro conjI allI)
        show "fs_wf (prune_empty_dirs n ls (abs_path rt) (abs_path (butlast d)) g1)" using ih by (simp add: pruned_def)
        fix q
        show "prune_empty_dirs n ls (abs_path rt) (abs_path (butlast d)) g1 q = g q \<or>
            g q = Some NDir \<and> prune_empty_dirs n ls (abs_path rt) (abs_path (butlast d)) g1 q = None \<and> prefix q d \<and> strict_prefix rt q"
          using ih gd g1(1) sp up unfolding pruned_def by (cases "q = d") (auto dest!: spec [of _ q])
      qed
    qed
  qed
qed

lemma fp_join_elems:
  assumes "list_all plain rt" "list_all plain cs" "cs \<noteq> []"
  shows "fp_join (abs_path rt) (join [slash] cs) = abs_path (rt @ cs)"
proof -
  have "split_on slash (join [slash] cs) = cs"
    using assms(2,3) by (intro split_on_join) (auto simp: list_all_iff)
  with assms show ?thesis by (simp add: fp_join_abs clean_comps_plain_id)
qed

text \<open>A file system from which exactly the files \<open>E\<close> and directories that became empty are gone.\<close>

definition removed :: "phys \<Rightarrow> phys set \<Rightarrow> fs \<Rightarrow> fs \<Rightarrow> bool" where
  "removed rt E f g \<longleftrightarrow> fs_wf g \<and> (\<forall>q \<in> E. g q = None)
     \<and> (\<forall>q. q \<notin> E \<longrightarrow> g q = f q \<or> f q = Some NDir \<and> g q = None \<and> strict_prefix rt q \<and> (\<exists>e \<in> E. prefix q e))"

lemma removed_sub: "removed rt E f g \<Longrightarrow> sub_fs g f"
  unfolding removed_def sub_fs_def by metis

lemma removed_prune:
  assumes "removed rt E f g" "pruned rt d g g'" "e \<in> E" "prefix d e"
  shows "removed rt E f g'"
  unfolding removed_def
proof (intro conjI ballI allI impI)
  show "fs_wf g'" using assms(2) by (simp add: pruned_def)
  show "g' q = None" if "q \<in> E" for q
    using assms(1,2) that unfolding removed_def pruned_def by metis
  fix q assume q: "q \<notin> E"
  then have "g q = f q \<or> f q = Some NDir \<and> g q = None \<and> strict_prefix rt q \<and> (\<exists>e \<in> E. prefix q e)"
    using assms(1) by (simp add: removed_def)
  moreover have "g' q = g q \<or> g q = Some NDir \<and> g' q = None \<and> prefix q d \<and> strict_prefix rt q"
    using assms(2) by (simp add: pruned_def)
  ultimately show "g' q = f q \<or> f q = Some NDir \<and> g' q = None \<and> strict_prefix rt q \<and> (\<exists>e \<in> E. prefix q e)"
    using assms(3,4) prefix_order.trans by (metis option.distinct(1))
qed

definition listed_ok :: "fs \<Rightarrow> phys \<Rightarrow> string list \<Rightarrow> bool" where
  "listed_ok f rt cs \<longleftrightarrow> cs \<noteq> [] \<and> clear_path f (rt @ cs) \<and> f (rt @ cs) \<noteq> Some NDir"

lemma removed_insert:
  assumes "removed rt E f g" "f e \<noteq> Some NDir" "e \<noteq> []" "fs_wf f"
  shows "removed rt (insert e E) f (g(e := None))"
  unfolding removed_def
proof (intro conjI ballI allI impI)
  have "g e \<noteq> Some NDir" using assms(1,2) removed_sub unfolding sub_fs_def by (metis option.distinct(1))
  then have "\<forall>c. g (e @ [c]) = None" using assms(1) fs_wf_parent unfolding removed_def by blast
  then show "fs_wf (g(e := None))" using fs_wf_remove assms(1,3) by (simp add: removed_def)
  show "(g(e := None)) q = None" if "q \<in> insert e E" for q
    using that assms(1) by (auto simp: removed_def)
  fix q assume "q \<notin> insert e E"
  then show "(g(e := None)) q = f q \<or> f q = Some NDir \<and> (g(e := None)) q = None \<and> strict_prefix rt q \<and> (\<exists>e \<in> insert e E. prefix q e)"
    using assms(1) by (auto simp: removed_def)
qed

definition extras :: "phys \<Rightarrow> string list list \<Rightarrow> string list \<Rightarrow> phys set" where
  "extras rt css snap = {rt @ cs |cs. cs \<in> set css \<and> join [slash] cs \<notin> set snap}"

lemma remove_extras_ok:
  assumes "fs_wf f" "list_all plain rt" "lists_entries ls f" "\<forall>cs \<in> set css. listed_ok f rt cs" "removed rt E f g"
  shows "\<exists>g'. remove_extras_not_in_snapshot ls (abs_path rt) (map (join [slash]) css) snap g = (None, g')
    \<and> removed rt (E \<union> extras rt css snap) f g'"
  using assms(4,5)
proof (induction css arbitrary: E g)
  case Nil
  then show ?case by (simp add: extras_def)
next
  case (Cons cs css)
  have ok: "cs \<noteq> []" "clear_path f (rt @ cs)" "f (rt @ cs) \<noteq> Some NDir"
    using Cons.prems(1) by (auto simp: listed_ok_def)
  then have pl: "list_all plain cs" by (auto simp: clear_path_def)
  show ?case
  proof (cases "join [slash] cs \<in> set snap")
    case True
    then have "extras rt (cs # css) snap = extras rt css snap" by (auto simp: extras_def)
    then show ?thesis using Cons.IH [OF _ Cons.prems(2)] Cons.prems(1) True by simp
  next
    case False
    let ?e = "rt @ cs" and ?d = "rt @ butlast cs"
    have ex: "E \<union> extras rt (cs # css) snap = insert ?e E \<union> extras rt css snap"
      using False by (auto simp: extras_def)
    have path: "fp_join (abs_path rt) (join [slash] cs) = abs_path ?e" "fp_dir (abs_path ?e) = abs_path ?d"
      using fp_join_elems [OF assms(2) pl ok(1)] assms(2) pl ok(1) by (simp_all add: butlast_append)
    have de: "strict_prefix ?d ?e"
      using ok(1) by (cases cs rule: rev_cases) (auto simp: strict_prefix_def)
    have fd: "clear_path f ?d" "f ?d = None \<or> f ?d = Some NDir"
      using clear_path_prefix [OF ok(2)] ok(2) de unfolding clear_path_def strict_prefix_def by blast+
    have sg: "sub_fs g f" by (rule removed_sub [OF Cons.prems(2)])
    have wg: "fs_wf g" using Cons.prems(2) by (simp add: removed_def)
    have ne: "?e \<noteq> []" using ok(1) by simp
    note ins = removed_insert [OF Cons.prems(2) ok(3) ne assms(1)]
    have wi: "fs_wf (g(?e := None))" using ins by (simp add: removed_def)
    have gd: "g ?e \<noteq> Some NDir" using sg ok(3) unfolding sub_fs_def by (metis option.distinct(1))
    have same: "g(?e := None) = g" if "g ?e = None" using that by auto
    have rm: "os_remove ls g (abs_path ?e) = (if g ?e = None then Inl ENOENT else Inr (g(?e := None)))"
      using os_remove_clear [OF wg clear_path_sub [OF sg ok(2)] ne, of ls] gd by (simp split: option.splits node.splits)
    have step: "remove_extras_not_in_snapshot ls (abs_path rt) (map (join [slash]) (cs # css)) snap g
        = remove_extras_not_in_snapshot ls (abs_path rt) (map (join [slash]) css) snap
            (prune_empty_dirs (length (abs_path ?d)) ls (abs_path rt) (abs_path ?d) (g(?e := None)))"
    proof (cases "g ?e = None")
      case True
      with False path rm same show ?thesis by (simp add: Let_def)
    next
      case some: False
      with False path rm show ?thesis by (simp add: Let_def)
    qed
    have "pruned rt ?d (g(?e := None)) (prune_empty_dirs (length (abs_path ?d)) ls (abs_path rt) (abs_path ?d) (g(?e := None)))"
      by (rule prune_empty_dirs_ok [OF wi removed_sub [OF ins] assms(3) fd(1) _ fd(2)]) simp
    from removed_prune [OF ins this insertI1] de
    have r: "removed rt (insert ?e E) f (prune_empty_dirs (length (abs_path ?d)) ls (abs_path rt) (abs_path ?d) (g(?e := None)))"
      by (simp add: strict_prefix_def)
    show ?thesis unfolding step ex by (rule Cons.IH [OF _ r]) (use Cons.prems(1) in simp)
  qed
qed


section \<open>Names and lists\<close>

text \<open>
  C37: an accepted snapshot name is a single path element that no tool takes for an option: it starts with
  a letter, a digit or an underscore and has only these, dots and hyphens.
\<close>

theorem snapshot_name_safe:
  assumes "parse_snapshot_name a = Inr name"
  shows "arg_str a ''name'' = Some name \<and> name \<noteq> [] \<and> name_start (hd name) \<and> list_all name_char name
    \<and> plain name \<and> hd name \<noteq> CHR ''-''"
proof -
  have n: "name = arg_str0 a ''name''" "snapshot_name_pattern name"
    using assms by (auto simp: parse_snapshot_name_def Let_def split: if_splits)
  then obtain c cs where c: "name = c # cs" "name_start c" "list_all name_char cs"
    by (auto simp: snapshot_name_pattern_def split: list.splits)
  have special: "\<not> name_char slash" "\<not> name_start (CHR ''-'')" "\<not> name_start (CHR ''.'')" by code_simp+
  then have "slash \<notin> set name" using c by (auto simp: list_all_iff name_char_def)
  moreover have "name \<noteq> ''.'' \<and> name \<noteq> ''..''" using c special by auto
  moreover have "arg_str a ''name'' = Some name" using n(1) c(1) by (simp add: arg_str0_def split: option.splits)
  ultimately show ?thesis using c special by (auto simp: plain_def name_char_def)
qed

definition ref_line :: "snapshot_entry \<Rightarrow> string" where
  "ref_line e = snapshot_ref (sn_name e) @ [tab] @ sn_sha e @ [tab] @ sn_time e @ [tab] @ sn_desc e"

definition entry_ok :: "snapshot_entry \<Rightarrow> bool" where
  "entry_ok e \<longleftrightarrow> tab \<notin> set (sn_name e @ sn_sha e @ sn_time e)
     \<and> newline \<notin> set (sn_name e @ sn_sha e @ sn_time e @ sn_desc e)"

lemma prefix_no_tab: "tab \<notin> set snapshot_ref_prefix" "newline \<notin> set snapshot_ref_prefix"
  by code_simp+

lemma parse_ref_line_ok: "entry_ok e \<Longrightarrow> parse_ref_line (ref_line e) = [e]"
  using prefix_no_tab
  by (simp add: entry_ok_def parse_ref_line_def ref_line_def snapshot_ref_def eval_nat_numeral
      split_first_append [of tab "snapshot_ref_prefix @ sn_name e", simplified] split_first_append
      ref_name_def has_prefix_def)

lemma trim_nl_lines:
  assumes "ls \<noteq> []" "last ls \<noteq> []" "\<forall>l \<in> set ls. newline \<notin> set l"
  shows "split_on newline (trim_nl (concat (map (\<lambda>l. l @ [newline]) ls))) = ls"
proof -
  have c: "concat (map (\<lambda>l. l @ [newline]) ls) = join [newline] ls @ [newline]" if "ls \<noteq> []" for ls :: "string list"
    using that by (induction ls rule: list_nonempty_induct) (auto simp: join_Cons)
  obtain x where x: "last (join [newline] ls) = x" "x \<noteq> newline" "join [newline] ls \<noteq> []"
  proof -
    have "join [newline] ls \<noteq> [] \<and> last (join [newline] ls) = last (last ls)"
      using assms(1,2) by (induction ls rule: list_nonempty_induct) (auto simp: join_Cons)
    moreover have "last (last ls) \<noteq> newline" using assms by (metis last_in_set)
    ultimately show thesis using that by blast
  qed
  have "trim_nl (join [newline] ls @ [newline]) = join [newline] ls"
    using x by (cases "join [newline] ls" rule: rev_cases) (auto simp: trim_nl_def trim_right_def)
  with c [OF assms(1)] show ?thesis using assms(1,3) by (simp add: split_on_join)
qed

text \<open>
  listing reads back what git was told to print.  Whatever the snapshots are, the lines that the
  format of \<open>for-each-ref\<close> gives for them are parsed to exactly them; a tab in a description is kept.
\<close>

theorem snapshot_refs_roundtrip:
  assumes "\<forall>e \<in> set es. entry_ok e"
  shows "parse_snapshot_refs (concat (map (\<lambda>e. ref_line e @ [newline]) es)) = es"
proof (cases "es = []")
  case True
  then show ?thesis by (simp add: parse_snapshot_refs_def trim_nl_def trim_right_def)
next
  case False
  have ne: "ref_line e \<noteq> []" for e by (simp add: ref_line_def)
  have nl: "\<forall>l \<in> set (map ref_line es). newline \<notin> set l"
    using assms prefix_no_tab by (auto simp: ref_line_def entry_ok_def snapshot_ref_def tab_def)
  have "split_on newline (trim_nl (concat (map (\<lambda>l. l @ [newline]) (map ref_line es)))) = map ref_line es"
    using False ne nl by (intro trim_nl_lines) (auto simp: last_map)
  then have "parse_snapshot_refs (concat (map (\<lambda>e. ref_line e @ [newline]) es))
      = concat (map (\<lambda>line. if line = [] then [] else parse_ref_line line) (map ref_line es))"
    by (simp add: parse_snapshot_refs_def comp_def)
  also have "\<dots> = concat (map (\<lambda>e. [e]) es)"
    using assms ne parse_ref_line_ok by (intro arg_cong [of _ _ concat]) auto
  finally show ?thesis by simp
qed

theorem snapshot_refs_roundtrip_witness:
  "parse_snapshot_refs (concat (map (\<lambda>e. ref_line e @ [newline])
     [\<lparr>sn_name = ''v1'', sn_sha = ''ab'', sn_time = ''2024'', sn_desc = ''a b''\<rparr>]))
   = [\<lparr>sn_name = ''v1'', sn_sha = ''ab'', sn_time = ''2024'', sn_desc = ''a b''\<rparr>]"
  by (rule snapshot_refs_roundtrip) (simp add: entry_ok_def tab_def)

text \<open>
  the report of a restore lists exactly the paths that appeared or disappeared, sorted.  A file whose
  content was replaced is not among them, so a restore that rewrites files reports no change as long as
  the set of paths is the same.
\<close>

theorem restore_report_exact:
  "sorted (diff_path_sets before after) \<and> distinct (diff_path_sets before after)
   \<and> set (diff_path_sets before after) = (set before - set after) \<union> (set after - set before)
   \<and> (diff_path_sets before after = [] \<longleftrightarrow> set before = set after)"
proof -
  have s: "set (diff_path_sets before after) = (set before - set after) \<union> (set after - set before)"
    by (auto simp: diff_path_sets_def)
  moreover have "diff_path_sets before after = [] \<longleftrightarrow> set (diff_path_sets before after) = {}" by simp
  ultimately have "diff_path_sets before after = [] \<longleftrightarrow> set before = set after" by auto
  with s show ?thesis by (simp add: diff_path_sets_def)
qed

section \<open>The user's index\<close>

text \<open>A call of git that works on the temporary index or on none, or that writes a snapshot reference.\<close>

definition quiet_call :: "string \<Rightarrow> string list \<Rightarrow> string list \<Rightarrow> bool" where
  "quiet_call idx env argv \<longleftrightarrow> env = index_env idx \<or> env = commit_env @ index_env idx
     \<or> env = [] \<and> (argv = [''init'', ''-b'', ''main''] \<or> take 1 argv = [''rev-parse''] \<or> take 1 argv = [''for-each-ref'']
         \<or> take 1 argv = [''update-ref''] \<and> length argv = 3 \<and> has_prefix (argv ! 1) snapshot_ref_prefix)"

definition keeps :: "(fs \<Rightarrow> bool) \<Rightarrow> git \<Rightarrow> string \<Rightarrow> bool" where
  "keeps J git idx \<longleftrightarrow> (\<forall>env argv f. quiet_call idx env argv \<and> J f \<longrightarrow> J (snd (git env argv f)))
     \<and> (\<forall>f. J f \<longrightarrow> J (k_unlink f idx))"

lemma run_git_keeps: "run_git git env argv f = (r, f') \<Longrightarrow> keeps J git idx \<Longrightarrow> J f \<Longrightarrow> quiet_call idx env argv \<Longrightarrow> J f'"
  unfolding keeps_def run_git_def by (auto split: prod.splits option.splits) (metis snd_conv)+

lemma quiet_calls:
  "quiet_call idx (index_env idx) argv" "quiet_call idx (commit_env @ index_env idx) argv"
  "quiet_call idx [] [''init'', ''-b'', ''main'']" "quiet_call idx [] (''rev-parse'' # xs)" "quiet_call idx [] (''for-each-ref'' # xs)"
  "quiet_call idx [] [''update-ref'', snapshot_ref name, sha]"
  by (simp_all add: quiet_call_def snapshot_ref_def has_prefix_def)

lemmas git_keeps = quiet_calls [THEN run_git_keeps [rotated 3]]

lemma ensure_git_repo_keeps:
  assumes "ensure_git_repo git wroot f = (r, f')" "keeps J git idx" "J f"
  shows "J f'"
proof -
  obtain x g where 1: "run_git git [] [''init'', ''-b'', ''main''] f = (x, g)" by fastforce
  show ?thesis using assms(1,3) git_keeps(3) [OF 1 assms(2,3)] 1
    by (cases x) (simp_all add: ensure_git_repo_def split: if_splits)
qed

lemma snapshot_exists_keeps:
  assumes "snapshot_exists git name f = (r, f')" "keeps J git idx" "J f"
  shows "J f'"
proof -
  obtain x g where 1: "run_git git [] [''rev-parse'', ''--verify'', ''--quiet'', snapshot_ref name @ ''^{commit}''] f = (x, g)" by fastforce
  show ?thesis using assms(1) git_keeps(4) [OF 1 assms(2,3)] 1 by (cases x) (simp_all add: snapshot_exists_def)
qed

lemma create_steps_keeps:
  assumes "create_steps git (index_env idx) name desc f = (r, f')" "keeps J git idx" "J f"
  shows "J f'"
proof -
  obtain r1 f1 where 1: "run_git git (index_env idx) [''add'', ''--all''] f = (r1, f1)" by fastforce
  note j1 = git_keeps(1) [OF 1 assms(2,3)]
  obtain r2 f2 where 2: "run_git git (index_env idx) [''write-tree''] f1 = (r2, f2)" by fastforce
  note j2 = git_keeps(1) [OF 2 assms(2) j1]
  obtain r3 f3 where 3: "run_git git (commit_env @ index_env idx) [''commit-tree'', trim_space (projr r2), ''-m'', desc] f2 = (r3, f3)"
    by fastforce
  note j3 = git_keeps(2) [OF 3 assms(2) j2]
  obtain r4 f4 where 4: "run_git git [] [''update-ref'', snapshot_ref name, trim_space (projr r3)] f3 = (r4, f4)" by fastforce
  note j4 = git_keeps(6) [OF 4 assms(2) j3]
  show ?thesis using assms(1) 1 2 3 4 j1 j2 j3 j4
    by (cases r1; cases r2; cases r3; cases r4) (simp_all add: create_steps_def)
qed

lemma diff_steps_keeps:
  assumes "diff_steps git (index_env idx) name f = (r, f')" "keeps J git idx" "J f"
  shows "J f'"
proof -
  obtain r1 f1 where 1: "run_git git (index_env idx) [''add'', ''--all''] f = (r1, f1)" by fastforce
  note j1 = git_keeps(1) [OF 1 assms(2,3)]
  obtain r2 f2 where 2: "run_git git (index_env idx) [''write-tree''] f1 = (r2, f2)" by fastforce
  note j2 = git_keeps(1) [OF 2 assms(2) j1]
  obtain r3 f3 where 3: "run_git git (index_env idx) [''diff'', ''--no-color'', snapshot_ref name, trim_space (projr r2)] f2 = (r3, f3)"
    by fastforce
  note j3 = git_keeps(1) [OF 3 assms(2) j2]
  show ?thesis using assms(1) 1 2 3 j1 j2 j3
    by (cases r1; cases r2; cases r3) (simp_all add: diff_steps_def)
qed

text \<open>
  creating, listing and comparing snapshots leave alone whatever git leaves alone.  All that these
  tools run are commands on their own temporary index, the initialisation of a missing repository, two
  queries and the update of a reference under \<open>refs/sandbox/snapshots/\<close>; so a property of the files that
  those calls and the removal of the temporary index keep, such as the content of the user's index, of
  \<open>HEAD\<close> or of the worktree, holds after every call of these tools, failed ones included.
\<close>

theorem snapshots_leave_index:
  assumes "keeps J git (temp_index_path pid nano (ws_root w))" "J f"
  shows "J (snd (handle_snapshot_create git pid nano w a f))
    \<and> J (snd (handle_snapshot_diff git pid nano w a f)) \<and> J (snd (handle_snapshot_list git w f))"
proof (intro conjI)
  let ?idx = "temp_index_path pid nano (ws_root w)"
  have unlink: "J g \<Longrightarrow> J (k_unlink g ?idx)" for g using assms(1) by (simp add: keeps_def)
  have create: "J g \<Longrightarrow> J (snd (create_snapshot git ?idx name desc g))" for name desc g
    using create_steps_keeps [OF surjective_pairing assms(1)] unlink by (auto simp: create_snapshot_def split_beta)
  have diff: "J g \<Longrightarrow> J (snd (diff_snapshot git ?idx name g))" for name g
    using diff_steps_keeps [OF surjective_pairing assms(1)] unlink by (auto simp: diff_snapshot_def split_beta)
  have ens: "J (snd (ensure_git_repo git (ws_root w) f))"
    by (rule ensure_git_repo_keeps [OF surjective_pairing assms])
  show "J (snd (handle_snapshot_create git pid nano w a f))"
  proof (cases "parse_snapshot_name a")
    case (Inr name)
    obtain e f1 where e: "ensure_git_repo git (ws_root w) f = (e, f1)" by fastforce
    then have "J f1" using ens by simp
    note c = create [OF this, of name]
    show ?thesis
    proof (cases e)
      case None
      obtain x f2 where "create_snapshot git ?idx name
          (if arg_str0 a ''description'' = [] then ''snapshot: '' @ name else arg_str0 a ''description'') f1 = (x, f2)" by fastforce
      with c [of "if arg_str0 a ''description'' = [] then ''snapshot: '' @ name else arg_str0 a ''description''"] Inr e None
      show ?thesis by (cases x) (simp_all add: handle_snapshot_create_def Let_def)
    qed (use \<open>J f1\<close> Inr e in \<open>simp add: handle_snapshot_create_def Let_def\<close>)
  qed (use assms(2) in \<open>simp add: handle_snapshot_create_def\<close>)
  show "J (snd (handle_snapshot_diff git pid nano w a f))"
  proof (cases "parse_snapshot_name a")
    case (Inr name)
    obtain b f1 where b: "snapshot_exists git name f = (b, f1)" by fastforce
    then have "J f1" by (rule snapshot_exists_keeps [OF _ assms])
    note c = diff [OF this, of name]
    obtain x f2 where "diff_snapshot git ?idx name f1 = (x, f2)" by fastforce
    with c Inr b \<open>J f1\<close> assms(2) show ?thesis
      by (cases x; cases b) (simp_all add: handle_snapshot_diff_def)
  qed (use assms(2) in \<open>simp add: handle_snapshot_diff_def\<close>)
  obtain x f1 where x: "run_git git [] [''for-each-ref'', ref_format, snapshot_ref_prefix] f = (x, f1)" by fastforce
  have "J f1" by (rule git_keeps(5) [OF x assms])
  with x assms(2) show "J (snd (handle_snapshot_list git w f))"
    by (cases x) (simp_all add: handle_snapshot_list_def list_snapshots_def)
qed

definition demo_git :: git where
  "demo_git env argv f =
     ((None, ''ab12''),
      if env = [] \<and> take 1 argv = [''add''] then f([''w'', ''.git'', ''index''] \<mapsto> NFile ''staged'') else f)"

definition user_index :: "fs \<Rightarrow> bool" where
  "user_index f \<longleftrightarrow> f [''w'', ''.git'', ''index''] = Some (NFile ''mine'')"

definition demo_repo :: fs where
  "demo_repo = map_of [([], NDir), ([''w''], NDir), ([''w'', ''.git''], NDir), ([''w'', ''.git'', ''index''], NFile ''mine'')]"

lemma demo_git_keeps: "keeps user_index demo_git (temp_index_path 7 1 ''/w'')"
  unfolding keeps_def
proof (intro conjI allI impI)
  fix env argv f assume "quiet_call (temp_index_path 7 1 ''/w'') env argv \<and> user_index f"
  then show "user_index (snd (demo_git env argv f))"
    by (auto simp: demo_git_def user_index_def quiet_call_def index_env_def)
next
  fix f assume f: "user_index f"
  have "fp_base (temp_index_path 7 1 ''/w'') \<noteq> ''index''" by code_simp
  then have "k_entry f (temp_index_path 7 1 ''/w'') = Inr q \<Longrightarrow> q \<noteq> [''w'', ''.git'', ''index'']" for q
    by (auto simp: k_entry_def split: sum.splits if_splits)
  with f show "user_index (k_unlink f (temp_index_path 7 1 ''/w''))"
    by (auto simp: user_index_def k_unlink_def split: sum.splits option.splits node.splits)
qed

theorem snapshots_leave_index_witness:
  "user_index (snd (handle_snapshot_create demo_git 7 1 \<lparr>ws_root = ''/w'', ws_name = ''w''\<rparr> [(''name'', JStr ''v1'')] demo_repo))"
proof -
  let ?w = "\<lparr>ws_root = ''/w'', ws_name = ''w''\<rparr>"
  have "keeps user_index demo_git (temp_index_path 7 1 (ws_root ?w))" using demo_git_keeps by simp
  moreover have "user_index demo_repo" by code_simp
  ultimately show ?thesis by (rule snapshots_leave_index [THEN conjunct1])
qed

theorem snapshot_name_safe_witness: "plain ''v1.0''"
proof -
  have "parse_snapshot_name [(''name'', JStr ''v1.0'')] = Inr ''v1.0''" by code_simp
  from snapshot_name_safe [OF this] show ?thesis by blast
qed

definition demo_tree :: fs where
  "demo_tree = map_of [([], NDir), ([''w''], NDir), ([''w'', ''a''], NDir), ([''w'', ''a'', ''x''], NFile ''1''), ([''w'', ''y''], NFile ''2'')]"

definition demo_ls :: lister where
  "demo_ls g q = filter (\<lambda>c. g (q @ [c]) \<noteq> None) [''w'', ''a'', ''x'', ''y'']"


section \<open>Where a restore goes wrong\<close>

text \<open>
  a restore fails half way where a directory has replaced a file of the snapshot.  Materialising the
  file removes the directory; the paths that were listed in it now have a file above them, their removal
  fails with \<open>ENOTDIR\<close>, which is not the error the clean-up tolerates, and the restore is reported as
  failed with the remaining extra files in place.
\<close>

theorem restore_fails_below_new_file:
  assumes "fs_wf f" "list_all plain (rt @ cs)" "cs \<noteq> []" "physical f (rt @ butlast cs)" "f (rt @ butlast cs) = Some (NFile data)"
    and "join [slash] cs \<notin> set snap"
  shows "remove_extras_not_in_snapshot ls (abs_path rt) (join [slash] cs # ps) snap f
    = (Some (path_error ''remove'' (abs_path (rt @ cs)) ENOTDIR), f)"
proof -
  have pl: "list_all plain rt" "list_all plain cs" using assms(2) by auto
  have "k_lookup f True (abs_path (rt @ butlast cs)) = Inr (rt @ butlast cs)"
    by (rule k_lookup_physical [OF assms(1,4)]) (simp add: assms(5))
  then have "os_remove ls f (abs_path (rt @ cs)) = Inl ENOTDIR"
    using assms(2,3,5) by (simp add: os_remove_def k_entry_def butlast_append)
  with fp_join_elems [OF pl assms(3)] assms(6) show ?thesis by (simp add: Let_def)
qed

theorem restore_fails_below_new_file_witness:
  "remove_extras_not_in_snapshot (\<lambda>_ _. []) (abs_path [''w'']) [join [slash] [''y'', ''x'']] [''y''] demo_tree
   = (Some (path_error ''remove'' ''/w/y/x'' ENOTDIR), demo_tree)"
proof -
  have wf: "fs_wf demo_tree"
    by (auto simp: fs_wf_def demo_tree_def split: if_splits simp: append_eq_Cons_conv)
  have pl: "list_all plain ([''w''] @ [''y'', ''x''])" by code_simp
  have ph: "physical demo_tree ([''w''] @ butlast [''y'', ''x''])"
    by (auto simp: physical_def demo_tree_def plain_def prefix_Cons is_link_def split: if_splits)
  have "demo_tree ([''w''] @ butlast [''y'', ''x'']) = Some (NFile ''2'')" "join [slash] [''y'', ''x''] \<notin> set [''y'']" by code_simp+
  from restore_fails_below_new_file [OF wf pl _ ph this] show ?thesis by (simp add: abs_path_def)
qed

text \<open>
  a restore can delete a file outside the workspace.  If a directory of the workspace was a symbolic
  link when the snapshot was taken, materialising the snapshot puts the link back, and the paths listed
  in the directory before are then removed through the link.
\<close>

definition link_git :: git where
  "link_git env argv f =
     (if argv = [''checkout-index'', ''-a'', ''-f'']
      then ((None, []), (f([''w'', ''d'', ''passwd''] := None))([''w'', ''d''] \<mapsto> NLink ''/etc''))
      else if argv = [''ls-files''] then ((None, ''d'' @ [newline]), f)
      else if take 1 argv = [''ls-files''] then ((None, ''d/passwd'' @ [newline]), f)
      else ((None, []), f))"

definition link_repo :: fs where
  "link_repo = map_of [([], NDir), ([''w''], NDir), ([''w'', ''.git''], NDir), ([''w'', ''d''], NDir),
     ([''w'', ''d'', ''passwd''], NFile ''draft''), ([''etc''], NDir), ([''etc'', ''passwd''], NFile ''root:x:0:0'')]"

theorem restore_deletes_outside:
  "link_repo [''etc'', ''passwd''] = Some (NFile ''root:x:0:0'')
   \<and> snd (handle_snapshot_restore link_git (\<lambda>_ _. [''passwd'']) 7 1 \<lparr>ws_root = ''/w'', ws_name = ''w''\<rparr> [(''name'', JStr ''v1'')] link_repo)
       [''etc'', ''passwd''] = None"
  by code_simp

end
