(* ===== verification/ApiServer.thy ===== *)
theory ApiServer
  imports WriteTool Exec Coverage
begin

text \<open>
  The HTTP API (\<open>internal/api\<close>): the identity check in front of every route (\<open>identity.go\<close>), the
  table of routes (\<open>server.go\<close>), the status recorder of the metrics wrapper (\<open>metrics.go\<close>) and the
  handlers of files and the tree (\<open>file.go\<close>, \<open>tree.go\<close>).  \<open>net/http\<close> is modelled as far as it is used:
  a request is its method, path, first header and query values and body, a response its code, headers
  and body.  The redirect of the multiplexer for unclean paths, the embedded documents and the upgraded
  connections are not part of it.
\<close>

section \<open>Requests and responses\<close>

record http_request =
  rq_method :: string
  rq_path :: string
  rq_header :: "string \<Rightarrow> string"
  rq_query :: "string \<Rightarrow> string"
  rq_body :: string

record http_response =
  rs_code :: int
  rs_headers :: "(string \<times> string) list"
  rs_body :: string

text \<open>\<open>http.Error\<close>.\<close>

definition http_error :: "string \<Rightarrow> int \<Rightarrow> http_response" where
  "http_error msg code =
     \<lparr>rs_code = code,
      rs_headers = [(''Content-Type'', ''text/plain; charset=utf-8''), (''X-Content-Type-Options'', ''nosniff'')],
      rs_body = msg @ [newline]\<rparr>"

section \<open>Identity\<close>

record identity =
  id_sub :: string
  id_user :: string
  id_groups :: "string list"

definition parse_groups :: "string \<Rightarrow> string list" where
  "parse_groups raw = filter (\<lambda>t. t \<noteq> []) (map trim_space (if raw = [] then [] else split_on (CHR '','') raw))"

definition identity_of :: "bool \<Rightarrow> http_request \<Rightarrow> identity option" where
  "identity_of dev_mode r =
     (let sub = rq_header r ''X-Forwarded-Sub''
      in if sub \<noteq> [] then
           Some \<lparr>id_sub = sub, id_user = rq_header r ''X-Forwarded-User'',
                 id_groups = parse_groups (rq_header r ''X-Forwarded-Groups'')\<rparr>
         else if dev_mode then Some \<lparr>id_sub = ''dev'', id_user = ''dev'', id_groups = []\<rparr>
         else None)"

text \<open>The state the handlers share is threaded through; the second result is the line of the audit log.\<close>

definition with_identity :: "bool \<Rightarrow> (identity \<Rightarrow> http_request \<Rightarrow> 's \<Rightarrow> http_response \<times> 's) \<Rightarrow> http_request \<Rightarrow> 's
    \<Rightarrow> (http_response \<times> string list) \<times> 's" where
  "with_identity dev_mode next_handler r s =
     (case identity_of dev_mode r of
        None \<Rightarrow> ((http_error ''missing identity headers'' 401, []), s)
      | Some i \<Rightarrow>
          (case next_handler i r s of
             (resp, s') \<Rightarrow> ((resp, [''api sub='' @ id_sub i @ '' route='' @ rq_path r]), s')))"

section \<open>Routes\<close>

record api_config =
  ac_workspace :: bool
  ac_api :: bool
  ac_exec :: bool
  ac_port_forward :: bool
  ac_ssh :: bool

datatype route = OpenApi | Docs | Tree | FileRoute | Events | Download | ExecRoute | PortForwardRoute | SshKeys | SshPort

fun route_pattern :: "route \<Rightarrow> string" where
  "route_pattern OpenApi = ''/api/openapi.yaml''"
| "route_pattern Docs = ''/api/docs''"
| "route_pattern Tree = ''/api/tree''"
| "route_pattern FileRoute = ''/api/file''"
| "route_pattern Events = ''/api/events''"
| "route_pattern Download = ''/api/download''"
| "route_pattern ExecRoute = ''/api/exec''"
| "route_pattern PortForwardRoute = ''/api/port-forward''"
| "route_pattern SshKeys = ''/api/ssh-authorized-keys''"
| "route_pattern SshPort = ''/api/ssh-port''"

definition mounted_routes :: "api_config \<Rightarrow> route list" where
  "mounted_routes c =
     [OpenApi, Docs]
     @ (if ac_api c \<and> ac_workspace c then [Tree, FileRoute, Events, Download] else [])
     @ (if ac_exec c \<and> ac_workspace c then [ExecRoute] else [])
     @ (if ac_port_forward c then [PortForwardRoute] else [])
     @ (if ac_ssh c \<and> ac_workspace c then [SshKeys, SshPort] else [])"

definition route_of :: "api_config \<Rightarrow> string \<Rightarrow> route option" where
  "route_of c p = find (\<lambda>r. route_pattern r = p) (mounted_routes c)"

definition api_mux :: "api_config \<Rightarrow> (route \<Rightarrow> identity \<Rightarrow> http_request \<Rightarrow> 's \<Rightarrow> http_response \<times> 's)
    \<Rightarrow> identity \<Rightarrow> http_request \<Rightarrow> 's \<Rightarrow> http_response \<times> 's" where
  "api_mux c handlers i r s =
     (case route_of c (rq_path r) of None \<Rightarrow> (http_error ''404 page not found'' 404, s) | Some rt \<Rightarrow> handlers rt i r s)"

definition api_handler :: "bool \<Rightarrow> api_config \<Rightarrow> (route \<Rightarrow> identity \<Rightarrow> http_request \<Rightarrow> 's \<Rightarrow> http_response \<times> 's)
    \<Rightarrow> http_request \<Rightarrow> 's \<Rightarrow> (http_response \<times> string list) \<times> 's" where
  "api_handler dev_mode c handlers = with_identity dev_mode (api_mux c handlers)"

section \<open>The status recorder\<close>

record status_recorder =
  sr_status :: int
  sr_wrote :: bool

datatype writer_event = WriteHeader int | WriteBody | HijackOk | HijackFailed

fun record_event :: "status_recorder \<Rightarrow> writer_event \<Rightarrow> status_recorder" where
  "record_event s (WriteHeader code) = (if sr_wrote s then s else s\<lparr>sr_status := code, sr_wrote := True\<rparr>)"
| "record_event s WriteBody = s\<lparr>sr_wrote := True\<rparr>"
| "record_event s HijackOk = s\<lparr>sr_status := 101, sr_wrote := True\<rparr>"
| "record_event s HijackFailed = s"

definition bucket_http_status :: "int \<Rightarrow> string" where
  "bucket_http_status code =
     (if code = 101 then ''101''
      else if 200 \<le> code \<and> code < 300 then ''2xx''
      else if 300 \<le> code \<and> code < 400 then ''3xx''
      else if 400 \<le> code \<and> code < 500 then ''4xx''
      else if 500 \<le> code \<and> code < 600 then ''5xx''
      else ''other'')"

text \<open>The labels \<open>withMetrics\<close> counts a request under, from what the handler did to its writer.\<close>

definition metrics_labels :: "route \<Rightarrow> writer_event list \<Rightarrow> string \<times> string" where
  "metrics_labels rt evs =
     (route_pattern rt, bucket_http_status (sr_status (foldl record_event \<lparr>sr_status = 200, sr_wrote = False\<rparr> evs)))"

section \<open>Files\<close>

definition max_file_bytes :: nat where "max_file_bytes = 2 * 1024 * 1024"

definition text_extensions :: "string list" where
  "text_extensions = [''.go'', ''.md'', ''.txt'', ''.json'', ''.yml'', ''.yaml'', ''.toml'', ''.sh'']"

definition resolve_file_request :: "fs \<Rightarrow> workspace \<Rightarrow> string \<Rightarrow> http_response + string" where
  "resolve_file_request f w rel =
     (case resolve f w rel of
        Inr r \<Rightarrow> Inr r
      | Inl e \<Rightarrow>
          Inl (http_error (if e = OutsideWorkspace then ''path outside workspace'' else ''resolve: '' @ resolve_err_text e) 400))"

definition validate_file :: "fs \<Rightarrow> string \<Rightarrow> http_response option" where
  "validate_file f r =
     (case k_stat f r of
        Inl e \<Rightarrow> Some (if e = ENOENT then http_error ''file not found'' 404
                       else http_error (''stat: '' @ path_error ''stat'' r e) 500)
      | Inr NDir \<Rightarrow> Some (http_error ''path is a directory'' 400)
      | Inr (NFile d) \<Rightarrow> if max_file_bytes < length d then Some (http_error ''file too large'' 413) else None
      | Inr (NLink _) \<Rightarrow> None)"

text \<open>\<open>sniff\<close> stands for \<open>http.DetectContentType\<close>.\<close>

definition detect_content_type :: "(string \<Rightarrow> string) \<Rightarrow> string \<Rightarrow> string \<Rightarrow> string" where
  "detect_content_type sniff r start =
     (if to_lower (fp_ext r) \<in> set text_extensions then ''text/plain; charset=utf-8'' else sniff start)"

definition serve_file_bytes :: "(string \<Rightarrow> string) \<Rightarrow> fs \<Rightarrow> string \<Rightarrow> http_response" where
  "serve_file_bytes sniff f r =
     (case k_read_file f r of
        Inl e \<Rightarrow> http_error (''open: '' @ path_error ''open'' r e) 500
      | Inr d \<Rightarrow> \<lparr>rs_code = 200, rs_headers = [(''Content-Type'', detect_content_type sniff r (take 512 d))], rs_body = d\<rparr>)"

definition file_handler :: "(string \<Rightarrow> string) \<Rightarrow> workspace \<Rightarrow> fs \<Rightarrow> http_request \<Rightarrow> http_response" where
  "file_handler sniff w f r =
     (let rel = rq_query r ''path''
      in if rel = [] then http_error ''path query parameter is required'' 400
         else case resolve_file_request f w rel of
                Inl e \<Rightarrow> e
              | Inr p \<Rightarrow> (case validate_file f p of Some e \<Rightarrow> e | None \<Rightarrow> serve_file_bytes sniff f p))"

section \<open>The tree\<close>

record tree_entry =
  te_path :: string
  te_type :: string
  te_size :: int

text \<open>\<open>info.Size()\<close> of what \<open>rg --files\<close> lists, which is no directory.\<close>

definition stat_size :: "fs \<Rightarrow> string \<Rightarrow> int" where
  "stat_size f p = (case k_stat f p of Inr (NFile d) \<Rightarrow> int (length d) | _ \<Rightarrow> 0)"

text \<open>The directories above a relative path; the first argument bounds the climb by its length.\<close>

fun ancestor_dirs :: "nat \<Rightarrow> string \<Rightarrow> string list" where
  "ancestor_dirs 0 d = []"
| "ancestor_dirs (Suc n) d =
     (if d \<noteq> ''.'' \<and> d \<noteq> [slash] \<and> d \<noteq> [] then d # ancestor_dirs n (fp_dir d) else [])"

definition build_tree :: "fs \<Rightarrow> string \<Rightarrow> string list \<Rightarrow> tree_entry list" where
  "build_tree f wroot files =
     map (\<lambda>p. \<lparr>te_path = p, te_type = ''file'', te_size = stat_size f (fp_join wroot p)\<rparr>) files
     @ map (\<lambda>d. \<lparr>te_path = d, te_type = ''dir'', te_size = 0\<rparr>)
         (remdups (concat (map (\<lambda>p. ancestor_dirs (length p) (fp_dir p)) files)))"

definition rg_tree_args :: "string list" where
  "rg_tree_args = [''--files'', ''--hidden'', ''--no-require-git'', ''--color=never'', ''--glob=!.git'', ''--glob=!node_modules'']"

definition ripgrep_files :: "(string \<Rightarrow> bool) \<Rightarrow> (string list \<Rightarrow> string \<Rightarrow> proc) \<Rightarrow> string \<Rightarrow> string + string list" where
  "ripgrep_files on_path run wroot =
     (if \<not> on_path ''rg'' then Inl ''ripgrep (rg) not found on PATH''
      else
        let p = run rg_tree_args wroot; raw = trim_nl (p_stdout p); fail = (\<lambda>e. Inl (''rg: '' @ e @ '': '' @ p_stderr p))
        in case p_err p of
             RunOk \<Rightarrow> Inr (if raw = [] then [] else split_on newline raw)
           | ExitError c \<Rightarrow> if c = 1 then Inr [] else fail (''exit status '' @ dec_int c)
           | OtherError m \<Rightarrow> fail m)"

text \<open>\<open>encode\<close> is the JSON encoder of the response.\<close>

definition tree_handler :: "(string \<times> tree_entry list \<Rightarrow> string) \<Rightarrow> (string \<Rightarrow> bool) \<Rightarrow> (string list \<Rightarrow> string \<Rightarrow> proc) \<Rightarrow> workspace
    \<Rightarrow> fs \<Rightarrow> http_response" where
  "tree_handler encode on_path run w f =
     (case ripgrep_files on_path run (ws_root w) of
        Inl e \<Rightarrow> http_error (''list files: '' @ e) 500
      | Inr files \<Rightarrow>
          \<lparr>rs_code = 200, rs_headers = [(''Content-Type'', ''application/json'')],
           rs_body = encode (ws_root w, sort_key te_path (build_tree f (ws_root w) files))\<rparr>)"

section \<open>Who reaches a route\<close>

text \<open>
  C7: no request reaches a route without an identity and without the flags of the route.  Whatever the
  handlers do, exchanging the handler of one route changes nothing - neither the answer nor the state
  nor the audit log - for a request unless its path is that route's, it carries a subject or the server
  runs in development mode, and the flags of the route are set (with a workspace, where it needs one).
\<close>

theorem api_gate:
  assumes "\<forall>rt'. rt' \<noteq> rt \<longrightarrow> h1 rt' = h2 rt'"
    and "api_handler dev_mode c h1 q s \<noteq> api_handler dev_mode c h2 q s"
  shows "rq_path q = route_pattern rt
    \<and> (rq_header q ''X-Forwarded-Sub'' \<noteq> [] \<or> dev_mode)
    \<and> (rt \<in> {Tree, FileRoute, Events, Download} \<longrightarrow> ac_api c \<and> ac_workspace c)
    \<and> (rt = ExecRoute \<longrightarrow> ac_exec c \<and> ac_workspace c)
    \<and> (rt = PortForwardRoute \<longrightarrow> ac_port_forward c)
    \<and> (rt \<in> {SshKeys, SshPort} \<longrightarrow> ac_ssh c \<and> ac_workspace c)"
proof -
  obtain i where i: "identity_of dev_mode q = Some i"
    using assms(2) by (cases "identity_of dev_mode q") (auto simp: api_handler_def with_identity_def)
  have "api_mux c h1 i q s \<noteq> api_mux c h2 i q s"
    using assms(2) i by (auto simp: api_handler_def with_identity_def)
  then obtain rt' where r: "route_of c (rq_path q) = Some rt'" "h1 rt' \<noteq> h2 rt'"
    by (force simp: api_mux_def split: option.splits)
  then have "rt' = rt" using assms(1) by blast
  with r(1) have m: "rt \<in> set (mounted_routes c)" "rq_path q = route_pattern rt"
    by (auto simp: route_of_def find_Some_iff)
  moreover have "rq_header q ''X-Forwarded-Sub'' \<noteq> [] \<or> dev_mode"
    using i by (auto simp: identity_of_def Let_def split: if_splits)
  ultimately show ?thesis by (auto simp: mounted_routes_def split: if_splits)
qed

definition demo_request :: http_request where
  "demo_request = \<lparr>rq_method = ''GET'', rq_path = ''/api/exec'', rq_header = (\<lambda>k. if k = ''X-Forwarded-Sub'' then ''ann'' else []),
     rq_query = (\<lambda>_. []), rq_body = []\<rparr>"

theorem api_gate_witness:
  "ac_exec \<lparr>ac_workspace = True, ac_api = False, ac_exec = True, ac_port_forward = False, ac_ssh = False\<rparr>"
proof -
  let ?c = "\<lparr>ac_workspace = True, ac_api = False, ac_exec = True, ac_port_forward = False, ac_ssh = False\<rparr>"
  let ?h1 = "\<lambda>rt (i :: identity) (q :: http_request) (s :: nat). (http_error [] 200, s)"
  let ?h2 = "?h1(ExecRoute := \<lambda>i q s. (http_error [] 200, s + 1))"
  have "snd (api_handler False ?c ?h1 demo_request 0) \<noteq> snd (api_handler False ?c ?h2 demo_request 0)"
    by (simp add: api_handler_def with_identity_def identity_of_def demo_request_def api_mux_def route_of_def
        mounted_routes_def parse_groups_def)
  then have "api_handler False ?c ?h1 demo_request 0 \<noteq> api_handler False ?c ?h2 demo_request 0" by metis
  from api_gate [OF _ this, of ExecRoute] show ?thesis by simp
qed

text \<open>
  the labels of the request counter come from a closed set, and the status label is that of the
  response: 101 for an upgraded connection, else the class of the first status that was written, and
  that of 200 when the handler wrote a body first or nothing at all.
\<close>

definition first_status :: "writer_event list \<Rightarrow> int" where
  "first_status evs =
     (case List.find (\<lambda>e. e = WriteBody \<or> (\<exists>c. e = WriteHeader c)) evs of Some (WriteHeader c) \<Rightarrow> c | _ \<Rightarrow> 200)"

lemma record_events:
  "foldl record_event s evs =
     (if HijackOk \<in> set evs then \<lparr>sr_status = 101, sr_wrote = True\<rparr>
      else if sr_wrote s \<or> set evs \<subseteq> {HijackFailed} then s
      else \<lparr>sr_status = (case List.find (\<lambda>e. e = WriteBody \<or> (\<exists>c. e = WriteHeader c)) evs of Some (WriteHeader c) \<Rightarrow> c | _ \<Rightarrow> sr_status s),
            sr_wrote = True\<rparr>)"
proof (induction evs arbitrary: s)
  case (Cons e evs)
  have hj: "HijackOk \<notin> set evs \<Longrightarrow> set evs \<subseteq> {HijackFailed} \<Longrightarrow> foldl record_event x evs = x" for x
    using Cons.IH [of x] by simp
  show ?case
  proof (cases e)
    case (WriteHeader c)
    then show ?thesis using Cons.IH by (cases s) auto
  next
    case WriteBody
    then show ?thesis using Cons.IH by (cases s) auto
  next
    case HijackOk
    then show ?thesis using Cons.IH by (cases s) auto
  next
    case HijackFailed
    then show ?thesis using Cons.IH by simp
  qed
qed simp

theorem metrics_labels_exact:
  "snd (metrics_labels rt evs) \<in> {''101'', ''2xx'', ''3xx'', ''4xx'', ''5xx'', ''other''}
   \<and> snd (metrics_labels rt evs) = bucket_http_status (if HijackOk \<in> set evs then 101 else first_status evs)
   \<and> fst (metrics_labels rt evs) = route_pattern rt"
proof -
  have none: "set evs \<subseteq> {HijackFailed} \<Longrightarrow> first_status evs = 200"
    by (auto simp: first_status_def find_None_iff find_Some_iff split: option.splits dest!: nth_mem)
  have "sr_status (foldl record_event \<lparr>sr_status = 200, sr_wrote = False\<rparr> evs)
      = (if HijackOk \<in> set evs then 101 else first_status evs)"
    using none by (simp add: record_events) (auto simp: first_status_def split: option.splits writer_event.splits)
  then show ?thesis by (simp add: metrics_labels_def) (simp add: bucket_http_status_def)
qed

section \<open>What the file route serves\<close>

lemma http_error_code [simp]: "rs_code (http_error m c) = c"
  by (simp add: http_error_def)

lemma validate_file_code: "validate_file f p = Some e \<Longrightarrow> rs_code e \<noteq> 200"
  by (auto simp: validate_file_def split: sum.splits node.splits if_splits)

text \<open>
  a file is served exactly if the path resolves to a regular file of at most two megabytes, which
  then lies below the workspace root and is reached through no link, and its whole content is the body.
\<close>

theorem file_route_exact:
  assumes "fs_wf f" "ws_ok f w" "lookups_ok f w (rq_query r ''path'')"
  shows "(rs_code (file_handler sniff w f r) = 200 \<longrightarrow>
      (\<exists>q d. resolve f w (rq_query r ''path'') = Inr (abs_path q) \<and> prefix (root_of w) q \<and> physical f q
         \<and> f q = Some (NFile d) \<and> length d \<le> max_file_bytes \<and> rs_body (file_handler sniff w f r) = d))
    \<and> (\<forall>q d. rq_query r ''path'' \<noteq> [] \<and> resolve f w (rq_query r ''path'') = Inr (abs_path q) \<and> physical f q
         \<and> f q = Some (NFile d) \<and> length d \<le> max_file_bytes
         \<longrightarrow> rs_code (file_handler sniff w f r) = 200 \<and> rs_body (file_handler sniff w f r) = d)"
proof (intro conjI impI allI)
  let ?rel = "rq_query r ''path''"
  assume ok: "rs_code (file_handler sniff w f r) = 200"
  obtain p where p: "resolve f w ?rel = Inr p" "validate_file f p = None" "file_handler sniff w f r = serve_file_bytes sniff f p"
  proof (cases "?rel = []")
    case ne: False
    show thesis
    proof (cases "resolve f w ?rel")
      case (Inl e)
      then show thesis using ok ne by (simp add: file_handler_def resolve_file_request_def)
    next
      case (Inr p)
      then show thesis using ok ne validate_file_code [of f p] that
        by (cases "validate_file f p") (auto simp: file_handler_def resolve_file_request_def)
    qed
  qed (use ok in \<open>simp add: file_handler_def\<close>)
  with ok obtain d where d: "k_read_file f p = Inr d" "rs_body (file_handler sniff w f r) = d"
    by (cases "k_read_file f p") (simp_all add: serve_file_bytes_def)
  have "accepts w f ?rel = Some p" "confined_request w f ?rel"
    using p(1) assms(2,3) by (simp_all add: accepts_def confined_request_def)
  then obtain q where q: "p = abs_path (root_of w @ q)" "physical f (root_of w @ q)"
    "\<And>nd. k_stat f p = Inr nd \<longleftrightarrow> f (root_of w @ q) = Some nd"
    using ws_paths.accepted_node [OF assms(1)] by metis
  have st: "k_stat f p = Inr (NFile d)" using d(1) by (simp add: k_read_file_def split: sum.splits node.splits)
  then have fd: "f (root_of w @ q) = Some (NFile d)" using q(3) by simp
  have "length d \<le> max_file_bytes" using p(2) st by (simp add: validate_file_def split: if_splits)
  with fd show "\<exists>q d. resolve f w ?rel = Inr (abs_path q) \<and> prefix (root_of w) q \<and> physical f q
      \<and> f q = Some (NFile d) \<and> length d \<le> max_file_bytes \<and> rs_body (file_handler sniff w f r) = d"
    using p(1) q(1,2) d(2) by (intro exI [of _ "root_of w @ q"] exI [of _ d] conjI) simp_all
next
  let ?rel = "rq_query r ''path''"
  fix q d assume a: "?rel \<noteq> [] \<and> resolve f w ?rel = Inr (abs_path q) \<and> physical f q \<and> f q = Some (NFile d) \<and> length d \<le> max_file_bytes"
  then have "k_stat f (abs_path q) = Inr (NFile d)" using k_stat_physical [OF assms(1), of q] by simp
  with a have "file_handler sniff w f r = \<lparr>rs_code = 200,
      rs_headers = [(''Content-Type'', detect_content_type sniff (abs_path q) (take 512 d))], rs_body = d\<rparr>"
    by (simp add: file_handler_def resolve_file_request_def validate_file_def serve_file_bytes_def k_read_file_def)
  then show "rs_code (file_handler sniff w f r) = 200" "rs_body (file_handler sniff w f r) = d" by simp_all
qed

theorem file_route_exact_witness:
  "rs_body (file_handler (\<lambda>_. []) flood_ws (se_fs demo_session) (demo_request\<lparr>rq_query := \<lambda>_. ''m.go''\<rparr>)) = ''package m''"
proof -
  let ?r = "demo_request\<lparr>rq_query := \<lambda>_. ''m.go''\<rparr>" and ?f = "se_fs demo_session"
  have r: "resolve ?f flood_ws ''m.go'' = Inr (abs_path [''w'', ''m.go''])" "?f [''w'', ''m.go''] = Some (NFile ''package m'')"
    by code_simp+
  have ph: "physical ?f [''w'', ''m.go'']"
    by (auto simp: demo_session_def flood_fs_def physical_def plain_def prefix_Cons is_link_def split: if_splits)
  have l: "length ''package m'' \<le> max_file_bytes" by (simp add: max_file_bytes_def)
  have lk: "lookups_ok ?f flood_ws (rq_query ?r ''path'')" using demo_lookups_ok by simp
  from file_route_exact [OF demo_fs_wf demo_ws_ok lk, THEN conjunct2, rule_format, of "[''w'', ''m.go'']" "''package m''"]
  show ?thesis using r ph l by simp
qed

section \<open>What the tree lists\<close>

lemma fp_dir_rel:
  assumes "list_all plain (cs @ [c])"
  shows "fp_dir (join [slash] (cs @ [c])) = (if cs = [] then ''.'' else join [slash] cs)"
proof (cases "cs = []")
  case True
  have n: "last_index c slash = None" using assms by auto
  have "fp_dir c = fp_clean []" unfolding fp_dir_def n by simp
  with True show ?thesis by (simp add: fp_clean_def is_abs_def)
next
  case False
  have c: "slash \<notin> set c" using assms by auto
  have j: "join [slash] (cs @ [c]) = join [slash] cs @ slash # c" using False by (simp add: join_append)
  have hd: "\<not> is_abs (join [slash] cs @ [slash])"
    using False assms by (cases cs; cases "hd cs") (auto simp: is_abs_def join_Cons)
  have "split_on slash (join [slash] cs @ [slash]) = cs @ [[]]"
    using False assms by (subst split_on_append_sep [of slash _ "[]", simplified]) (auto intro!: split_on_join simp: list_all_iff)
  moreover have "clean_comps False [] (cs @ [[]]) = cs"
    using assms by (simp add: clean_comps_append clean_comps_plain_id)
  ultimately show ?thesis
    using False hd last_index_append [OF c, of "join [slash] cs"] by (simp add: fp_dir_def fp_clean_def j)
qed

lemma join_plain_neq:
  assumes "list_all plain cs" "cs \<noteq> []"
  shows "join [slash] cs \<noteq> ''.''" "join [slash] cs \<noteq> [slash]" "join [slash] cs \<noteq> []"
proof -
  have sp: "split_on slash (join [slash] cs) = cs"
    using assms by (intro split_on_join) (auto simp: list_all_iff)
  show "join [slash] cs \<noteq> ''.''" using sp assms by (auto simp: plain_def)
  show "join [slash] cs \<noteq> [slash]" using sp assms by (auto simp: plain_def)
  show "join [slash] cs \<noteq> []" using sp assms by (auto simp: plain_def)
qed

lemma length_join_plain: "list_all plain cs \<Longrightarrow> length cs \<le> length (join [slash] cs)"
proof (induction cs)
  case (Cons c cs)
  then have "c \<noteq> []" by (simp add: plain_def)
  then have "Suc 0 \<le> length c" by (cases c) auto
  with Cons show ?case by (cases cs) (auto simp: join_Cons)
qed simp

lemma ancestor_dirs_set:
  "list_all plain cs \<Longrightarrow> length cs \<le> n \<Longrightarrow>
   set (ancestor_dirs n (if cs = [] then ''.'' else join [slash] cs)) = {join [slash] p |p. prefix p cs \<and> p \<noteq> []}"
proof (induction cs arbitrary: n rule: rev_induct)
  case Nil
  then show ?case by (cases n) auto
next
  case (snoc c cs)
  then obtain m where m: "n = Suc m" "length cs \<le> m" by (cases n) auto
  note neq = join_plain_neq [OF snoc.prems(1), simplified]
  have "set (ancestor_dirs n (join [slash] (cs @ [c])))
      = insert (join [slash] (cs @ [c])) (set (ancestor_dirs m (if cs = [] then ''.'' else join [slash] cs)))"
    using neq fp_dir_rel [OF snoc.prems(1)] by (simp add: m(1))
  also have "\<dots> = insert (join [slash] (cs @ [c])) {join [slash] p |p. prefix p cs \<and> p \<noteq> []}"
    using snoc.IH [of m] snoc.prems(1) m(2) by simp
  finally show ?case by (auto simp: prefix_snoc)
qed

lemma ancestors_of_file:
  assumes "list_all plain cs" "cs \<noteq> []"
  shows "set (ancestor_dirs (length (join [slash] cs)) (fp_dir (join [slash] cs)))
    = {join [slash] p |p. strict_prefix p cs \<and> p \<noteq> []}"
proof -
  obtain ds c where d: "cs = ds @ [c]" using assms(2) by (cases cs rule: rev_cases) auto
  have "length ds \<le> length (join [slash] cs)" using length_join_plain [OF assms(1)] d by simp
  then show ?thesis
    using ancestor_dirs_set [of ds "length (join [slash] cs)"] fp_dir_rel [of ds c] assms(1) d
    by (auto simp: strict_prefix_def prefix_snoc)
qed

lemma tagged_union:
  "(\<lambda>x. (g x, a)) ` A \<union> (\<lambda>d. (d, b)) ` {h p |p. P p} = {(g x, a) |x. x \<in> A} \<union> {(h p, b) |p. P p}"
  by blast

text \<open>
  the tree lists every file git does not ignore and every directory above one, each once and in the
  order of the paths, and nothing else; in particular an empty directory is not listed.
\<close>

theorem tree_exact:
  assumes "\<forall>cs \<in> set css. cs \<noteq> [] \<and> list_all plain cs" "distinct css"
  assumes es: "es = sort_key te_path (build_tree f wroot (map (join [slash]) css))"
  shows "sorted (map te_path es) \<and> distinct (map (\<lambda>e. (te_path e, te_type e)) es)
    \<and> (\<lambda>e. (te_path e, te_type e)) ` set es =
       {(join [slash] cs, ''file'') |cs. cs \<in> set css}
       \<union> {(join [slash] p, ''dir'') |p. p \<noteq> [] \<and> (\<exists>cs \<in> set css. strict_prefix p cs)}"
proof (intro conjI)
  let ?k = "\<lambda>e. (te_path e, te_type e)" and ?b = "build_tree f wroot (map (join [slash]) css)"
  let ?dirs = "remdups (concat (map (\<lambda>p. ancestor_dirs (length p) (fp_dir p)) (map (join [slash]) css)))"
  show "sorted (map te_path es)" by (simp add: es)
  have keys: "map ?k ?b = map (\<lambda>p. (p, ''file'')) (map (join [slash]) css) @ map (\<lambda>d. (d, ''dir'')) ?dirs"
    by (simp add: build_tree_def comp_def)
  have inj: "inj_on (join [slash]) (set css)"
  proof (rule inj_onI)
    fix a b assume "a \<in> set css" "b \<in> set css" "join [slash] a = join [slash] b"
    moreover have "split_on slash (join [slash] x) = x" if "x \<in> set css" for x
      using assms(1) that by (intro split_on_join) (auto simp: list_all_iff)
    ultimately show "a = b" by metis
  qed
  have "distinct (map ?k ?b)"
    unfolding keys using assms(2) inj by (auto simp: distinct_map inj_on_def)
  then show "distinct (map ?k es)" unfolding es distinct_map distinct_sort set_sort .
  have "?k ` set es = set (map ?k ?b)" by (simp add: es)
  also have "\<dots> = (\<lambda>cs. (join [slash] cs, ''file'')) ` set css \<union> (\<lambda>d. (d, ''dir'')) ` set ?dirs"
    unfolding keys by auto
  also have "set ?dirs = {join [slash] p |p. p \<noteq> [] \<and> (\<exists>cs \<in> set css. strict_prefix p cs)}"
    using assms(1) by (auto simp: ancestors_of_file)
  finally show "?k ` set es = {(join [slash] cs, ''file'') |cs. cs \<in> set css}
       \<union> {(join [slash] p, ''dir'') |p. p \<noteq> [] \<and> (\<exists>cs \<in> set css. strict_prefix p cs)}" by (simp only: tagged_union)
qed

theorem tree_exact_witness:
  "sorted (map te_path (sort_key te_path (build_tree flood_fs ''/w'' (map (join [slash]) [[''a'', ''x''], [''b'']]))))"
proof -
  have "\<forall>cs \<in> set [[''a'', ''x''], [''b'']]. cs \<noteq> [] \<and> list_all plain cs" by code_simp
  moreover have "distinct [[''a'', ''x''], [''b'']]" by code_simp
  ultimately show ?thesis by (rule tree_exact [OF _ _ refl, THEN conjunct1])
qed

end
