(* ===== verification/ApiSsh.thy ===== *)
theory ApiSsh
  imports ApiServer Json "HOL-Library.Word"
begin

text \<open>
  The embedded SSH server (\<open>internal/api/ssh.go\<close>): the store of authorized keys, the two routes that
  register a key and tell the port, the start of the server, and the command a session runs.  A public
  key is its wire form, the bytes \<open>KeysEqual\<close> compares.  The parser of authorized-key lines, the key
  generator and the listener are arguments; the copy loops between the session and the process are not
  modelled.  The order in which Go visits a map is an argument of \<open>Match\<close>.
\<close>

section \<open>The store of authorized keys\<close>

type_synonym key_store = "string \<rightharpoonup> string list"

definition new_authorized_keys :: key_store where "new_authorized_keys = Map.empty"

definition stored_keys :: "key_store \<Rightarrow> string \<Rightarrow> string list" where
  "stored_keys a sub = (case a sub of None \<Rightarrow> [] | Some ks \<Rightarrow> ks)"

definition add_key :: "key_store \<Rightarrow> string \<Rightarrow> string \<Rightarrow> key_store" where
  "add_key a sub key = a(sub \<mapsto> stored_keys a sub @ [key])"

definition match_key :: "string list \<Rightarrow> key_store \<Rightarrow> string \<Rightarrow> string option" where
  "match_key order a key = find (\<lambda>sub. list_ex (\<lambda>k. k = key) (stored_keys a sub)) order"

definition count_for_subject :: "key_store \<Rightarrow> string \<Rightarrow> nat" where
  "count_for_subject a sub = length (stored_keys a sub)"

text \<open>An order in which the map may be visited.\<close>

definition visits :: "string list \<Rightarrow> key_store \<Rightarrow> bool" where
  "visits order a \<longleftrightarrow> distinct order \<and> set order = dom a"

text \<open>The relation a store stands for.\<close>

definition key_relation :: "key_store \<Rightarrow> (string \<times> string) set" where
  "key_relation a = {(sub, k). k \<in> set (stored_keys a sub)}"

section \<open>The routes\<close>

text \<open>
  The body: \<open>json.Decoder\<close> on at most 64 KiB reads the first value and ignores what follows it.
\<close>

definition max_key_body :: nat where "max_key_body = 64 * 1024"

definition decode_key_body :: "string \<Rightarrow> string option" where
  "decode_key_body body =
     (let s = take max_key_body body
      in case json_value (2 * length s) s of
           Some (JObj kvs, _) \<Rightarrow> string_field ''public_key'' [] kvs
         | Some (JNull, _) \<Rightarrow> Some []
         | _ \<Rightarrow> None)"

definition authorized_keys_handler :: "(string \<Rightarrow> string + string) \<Rightarrow> identity option \<Rightarrow> http_request \<Rightarrow> key_store
    \<Rightarrow> http_response \<times> key_store" where
  "authorized_keys_handler parse_key ident r a =
     (if rq_method r \<noteq> ''POST'' then (http_error ''method not allowed'' 405, a)
      else case ident of
        None \<Rightarrow> (http_error ''identity required'' 401, a)
      | Some i \<Rightarrow>
          (case decode_key_body (rq_body r) of
             None \<Rightarrow> (http_error ''invalid JSON body'' 400, a)
           | Some pk \<Rightarrow>
               if pk = [] then (http_error ''public_key is required'' 400, a)
               else case parse_key pk of
                      Inl e \<Rightarrow> (http_error (''invalid public key: '' @ e) 400, a)
                    | Inr k \<Rightarrow> (\<lparr>rs_code = 201, rs_headers = [], rs_body = []\<rparr>, add_key a (id_sub i) k)))"

definition ssh_port_handler :: "nat \<Rightarrow> http_request \<Rightarrow> http_response" where
  "ssh_port_handler port r =
     (if rq_method r \<noteq> ''GET'' then http_error ''method not allowed'' 405
      else \<lparr>rs_code = 200, rs_headers = [(''Content-Type'', ''application/json'')],
            rs_body = CHR ''{'' # quote ''port'' @ CHR '':'' # dec_nat port @ [CHR ''}'', newline]\<rparr>)"

section \<open>Starting the server\<close>

text \<open>
  \<open>newSSHServer\<close>: a listener on the loopback address (its port), then the host key, then its signer.
  The second result is the listener that stays open.
\<close>

record ssh_server =
  sv_port :: nat
  sv_keys :: key_store
  sv_host_key :: string

definition new_ssh_server :: "string + nat \<Rightarrow> string + string \<Rightarrow> (string \<Rightarrow> string + string) \<Rightarrow> (string + ssh_server) \<times> nat option" where
  "new_ssh_server listen host_key signer =
     (case listen of
        Inl e \<Rightarrow> (Inl (''ssh listen: '' @ e), None)
      | Inr port \<Rightarrow>
          (case host_key of
             Inl e \<Rightarrow> (Inl (''ssh host key: '' @ e), None)
           | Inr priv \<Rightarrow>
               (case signer priv of
                  Inl e \<Rightarrow> (Inl (''ssh signer: '' @ e), None)
                | Inr sg \<Rightarrow> (Inr \<lparr>sv_port = port, sv_keys = new_authorized_keys, sv_host_key = sg\<rparr>, Some port))))"

section \<open>Sessions\<close>

record command =
  cm_path :: string
  cm_args :: "string list"
  cm_dir :: string
  cm_env :: "string list"

record ssh_request =
  sq_pty :: "string option"
  sq_raw :: string

text \<open>\<open>runSession\<close>: the command; \<open>sq_pty\<close> is the terminal type of a PTY request.\<close>

definition ssh_session_command :: "workspace \<Rightarrow> string list \<Rightarrow> string \<Rightarrow> ssh_request \<Rightarrow> command" where
  "ssh_session_command w environ sub r =
     \<lparr>cm_path = ''/bin/bash'',
      cm_args = (if sq_raw r \<noteq> [] then [''-c'', sq_raw r] else []),
      cm_dir = ws_root w,
      cm_env = environ @ [''HOME='' @ ws_root w, ''SANDBOX_USER='' @ sub]
        @ (case sq_pty r of None \<Rightarrow> [] | Some t \<Rightarrow> [''TERM='' @ (if t = [] then ''xterm-256color'' else t)])\<rparr>"

text \<open>The value a process sees: \<open>os/exec\<close> keeps the last of several entries of one name.\<close>

definition env_value :: "string list \<Rightarrow> string \<Rightarrow> string option" where
  "env_value env name =
     map_option (drop (Suc (length name))) (find (\<lambda>e. has_prefix e (name @ ''='')) (rev env))"

text \<open>\<open>waitExit\<close>.\<close>

fun ssh_wait_exit :: "run_err \<Rightarrow> int" where
  "ssh_wait_exit RunOk = 0"
| "ssh_wait_exit (ExitError c) = c"
| "ssh_wait_exit (OtherError _) = - 1"

text \<open>\<open>runSession\<close> and \<open>handleSession\<close>: the exit code told to the client, and whether an error is logged.\<close>

definition run_session :: "string option \<Rightarrow> run_err \<Rightarrow> int \<times> string option" where
  "run_session start_err wait = (case start_err of Some e \<Rightarrow> (- 1, Some e) | None \<Rightarrow> (ssh_wait_exit wait, None))"

definition session_subject :: "string option \<Rightarrow> string" where
  "session_subject stashed = (case stashed of None \<Rightarrow> ''unknown'' | Some s \<Rightarrow> if s = [] then ''unknown'' else s)"

text \<open>A window change: the width and height of the request, converted to \<open>uint16\<close>.\<close>

definition set_window :: "int \<times> int \<Rightarrow> 16 word \<times> 16 word" where
  "set_window win = (word_of_int (fst win), word_of_int (snd win))"

section \<open>Registered keys\<close>

text \<open>
  What a register of keys promises its clients.  From the two laws follows what it holds after any
  sequence of registrations, and, with a matcher, whom a key is attributed to.
\<close>

locale key_register =
  fixes start :: 's and add :: "'s \<Rightarrow> string \<Rightarrow> string \<Rightarrow> 's" and holds :: "'s \<Rightarrow> (string \<times> string) set"
  assumes holds_start: "holds start = {}"
    and holds_add: "holds (add s u k) = insert (u, k) (holds s)"
begin

lemma holds_fold: "holds (foldl (\<lambda>s (u, k). add s u k) s regs) = holds s \<union> set regs"
  by (induction regs arbitrary: s) (auto simp: holds_add)

lemma holds_registered: "holds (foldl (\<lambda>s (u, k). add s u k) start regs) = set regs"
  by (simp add: holds_fold holds_start)

end

locale key_matcher = key_register +
  fixes lookup :: "string list \<Rightarrow> 's \<Rightarrow> string \<Rightarrow> string option" and any_order :: "string list \<Rightarrow> 's \<Rightarrow> bool"
  assumes lookup_sound: "lookup order s k = Some u \<Longrightarrow> (u, k) \<in> holds s"
    and lookup_complete: "any_order order s \<Longrightarrow> (u, k) \<in> holds s \<Longrightarrow> lookup order s k \<noteq> None"
begin

lemma lookup_registered:
  "any_order order (foldl (\<lambda>s (u, k). add s u k) start regs) \<Longrightarrow>
   lookup order (foldl (\<lambda>s (u, k). add s u k) start regs) k = None \<longleftrightarrow> (\<forall>u. (u, k) \<notin> set regs)"
  by (metis holds_registered lookup_complete lookup_sound not_None_eq)

end

lemma key_relation_add: "key_relation (add_key a u k) = insert (u, k) (key_relation a)"
  by (auto simp: key_relation_def add_key_def stored_keys_def split: if_splits)

lemma match_key_sound: "match_key order a k = Some u \<Longrightarrow> (u, k) \<in> key_relation a"
  by (auto simp: match_key_def key_relation_def find_Some_iff list_ex_iff)

lemma match_key_complete:
  assumes "visits order a" "(u, k) \<in> key_relation a"
  shows "match_key order a k \<noteq> None"
proof -
  have "u \<in> set order" using assms by (cases "a u") (auto simp: visits_def key_relation_def stored_keys_def)
  with assms(2) show ?thesis by (auto simp: match_key_def find_None_iff list_ex_iff key_relation_def)
qed

interpretation ssh_keys: key_matcher new_authorized_keys add_key key_relation match_key visits
proof unfold_locales
  show "key_relation new_authorized_keys = {}" by (auto simp: key_relation_def new_authorized_keys_def stored_keys_def)
  show "match_key order s k \<noteq> None" if "visits order s" "(u, k) \<in> key_relation s" for order s u k
    using that by (rule match_key_complete)
qed (auto simp: key_relation_add dest: match_key_sound)

lemma count_for_subject_fold:
  "count_for_subject (foldl (\<lambda>a (u, k). add_key a u k) a regs) sub
     = count_for_subject a sub + length (filter (\<lambda>r. fst r = sub) regs)"
proof (induction regs arbitrary: a)
  case (Cons r regs)
  then show ?case by (cases r) (auto simp: count_for_subject_def add_key_def stored_keys_def)
qed simp

lemma dom_finite_fold: "finite (dom a) \<Longrightarrow> finite (dom (foldl (\<lambda>a (u, k). add_key a u k) a regs))"
  by (induction regs arbitrary: a) (auto simp: add_key_def)

lemma match_key_any:
  assumes "finite (dom a)" "(u, k) \<in> key_relation a"
  shows "\<exists>order. visits order a \<and> match_key order a k = Some u"
proof -
  obtain rest where "set rest = dom a - {u}" "distinct rest" using assms(1) finite_distinct_list [of "dom a - {u}"] by auto
  moreover have "u \<in> dom a" using assms(2) by (cases "a u") (auto simp: key_relation_def stored_keys_def)
  ultimately have "visits (u # rest) a" by (auto simp: visits_def)
  moreover have "match_key (u # rest) a k = Some u" using assms(2) by (auto simp: match_key_def key_relation_def list_ex_iff)
  ultimately show ?thesis by blast
qed

text \<open>
  C18: the key store refines the relation of its registrations.  In whatever order Go visits the map, a key
  is refused exactly if nobody registered it; a key is attributed to a subject in some order exactly if
  that subject registered it - so a key that two subjects registered is attributed to either of them,
  as the order of the map has it; and a subject has as many keys as it registered, repetitions counted.
\<close>

theorem key_store_refines:
  fixes regs
  defines "a \<equiv> foldl (\<lambda>a (u, k). add_key a u k) new_authorized_keys regs"
  shows "key_relation a = set regs
    \<and> (\<forall>order. visits order a \<longrightarrow> (match_key order a key = None \<longleftrightarrow> (\<forall>u. (u, key) \<notin> set regs)))
    \<and> (\<forall>u. (\<exists>order. visits order a \<and> match_key order a key = Some u) \<longleftrightarrow> (u, key) \<in> set regs)
    \<and> (\<forall>u. count_for_subject a u = length (filter (\<lambda>r. fst r = u) regs))"
proof (intro conjI allI impI)
  show r: "key_relation a = set regs" unfolding a_def by (rule ssh_keys.holds_registered)
  show "match_key order a key = None \<longleftrightarrow> (\<forall>u. (u, key) \<notin> set regs)" if "visits order a" for order
    using that unfolding a_def by (rule ssh_keys.lookup_registered)
  show "(\<exists>order. visits order a \<and> match_key order a key = Some u) \<longleftrightarrow> (u, key) \<in> set regs" for u
  proof
    assume "(u, key) \<in> set regs"
    moreover have "finite (dom a)" unfolding a_def by (rule dom_finite_fold) (simp add: new_authorized_keys_def)
    ultimately show "\<exists>order. visits order a \<and> match_key order a key = Some u" using r match_key_any by simp
  qed (use r match_key_sound in auto)
  show "count_for_subject a u = length (filter (\<lambda>r. fst r = u) regs)" for u
    unfolding a_def count_for_subject_fold
    by (simp add: count_for_subject_def stored_keys_def new_authorized_keys_def)
qed

theorem key_store_refines_witness:
  "match_key [''bob'', ''ann''] (foldl (\<lambda>a (u, k). add_key a u k) new_authorized_keys [(''ann'', ''K1''), (''bob'', ''K2'')]) ''K3'' = None"
proof -
  let ?regs = "[(''ann'', ''K1''), (''bob'', ''K2'')]"
  have "visits [''bob'', ''ann''] (foldl (\<lambda>a (u, k). add_key a u k) new_authorized_keys ?regs)"
    by (auto simp: visits_def add_key_def new_authorized_keys_def)
  then show ?thesis using key_store_refines [of ?regs "''K3''"] by simp
qed

section \<open>Whose session it is\<close>

lemma find_append: "find P (xs @ ys) = (case find P xs of None \<Rightarrow> find P ys | Some x \<Rightarrow> Some x)"
  by (induction xs) auto

lemma env_value_append: "env_value (xs @ ys) n = (case env_value ys n of None \<Rightarrow> env_value xs n | Some v \<Rightarrow> Some v)"
  by (auto simp: env_value_def find_append split: option.splits)

lemma env_value_single:
  "env_value [e] n = (if has_prefix e (n @ ''='') then Some (drop (Suc (length n)) e) else None)"
  by (simp add: env_value_def)

lemma session_env:
  "env_value (cm_env (ssh_session_command w environ sub r)) ''SANDBOX_USER'' = Some sub"
  "env_value (cm_env (ssh_session_command w environ sub r)) ''HOME'' = Some (ws_root w)"
proof -
  let ?tm = "case sq_pty r of None \<Rightarrow> [] | Some t \<Rightarrow> [''TERM='' @ (if t = [] then ''xterm-256color'' else t)]"
  have e: "cm_env (ssh_session_command w environ sub r)
      = (environ @ [''HOME='' @ ws_root w]) @ [''SANDBOX_USER='' @ sub] @ ?tm"
    by (simp add: ssh_session_command_def)
  have t: "env_value ?tm ''SANDBOX_USER'' = None" "env_value ?tm ''HOME'' = None"
    by (auto simp: env_value_def has_prefix_def split: option.splits)
  show "env_value (cm_env (ssh_session_command w environ sub r)) ''SANDBOX_USER'' = Some sub"
    unfolding e env_value_append [of _ "[''SANDBOX_USER='' @ sub] @ ?tm"] env_value_append [of _ ?tm] t
    by (simp add: env_value_single has_prefix_def)
  show "env_value (cm_env (ssh_session_command w environ sub r)) ''HOME'' = Some (ws_root w)"
    unfolding e env_value_append [of _ "[''SANDBOX_USER='' @ sub] @ ?tm"] env_value_append [of _ ?tm] t
      env_value_append [of environ]
    by (simp add: env_value_single has_prefix_def)
qed

text \<open>What one request may do to the store when the route of the keys is served by the handler above.\<close>

definition registers :: "(string \<Rightarrow> string + string) \<Rightarrow> bool \<Rightarrow> api_config \<Rightarrow> http_request \<Rightarrow> string \<Rightarrow> string \<Rightarrow> bool" where
  "registers parse_key dev_mode c q sub k \<longleftrightarrow>
     ac_ssh c \<and> rq_path q = ''/api/ssh-authorized-keys'' \<and> rq_method q = ''POST''
     \<and> map_option id_sub (identity_of dev_mode q) = Some sub
     \<and> (\<exists>pk. decode_key_body (rq_body q) = Some pk \<and> pk \<noteq> [] \<and> parse_key pk = Inr k)"

lemma handler_relation:
  "key_relation (snd (authorized_keys_handler parse_key (Some i) q a)) =
     key_relation a \<union> {(id_sub i, k) |k pk. rq_method q = ''POST'' \<and> decode_key_body (rq_body q) = Some pk
        \<and> pk \<noteq> [] \<and> parse_key pk = Inr k}"
  by (auto simp: authorized_keys_handler_def key_relation_add split: option.splits sum.splits)

lemma api_request_relation:
  assumes "\<forall>rt i q a. rt \<noteq> SshKeys \<longrightarrow> snd (h rt i q a) = a"
    and "\<forall>i. h SshKeys i = authorized_keys_handler parse_key (Some i)"
    and "(sub, k) \<in> key_relation (snd (api_handler dev_mode c h q a))"
  shows "(sub, k) \<in> key_relation a \<or> registers parse_key dev_mode c q sub k"
proof (cases "identity_of dev_mode q")
  case None
  then show ?thesis using assms(3) by (simp add: api_handler_def with_identity_def)
next
  case (Some i)
  then have s: "snd (api_handler dev_mode c h q a) = snd (api_mux c h i q a)"
    by (simp add: api_handler_def with_identity_def split: prod.splits)
  show ?thesis
  proof (cases "route_of c (rq_path q) = Some SshKeys")
    case True
    then have "rq_path q = ''/api/ssh-authorized-keys''" "SshKeys \<in> set (mounted_routes c)"
      using nth_mem by (fastforce simp: route_of_def find_Some_iff)+
    then have "rq_path q = ''/api/ssh-authorized-keys''" "ac_ssh c" by (auto simp: mounted_routes_def split: if_splits)
    moreover have "snd (api_mux c h i q a) = snd (authorized_keys_handler parse_key (Some i) q a)"
      by (simp add: api_mux_def True assms(2))
    ultimately show ?thesis using assms(3) Some s by (auto simp: handler_relation registers_def)
  next
    case False
    then have "snd (api_mux c h i q a) = a" by (auto simp: api_mux_def assms(1) split: option.splits)
    then show ?thesis using assms(3) s by simp
  qed
qed

text \<open>
  a session is attributed to somebody who registered its key.  After any sequence of requests to the
  API, if the SSH server accepts a key, then the server has SSH enabled and one of the requests was a
  \<open>POST\<close> to the key route, under the identity the proxy asserted (or as \<open>dev\<close> in development mode),
  whose body carries that key; and the shell of the session sees that subject as \<open>SANDBOX_USER\<close> and the
  workspace as \<open>HOME\<close>, whatever the environment of the sandbox says.
\<close>

theorem ssh_session_attributed:
  assumes "\<forall>rt i q a. rt \<noteq> SshKeys \<longrightarrow> snd (h rt i q a) = a"
    and "\<forall>i. h SshKeys i = authorized_keys_handler parse_key (Some i)"
    and "match_key order (foldl (\<lambda>a q. snd (api_handler dev_mode c h q a)) new_authorized_keys qs) k = Some sub"
  shows "(\<exists>q \<in> set qs. registers parse_key dev_mode c q sub k)
    \<and> env_value (cm_env (ssh_session_command w environ (session_subject (Some sub)) r)) ''SANDBOX_USER'' = Some sub
    \<and> env_value (cm_env (ssh_session_command w environ (session_subject (Some sub)) r)) ''HOME'' = Some (ws_root w)"
proof -
  have "(sub, k) \<in> key_relation a \<or> (\<exists>q \<in> set qs. registers parse_key dev_mode c q sub k)"
    if "(sub, k) \<in> key_relation (foldl (\<lambda>a q. snd (api_handler dev_mode c h q a)) a qs)" for a
    using that
  proof (induction qs arbitrary: a)
    case (Cons q qs)
    then have "(sub, k) \<in> key_relation (snd (api_handler dev_mode c h q a)) \<or> (\<exists>q \<in> set qs. registers parse_key dev_mode c q sub k)"
      by simp
    then show ?case using api_request_relation [OF assms(1,2), of sub k dev_mode c q a] by force
  qed simp
  from this [of new_authorized_keys] obtain q where q: "q \<in> set qs" "registers parse_key dev_mode c q sub k"
    using match_key_sound [OF assms(3)] ssh_keys.holds_start by auto
  then have "sub \<noteq> []" by (auto simp: registers_def identity_of_def Let_def split: if_splits)
  then have "session_subject (Some sub) = sub" by (simp add: session_subject_def)
  with q show ?thesis by (auto simp: session_env)
qed

definition demo_key_request :: http_request where
  "demo_key_request = \<lparr>rq_method = ''POST'', rq_path = ''/api/ssh-authorized-keys'',
     rq_header = (\<lambda>k. if k = ''X-Forwarded-Sub'' then ''ann'' else []), rq_query = (\<lambda>_. []),
     rq_body = CHR ''{'' # quote ''public_key'' @ '':'' @ quote ''K1'' @ ''}''\<rparr>"

definition demo_key_routes :: "route \<Rightarrow> identity \<Rightarrow> http_request \<Rightarrow> key_store \<Rightarrow> http_response \<times> key_store" where
  "demo_key_routes rt i q a = (if rt = SshKeys then authorized_keys_handler Inr (Some i) q a else (http_error [] 200, a))"

theorem ssh_session_attributed_witness:
  "env_value (cm_env (ssh_session_command flood_ws [''SANDBOX_USER=eve''] (session_subject (Some ''ann''))
      \<lparr>sq_pty = None, sq_raw = ''id''\<rparr>)) ''SANDBOX_USER'' = Some ''ann''"
proof -
  let ?c = "\<lparr>ac_workspace = True, ac_api = False, ac_exec = False, ac_port_forward = False, ac_ssh = True\<rparr>"
  have "length (rq_body demo_key_request) \<le> max_key_body" by (simp add: demo_key_request_def quote_def max_key_body_def)
  then have t: "take max_key_body (rq_body demo_key_request) = rq_body demo_key_request" by simp
  have j: "json_value (2 * length (rq_body demo_key_request)) (rq_body demo_key_request) = Some (JObj [(''public_key'', JStr ''K1'')], [])"
    by code_simp
  have "decode_key_body (rq_body demo_key_request) = Some ''K1''"
    by (simp add: decode_key_body_def Let_def t j)
  moreover have "api_handler False ?c demo_key_routes demo_key_request a
      = (case authorized_keys_handler Inr (Some \<lparr>id_sub = ''ann'', id_user = [], id_groups = []\<rparr>) demo_key_request a of
           (resp, s') \<Rightarrow> ((resp, [''api sub=ann route=/api/ssh-authorized-keys'']), s'))" for a
    by (simp add: api_handler_def with_identity_def identity_of_def demo_key_request_def api_mux_def route_of_def
        mounted_routes_def parse_groups_def demo_key_routes_def)
  moreover have "rq_method demo_key_request = ''POST''" by (simp add: demo_key_request_def)
  ultimately have "match_key [''ann''] (foldl (\<lambda>a q. snd (api_handler False ?c demo_key_routes q a)) new_authorized_keys [demo_key_request]) ''K1''
      = Some ''ann''"
    by (simp add: authorized_keys_handler_def match_key_def stored_keys_def add_key_def new_authorized_keys_def)
  moreover have "\<forall>rt i q a. rt \<noteq> SshKeys \<longrightarrow> snd (demo_key_routes rt i q a) = a" by (simp add: demo_key_routes_def)
  moreover have "\<forall>i. demo_key_routes SshKeys i = authorized_keys_handler Inr (Some i)"
    by (intro allI ext) (simp add: demo_key_routes_def)
  ultimately show ?thesis using ssh_session_attributed [of demo_key_routes Inr] by blast
qed

section \<open>Window sizes\<close>

text \<open>
  the terminal gets the requested size modulo 2 to the 16.  A size the terminal can have arrives
  unchanged; a wider window is cut without notice, down to a terminal of no columns.
\<close>

theorem window_size_wraps:
  "uint (fst (set_window (w, h))) = w mod 2 ^ 16 \<and> uint (snd (set_window (w, h))) = h mod 2 ^ 16
   \<and> ({w, h} \<subseteq> {0..<2 ^ 16} \<longleftrightarrow> (uint (fst (set_window (w, h))), uint (snd (set_window (w, h)))) = (w, h))
   \<and> uint (fst (set_window (65536, h))) = 0"
proof -
  have u: "uint (fst (set_window (w, h))) = w mod 2 ^ 16" "uint (snd (set_window (w, h))) = h mod 2 ^ 16"
    by (simp_all add: set_window_def uint_word_of_int)
  have "(0 \<le> x \<and> x < 2 ^ 16) \<longleftrightarrow> x mod 2 ^ 16 = x" for x :: int
    using mod_pos_pos_trivial [of x "2 ^ 16"] pos_mod_bound [of "2 ^ 16" x] pos_mod_sign [of "2 ^ 16" x] by force
  then have "{w, h} \<subseteq> {0..<2 ^ 16} \<longleftrightarrow> w mod 2 ^ 16 = w \<and> h mod 2 ^ 16 = h" by auto
  then show ?thesis unfolding u by (simp add: set_window_def)
qed

lemma new_ssh_server_closed:
  "new_ssh_server l k sg = (r, open_port) \<Longrightarrow>
   (case r of Inl _ \<Rightarrow> open_port = None | Inr s \<Rightarrow> open_port = Some (sv_port s) \<and> sv_keys s = new_authorized_keys)"
  by (auto simp: new_ssh_server_def split: sum.splits)

end
