(* ===== verification/ApiForward.thy ===== *)
theory ApiForward
  imports ApiServer
begin

text \<open>
  The port-forward route (\<open>internal/api/portforward.go\<close>): the check of the port, the address that is
  dialled, and the two pumps between the WebSocket and the TCP connection as a step relation.  The
  WebSocket library and the network are the environment: its steps deliver frames and bytes and take the
  two ends away.  The logged durations are left out.
\<close>

section \<open>The request\<close>

definition port_forward_min_port :: int where "port_forward_min_port = 1024"
definition port_forward_max_port :: int where "port_forward_max_port = 65535"
definition port_forward_buf_size :: nat where "port_forward_buf_size = 32 * 1024"

definition parse_port_forward_port :: "string \<Rightarrow> int option" where
  "parse_port_forward_port raw =
     (if raw = [] then None
      else case go_atoi raw of
             None \<Rightarrow> None
           | Some n \<Rightarrow> if n < port_forward_min_port \<or> n > port_forward_max_port then None else Some n)"

datatype forward_outcome =
    InvalidPort http_response
  | AcceptFailed
  | DialFailed string string
  | Bridged string

text \<open>
  \<open>portForwardHandler\<close> up to the bridge: \<open>accept\<close> is whether the upgrade succeeds, \<open>dial\<close> the error of the
  dialler on an address.  A failed dial carries the address and the line that is logged.
\<close>

definition port_forward_handler :: "bool \<Rightarrow> (string \<Rightarrow> string option) \<Rightarrow> identity option \<Rightarrow> http_request \<Rightarrow> forward_outcome" where
  "port_forward_handler accept dial ident r =
     (case parse_port_forward_port (rq_query r ''port'') of
        None \<Rightarrow> InvalidPort (http_error ''invalid port'' 400)
      | Some port \<Rightarrow>
          let sub = (case ident of Some i \<Rightarrow> id_sub i | None \<Rightarrow> ''unknown'');
              addr = ''127.0.0.1:'' @ dec_int port
          in if \<not> accept then AcceptFailed
             else case dial addr of
                    Some e \<Rightarrow> DialFailed addr (''api port-forward sub='' @ sub @ '' port='' @ dec_int port @ '' dial-error='' @ e)
                  | None \<Rightarrow> Bridged addr)"

fun dialled :: "forward_outcome \<Rightarrow> string option" where
  "dialled (DialFailed a _) = Some a"
| "dialled (Bridged a) = Some a"
| "dialled _ = None"

text \<open>
  the route reaches loopback ports from 1024 upwards only.  It dials exactly if the query is a decimal
  number in that range and the upgrade succeeds, whoever asks and whatever else the request carries;
  the address is then the loopback host with that number.
\<close>

theorem port_forward_loopback:
  "dialled (port_forward_handler accept dial ident r) = Some addr \<longleftrightarrow>
     accept \<and> (\<exists>n. go_atoi (rq_query r ''port'') = Some n \<and> 1024 \<le> n \<and> n \<le> 65535 \<and> addr = ''127.0.0.1:'' @ dec_int n)"
proof -
  have "go_atoi [] = None" by (simp add: go_atoi_def)
  then show ?thesis
    by (auto simp: port_forward_handler_def parse_port_forward_port_def port_forward_min_port_def port_forward_max_port_def
        Let_def split: option.splits)
qed

section \<open>The bridge\<close>

datatype ws_frame = Binary string | Text string

record bridge =
  br_ws_in :: "ws_frame list"
  br_tcp_in :: "string list"
  br_tcp_out :: string
  br_ws_out :: "string list"
  br_bytes_in :: nat
  br_bytes_out :: nat
  br_client_gone :: bool
  br_server_gone :: bool
  br_tcp_closed :: bool
  br_ws_closed :: bool
  br_in_done :: bool
  br_out_done :: bool

definition new_bridge :: bridge where
  "new_bridge = \<lparr>br_ws_in = [], br_tcp_in = [], br_tcp_out = [], br_ws_out = [], br_bytes_in = 0, br_bytes_out = 0,
     br_client_gone = False, br_server_gone = False, br_tcp_closed = False, br_ws_closed = False,
     br_in_done = False, br_out_done = False\<rparr>"

text \<open>The steps of \<open>pumpWSToTCP\<close>: a frame that is not binary is dropped, a failed or short write and a failed
  read close the TCP side and end the pump.\<close>

inductive ws_to_tcp :: "bridge \<Rightarrow> bridge \<Rightarrow> bool" where
  skip_text: "\<not> br_in_done s \<Longrightarrow> br_ws_in s = Text d # fs \<Longrightarrow> ws_to_tcp s (s\<lparr>br_ws_in := fs\<rparr>)"
| write_all: "\<not> br_in_done s \<Longrightarrow> br_ws_in s = Binary d # fs \<Longrightarrow> \<not> br_tcp_closed s \<Longrightarrow>
    ws_to_tcp s (s\<lparr>br_ws_in := fs, br_tcp_out := br_tcp_out s @ d, br_bytes_in := br_bytes_in s + length d\<rparr>)"
| write_fails: "\<not> br_in_done s \<Longrightarrow> br_ws_in s = Binary d # fs \<Longrightarrow> n \<le> length d \<Longrightarrow> (br_tcp_closed s \<Longrightarrow> n = 0) \<Longrightarrow>
    br_tcp_closed s \<or> br_server_gone s \<Longrightarrow>
    ws_to_tcp s (s\<lparr>br_ws_in := fs, br_tcp_out := br_tcp_out s @ take n d, br_bytes_in := br_bytes_in s + n,
      br_tcp_closed := True, br_in_done := True\<rparr>)"
| read_fails: "\<not> br_in_done s \<Longrightarrow> br_client_gone s \<or> br_ws_closed s \<Longrightarrow>
    ws_to_tcp s (s\<lparr>br_tcp_closed := True, br_in_done := True\<rparr>)"

text \<open>The steps of \<open>pumpTCPToWS\<close>: a read brings at most a buffer; a failed write to the WebSocket closes the TCP
  side, a failed read the WebSocket; either ends the pump.\<close>

inductive tcp_to_ws :: "bridge \<Rightarrow> bridge \<Rightarrow> bool" where
  forward: "\<not> br_out_done s \<Longrightarrow> br_tcp_in s = d # ds \<Longrightarrow> \<not> br_tcp_closed s \<Longrightarrow>
    tcp_to_ws s (s\<lparr>br_tcp_in := ds, br_ws_out := br_ws_out s @ [d], br_bytes_out := br_bytes_out s + length d\<rparr>)"
| forward_last: "\<not> br_out_done s \<Longrightarrow> br_tcp_in s = [d] \<Longrightarrow> \<not> br_tcp_closed s \<Longrightarrow> br_server_gone s \<Longrightarrow>
    tcp_to_ws s (s\<lparr>br_tcp_in := [], br_ws_out := br_ws_out s @ [d], br_bytes_out := br_bytes_out s + length d,
      br_ws_closed := True, br_out_done := True\<rparr>)"
| forward_fails: "\<not> br_out_done s \<Longrightarrow> br_tcp_in s = d # ds \<Longrightarrow> \<not> br_tcp_closed s \<Longrightarrow> br_client_gone s \<or> br_ws_closed s \<Longrightarrow>
    tcp_to_ws s (s\<lparr>br_tcp_in := ds, br_tcp_closed := True, br_out_done := True\<rparr>)"
| tcp_read_fails: "\<not> br_out_done s \<Longrightarrow> br_tcp_closed s \<or> br_server_gone s \<and> br_tcp_in s = [] \<Longrightarrow>
    tcp_to_ws s (s\<lparr>br_ws_closed := True, br_out_done := True\<rparr>)"

text \<open>The environment: the client sends a frame or goes away, the service sends bytes or goes away.\<close>

datatype env_event = ClientSends ws_frame | ClientGoes | ServiceSends string | ServiceGoes

fun env_step :: "env_event \<Rightarrow> bridge \<Rightarrow> bridge" where
  "env_step (ClientSends fr) s = (if br_client_gone s then s else s\<lparr>br_ws_in := br_ws_in s @ [fr]\<rparr>)"
| "env_step ClientGoes s = s\<lparr>br_client_gone := True\<rparr>"
| "env_step (ServiceSends d) s =
     (if br_server_gone s \<or> d = [] \<or> port_forward_buf_size < length d then s else s\<lparr>br_tcp_in := br_tcp_in s @ [d]\<rparr>)"
| "env_step ServiceGoes s = s\<lparr>br_server_gone := True\<rparr>"

definition pump_step :: "bridge \<Rightarrow> bridge \<Rightarrow> bool" where
  "pump_step s t \<longleftrightarrow> ws_to_tcp s t \<or> tcp_to_ws s t"

text \<open>
  Reachable states, with what the client has sent in binary frames and what the service has sent.
\<close>

definition payload :: "ws_frame list \<Rightarrow> string" where
  "payload fs = concat (map (\<lambda>fr. case fr of Binary d \<Rightarrow> d | Text _ \<Rightarrow> []) fs)"

inductive reaches :: "env_event list \<Rightarrow> bridge \<Rightarrow> bool" where
  start: "reaches [] new_bridge"
| env: "reaches es s \<Longrightarrow> reaches (es @ [e]) (env_step e s)"
| pump: "reaches es s \<Longrightarrow> pump_step s t \<Longrightarrow> reaches es t"

inductive_cases ws_to_tcpE: "ws_to_tcp s t"
inductive_cases tcp_to_wsE: "tcp_to_ws s t"

fun client_binary :: "bool \<Rightarrow> env_event list \<Rightarrow> string" where
  "client_binary present [] = []"
| "client_binary present (e # es) =
     (case e of
        ClientSends fr \<Rightarrow> (if present then payload [fr] else []) @ client_binary present es
      | ClientGoes \<Rightarrow> client_binary False es
      | _ \<Rightarrow> client_binary present es)"

fun service_bytes :: "bool \<Rightarrow> env_event list \<Rightarrow> string" where
  "service_bytes present [] = []"
| "service_bytes present (e # es) =
     (case e of
        ServiceSends d \<Rightarrow> (if present \<and> length d \<le> port_forward_buf_size then d else []) @ service_bytes present es
      | ServiceGoes \<Rightarrow> service_bytes False es
      | _ \<Rightarrow> service_bytes present es)"

lemma payload_append [simp]: "payload (xs @ ys) = payload xs @ payload ys"
  by (simp add: payload_def)

lemma payload_Cons: "payload (fr # fs) = payload [fr] @ payload fs"
  using payload_append [of "[fr]" fs] by simp

lemma payload_simps [simp]: "payload [] = []" "payload [Binary d] = d" "payload [Text d] = []"
  by (simp_all add: payload_def)

lemma client_binary_append:
  "client_binary p (es @ [e]) = client_binary p es
     @ (case e of ClientSends fr \<Rightarrow> if p \<and> ClientGoes \<notin> set es then payload [fr] else [] | _ \<Rightarrow> [])"
proof (induction es arbitrary: p)
  case (Cons x xs)
  then show ?case by (cases x; cases e) auto
qed (cases e; simp)

lemma service_bytes_append:
  "service_bytes p (es @ [e]) = service_bytes p es
     @ (case e of ServiceSends d \<Rightarrow> if p \<and> ServiceGoes \<notin> set es \<and> length d \<le> port_forward_buf_size then d else [] | _ \<Rightarrow> [])"
proof (induction es arbitrary: p)
  case (Cons x xs)
  then show ?case by (cases x; cases e) auto
qed (cases e; simp)

section \<open>What every reachable state satisfies\<close>

definition in_ok :: "string \<Rightarrow> bridge \<Rightarrow> bool" where
  "in_ok sent s \<longleftrightarrow> prefix (br_tcp_out s) sent \<and> (\<not> br_in_done s \<longrightarrow> br_tcp_out s @ payload (br_ws_in s) = sent)
     \<and> br_bytes_in s = length (br_tcp_out s)"

definition out_ok :: "string \<Rightarrow> bridge \<Rightarrow> bool" where
  "out_ok sent s \<longleftrightarrow> prefix (concat (br_ws_out s)) sent
     \<and> (\<not> br_out_done s \<longrightarrow> concat (br_ws_out s) @ concat (br_tcp_in s) = sent)
     \<and> br_bytes_out s = length (concat (br_ws_out s))
     \<and> (\<forall>d \<in> set (br_ws_out s) \<union> set (br_tcp_in s). d \<noteq> [] \<and> length d \<le> port_forward_buf_size)"

definition ends_inv :: "env_event list \<Rightarrow> bridge \<Rightarrow> bool" where
  "ends_inv es s \<longleftrightarrow>
     (br_client_gone s \<longleftrightarrow> ClientGoes \<in> set es) \<and> (br_server_gone s \<longleftrightarrow> ServiceGoes \<in> set es)
     \<and> (br_in_done s \<longrightarrow> br_tcp_closed s) \<and> (br_out_done s \<longrightarrow> br_ws_closed s \<or> br_client_gone s)
     \<and> (br_tcp_closed s \<longrightarrow> br_in_done s \<or> br_out_done s) \<and> (br_ws_closed s \<longrightarrow> br_out_done s)"

lemma ends_inv_pump:
  assumes "ends_inv es s" "pump_step s t"
  shows "ends_inv es t"
  using assms(2) unfolding pump_step_def
proof
  assume "ws_to_tcp s t"
  then show ?thesis using assms(1) by cases (simp_all add: ends_inv_def, blast+)
next
  assume "tcp_to_ws s t"
  then show ?thesis using assms(1) by cases (simp_all add: ends_inv_def)
qed

lemma ends_inv_env: "ends_inv es s \<Longrightarrow> ends_inv (es @ [e]) (env_step e s)"
  by (cases e) (simp_all add: ends_inv_def, blast+)

lemma reaches_ends: "reaches es s \<Longrightarrow> ends_inv es s"
proof (induction rule: reaches.induct)
  case start
  then show ?case by (simp add: ends_inv_def new_bridge_def)
qed (simp_all add: ends_inv_pump ends_inv_env)

lemma in_ok_pump:
  assumes "in_ok sent s" "ws_to_tcp s t"
  shows "in_ok sent t"
  using assms(2)
proof (cases rule: ws_to_tcp.cases)
  case (skip_text d fs)
  then show ?thesis using assms(1) by (simp add: in_ok_def payload_Cons [of "Text d"])
next
  case (write_all d fs)
  then show ?thesis using assms(1) by (auto simp: in_ok_def payload_Cons [of "Binary d"])
next
  case (write_fails d fs n)
  then have "sent = br_tcp_out s @ d @ payload fs"
    using assms(1) by (metis in_ok_def payload_Cons payload_simps(2))
  then have "prefix (br_tcp_out s @ take n d) sent" by (auto simp: take_is_prefix)
  moreover have "br_bytes_in s = length (br_tcp_out s)" using assms(1) by (simp add: in_ok_def)
  ultimately show ?thesis using write_fails by (simp add: in_ok_def)
next
  case read_fails
  then show ?thesis using assms(1) by (simp add: in_ok_def)
qed

lemma out_ok_pump: "out_ok sent s \<Longrightarrow> tcp_to_ws s t \<Longrightarrow> out_ok sent t"
  by (erule tcp_to_ws.cases) (auto simp: out_ok_def)

lemma in_ok_other: "in_ok sent s \<Longrightarrow> tcp_to_ws s t \<Longrightarrow> in_ok sent t"
  by (erule tcp_to_ws.cases) (simp_all add: in_ok_def)

lemma out_ok_other: "out_ok sent s \<Longrightarrow> ws_to_tcp s t \<Longrightarrow> out_ok sent t"
  by (erule ws_to_tcp.cases) (simp_all add: out_ok_def)

lemma in_ok_env:
  assumes "in_ok (client_binary True es) s" "br_client_gone s \<longleftrightarrow> ClientGoes \<in> set es"
  shows "in_ok (client_binary True (es @ [e])) (env_step e s)"
  unfolding client_binary_append using assms by (cases e) (auto simp: in_ok_def)

lemma out_ok_env:
  assumes "out_ok (service_bytes True es) s" "br_server_gone s \<longleftrightarrow> ServiceGoes \<in> set es"
  shows "out_ok (service_bytes True (es @ [e])) (env_step e s)"
proof (cases e)
  case (ServiceSends d)
  show ?thesis
  proof (cases "br_server_gone s \<or> d = [] \<or> port_forward_buf_size < length d")
    case True
    then have "(if True \<and> ServiceGoes \<notin> set es \<and> length d \<le> port_forward_buf_size then d else []) = []" using assms(2) by auto
    then show ?thesis unfolding service_bytes_append ServiceSends using assms True by (simp add: out_ok_def)
  next
    case False
    then show ?thesis unfolding service_bytes_append ServiceSends using assms by (auto simp: out_ok_def)
  qed
qed (unfold service_bytes_append, use assms in \<open>simp_all add: out_ok_def\<close>)

lemma reaches_bytes: "reaches es s \<Longrightarrow> in_ok (client_binary True es) s \<and> out_ok (service_bytes True es) s"
proof (induction rule: reaches.induct)
  case (env es s e)
  have "br_client_gone s \<longleftrightarrow> ClientGoes \<in> set es" "br_server_gone s \<longleftrightarrow> ServiceGoes \<in> set es"
    using reaches_ends [OF env.hyps] by (simp_all add: ends_inv_def)
  with env.IH show ?case using in_ok_env out_ok_env by blast
next
  case (pump es s t)
  then show ?case using in_ok_pump in_ok_other out_ok_pump out_ok_other unfolding pump_step_def by blast
qed (simp add: in_ok_def out_ok_def new_bridge_def)

text \<open>
  C19: the bridge forwards faithfully in both directions.  In every reachable state the service has received
  a prefix of what the client sent in binary frames, and the client a prefix of what the service sent;
  as long as a pump runs, what is missing is exactly what is still queued, in order.  The two byte
  counts are those of what was delivered, and every frame to the client is a non-empty part of at most
  the size of the buffer.
\<close>

theorem bridge_forwards:
  assumes "reaches es s"
  shows "prefix (br_tcp_out s) (client_binary True es) \<and> prefix (concat (br_ws_out s)) (service_bytes True es)
    \<and> (\<not> br_in_done s \<longrightarrow> br_tcp_out s @ payload (br_ws_in s) = client_binary True es)
    \<and> (\<not> br_out_done s \<longrightarrow> concat (br_ws_out s) @ concat (br_tcp_in s) = service_bytes True es)
    \<and> br_bytes_in s = length (br_tcp_out s) \<and> br_bytes_out s = length (concat (br_ws_out s))
    \<and> (\<forall>d \<in> set (br_ws_out s). d \<noteq> [] \<and> length d \<le> 32768)"
  using reaches_bytes [OF assms] by (simp add: in_ok_def out_ok_def port_forward_buf_size_def)

section \<open>The bridge ends\<close>

definition bridge_work :: "bridge \<Rightarrow> nat" where
  "bridge_work s = length (br_ws_in s) + length (br_tcp_in s) + (if br_in_done s then 0 else 1) + (if br_out_done s then 0 else 1)"

lemma pump_step_works: "pump_step s t \<Longrightarrow> bridge_work t < bridge_work s"
  unfolding pump_step_def by (auto simp: bridge_work_def elim!: ws_to_tcpE tcp_to_wsE)

lemma pump_steps_bound: "(pump_step ^^ n) s t \<Longrightarrow> n + bridge_work t \<le> bridge_work s"
proof (induction n arbitrary: t)
  case (Suc n)
  then obtain u where "(pump_step ^^ n) s u" "pump_step u t" by (auto elim: relpowp_Suc_E)
  with Suc.IH [of u] pump_step_works [of u t] show ?case by simp
qed simp

lemma pump_enabled:
  assumes "ends_inv es s" "br_client_gone s \<or> br_server_gone s" "\<not> (br_in_done s \<and> br_out_done s)"
  shows "\<exists>t. pump_step s t"
proof -
  consider "\<not> br_in_done s" "br_client_gone s \<or> br_ws_closed s" | "\<not> br_out_done s" "br_tcp_closed s"
    | "\<not> br_out_done s" "\<not> br_tcp_closed s" "br_server_gone s"
    using assms by (auto simp: ends_inv_def)
  then show ?thesis
  proof cases
    case 1
    then show ?thesis using read_fails pump_step_def by blast
  next
    case 2
    then show ?thesis using tcp_read_fails pump_step_def by blast
  next
    case 3
    show ?thesis
    proof (cases "br_tcp_in s")
      case Nil
      then show ?thesis using 3 tcp_read_fails pump_step_def by blast
    next
      case (Cons d ds)
      then show ?thesis using 3 forward pump_step_def by blast
    qed
  qed
qed

lemma done_stuck: "br_in_done t \<Longrightarrow> br_out_done t \<Longrightarrow> \<not> pump_step t u"
  unfolding pump_step_def by (auto elim: ws_to_tcp.cases tcp_to_ws.cases)

lemma pump_steps_keep: "(pump_step ^^ n) s t \<Longrightarrow> ends_inv es s \<Longrightarrow>
  ends_inv es t \<and> br_client_gone t = br_client_gone s \<and> br_server_gone t = br_server_gone s"
proof (induction n arbitrary: t)
  case (Suc n)
  then obtain u where u: "(pump_step ^^ n) s u" "pump_step u t" by (auto elim: relpowp_Suc_E)
  have "br_client_gone t = br_client_gone u \<and> br_server_gone t = br_server_gone u"
    using u(2) unfolding pump_step_def by (auto elim!: ws_to_tcpE tcp_to_wsE)
  with Suc u ends_inv_pump show ?case by blast
qed simp


text \<open>A run: the client sends a frame and leaves, the service answers.\<close>

definition demo_events :: "env_event list" where
  "demo_events = [ClientSends (Binary ''ping''), ServiceSends ''pong'', ClientGoes]"

definition demo_bridge :: bridge where
  "demo_bridge = new_bridge\<lparr>br_ws_in := [Binary ''ping''], br_tcp_in := [''pong''], br_client_gone := True\<rparr>"

lemma demo_reaches: "reaches demo_events demo_bridge"
proof -
  have "reaches ([] @ [ClientSends (Binary ''ping'')]) (env_step (ClientSends (Binary ''ping'')) new_bridge)"
    by (rule env [OF start])
  note env [OF this, of "ServiceSends ''pong''"]
  note env [OF this, of ClientGoes]
  then show ?thesis by (simp add: demo_events_def demo_bridge_def new_bridge_def port_forward_buf_size_def)
qed

lemma demo_write:
  "ws_to_tcp demo_bridge (demo_bridge\<lparr>br_ws_in := [], br_tcp_out := ''ping'', br_bytes_in := 4\<rparr>)"
proof -
  have "\<not> br_in_done demo_bridge" "br_ws_in demo_bridge = Binary ''ping'' # []" "\<not> br_tcp_closed demo_bridge"
    by (simp_all add: demo_bridge_def new_bridge_def)
  from write_all [OF this] show ?thesis
    by (simp add: demo_bridge_def new_bridge_def eval_nat_numeral)
qed

theorem bridge_forwards_witness:
  "prefix ''ping'' (client_binary True demo_events)"
proof -
  have "reaches demo_events (demo_bridge\<lparr>br_ws_in := [], br_tcp_out := ''ping'', br_bytes_in := 4\<rparr>)"
    by (rule pump [OF demo_reaches]) (simp add: pump_step_def demo_write)
  from bridge_forwards [OF this] show ?thesis by simp
qed


end
