(* ===== verification/ApiExec.thy ===== *)
theory ApiExec
  imports ApiServer Verify "HOL-Library.Word"
begin

text \<open>
  The shell over a WebSocket (\<open>internal/api/exec.go\<close>): the frames and their encoding, with base64 and
  JSON written out, the two pumps, and how a session ends and is reported.  The WebSocket and the
  pseudo-terminal are arguments: what reading them returns, and whether writing them fails.
\<close>

section \<open>Base64\<close>

text \<open>\<open>base64.StdEncoding\<close>.\<close>

definition b64_char :: "nat \<Rightarrow> char" where
  "b64_char n = (if n < 26 then char_of (65 + n) else if n < 52 then char_of (71 + n)
     else if n < 62 then char_of (n - 4) else if n = 62 then CHR ''+'' else CHR ''/'')"

definition b64_val :: "char \<Rightarrow> nat option" where
  "b64_val c = (if between (CHR ''A'') (CHR ''Z'') c then Some (of_char c - 65)
     else if between (CHR ''a'') (CHR ''z'') c then Some (of_char c - 71)
     else if is_digit c then Some (of_char c + 4)
     else if c = CHR ''+'' then Some 62 else if c = CHR ''/'' then Some 63 else None)"

fun base64_encode :: "string \<Rightarrow> string" where
  "base64_encode [] = []"
| "base64_encode [a] = [b64_char (of_char a div 4), b64_char (of_char a mod 4 * 16), CHR ''='', CHR ''='']"
| "base64_encode [a, b] =
     [b64_char (of_char a div 4), b64_char (of_char a mod 4 * 16 + of_char b div 16), b64_char (of_char b mod 16 * 4), CHR ''='']"
| "base64_encode (a # b # c # s) =
     [b64_char (of_char a div 4), b64_char (of_char a mod 4 * 16 + of_char b div 16),
      b64_char (of_char b mod 16 * 4 + of_char c div 64), b64_char (of_char c mod 64)] @ base64_encode s"

definition first_byte :: "nat \<Rightarrow> nat \<Rightarrow> char" where "first_byte w x = char_of (w * 4 + x div 16)"
definition second_byte :: "nat \<Rightarrow> nat \<Rightarrow> char" where "second_byte x y = char_of (x mod 16 * 16 + y div 4)"
definition third_byte :: "nat \<Rightarrow> nat \<Rightarrow> char" where "third_byte y z = char_of (y mod 4 * 64 + z)"

fun b64_quads :: "string \<Rightarrow> string option" where
  "b64_quads [] = Some []"
| "b64_quads (a # b # c # d # s) =
     (case (b64_val a, b64_val b) of
        (Some w, Some x) \<Rightarrow>
          if c = CHR ''='' then (if d = CHR ''='' \<and> s = [] then Some [first_byte w x] else None)
          else (case b64_val c of
                  None \<Rightarrow> None
                | Some y \<Rightarrow>
                    if d = CHR ''='' then (if s = [] then Some [first_byte w x, second_byte x y] else None)
                    else (case (b64_val d, b64_quads s) of
                            (Some z, Some r) \<Rightarrow> Some (first_byte w x # second_byte x y # third_byte y z # r)
                          | _ \<Rightarrow> None))
      | _ \<Rightarrow> None)"
| "b64_quads _ = None"

text \<open>The decoder skips line breaks wherever they are.\<close>

definition base64_decode :: "string \<Rightarrow> string option" where
  "base64_decode s = b64_quads (filter (\<lambda>c. c \<noteq> newline \<and> c \<noteq> CHR 0x0D) s)"

definition b64_plain :: "char \<Rightarrow> bool" where
  "b64_plain c \<longleftrightarrow> c \<noteq> newline \<and> c \<noteq> CHR 0x0D \<and> c \<noteq> CHR 0x22 \<and> c \<noteq> CHR 0x5C \<and> (32::nat) \<le> of_char c \<and> c \<noteq> CHR 0x09"

lemma b64_table: "list_all (\<lambda>n. b64_val (b64_char n) = Some n \<and> b64_char n \<noteq> CHR ''='' \<and> b64_plain (b64_char n)) [0..<64]"
  by code_simp

lemma b64_char_props:
  assumes "n < 64"
  shows "b64_val (b64_char n) = Some n" "b64_char n \<noteq> CHR ''=''" "b64_plain (b64_char n)"
  using b64_table assms by (auto simp: list_all_iff)

lemma char_code_bound [simp]: "(of_char (c :: char) :: nat) < 256"
  by (metis UNIV_I imageI lessThan_iff of_char_eq_iff range_nat_of_char atLeastLessThan_iff)

lemma sextets:
  assumes "a < 256" "b < 256" "c < (256 :: nat)"
  shows "a div 4 < 64" "a mod 4 * 16 < 64" "a mod 4 * 16 + b div 16 < 64" "b mod 16 * 4 < 64"
    "b mod 16 * 4 + c div 64 < 64" "c mod 64 < 64"
proof -
  have q: "b div 16 < 16" "c div 64 < 4" "a mod 4 < 4" "b mod 16 < 16"
    using assms by (auto intro: less_mult_imp_div_less)
  show "a div 4 < 64" "c mod 64 < 64" using assms by (auto intro: less_mult_imp_div_less)
  show "a mod 4 * 16 < 64" "a mod 4 * 16 + b div 16 < 64" "b mod 16 * 4 < 64" "b mod 16 * 4 + c div 64 < 64"
    using q by linarith+
qed

lemma bytes_back:
  fixes a b c :: char
  shows "first_byte (of_char a div 4) (of_char a mod 4 * 16) = a"
    "first_byte (of_char a div 4) (of_char a mod 4 * 16 + of_char b div 16) = a"
    "second_byte (of_char a mod 4 * 16 + of_char b div 16) (of_char b mod 16 * 4) = b"
    "second_byte (of_char a mod 4 * 16 + of_char b div 16) (of_char b mod 16 * 4 + of_char c div 64) = b"
    "third_byte (of_char b mod 16 * 4 + of_char c div 64) (of_char c mod 64) = c"
proof -
  have q: "(of_char b :: nat) div 16 < 16" "(of_char c :: nat) div 64 < 4"
    by (auto intro: less_mult_imp_div_less)
  show "first_byte (of_char a div 4) (of_char a mod 4 * 16) = a" by (simp add: first_byte_def)
  have "(of_char a mod 4 * 16 + of_char b div 16) div 16 = (of_char a mod 4 :: nat)"
    "(of_char a mod 4 * 16 + of_char b div 16) mod 16 = (of_char b div 16 :: nat)"
    using q(1) by (simp_all add: div_mult_self3 mod_mult_self3)
  moreover have "(of_char b mod 16 * 4 + of_char c div 64) div 4 = (of_char b mod 16 :: nat)"
    "(of_char b mod 16 * 4 + of_char c div 64) mod 4 = (of_char c div 64 :: nat)"
    using q(2) by (simp_all add: div_mult_self3 mod_mult_self3)
  ultimately show "first_byte (of_char a div 4) (of_char a mod 4 * 16 + of_char b div 16) = a"
    "second_byte (of_char a mod 4 * 16 + of_char b div 16) (of_char b mod 16 * 4) = b"
    "second_byte (of_char a mod 4 * 16 + of_char b div 16) (of_char b mod 16 * 4 + of_char c div 64) = b"
    "third_byte (of_char b mod 16 * 4 + of_char c div 64) (of_char c mod 64) = c"
    unfolding first_byte_def second_byte_def third_byte_def by simp_all
qed

lemmas char_sextets = sextets [OF char_code_bound char_code_bound char_code_bound]

lemma b64_plain_encode: "c \<in> set (base64_encode s) \<Longrightarrow> b64_plain c"
proof (induction s rule: base64_encode.induct)
  case (2 a)
  have "b64_plain (CHR ''='')" by code_simp
  with 2 show ?case by (auto simp: b64_char_props char_sextets)
next
  case (3 a b)
  have "b64_plain (CHR ''='')" by code_simp
  with 3 show ?case by (auto simp: b64_char_props char_sextets)
next
  case (4 a b c s)
  then show ?case by (auto simp: b64_char_props char_sextets)
qed simp

lemma b64_quads_encode: "b64_quads (base64_encode s) = Some s"
  by (induction s rule: base64_encode.induct) (simp_all add: b64_char_props char_sextets bytes_back)

lemma base64_roundtrip: "base64_decode (base64_encode s) = Some s"
proof -
  have "filter (\<lambda>c. c \<noteq> newline \<and> c \<noteq> CHR 0x0D) (base64_encode s) = base64_encode s"
    using b64_plain_encode by (fastforce simp: filter_id_conv b64_plain_def)
  then show ?thesis by (simp add: base64_decode_def b64_quads_encode)
qed

section \<open>Frames\<close>

record exec_frame =
  xf_type :: string
  xf_data :: string
  xf_cols :: "16 word"
  xf_rows :: "16 word"
  xf_code :: int

text \<open>
  Decoding a frame.  A number outside \<open>uint16\<close> is an error; a number written with a fraction or an
  exponent is read as the integer it denotes, where Go refuses it.
\<close>

definition word_field :: "string \<Rightarrow> (string \<times> jval) list \<Rightarrow> 16 word option" where
  "word_field name kvs =
     (case int_field name 0 kvs of
        None \<Rightarrow> None
      | Some n \<Rightarrow> if 0 \<le> n \<and> n < 2 ^ 16 then Some (word_of_int n) else None)"

definition decode_exec_frame :: "string \<Rightarrow> exec_frame option" where
  "decode_exec_frame txt =
     (case json_parse txt of
        Some (JObj kvs) \<Rightarrow>
          (case (string_field ''type'' [] kvs, string_field ''data'' [] kvs, word_field ''cols'' kvs,
                 word_field ''rows'' kvs, int_field ''code'' 0 kvs) of
             (Some t, Some d, Some c, Some r, Some n) \<Rightarrow>
               Some \<lparr>xf_type = t, xf_data = d, xf_cols = c, xf_rows = r, xf_code = n\<rparr>
           | _ \<Rightarrow> None)
      | Some JNull \<Rightarrow> Some \<lparr>xf_type = [], xf_data = [], xf_cols = 0, xf_rows = 0, xf_code = 0\<rparr>
      | _ \<Rightarrow> None)"

text \<open>\<open>json.Marshal\<close> of the frames the server sends, whose strings need no escaping.\<close>

definition marshal_frame :: "exec_frame \<Rightarrow> string" where
  "marshal_frame f =
     CHR ''{'' # quote ''type'' @ CHR '':'' # quote (xf_type f)
     @ (if xf_data f = [] then [] else CHR '','' # quote ''data'' @ CHR '':'' # quote (xf_data f))
     @ (if xf_cols f = 0 then [] else CHR '','' # quote ''cols'' @ CHR '':'' # dec_int (uint (xf_cols f)))
     @ (if xf_rows f = 0 then [] else CHR '','' # quote ''rows'' @ CHR '':'' # dec_int (uint (xf_rows f)))
     @ (if xf_code f = 0 then [] else CHR '','' # quote ''code'' @ CHR '':'' # dec_int (xf_code f)) @ ''}''"

section \<open>From the terminal to the client\<close>

datatype exec_err = ErrEOF | ErrCanceled | ErrDeadline | ErrCloseStatus int | ErrOther string

definition stdout_frame :: "string \<Rightarrow> exec_frame" where
  "stdout_frame d = \<lparr>xf_type = ''stdout'', xf_data = base64_encode d, xf_cols = 0, xf_rows = 0, xf_code = 0\<rparr>"

text \<open>
  \<open>pumpPTYToWS\<close>: the reads of the terminal, each with its bytes and error, and the results of the
  writes in order.  Result: the frames written and what ends the pump, if anything does.
\<close>

fun pump_pty_to_ws :: "(string \<times> exec_err option) list \<Rightarrow> exec_err option list \<Rightarrow> string list \<times> exec_err option" where
  "pump_pty_to_ws [] ws = ([], None)"
| "pump_pty_to_ws ((d, e) # rs) ws =
     (if d = [] then (case e of Some err \<Rightarrow> ([], Some err) | None \<Rightarrow> pump_pty_to_ws rs ws)
      else case ws of
        Some werr # _ \<Rightarrow> ([], Some werr)
      | _ \<Rightarrow>
          (case e of
             Some err \<Rightarrow> ([marshal_frame (stdout_frame d)], Some err)
           | None \<Rightarrow> apfst ((#) (marshal_frame (stdout_frame d))) (pump_pty_to_ws rs (tl ws))))"

section \<open>From the client to the terminal\<close>

record terminal =
  tm_input :: string
  tm_size :: "16 word \<times> 16 word"

text \<open>\<open>applyClientFrame\<close>; \<open>writable\<close> is whether the terminal takes input.\<close>

definition apply_client_frame :: "exec_err option \<Rightarrow> exec_frame \<Rightarrow> terminal \<Rightarrow> exec_err option \<times> terminal" where
  "apply_client_frame write_err f t =
     (if xf_type f = ''stdin'' then
        (case base64_decode (xf_data f) of
           None \<Rightarrow> (None, t)
         | Some raw \<Rightarrow> (case write_err of Some e \<Rightarrow> (Some e, t) | None \<Rightarrow> (None, t\<lparr>tm_input := tm_input t @ raw\<rparr>)))
      else if xf_type f = ''resize'' then
        (if xf_cols f = 0 \<or> xf_rows f = 0 then (None, t) else (None, t\<lparr>tm_size := (xf_cols f, xf_rows f)\<rparr>))
      else (None, t))"

datatype ws_read = ReadText string | ReadBinary string | ReadFails exec_err

fun pump_ws_to_pty :: "(nat \<Rightarrow> exec_err option) \<Rightarrow> ws_read list \<Rightarrow> terminal \<Rightarrow> exec_err option \<times> terminal" where
  "pump_ws_to_pty werr [] t = (None, t)"
| "pump_ws_to_pty werr (ReadFails e # rs) t = (Some e, t)"
| "pump_ws_to_pty werr (ReadBinary _ # rs) t = pump_ws_to_pty werr rs t"
| "pump_ws_to_pty werr (ReadText txt # rs) t =
     (case decode_exec_frame txt of
        None \<Rightarrow> pump_ws_to_pty werr rs t
      | Some f \<Rightarrow>
          (case apply_client_frame (werr (length rs)) f t of
             (Some e, t') \<Rightarrow> (Some e, t')
           | (None, t') \<Rightarrow> pump_ws_to_pty werr rs t'))"

section \<open>How a session ends\<close>

fun is_clean_close :: "exec_err option \<Rightarrow> bool" where
  "is_clean_close None = True"
| "is_clean_close (Some ErrEOF) = True"
| "is_clean_close (Some ErrCanceled) = True"
| "is_clean_close (Some ErrDeadline) = True"
| "is_clean_close (Some (ErrCloseStatus c)) = (c \<in> {1000, 1001, 1005})"
| "is_clean_close (Some (ErrOther _)) = False"

text \<open>What \<open>awaitTermination\<close> takes first; it answers whether the client closed, and the error.\<close>

datatype exec_end = PtyDone "exec_err option" | WsDone "exec_err option" | CtxDone exec_err

fun await_termination :: "exec_end \<Rightarrow> bool \<times> exec_err option" where
  "await_termination (PtyDone e) = (False, if e \<noteq> None \<and> e \<noteq> Some ErrEOF then e else None)"
| "await_termination (WsDone e) = (if is_clean_close e then (True, None) else (False, e))"
| "await_termination (CtxDone e) = (False, Some e)"

fun exec_wait_code :: "bool \<Rightarrow> run_err \<Rightarrow> int" where
  "exec_wait_code client_closed RunOk = 0"
| "exec_wait_code client_closed (ExitError c) = (if c < 0 \<and> client_closed then 0 else c)"
| "exec_wait_code client_closed (OtherError _) = - 1"

text \<open>
  \<open>runExecSession\<close>: the code, the error and the last frame, if the session started.
\<close>

definition run_exec_session :: "exec_err option \<Rightarrow> exec_end \<Rightarrow> run_err \<Rightarrow> int \<times> exec_err option \<times> string option" where
  "run_exec_session start_err ending wait =
     (case start_err of
        Some e \<Rightarrow> (- 1, Some e, None)
      | None \<Rightarrow>
          (case await_termination ending of
             (gone, err) \<Rightarrow>
               let code = exec_wait_code gone wait
               in (code, err, Some (marshal_frame \<lparr>xf_type = ''exit'', xf_data = [], xf_cols = 0, xf_rows = 0, xf_code = code\<rparr>))))"

text \<open>The line \<open>execHandler\<close> logs, without its duration: an error or the exit code.\<close>

datatype exec_log = LoggedError exec_err | LoggedExit int

definition exec_handler_log :: "exec_err option \<Rightarrow> exec_end \<Rightarrow> run_err \<Rightarrow> exec_log" where
  "exec_handler_log start_err ending wait =
     (case run_exec_session start_err ending wait of
        (code, Some e, _) \<Rightarrow> if is_clean_close (Some e) then LoggedExit code else LoggedError e
      | (code, None, _) \<Rightarrow> LoggedExit code)"

section \<open>The client sees what the shell writes\<close>

lemma json_string_plain: "\<forall>c \<in> set s. b64_plain c \<Longrightarrow> json_string (s @ CHR 0x22 # r) = Some (s, r)"
  by (induction s) (auto simp: b64_plain_def)

lemma quote_plain: "\<forall>c \<in> set s. b64_plain c \<Longrightarrow> quote s = CHR 0x22 # s @ [CHR 0x22]"
proof -
  assume "\<forall>c \<in> set s. b64_plain c"
  then have "concat (map esc_char s) = s" by (induction s) (auto simp: b64_plain_def)
  then show ?thesis by (simp add: quote_def)
qed

lemma skip_ws_char [simp]: "\<not> json_space c \<Longrightarrow> skip_ws (c # s) = c # s"
  by (simp add: skip_ws_def)

lemma json_spaces [simp]:
  "\<not> json_space (CHR 0x22)" "\<not> json_space (CHR '':'')" "\<not> json_space (CHR '','')" "\<not> json_space (CHR ''{'')" "\<not> json_space (CHR ''}'')"
  by (simp_all add: json_space_def)

lemma json_member:
  assumes "\<forall>c \<in> set k. b64_plain c" "\<forall>c \<in> set v. b64_plain c" "e \<in> {CHR '','', CHR ''}''}"
  shows "json_members (Suc (Suc n)) (CHR 0x22 # k @ CHR 0x22 # CHR '':'' # CHR 0x22 # v @ CHR 0x22 # e # rest) =
     (if e = CHR ''}'' then Some ([(k, JStr v)], rest)
      else map_option (apfst (Cons (k, JStr v))) (json_members (Suc n) rest))"
  using assms by (auto simp: json_string_plain apfst_def map_prod_def)

definition client_bytes :: "string \<Rightarrow> string" where
  "client_bytes txt =
     (case decode_exec_frame txt of
        Some f \<Rightarrow> (if xf_type f = ''stdout'' then (case base64_decode (xf_data f) of Some d \<Rightarrow> d | None \<Rightarrow> []) else [])
      | None \<Rightarrow> [])"

definition stdout_members :: "string \<Rightarrow> string" where
  "stdout_members b = CHR 0x22 # ''type'' @ CHR 0x22 # CHR '':'' # CHR 0x22 # ''stdout'' @ CHR 0x22 # CHR '','' #
     (CHR 0x22 # ''data'' @ CHR 0x22 # CHR '':'' # CHR 0x22 # b @ CHR 0x22 # CHR ''}'' # [])"

lemma marshal_stdout_frame:
  assumes "d \<noteq> []"
  shows "marshal_frame (stdout_frame d) = CHR ''{'' # stdout_members (base64_encode d)"
proof -
  have ne: "base64_encode d \<noteq> []" using assms by (cases d rule: base64_encode.cases) auto
  have q: "quote (base64_encode d) = CHR 0x22 # base64_encode d @ [CHR 0x22]"
    using b64_plain_encode by (intro quote_plain) blast
  show ?thesis by (simp add: marshal_frame_def stdout_frame_def q ne) (simp add: quote_def stdout_members_def)
qed

lemma json_stdout_members:
  assumes "\<forall>c \<in> set b. b64_plain c"
  shows "json_members (Suc (Suc (Suc n))) (stdout_members b) = Some ([(''type'', JStr ''stdout''), (''data'', JStr b)], [])"
proof -
  have p: "\<forall>c \<in> set ''type''. b64_plain c" "\<forall>c \<in> set ''stdout''. b64_plain c" "\<forall>c \<in> set ''data''. b64_plain c"
    by (simp_all add: b64_plain_def)
  have "json_members (Suc (Suc n)) (CHR 0x22 # ''data'' @ CHR 0x22 # CHR '':'' # CHR 0x22 # b @ CHR 0x22 # CHR ''}'' # [])
      = Some ([(''data'', JStr b)], [])"
    by (subst json_member [OF p(3) assms]) simp_all
  then show ?thesis unfolding stdout_members_def by (subst json_member [OF p(1,2)]) simp_all
qed

lemma json_object: "json_value (Suc n) (CHR ''{'' # CHR 0x22 # r) = map_option (apfst JObj) (json_members n (CHR 0x22 # r))"
  by (simp del: json_members.simps)

lemma lower_names: "to_lower ''type'' = ''type''" "to_lower ''data'' = ''data''" "to_lower ''cols'' = ''cols''"
  "to_lower ''rows'' = ''rows''" "to_lower ''code'' = ''code''"
  by code_simp+

lemma json_parse_stdout:
  assumes "\<forall>c \<in> set b. b64_plain c"
  shows "json_parse (CHR ''{'' # stdout_members b) = Some (JObj [(''type'', JStr ''stdout''), (''data'', JStr b)])"
proof -
  let ?s = "CHR ''{'' # stdout_members b"
  have h: "\<exists>r. stdout_members b = CHR 0x22 # r" by (simp add: stdout_members_def)
  have "json_value (2 * length ?s) ?s = json_value (Suc (Suc (Suc (Suc (2 * length ?s))))) ?s"
    by (rule json_fuel [symmetric]) simp
  also have "\<dots> = map_option (apfst JObj) (json_members (Suc (Suc (Suc (2 * length ?s)))) (stdout_members b))"
    using h json_object by metis
  also have "\<dots> = Some (JObj [(''type'', JStr ''stdout''), (''data'', JStr b)], [])"
    unfolding json_stdout_members [OF assms] by simp
  finally show ?thesis unfolding json_parse_def by (simp only: option.case prod.case) (simp add: skip_ws_def)
qed

lemma decode_stdout_frame:
  assumes "d \<noteq> []"
  shows "decode_exec_frame (marshal_frame (stdout_frame d)) = Some (stdout_frame d)"
proof -
  have "json_parse (CHR ''{'' # stdout_members (base64_encode d))
      = Some (JObj [(''type'', JStr ''stdout''), (''data'', JStr (base64_encode d))])"
    using b64_plain_encode by (intro json_parse_stdout) blast
  then show ?thesis
    by (simp add: marshal_stdout_frame [OF assms] decode_exec_frame_def word_field_def lower_names) (simp add: stdout_frame_def)
qed

lemma client_bytes_stdout:
  assumes "d \<noteq> []"
  shows "client_bytes (marshal_frame (stdout_frame d)) = d"
  unfolding client_bytes_def decode_stdout_frame [OF assms] by (simp add: stdout_frame_def base64_roundtrip)

text \<open>
  C26: the output of the shell reaches the client unchanged.  Decoding the frames of the output pump - JSON,
  then base64 - and joining them gives a prefix of what the terminal was read to hold, whatever bytes
  those are, and all of it unless a write to the WebSocket fails.
\<close>

theorem exec_output_roundtrip:
  "prefix (concat (map client_bytes (fst (pump_pty_to_ws rs ws)))) (concat (map fst rs))
   \<and> (list_all (\<lambda>w. w = None) ws \<and> list_all (\<lambda>r. snd r = None) (butlast rs)
      \<longrightarrow> concat (map client_bytes (fst (pump_pty_to_ws rs ws))) = concat (map fst rs)
        \<and> snd (pump_pty_to_ws rs ws) = (if rs = [] then None else snd (last rs)))"
proof (induction rs ws rule: pump_pty_to_ws.induct)
  case (2 d e rs ws)
  show ?case
  proof (cases "d = []")
    case True
    then show ?thesis using 2 by (cases e) auto
  next
    case False
    note c = client_bytes_stdout [OF False]
    show ?thesis
    proof (cases "\<exists>w ws'. ws = Some w # ws'")
      case True
      then show ?thesis using False by auto
    next
      case ok: False
      then have "pump_pty_to_ws ((d, e) # rs) ws =
          (case e of Some err \<Rightarrow> ([marshal_frame (stdout_frame d)], Some err)
           | None \<Rightarrow> apfst ((#) (marshal_frame (stdout_frame d))) (pump_pty_to_ws rs (tl ws)))"
        using False by (auto split: list.split option.split)
      moreover have "list_all (\<lambda>w. w = None) ws \<Longrightarrow> list_all (\<lambda>w. w = None) (tl ws)" by (cases ws) auto
      moreover have "prefix (concat (map client_bytes (fst (pump_pty_to_ws rs (tl ws))))) (concat (map fst rs))
         \<and> (list_all (\<lambda>w. w = None) (tl ws) \<and> list_all (\<lambda>r. snd r = None) (butlast rs)
            \<longrightarrow> concat (map client_bytes (fst (pump_pty_to_ws rs (tl ws)))) = concat (map fst rs)
              \<and> snd (pump_pty_to_ws rs (tl ws)) = (if rs = [] then None else snd (last rs)))" if "e = None"
        using 2 False ok that by (cases ws; cases "hd ws") auto
      ultimately show ?thesis using c by (cases e) (auto split: if_splits)
    qed
  qed
qed simp

theorem exec_output_roundtrip_witness:
  "concat (map client_bytes (fst (pump_pty_to_ws [(''hi'', None), (''$ '', Some ErrEOF)] [None, None]))) = ''hi$ ''"
  using exec_output_roundtrip [of "[(''hi'', None), (''$ '', Some ErrEOF)]" "[None, None]"] by simp

section \<open>The shell sees what the client types\<close>

definition read_frame :: "ws_read \<Rightarrow> exec_frame option" where
  "read_frame r = (case r of ReadText txt \<Rightarrow> decode_exec_frame txt | _ \<Rightarrow> None)"

definition typed :: "ws_read \<Rightarrow> string" where
  "typed r = (case read_frame r of
     Some f \<Rightarrow> if xf_type f = ''stdin'' then (case base64_decode (xf_data f) of Some d \<Rightarrow> d | None \<Rightarrow> []) else []
   | None \<Rightarrow> [])"

definition resized :: "ws_read \<Rightarrow> (16 word \<times> 16 word) list" where
  "resized r = (case read_frame r of
     Some f \<Rightarrow> if xf_type f = ''resize'' \<and> xf_cols f \<noteq> 0 \<and> xf_rows f \<noteq> 0 then [(xf_cols f, xf_rows f)] else []
   | None \<Rightarrow> [])"

fun read_error :: "ws_read \<Rightarrow> exec_err option" where
  "read_error (ReadFails e) = Some e"
| "read_error _ = None"

lemma apply_client_frame_ok:
  "read_frame r = Some f \<Longrightarrow> apply_client_frame None f t
     = (None, t\<lparr>tm_input := tm_input t @ typed r, tm_size := last (tm_size t # resized r)\<rparr>)"
  by (auto simp: apply_client_frame_def typed_def resized_def split: option.splits)

text \<open>
  what the client types reaches the shell.  While writing to the terminal succeeds, its input grows by
  the decoded data of exactly the well-formed \<open>stdin\<close> frames before the first failing read, in order,
  and its size is that of the last \<open>resize\<close> frame with two positive sides; frames that are not text,
  not JSON or not base64 change nothing, and only a failing read ends the pump.
\<close>

theorem exec_input_exact:
  "pump_ws_to_pty (\<lambda>_. None) rs t =
     (let seen = takeWhile (\<lambda>r. read_error r = None) rs
      in (if seen = rs then None else read_error (rs ! length seen),
          t\<lparr>tm_input := tm_input t @ concat (map typed seen), tm_size := last (tm_size t # concat (map resized seen))\<rparr>))"
proof (induction rs arbitrary: t)
  case (Cons r rs)
  show ?case
  proof (cases r)
    case (ReadText body)
    show ?thesis
    proof (cases "decode_exec_frame body")
      case None
      then have "typed r = []" "resized r = []" by (simp_all add: typed_def resized_def read_frame_def ReadText)
      then show ?thesis using Cons.IH [of t] None ReadText by (simp add: Let_def)
    next
      case (Some f)
      have "apply_client_frame None f t = (None, t\<lparr>tm_input := tm_input t @ typed r, tm_size := last (tm_size t # resized r)\<rparr>)"
        by (rule apply_client_frame_ok) (simp add: read_frame_def ReadText Some)
      then show ?thesis using Cons.IH Some ReadText by (simp add: Let_def)
    qed
  next
    case (ReadBinary d)
    then have "typed r = []" "resized r = []" by (simp_all add: typed_def resized_def read_frame_def)
    then show ?thesis using Cons.IH [of t] ReadBinary by (simp add: Let_def)
  qed (simp add: Let_def)
qed (simp add: Let_def)

end
