(* ===== verification/Render.thy ===== *)
theory Render
  imports Snapshots Glob
begin

text \<open>
  The render tools (\<open>internal/tools/render.go\<close>): \<open>render_mermaid\<close> and \<open>render_dot\<close>.  The renderer is an
  argument: from its arguments, its input and the file system it returns how it ended and the file
  system it leaves.  The random part of the temporary name and the failures of writing the temporary
  file are arguments too.
\<close>

section \<open>Arguments\<close>

definition max_render_source_bytes :: nat where "max_render_source_bytes = 1 * 1024 * 1024"
definition max_render_output_bytes :: nat where "max_render_output_bytes = 10 * 1024 * 1024"
definition default_render_timeout_sec :: int where "default_render_timeout_sec = 60"
definition max_render_timeout_sec :: int where "max_render_timeout_sec = 300"

definition supported_render_formats :: "(string \<times> string) list" where
  "supported_render_formats = [(''.svg'', ''svg''), (''.png'', ''png''), (''.pdf'', ''pdf'')]"

datatype render_kind = RenderMermaid | RenderDot

fun render_tool_name :: "render_kind \<Rightarrow> string" where
  "render_tool_name RenderMermaid = ''render_mermaid''"
| "render_tool_name RenderDot = ''render_dot''"

definition parse_render_args :: "args \<Rightarrow> string + (string \<times> string \<times> int)" where
  "parse_render_args a =
     (let source = arg_str0 a ''source''; out = arg_str0 a ''output_path''
      in if source = [] then Inl ''source is required''
         else if max_render_source_bytes < length source then
           Inl (''source '' @ dec_nat (length source) @ '' bytes exceeds cap '' @ dec_nat max_render_source_bytes)
         else if out = [] then Inl ''output_path is required''
         else Inr (source, out, clamp_arg default_render_timeout_sec max_render_timeout_sec a ''timeout''))"

definition infer_render_format :: "string \<Rightarrow> string + string" where
  "infer_render_format out =
     (let ext = to_lower (fp_ext out)
      in case map_of supported_render_formats ext of
           None \<Rightarrow> Inl (''unsupported output extension '' @ quote ext @ ''; supported: .svg, .png, .pdf'')
         | Some fm \<Rightarrow> Inr fm)"

definition resolve_render_output :: "workspace \<Rightarrow> file_session \<Rightarrow> string \<Rightarrow> (string + string) \<times> file_session" where
  "resolve_render_output w s out =
     (case resolve (se_fs s) w out of
        Inl e \<Rightarrow> (Inl (''resolve path: '' @ resolve_err_text e), note_violation e s)
      | Inr r \<Rightarrow>
          if k_stat (se_fs s) r = Inr NDir then (Inl (''output_path is a directory: '' @ out), s)
          else case mkdir_all (length r) (se_fs s) (fp_dir r) of
                 Inl e \<Rightarrow> (Inl (''mkdir: '' @ path_error ''mkdir'' (fp_dir r) e), s)
               | Inr f \<Rightarrow> (Inr r, s\<lparr>se_fs := f\<rparr>))"

section \<open>The renderers\<close>

text \<open>Argument list, working directory and standard input to the process and what it leaves.\<close>

type_synonym renderer = "string list \<Rightarrow> string \<Rightarrow> string \<Rightarrow> fs \<Rightarrow> proc \<times> fs"

record render_env =
  re_on_path :: "string \<Rightarrow> bool"
  re_run :: renderer
  re_ls :: lister
  re_random :: string
  re_write :: "(nat \<times> errno) option"
  re_close :: "errno option"

definition missing_text :: "string \<Rightarrow> string" where
  "missing_text name = name @ '' not found on PATH '' @ em_dash
     @ '' compose the codegen-sandbox-tools-render layer or install ''"

definition try_remove :: "lister \<Rightarrow> fs \<Rightarrow> string \<Rightarrow> fs" where
  "try_remove ls f p = (case os_remove ls f p of Inl _ \<Rightarrow> f | Inr f' \<Rightarrow> f')"

text \<open>The error, whether the deadline had passed, and the file system.\<close>

definition run_renderer :: "render_env \<Rightarrow> string list \<Rightarrow> string \<Rightarrow> string \<Rightarrow> fs \<Rightarrow> string option \<times> bool \<times> fs" where
  "run_renderer env argv cwd input f =
     (case re_run env argv cwd input f of
        (p, f') \<Rightarrow>
          (if p_err p = RunOk then None
           else Some (hd argv @ '': '' @ run_err_text (p_err p) @ '': '' @ trim_space (p_stderr p)),
           p_deadline p, f'))"

definition mmd_name :: "string \<Rightarrow> string" where "mmd_name rnd = ''.render-'' @ rnd @ ''.mmd''"

definition run_mermaid :: "render_env \<Rightarrow> string \<Rightarrow> string \<Rightarrow> string \<Rightarrow> fs \<Rightarrow> string option \<times> bool \<times> fs" where
  "run_mermaid env cwd source out f =
     (if \<not> re_on_path env ''mmdc'' then
        (Some (missing_text ''mermaid-cli (mmdc)'' @ ''mmdc on the sandbox image''), False, f)
      else
        let tmp = fp_join (fp_dir out) (mmd_name (re_random env))
        in case k_create_excl f tmp of
             Inl e \<Rightarrow> (Some (''tempfile: '' @ path_error ''open'' tmp e), False, f)
           | Inr (q, f1) \<Rightarrow>
               (case re_write env of
                  Some (k, e) \<Rightarrow>
                    (Some (''write tempfile: '' @ path_error ''write'' tmp e), False,
                     try_remove (re_ls env) (f1(q \<mapsto> NFile (take k source))) tmp)
                | None \<Rightarrow>
                    let f2 = f1(q \<mapsto> NFile source)
                    in case re_close env of
                         Some e \<Rightarrow> (Some (''close tempfile: '' @ path_error ''close'' tmp e), False, try_remove (re_ls env) f2 tmp)
                       | None \<Rightarrow>
                           (case run_renderer env [''mmdc'', ''-i'', tmp, ''-o'', out] cwd [] f2 of
                              (err, late, f3) \<Rightarrow> (err, late, try_remove (re_ls env) f3 tmp))))"

definition run_dot :: "render_env \<Rightarrow> string \<Rightarrow> string \<Rightarrow> string \<Rightarrow> string \<Rightarrow> fs \<Rightarrow> string option \<times> bool \<times> fs" where
  "run_dot env cwd source fm out f =
     (if \<not> re_on_path env ''dot'' then (Some (missing_text ''graphviz (dot)'' @ ''graphviz on the sandbox image''), False, f)
      else run_renderer env [''dot'', ''-T'' @ fm, ''-o'', out] cwd source f)"

fun run_render_subprocess :: "render_env \<Rightarrow> string \<Rightarrow> render_kind \<Rightarrow> string \<Rightarrow> string \<Rightarrow> string \<Rightarrow> fs \<Rightarrow> string option \<times> bool \<times> fs" where
  "run_render_subprocess env cwd RenderMermaid source fm out f = run_mermaid env cwd source out f"
| "run_render_subprocess env cwd RenderDot source fm out f = run_dot env cwd source fm out f"

section \<open>The handler\<close>

text \<open>\<open>info.Size()\<close>; the size of a directory is left at 0.\<close>

fun node_size :: "node \<Rightarrow> nat" where
  "node_size (NFile d) = length d"
| "node_size _ = 0"

definition handle_render :: "render_env \<Rightarrow> render_kind \<Rightarrow> workspace \<Rightarrow> args \<Rightarrow> file_session \<Rightarrow> tool_result \<times> file_session" where
  "handle_render env kind w a s =
     (case parse_render_args a of
        Inl e \<Rightarrow> (ErrorResult e, s)
      | Inr (source, out, timeout) \<Rightarrow>
          (case infer_render_format out of
             Inl e \<Rightarrow> (ErrorResult e, s)
           | Inr fm \<Rightarrow>
               (case resolve_render_output w s out of
                  (Inl e, s1) \<Rightarrow> (ErrorResult e, s1)
                | (Inr r, s1) \<Rightarrow>
                    let fail = (\<lambda>e. ErrorResult (render_tool_name kind @ '': '' @ e))
                    in case run_render_subprocess env (ws_root w) kind source fm r (se_fs s1) of
                         (Some e, late, f) \<Rightarrow>
                           (fail (if late then ''timed out after '' @ dec_int timeout @ ''s'' else e),
                            s1\<lparr>se_fs := try_remove (re_ls env) f r\<rparr>)
                       | (None, late, f) \<Rightarrow>
                           (case k_stat f r of
                              Inl e \<Rightarrow> (fail (''stat output: '' @ path_error ''stat'' r e), s1\<lparr>se_fs := f\<rparr>)
                            | Inr nd \<Rightarrow>
                                if max_render_output_bytes < node_size nd then
                                  (fail (''output '' @ dec_nat (node_size nd) @ '' bytes exceeds cap ''
                                     @ dec_nat max_render_output_bytes @ ''; reduce diagram complexity or use a lighter format''),
                                   s1\<lparr>se_fs := try_remove (re_ls env) f r\<rparr>)
                                else
                                  (TextResult (''wrote '' @ dec_nat (node_size nd) @ '' bytes to '' @ out @ '' ('' @ fm @ '')''),
                                   s1\<lparr>se_fs := f, se_tracker := mark_read (se_tracker s1) r\<rparr>)))))"

section \<open>What a call touches\<close>

text \<open>
  The renderer writes its output file and nothing else: the assumption on \<open>mmdc\<close> and \<open>dot\<close>, whose last
  argument is the file of the option \<open>-o\<close>.
\<close>

definition renderer_ok :: "renderer \<Rightarrow> bool" where
  "renderer_ok run \<longleftrightarrow> (\<forall>argv cwd input f q. list_all plain q \<and> last argv = abs_path q \<longrightarrow>
     snd (run argv cwd input f) = f \<or> (\<exists>d. snd (run argv cwd input f) = f(q \<mapsto> NFile d)))"

text \<open>The file systems that differ from \<open>f\<close> in the file \<open>c\<close> of the directory \<open>d\<close> and in new files beside it.\<close>

definition touched :: "fs \<Rightarrow> phys \<Rightarrow> string \<Rightarrow> fs \<Rightarrow> bool" where
  "touched f d c g \<longleftrightarrow> (\<forall>x. g x = f x \<or>
     (\<exists>e. x = d @ [e] \<and> (e = c \<or> f x = None) \<and> f x \<noteq> Some NDir \<and> (g x = None \<or> (\<exists>t. g x = Some (NFile t)))))"

lemma touched_refl: "touched f d c f"
  by (simp add: touched_def)

lemma touched_upd:
  assumes "touched f d c g" "e = c \<or> f (d @ [e]) = None" "f (d @ [e]) \<noteq> Some NDir" "nd = None \<or> (\<exists>t. nd = Some (NFile t))"
  shows "touched f d c (g(d @ [e] := nd))"
  using assms by (auto simp: touched_def)

lemma touched_dir: "touched f d c g \<Longrightarrow> g x = Some NDir \<longleftrightarrow> f x = Some NDir"
  unfolding touched_def by (metis node.distinct(1) option.distinct(1) option.inject)

lemma touched_wf:
  assumes "touched f d c g" "fs_wf f" "f d = Some NDir"
  shows "fs_wf g"
  unfolding fs_wf_def
proof (intro conjI allI impI)
  show "g [] = Some NDir" using touched_dir [OF assms(1)] assms(2) by simp
  fix p e assume n: "g (p @ [e]) \<noteq> None"
  have "f p = Some NDir"
  proof (cases "g (p @ [e]) = f (p @ [e])")
    case True
    then show ?thesis using n fs_wf_parent [OF assms(2), of p e] by simp
  next
    case False
    then have "p = d" using assms(1) unfolding touched_def by blast
    then show ?thesis using assms(3) by simp
  qed
  then show "g p = Some NDir" using touched_dir [OF assms(1)] by simp
qed

lemma touched_physical: "touched f d c g \<Longrightarrow> physical f q \<Longrightarrow> physical g q"
  unfolding touched_def physical_def is_link_def by (metis node.distinct(5) option.distinct(1) option.inject)

lemma touched_remove:
  assumes "touched f d c g" "fs_wf f" "physical f d" "f d = Some NDir" "plain e" "f (d @ [e]) \<noteq> Some NDir"
  shows "try_remove ls g (abs_path (d @ [e])) = g(d @ [e] := None)"
proof -
  have nd: "g (d @ [e]) \<noteq> Some NDir" using touched_dir [OF assms(1)] assms(6) by simp
  have "k_entry g (abs_path (d @ [e])) = Inr (d @ [e])"
    using touched_wf [OF assms(1,2,4)] touched_physical [OF assms(1,3)] touched_dir [OF assms(1)] assms(3-5)
    by (intro k_entry_physical) (auto simp: physical_plain)
  then show ?thesis using nd by (auto simp: try_remove_def os_remove_def fun_upd_idem split: option.splits node.splits)
qed

lemma run_renderer_touched:
  assumes "renderer_ok (re_run env)" "list_all plain (d @ [c])" "last argv = abs_path (d @ [c])" "touched f d c g" "f (d @ [c]) \<noteq> Some NDir"
    and "run_renderer env argv cwd input g = (err, late, h)"
  shows "touched f d c h"
proof -
  have h: "h = snd (re_run env argv cwd input g)" using assms(6) by (auto simp: run_renderer_def split: prod.splits)
  have "snd (re_run env argv cwd input g) = g \<or> (\<exists>t. snd (re_run env argv cwd input g) = g(d @ [c] \<mapsto> NFile t))"
    using assms(1-3) unfolding renderer_ok_def by blast
  then consider "h = g" | t where "h = g(d @ [c] \<mapsto> NFile t)" unfolding h by blast
  then show ?thesis
  proof cases
    case 1
    then show ?thesis using assms(4) by simp
  next
    case 2
    then show ?thesis using touched_upd [OF assms(4)] assms(5) by simp
  qed
qed

lemma subprocess_touched:
  assumes "renderer_ok (re_run env)" "slash \<notin> set (re_random env)"
    and "fs_wf f" "physical f (d @ [c])" "f d = Some NDir" "f (d @ [c]) \<noteq> Some NDir"
    and "run_render_subprocess env cwd kind source fm (abs_path (d @ [c])) f = (err, late, h)"
  shows "touched f d c h"
proof (cases kind)
  case RenderDot
  then have "(\<not> re_on_path env ''dot'' \<and> h = f)
      \<or> run_renderer env [''dot'', ''-T'' @ fm, ''-o'', abs_path (d @ [c])] cwd source f = (err, late, h)"
    using assms(7) by (auto simp: run_dot_def split: if_splits)
  then show ?thesis
  proof
    assume r: "run_renderer env [''dot'', ''-T'' @ fm, ''-o'', abs_path (d @ [c])] cwd source f = (err, late, h)"
    show ?thesis by (rule run_renderer_touched [OF assms(1) physical_plain [OF assms(4)] _ touched_refl assms(6) r]) simp
  qed (simp add: touched_refl)
next
  case RenderMermaid
  let ?e = "mmd_name (re_random env)"
  let ?tmp = "abs_path (d @ [?e])"
  have pl: "plain ?e" using assms(2) by (simp add: plain_def mmd_name_def)
  have dp: "list_all plain d" "physical f d" using assms(4) physical_plain physical_snoc by fastforce+
  have tmp: "fp_join (fp_dir (abs_path (d @ [c]))) ?e = ?tmp"
    using physical_plain [OF assms(4)] dp pl by (simp add: fp_join_abs_plain)
  have en: "k_entry f ?tmp = Inr (d @ [?e])"
    using assms(3,5) dp pl by (intro k_entry_physical) auto
  show ?thesis
  proof (cases "\<not> re_on_path env ''mmdc'' \<or> f (d @ [?e]) \<noteq> None")
    case True
    then have "h = f" using assms(7) RenderMermaid en
      by (auto simp: run_mermaid_def tmp k_create_excl_def Let_def split: if_splits)
    then show ?thesis by (simp add: touched_refl)
  next
    case False
    then have n: "f (d @ [?e]) = None" by simp
    have up: "touched f d c (f(d @ [?e] \<mapsto> NFile t))" for t by (rule touched_upd [OF touched_refl]) (simp_all add: n)
    have rm: "touched f d c g \<Longrightarrow> touched f d c (try_remove (re_ls env) g ?tmp)" for g
      using touched_remove [OF _ assms(3) dp(2) assms(5) pl] touched_upd [of f d c g ?e None] n by simp
    have ru: "run_renderer env [''mmdc'', ''-i'', ?tmp, ''-o'', abs_path (d @ [c])] cwd [] (f(d @ [?e] \<mapsto> NFile source)) = (a, b, g)
        \<Longrightarrow> touched f d c g" for a b g
      by (rule run_renderer_touched [OF assms(1) physical_plain [OF assms(4)] _ up assms(6)]) simp_all
    have cr: "k_create_excl f ?tmp = Inr (d @ [?e], f(d @ [?e] \<mapsto> NFile []))" using en n by (simp add: k_create_excl_def)
    have r: "run_mermaid env cwd source (abs_path (d @ [c])) f = (err, late, h)" using assms(7) RenderMermaid by simp
    obtain a b g where rg: "run_renderer env [''mmdc'', ''-i'', ?tmp, ''-o'', abs_path (d @ [c])] cwd [] (f(d @ [?e] \<mapsto> NFile source)) = (a, b, g)"
      by (metis prod_cases3)
    have "(\<exists>t. h = try_remove (re_ls env) (f(d @ [?e] \<mapsto> NFile t)) ?tmp) \<or> h = try_remove (re_ls env) g ?tmp"
      using r False unfolding run_mermaid_def tmp Let_def cr
      by (cases "re_write env"; cases "re_close env") (auto simp: rg)
    then show ?thesis using rm up ru [OF rg] by blast
  qed
qed

text \<open>How a call that gets past its arguments goes on.\<close>

lemma handle_render_cases:
  assumes "handle_render env kind w a s = (res, s')"
  obtains (refused) "is_error res" "se_fs s' = se_fs s" "se_tracker s' = se_tracker s"
  | (ran) source fm r f1 err late f where "resolve (se_fs s) w (arg_str0 a ''output_path'') = Inr r"
      "k_stat (se_fs s) r \<noteq> Inr NDir" "mkdir_all (length r) (se_fs s) (fp_dir r) = Inr f1"
      "run_render_subprocess env (ws_root w) kind source fm r f1 = (err, late, f)"
      "(err = None \<and> (\<exists>nd. k_stat f r = Inr nd \<and> node_size nd \<le> max_render_output_bytes) \<and> \<not> is_error res
          \<and> se_fs s' = f \<and> se_tracker s' = insert r (se_tracker s))
       \<or> (is_error res \<and> se_tracker s' = se_tracker s \<and> (se_fs s' = f \<and> err = None \<or> se_fs s' = try_remove (re_ls env) f r))"
proof (cases "\<exists>source timeout fm. parse_render_args a = Inr (source, arg_str0 a ''output_path'', timeout)
    \<and> infer_render_format (arg_str0 a ''output_path'') = Inr fm")
  case False
  then have "is_error res \<and> se_fs s' = se_fs s \<and> se_tracker s' = se_tracker s"
    using assms by (auto simp: handle_render_def parse_render_args_def Let_def split: if_splits sum.splits)
  then show thesis by (blast intro: refused)
next
  case True
  then obtain source timeout fm where a: "parse_render_args a = Inr (source, arg_str0 a ''output_path'', timeout)"
    "infer_render_format (arg_str0 a ''output_path'') = Inr fm" by blast
  show thesis
  proof (cases "\<exists>r s1. resolve_render_output w s (arg_str0 a ''output_path'') = (Inr r, s1)")
    case False
    then obtain e s1 where e: "resolve_render_output w s (arg_str0 a ''output_path'') = (Inl e, s1)"
      by (metis sum.exhaust surj_pair)
    then have "se_fs s1 = se_fs s \<and> se_tracker s1 = se_tracker s"
      by (auto simp: resolve_render_output_def split: sum.splits if_splits)
    then show thesis using assms a e by (intro refused) (auto simp: handle_render_def)
  next
    case True
    then obtain r s1 where r: "resolve_render_output w s (arg_str0 a ''output_path'') = (Inr r, s1)" by blast
    then obtain f1 where f1: "resolve (se_fs s) w (arg_str0 a ''output_path'') = Inr r" "k_stat (se_fs s) r \<noteq> Inr NDir"
      "mkdir_all (length r) (se_fs s) (fp_dir r) = Inr f1" "s1 = s\<lparr>se_fs := f1\<rparr>"
      by (auto simp: resolve_render_output_def split: sum.splits if_splits)
    obtain err late f where run: "run_render_subprocess env (ws_root w) kind source fm r f1 = (err, late, f)"
      by (metis prod_cases3)
    show thesis
    proof (rule ran [OF f1(1-3) run])
      show "(err = None \<and> (\<exists>nd. k_stat f r = Inr nd \<and> node_size nd \<le> max_render_output_bytes) \<and> \<not> is_error res
          \<and> se_fs s' = f \<and> se_tracker s' = insert r (se_tracker s))
       \<or> (is_error res \<and> se_tracker s' = se_tracker s \<and> (se_fs s' = f \<and> err = None \<or> se_fs s' = try_remove (re_ls env) f r))"
      proof (cases err)
        case None
        then show ?thesis using assms run
          by (cases "k_stat f r") (auto simp: handle_render_def a r f1(4) Let_def mark_read_def split: if_splits)
      next
        case (Some e)
        then show ?thesis using assms run by (simp add: handle_render_def a r f1(4)) auto
      qed
    qed
  qed
qed

text \<open>
  a render call is confined to its output.  If the renderer writes only its output file, a call changes
  nothing outside the workspace and no existing file but the one at the resolved output path, whatever
  fails; a success leaves a regular file of at most 10 MiB there and marks it as read, an error marks
  nothing as read.
\<close>

theorem render_confined:
  assumes "fs_wf (se_fs s)" "ws_ok (se_fs s) w" "lookups_ok (se_fs s) w (arg_str0 a ''output_path'')"
    and "renderer_ok (re_run env)" "slash \<notin> set (re_random env)"
    and "handle_render env kind w a s = (res, s')"
  shows "(\<forall>x. \<not> prefix (root_of w) x \<longrightarrow> se_fs s' x = se_fs s x)
    \<and> (\<forall>x. se_fs s x \<noteq> None \<and> resolve (se_fs s) w (arg_str0 a ''output_path'') \<noteq> Inr (abs_path x) \<longrightarrow> se_fs s' x = se_fs s x)
    \<and> (if is_error res then se_tracker s' = se_tracker s
       else \<exists>x d. resolve (se_fs s) w (arg_str0 a ''output_path'') = Inr (abs_path x)
         \<and> se_fs s' x = Some (NFile d) \<and> length d \<le> 10 * 1024 * 1024 \<and> se_tracker s' = insert (abs_path x) (se_tracker s))"
  using assms(6)
proof (cases rule: handle_render_cases)
  case refused
  then show ?thesis by simp
next
  case (ran source fm r f1 err late f)
  have acc: "accepts w (se_fs s) (arg_str0 a ''output_path'') = Some r" "confined_request w (se_fs s) (arg_str0 a ''output_path'')"
    using ran(1) assms(2,3) by (auto simp: accepts_def confined_request_def)
  have base: "se_fs s (root_of w) = Some NDir" using assms(2) by (rule ws_okE)
  have nodir: "\<forall>nd. k_stat (se_fs s) r = Inr nd \<longrightarrow> nd \<noteq> NDir" using ran(2) by auto
  have "is_abs r" using ws_paths.accept_physical [OF assms(1) acc(2,1)] by auto
  note pc = ws_paths.parents_confined [OF assms(1) acc(2,1) base nodir ran(3) path_elems_abs [OF this]]
  then obtain q where q: "r = abs_path (root_of w @ q)" "q \<noteq> []" "se_fs s (root_of w @ q) \<noteq> Some NDir"
    "fs_wf f1" "physical f1 (root_of w @ q)" "f1 (root_of w @ butlast q) = Some NDir" "f1 (root_of w @ q) = se_fs s (root_of w @ q)"
    "\<forall>x. \<not> prefix (root_of w) x \<or> se_fs s x \<noteq> None \<longrightarrow> f1 x = se_fs s x" by blast
  define d c where "d = root_of w @ butlast q" and "c = last q"
  have dc: "root_of w @ q = d @ [c]" using q(2) by (simp add: d_def c_def)
  note q = q [unfolded dc, folded d_def]
  have ph: "physical f1 d" "plain c" using q(5) physical_snoc by auto
  have nd: "f1 (d @ [c]) \<noteq> Some NDir" using q(3,7) by simp
  have t: "touched f1 d c f"
    by (rule subprocess_touched [OF assms(4,5) q(4,5,6) nd ran(4) [unfolded q(1)]])
  have "touched f1 d c (try_remove (re_ls env) f r)"
    unfolding q(1) touched_remove [OF t q(4) ph(1) q(6) ph(2) nd] using touched_upd [OF t] nd by simp
  then have t': "touched f1 d c (se_fs s')" using ran(5) t by auto
  have out: "se_fs s' x = se_fs s x" if "\<not> prefix (root_of w) x \<or> se_fs s x \<noteq> None \<and> x \<noteq> d @ [c]" for x
  proof -
    have "f1 x = se_fs s x" using q(8) that by blast
    moreover have "x \<noteq> d @ [e] \<or> (e \<noteq> c \<and> f1 x \<noteq> None)" for e
      using that q(8) by (auto simp: d_def)
    ultimately show ?thesis using t' unfolding touched_def by metis
  qed
  have written: "\<exists>b. f (d @ [c]) = Some (NFile b) \<and> nd' = NFile b" if "k_stat f r = Inr nd'" for nd'
  proof -
    have p: "physical f (d @ [c])" using touched_physical [OF t q(5)] .
    then have "f (d @ [c]) = Some nd'"
      using that k_stat_physical [OF touched_wf [OF t q(4,6)] p] by (simp add: q(1))
    moreover have "f (d @ [c]) \<noteq> Some NDir" using touched_dir [OF t] nd by simp
    ultimately show ?thesis using physical_not_link [OF p] by (cases nd') auto
  qed
  show ?thesis
  proof (cases "is_error res")
    case True
    then show ?thesis using ran(1,5) out q(1) by auto
  next
    case False
    with ran(5) obtain nd' where r: "k_stat f r = Inr nd'" "node_size nd' \<le> max_render_output_bytes" "se_fs s' = f"
      "se_tracker s' = insert r (se_tracker s)" by auto
    from written [OF r(1)] obtain b where "f (d @ [c]) = Some (NFile b)" "nd' = NFile b" by blast
    then have "\<exists>x b. resolve (se_fs s) w (arg_str0 a ''output_path'') = Inr (abs_path x)
         \<and> se_fs s' x = Some (NFile b) \<and> length b \<le> 10 * 1024 * 1024 \<and> se_tracker s' = insert (abs_path x) (se_tracker s)"
      using r ran(1) q(1) by (intro exI [of _ "d @ [c]"] exI [of _ b]) (simp add: max_render_output_bytes_def)
    then show ?thesis using False ran(1) out q(1) by auto
  qed
qed

definition demo_plan :: file_session where
  "demo_plan = demo_session\<lparr>se_fs := flood_fs([''w'', ''p.svg''] \<mapsto> NFile ''old'')\<rparr>"

definition demo_render :: args where
  "demo_render = [(''source'', JStr ''digraph {}''), (''output_path'', JStr ''p.svg'')]"

definition no_renderer :: render_env where
  "no_renderer = \<lparr>re_on_path = (\<lambda>_. False), re_run = (\<lambda>_ _ _ f. (\<lparr>p_stdout = [], p_stderr = [], p_err = RunOk, p_deadline = False\<rparr>, f)),
     re_ls = (\<lambda>_ _. []), re_random = ''1'', re_write = None, re_close = None\<rparr>"

lemma demo_plan_ok: "fs_wf (se_fs demo_plan)" "ws_ok (se_fs demo_plan) flood_ws" "lookups_ok (se_fs demo_plan) flood_ws ''p.svg''"
proof -
  show "fs_wf (se_fs demo_plan)"
    unfolding fs_wf_def demo_plan_def flood_fs_def by (auto split: if_splits simp: append_eq_Cons_conv)
  show "ws_ok (se_fs demo_plan) flood_ws"
    unfolding ws_ok_def
    by (rule exI [of _ "[''w'']"])
       (auto simp: demo_plan_def flood_fs_def flood_ws_def abs_path_def physical_def plain_def prefix_Cons is_link_def split: if_splits)
  show "lookups_ok (se_fs demo_plan) flood_ws ''p.svg''" by code_simp
qed

lemma no_renderer_ok: "renderer_ok (re_run no_renderer)" "slash \<notin> set (re_random no_renderer)"
  by (simp_all add: renderer_ok_def no_renderer_def)

lemma demo_render_args: "arg_str0 demo_render ''output_path'' = ''p.svg''"
  by code_simp

theorem render_confined_witness:
  "se_fs (snd (handle_render no_renderer RenderDot flood_ws demo_render demo_plan)) [''etc'', ''passwd''] = Some (NFile ''root:x:0:0'')"
proof -
  have l: "lookups_ok (se_fs demo_plan) flood_ws (arg_str0 demo_render ''output_path'')"
    unfolding demo_render_args by (rule demo_plan_ok(3))
  have "\<not> prefix (root_of flood_ws) [''etc'', ''passwd'']" by code_simp
  moreover have "se_fs demo_plan [''etc'', ''passwd''] = Some (NFile ''root:x:0:0'')" by code_simp
  ultimately show ?thesis
    using render_confined [OF demo_plan_ok(1,2) l no_renderer_ok surjective_pairing] by metis
qed

text \<open>
  a render call that fails destroys what was at its output path.  Without the renderer on the path the
  tool answers with an error, as it should, and removes the existing file of the output path - one that
  was never read, and that the call did not write.
\<close>

theorem render_failure_deletes:
  assumes "fs_wf (se_fs s)" "ws_ok (se_fs s) w" "lookups_ok (se_fs s) w out" "\<not> re_on_path env ''dot''"
    and "parse_render_args a = Inr (source, out, timeout)" "infer_render_format out = Inr fm"
    and "resolve (se_fs s) w out = Inr r" "k_read_file (se_fs s) r = Inr old"
    and "handle_render env RenderDot w a s = (res, s')"
  shows "is_error res \<and> (\<exists>e. k_stat (se_fs s') r = Inl e)"
proof -
  obtain q where q: "r = abs_path q" "physical (se_fs s) q" using resolve_physical_lemma [OF assms(1,2,3,7)] by blast
  have st: "k_stat (se_fs s) r = Inr (NFile old)"
    using assms(8) by (auto simp: k_read_file_def split: sum.splits node.splits)
  then have fq: "se_fs s q = Some (NFile old)" using k_stat_physical [OF assms(1) q(2)] q(1) by simp
  then have ne: "q \<noteq> []" using assms(1) by auto
  then have sn: "q = butlast q @ [last q]" by simp
  have dir: "se_fs s (butlast q) = Some NDir" using fs_wf_parent [OF assms(1), of "butlast q" "last q"] fq sn by simp
  have pb: "physical (se_fs s) (butlast q)" using q(2) by (rule physical_butlast)
  have "k_stat (se_fs s) (fp_dir r) = Inr NDir"
    using k_stat_physical [OF assms(1) pb] dir physical_plain [OF q(2)] ne by (simp add: q(1))
  then have mk: "mkdir_all n (se_fs s) (fp_dir r) = Inr (se_fs s)" for n by (simp add: mkdir_all.simps)
  have "plain (last q)" "se_fs s (butlast q @ [last q]) \<noteq> Some NDir"
    using physical_plain [OF q(2)] ne fq by (simp_all add: list_all_iff)
  from touched_remove [OF touched_refl assms(1) pb dir this, of "re_ls env"]
  have rm: "try_remove (re_ls env) (se_fs s) r = (se_fs s)(q := None)" using ne q(1) by simp
  have res: "is_error res" "se_fs s' = (se_fs s)(q := None)"
    using assms(4,5,6,7,9) st mk rm by (auto simp: handle_render_def resolve_render_output_def run_dot_def)
  have "fs_wf ((se_fs s)(q := None))"
    by (rule fs_wf_upd_file [OF assms(1) ne dir]) (simp_all add: fq)
  moreover have "physical ((se_fs s)(q := None)) q" using q(2) by (rule physical_upd) simp
  ultimately have "\<exists>e. k_lookup ((se_fs s)(q := None)) True (abs_path q) = Inl e" using k_lookup_missing by simp
  then show ?thesis using res q(1) by (auto simp: k_stat_def node_at_def)
qed

theorem render_failure_deletes_witness:
  "\<exists>e. k_stat (se_fs (snd (handle_render no_renderer RenderDot flood_ws demo_render demo_plan))) ''/w/p.svg'' = Inl e"
proof -
  have "length ''digraph {}'' \<le> max_render_source_bytes" by (simp add: max_render_source_bytes_def)
  moreover have "arg_str0 demo_render ''source'' = ''digraph {}''" by code_simp
  moreover have "clamp_arg default_render_timeout_sec max_render_timeout_sec demo_render ''timeout'' = 60" by code_simp
  ultimately have p: "parse_render_args demo_render = Inr (''digraph {}'', ''p.svg'', 60)"
    by (simp add: parse_render_args_def demo_render_args)
  have "infer_render_format ''p.svg'' = Inr ''svg''" "resolve (se_fs demo_plan) flood_ws ''p.svg'' = Inr ''/w/p.svg''"
    "k_read_file (se_fs demo_plan) ''/w/p.svg'' = Inr ''old''" "\<not> re_on_path no_renderer ''dot''"
    by code_simp+
  from render_failure_deletes [OF demo_plan_ok this(4) p this(1-3) surjective_pairing] show ?thesis by blast
qed

end
