(* ===== verification/MetricsStore.thy ===== *)
theory MetricsStore
  imports Prelude
begin

text \<open>
  The metrics (\<open>internal/metrics/metrics.go\<close>): the counters, gauges and histograms as a record, one
  constructor per mutator method and its effect.  A counter vector maps label values to counts; a
  histogram keeps its observations, of which Prometheus publishes the bucket counts.  Floating-point
  values are rationals.  Registration and exposition are the Prometheus client library.
\<close>

record metrics =
  mt_tool_calls :: "string \<times> string \<times> string \<Rightarrow> nat"
  mt_tool_durations :: "string \<Rightarrow> rat list"
  mt_edit_bytes :: nat
  mt_write_bytes :: nat
  mt_read_bytes :: nat
  mt_bash_exits :: "string \<Rightarrow> nat"
  mt_http_requests :: "string \<times> string \<Rightarrow> nat"
  mt_http_durations :: "string \<Rightarrow> rat list"
  mt_workspace_bytes :: int
  mt_workspace_files :: int
  mt_shells :: int
  mt_ws_connections :: "string \<Rightarrow> int"
  mt_sse_streams :: int
  mt_denylist_hits :: "string \<Rightarrow> nat"
  mt_scrub_hits :: "string \<Rightarrow> nat"
  mt_scrub_bytes :: nat
  mt_path_violations :: nat
  mt_failure_streak :: int
  mt_since_green :: rat
  mt_error_rate :: rat
  mt_repetitions :: "string \<Rightarrow> nat"

definition new_metrics :: metrics where
  "new_metrics = \<lparr>mt_tool_calls = (\<lambda>_. 0), mt_tool_durations = (\<lambda>_. []), mt_edit_bytes = 0, mt_write_bytes = 0, mt_read_bytes = 0,
     mt_bash_exits = (\<lambda>_. 0), mt_http_requests = (\<lambda>_. 0), mt_http_durations = (\<lambda>_. []), mt_workspace_bytes = 0,
     mt_workspace_files = 0, mt_shells = 0, mt_ws_connections = (\<lambda>_. 0), mt_sse_streams = 0, mt_denylist_hits = (\<lambda>_. 0),
     mt_scrub_hits = (\<lambda>_. 0), mt_scrub_bytes = 0, mt_path_violations = 0, mt_failure_streak = 0, mt_since_green = 0,
     mt_error_rate = 0, mt_repetitions = (\<lambda>_. 0)\<rparr>"

definition tool_duration_buckets :: "rat list" where
  "tool_duration_buckets = [1 / 100, 1 / 20, 1 / 10, 1 / 2, 1, 5, 30, 120]"

text \<open>The cumulative bucket counts of a histogram, with the one for infinity at the end.\<close>

definition bucket_counts :: "rat list \<Rightarrow> rat list \<Rightarrow> nat list" where
  "bucket_counts bounds obs = map (\<lambda>b. length (filter (\<lambda>x. x \<le> b) obs)) bounds @ [length obs]"

definition bucket_bash_exit :: "int \<Rightarrow> string" where
  "bucket_bash_exit code =
     (if code = 0 then ''0''
      else if code = 124 then ''timeout(124)''
      else if 1 \<le> code \<and> code \<le> 125 then ''1-125''
      else if 126 \<le> code \<and> code \<le> 128 then ''126-128''
      else if 129 \<le> code then ''>=129''
      else ''>=129'')"

datatype metric_op =
    ToolCall string string string rat
  | EditBytes int | WriteBytes int | ReadBytes int
  | BashExit int
  | APIHTTPRequest string string rat
  | SetWorkspace int int
  | SetBackgroundShells int
  | WSConnectionInc string | WSConnectionDec string
  | SSEStreamInc | SSEStreamDec
  | DenylistHit string
  | ScrubHit string int
  | PathViolation
  | SetAgentTestFailureStreak int
  | SetAgentTimeSinceLastGreenSeconds rat
  | SetAgentToolErrorRate rat
  | IncAgentToolRepetition string

definition inc :: "('a \<Rightarrow> nat) \<Rightarrow> 'a \<Rightarrow> 'a \<Rightarrow> nat" where
  "inc c k = c(k := Suc (c k))"

fun apply_metric :: "metric_op \<Rightarrow> metrics \<Rightarrow> metrics" where
  "apply_metric (ToolCall tool status language dur) m =
     m\<lparr>mt_tool_calls := inc (mt_tool_calls m) (tool, status, language),
       mt_tool_durations := (mt_tool_durations m)(tool := mt_tool_durations m tool @ [dur])\<rparr>"
| "apply_metric (EditBytes n) m = (if n \<le> 0 then m else m\<lparr>mt_edit_bytes := mt_edit_bytes m + nat n\<rparr>)"
| "apply_metric (WriteBytes n) m = (if n \<le> 0 then m else m\<lparr>mt_write_bytes := mt_write_bytes m + nat n\<rparr>)"
| "apply_metric (ReadBytes n) m = (if n \<le> 0 then m else m\<lparr>mt_read_bytes := mt_read_bytes m + nat n\<rparr>)"
| "apply_metric (BashExit code) m = m\<lparr>mt_bash_exits := inc (mt_bash_exits m) (bucket_bash_exit code)\<rparr>"
| "apply_metric (APIHTTPRequest route status dur) m =
     m\<lparr>mt_http_requests := inc (mt_http_requests m) (route, status),
       mt_http_durations := (mt_http_durations m)(route := mt_http_durations m route @ [dur])\<rparr>"
| "apply_metric (SetWorkspace bytes files) m = m\<lparr>mt_workspace_bytes := bytes, mt_workspace_files := files\<rparr>"
| "apply_metric (SetBackgroundShells n) m = m\<lparr>mt_shells := n\<rparr>"
| "apply_metric (WSConnectionInc ep) m = m\<lparr>mt_ws_connections := (mt_ws_connections m)(ep := mt_ws_connections m ep + 1)\<rparr>"
| "apply_metric (WSConnectionDec ep) m = m\<lparr>mt_ws_connections := (mt_ws_connections m)(ep := mt_ws_connections m ep - 1)\<rparr>"
| "apply_metric SSEStreamInc m = m\<lparr>mt_sse_streams := mt_sse_streams m + 1\<rparr>"
| "apply_metric SSEStreamDec m = m\<lparr>mt_sse_streams := mt_sse_streams m - 1\<rparr>"
| "apply_metric (DenylistHit token) m = m\<lparr>mt_denylist_hits := inc (mt_denylist_hits m) token\<rparr>"
| "apply_metric (ScrubHit pattern n) m =
     m\<lparr>mt_scrub_hits := inc (mt_scrub_hits m) pattern,
       mt_scrub_bytes := mt_scrub_bytes m + (if 0 < n then nat n else 0)\<rparr>"
| "apply_metric PathViolation m = m\<lparr>mt_path_violations := Suc (mt_path_violations m)\<rparr>"
| "apply_metric (SetAgentTestFailureStreak n) m = m\<lparr>mt_failure_streak := (if n < 0 then 0 else n)\<rparr>"
| "apply_metric (SetAgentTimeSinceLastGreenSeconds s) m = m\<lparr>mt_since_green := (if s < 0 then 0 else s)\<rparr>"
| "apply_metric (SetAgentToolErrorRate r) m =
     m\<lparr>mt_error_rate := (let r1 = (if r < 0 then 0 else r) in if 1 < r1 then 1 else r1)\<rparr>"
| "apply_metric (IncAgentToolRepetition tool) m = m\<lparr>mt_repetitions := inc (mt_repetitions m) tool\<rparr>"

text \<open>Every method is a no-op on a nil receiver.\<close>

definition on_metrics :: "metric_op \<Rightarrow> metrics option \<Rightarrow> metrics option" where
  "on_metrics op m = map_option (apply_metric op) m"

definition bash_buckets :: "string list" where
  "bash_buckets = [''0'', ''1-125'', ''timeout(124)'', ''126-128'', ''>=129'']"

lemma bucket_bash_exit_closed: "bucket_bash_exit code \<in> set bash_buckets"
  by (auto simp: bucket_bash_exit_def bash_buckets_def)

fun bash_code :: "metric_op \<Rightarrow> int option" where
  "bash_code (BashExit c) = Some c"
| "bash_code _ = None"

lemma apply_bash: "mt_bash_exits (apply_metric op m) b =
  mt_bash_exits m b + (case bash_code op of Some c \<Rightarrow> if bucket_bash_exit c = b then 1 else 0 | None \<Rightarrow> 0)"
  by (cases op) (simp_all add: inc_def)

lemma fold_bash: "mt_bash_exits (fold apply_metric ops m) b =
  mt_bash_exits m b + length (filter (\<lambda>op. \<exists>c. bash_code op = Some c \<and> bucket_bash_exit c = b) ops)"
  by (induction ops arbitrary: m) (auto simp: apply_bash split: option.splits)

lemma apply_gauges:
  "0 \<le> mt_error_rate m \<and> mt_error_rate m \<le> 1 \<and> 0 \<le> mt_since_green m \<and> 0 \<le> mt_failure_streak m \<Longrightarrow>
   0 \<le> mt_error_rate (apply_metric op m) \<and> mt_error_rate (apply_metric op m) \<le> 1
   \<and> 0 \<le> mt_since_green (apply_metric op m) \<and> 0 \<le> mt_failure_streak (apply_metric op m)"
  by (cases op) (simp_all add: Let_def)

lemma sum_list_hit:
  "distinct bs \<Longrightarrow> sum_list (map (\<lambda>b. (if x = b then 1 else 0) + n b) bs) = (if x \<in> set bs then 1 else 0) + (sum_list (map n bs) :: nat)"
  by (induction bs) auto

lemma buckets_partition:
  assumes "distinct bs" "\<And>c. h c \<in> set bs"
  shows "sum_list (map (\<lambda>b. length (filter (\<lambda>op. \<exists>c. g op = Some c \<and> h c = b) ops)) bs) = length (filter (\<lambda>op. g op \<noteq> None) ops)"
proof (induction ops)
  case (Cons op ops)
  show ?case
  proof (cases "g op")
    case None
    then show ?thesis using Cons.IH by simp
  next
    case (Some x)
    have "length (filter (\<lambda>op. \<exists>c. g op = Some c \<and> h c = b) (op # ops))
        = (if h x = b then 1 else 0) + length (filter (\<lambda>op. \<exists>c. g op = Some c \<and> h c = b) ops)" for b
      using Some by simp
    then show ?thesis using Cons.IH Some assms(2) by (simp only: sum_list_hit [OF assms(1)]) simp
  qed
qed simp

lemma metrics_in_range:
  fixes ops
  defines "m \<equiv> fold apply_metric ops new_metrics"
  shows "0 \<le> mt_error_rate m \<and> mt_error_rate m \<le> 1 \<and> 0 \<le> mt_since_green m \<and> 0 \<le> mt_failure_streak m
    \<and> mt_bash_exits m b = length (filter (\<lambda>op. \<exists>c. bash_code op = Some c \<and> bucket_bash_exit c = b) ops)
    \<and> {b. mt_bash_exits m b \<noteq> 0} \<subseteq> {''0'', ''1-125'', ''timeout(124)'', ''126-128'', ''>=129''}
    \<and> sum_list (map (mt_bash_exits m) bash_buckets) = length (filter (\<lambda>op. bash_code op \<noteq> None) ops)"
proof -
  let ?ok = "\<lambda>m. 0 \<le> mt_error_rate m \<and> mt_error_rate m \<le> 1 \<and> 0 \<le> mt_since_green m \<and> 0 \<le> mt_failure_streak m"
  have "?ok x \<Longrightarrow> ?ok (fold apply_metric ops x)" for x
    by (induction ops arbitrary: x) (simp_all add: apply_gauges)
  from this [of new_metrics] have g: "?ok m" unfolding m_def by (simp add: new_metrics_def)
  have c: "mt_bash_exits m b = length (filter (\<lambda>op. \<exists>c. bash_code op = Some c \<and> bucket_bash_exit c = b) ops)" for b
    unfolding m_def fold_bash by (simp add: new_metrics_def)
  have "mt_bash_exits m b = 0" if "b \<notin> set bash_buckets" for b
    unfolding c using that bucket_bash_exit_closed by (auto simp: filter_empty_conv)
  then have "b \<in> set bash_buckets" if "mt_bash_exits m b \<noteq> 0" for b using that by metis
  then have s: "{b. mt_bash_exits m b \<noteq> 0} \<subseteq> set bash_buckets" by (intro subsetI) simp
  have "distinct bash_buckets" by code_simp
  from buckets_partition [OF this, of bucket_bash_exit bash_code ops, OF bucket_bash_exit_closed]
  have "sum_list (map (mt_bash_exits m) bash_buckets) = length (filter (\<lambda>op. bash_code op \<noteq> None) ops)"
    unfolding ext [of "mt_bash_exits m", OF c] .
  moreover have "{b. mt_bash_exits m b \<noteq> 0} \<subseteq> {''0'', ''1-125'', ''timeout(124)'', ''126-128'', ''>=129''}"
    using s unfolding bash_buckets_def by (simp only: list.set)
  ultimately show ?thesis using g c [of b] by (intro conjI) (elim conjE, assumption)+
qed


end
