(* ===== verification/Server.thy ===== *)
theory Server
  imports Scrub Verify Health MetricsStore
begin

text \<open>
  The MCP server (\<open>internal/server\<close>): which tools are registered in which mode (\<open>server.go\<close>, with the
  names from the \<open>Register\<close> functions of \<open>internal/tools\<close>), and the three layers around every handler:
  scrubbing and metrics (\<open>metrics.go\<close>) and tracing (\<open>tracing.go\<close>, \<open>internal/tracing\<close>).  The MCP library,
  the clock and the exporter of spans are arguments or left out.
\<close>

section \<open>Tool registration\<close>

definition register_lsp_navigation :: "string list" where "register_lsp_navigation = [''find_definition'', ''find_references'']"
definition register_lsp_rename :: "string list" where "register_lsp_rename = [''rename_symbol'']"
definition register_snapshots_read_only :: "string list" where "register_snapshots_read_only = [''snapshot_list'', ''snapshot_diff'']"
definition register_snapshots_mutating :: "string list" where "register_snapshots_mutating = [''snapshot_create'', ''snapshot_restore'']"
definition register_secrets :: "string list" where "register_secrets = [''secret'', ''secrets_available'']"
definition register_ast_edits :: "string list" where
  "register_ast_edits = [''edit_function_body'', ''insert_after_method'', ''change_function_signature'']"
definition register_render :: "string list" where "register_render = [''render_mermaid'', ''render_dot'']"

definition register_tools_for_mode :: "bool \<Rightarrow> string list" where
  "register_tools_for_mode read_only =
     [''Read'', ''Glob'', ''Grep'', ''search_code''] @ register_lsp_navigation @ register_snapshots_read_only
     @ [''last_test_failures'', ''tests_covering''] @ register_secrets
     @ (if read_only then []
        else [''Write'', ''Edit'', ''Bash'', ''BashOutput'', ''KillShell'', ''run_tests'', ''run_lint'', ''run_typecheck'',
              ''run_script'', ''run_failing_tests''] @ register_snapshots_mutating @ register_ast_edits @ register_lsp_rename
             @ register_render @ [''watch_process'', ''watch_process_events''])"

definition all_detectors :: "detector list" where
  "all_detectors = [GoDet [], RustDet [], NodeDet [] [] [], PyDet []]"

definition resolve_lsp_command :: "string \<Rightarrow> string list" where
  "resolve_lsp_command lang =
     (case find (\<lambda>d. language d = lang) all_detectors of None \<Rightarrow> [] | Some d \<Rightarrow> lsp_command d)"

section \<open>Results\<close>

record call_result =
  cr_content :: "content list"
  cr_error :: bool

text \<open>What a handler returns: a result, which may be nil, and a Go error.\<close>

type_synonym outcome = "call_result option \<times> string option"

definition derive_status :: "outcome \<Rightarrow> string" where
  "derive_status out =
     (if snd out \<noteq> None then ''error''
      else case fst out of Some r \<Rightarrow> if cr_error r then ''error'' else ''ok'' | None \<Rightarrow> ''ok'')"

definition detect_language :: "fs \<Rightarrow> string option \<Rightarrow> string" where
  "detect_language f wroot =
     (case wroot of None \<Rightarrow> [] | Some r \<Rightarrow> (case detect f r of None \<Rightarrow> [] | Some d \<Rightarrow> language d))"

section \<open>Scrubbing\<close>

text \<open>The calls of \<open>ScrubHit\<close> for the statistics of one text: the bytes with the first hit of a pattern.\<close>

definition scrub_hit_ops :: "scrub_stat \<Rightarrow> metric_op list" where
  "scrub_hit_ops st = ScrubHit (sc_pattern st) (int (sc_bytes st)) # replicate (sc_hits st - 1) (ScrubHit (sc_pattern st) 0)"

fun content_ops :: "content \<Rightarrow> metric_op list" where
  "content_ops (TextContent t) = concat (map scrub_hit_ops (snd (with_stats t)))"
| "content_ops (OtherContent x) = []"

definition scrubbing_handler :: "outcome \<Rightarrow> metrics option \<Rightarrow> outcome \<times> metrics option" where
  "scrubbing_handler out m =
     (case out of
        (Some r, None) \<Rightarrow>
          ((Some (r\<lparr>cr_content := map scrub_content (cr_content r)\<rparr>), None),
           fold on_metrics (concat (map content_ops (cr_content r))) m)
      | _ \<Rightarrow> (out, m))"

section \<open>Metrics and health\<close>

definition metrics_middleware ::
  "string \<Rightarrow> string \<Rightarrow> rat \<Rightarrow> int \<Rightarrow> string \<Rightarrow> outcome \<Rightarrow> metrics option \<times> health option \<Rightarrow> metrics option \<times> health option" where
  "metrics_middleware tool lang dur now hash out st =
     (on_metrics (ToolCall tool (derive_status out) lang dur) (fst st),
      map_option (observe now tool (derive_status out) hash) (snd st))"

section \<open>Tracing\<close>

definition max_span_error_chars :: int where "max_span_error_chars = 512"
definition max_desc :: int where "max_desc = 120"

text \<open>The UTF-8 bytes of the ellipsis.\<close>

definition ellipsis :: string where "ellipsis = [CHR 0xE2, CHR 0x80, CHR 0xA6]"

definition truncate_text :: "string \<Rightarrow> int \<Rightarrow> string" where
  "truncate_text s n =
     (if n \<le> 0 \<or> int (length s) \<le> n then s
      else if n < int (length ellipsis) then take (nat n) s
      else take (nat n - length ellipsis) s @ ellipsis)"

definition extract_error_text :: "outcome \<Rightarrow> string" where
  "extract_error_text out =
     (case out of
        (_, Some e) \<Rightarrow> e
      | (None, None) \<Rightarrow> []
      | (Some r, None) \<Rightarrow>
          if \<not> cr_error r then []
          else case cr_content r of TextContent t # _ \<Rightarrow> t | _ \<Rightarrow> [])"

record span =
  sp_name :: string
  sp_attrs :: "(string \<times> string) list"
  sp_ok :: bool
  sp_desc :: string

definition tracing_middleware :: "string \<Rightarrow> string \<Rightarrow> string \<Rightarrow> outcome \<Rightarrow> span" where
  "tracing_middleware tool lang dur_ms out =
     (let status = derive_status out; txt = extract_error_text out
      in \<lparr>sp_name = ''tool.'' @ tool,
          sp_attrs = [(''tool.name'', tool), (''tool.status'', status), (''tool.duration_ms'', dur_ms), (''tool.language'', lang)]
            @ (if status = ''error'' \<and> txt \<noteq> [] then [(''tool.error'', truncate_text txt max_span_error_chars)] else []),
          sp_ok = (status \<noteq> ''error''),
          sp_desc = (if status = ''error'' then truncate_text txt max_desc else [])\<rparr>)"

section \<open>The three layers\<close>

record observed =
  ob_metrics :: "metrics option"
  ob_health :: "health option"
  ob_spans :: "span list"

text \<open>
  A call through what \<open>AddTool\<close> registers, from what the handler returned: the scrubbed outcome and the
  new state; \<open>tracing\<close> is whether there is a tracer.
\<close>

definition observed_call ::
  "bool \<Rightarrow> string \<Rightarrow> string \<Rightarrow> rat \<Rightarrow> string \<Rightarrow> int \<Rightarrow> string \<Rightarrow> outcome \<Rightarrow> observed \<Rightarrow> outcome \<times> observed" where
  "observed_call tracing tool lang dur dur_ms now hash out st =
     (case scrubbing_handler out (ob_metrics st) of
        (out', m) \<Rightarrow>
          (case metrics_middleware tool lang dur now hash out' (m, ob_health st) of
             (m', h') \<Rightarrow>
               (out', \<lparr>ob_metrics = m', ob_health = h',
                  ob_spans = ob_spans st @ (if tracing then [tracing_middleware tool lang dur_ms out'] else [])\<rparr>)))"

section \<open>The read-only surface\<close>

definition mutating_tools :: "string list" where
  "mutating_tools = [''Write'', ''Edit'', ''Bash'', ''BashOutput'', ''KillShell'', ''run_tests'', ''run_lint'', ''run_typecheck'',
     ''run_script'', ''run_failing_tests'', ''snapshot_create'', ''snapshot_restore'', ''rename_symbol'', ''edit_function_body'',
     ''insert_after_method'', ''change_function_signature'', ''render_mermaid'', ''render_dot'', ''watch_process'', ''watch_process_events'']"

lemma read_only_surface:
  "set (register_tools_for_mode False) = set (register_tools_for_mode True) \<union> set mutating_tools
   \<and> set (register_tools_for_mode True) \<inter> set mutating_tools = {} \<and> distinct (register_tools_for_mode False)"
proof -
  have "list_all (\<lambda>t. t \<notin> set mutating_tools) (register_tools_for_mode True)" by code_simp
  moreover have "register_tools_for_mode False = register_tools_for_mode True @ drop (length (register_tools_for_mode True)) (register_tools_for_mode False)"
    by code_simp
  moreover have "list_all (\<lambda>t. t \<in> set mutating_tools) (drop (length (register_tools_for_mode True)) (register_tools_for_mode False))"
    "list_all (\<lambda>t. t \<in> set (drop (length (register_tools_for_mode True)) (register_tools_for_mode False))) mutating_tools"
    by code_simp+
  moreover have "distinct (register_tools_for_mode False)" by code_simp
  ultimately show ?thesis by (metis (no_types, lifting) disjoint_iff list_all_iff set_append subsetI subset_antisym)
qed

section \<open>Bounds of the span texts\<close>

text \<open>
  texts put on a span are bounded.  \<open>truncate\<close> with a positive limit returns at most that many bytes, the
  text itself if it fits, else a prefix of it followed by the ellipsis, or the bare prefix where there is
  no room for one.
\<close>

theorem truncate_text_bounds:
  assumes "0 < n"
  shows "int (length (truncate_text s n)) \<le> n
    \<and> (int (length s) \<le> n \<longrightarrow> truncate_text s n = s)
    \<and> (n < int (length s) \<longrightarrow> int (length (truncate_text s n)) = n
        \<and> (\<exists>k. truncate_text s n = take k s @ (if n < 3 then [] else ellipsis)))"
  using assms by (auto simp: truncate_text_def ellipsis_def)

theorem truncate_text_bounds_witness: "int (length (truncate_text ''abcdefgh'' 5)) \<le> 5"
  using truncate_text_bounds [of 5 "''abcdefgh''"] by simp

section \<open>What an observed call tells whom\<close>

lemma scrub_ops_hits:
  "sc_hits st \<noteq> 0 \<Longrightarrow> mt_scrub_hits (fold apply_metric (scrub_hit_ops st) m) p =
     mt_scrub_hits m p + (if sc_pattern st = p then sc_hits st else 0)
   \<and> mt_scrub_bytes (fold apply_metric (scrub_hit_ops st) m) = mt_scrub_bytes m + sc_bytes st"
proof -
  have r: "mt_scrub_hits (fold apply_metric (replicate k (ScrubHit w 0)) m) p = mt_scrub_hits m p + (if w = p then k else 0)
    \<and> mt_scrub_bytes (fold apply_metric (replicate k (ScrubHit w 0)) m) = mt_scrub_bytes m" for k w m
    by (induction k arbitrary: m) (auto simp: inc_def simp del: fold_replicate)
  assume "sc_hits st \<noteq> 0"
  then show ?thesis by (auto simp: scrub_hit_ops_def r inc_def simp del: fold_replicate)
qed

lemma with_stats_hits: "st \<in> set (snd (with_stats_over ps t)) \<Longrightarrow> sc_hits st \<noteq> 0"
  by (induction ps t rule: with_stats_over.induct) (auto simp: Let_def split: if_splits prod.splits)

definition text_stats :: "content list \<Rightarrow> scrub_stat list" where
  "text_stats cs = concat (map (\<lambda>c. case c of TextContent t \<Rightarrow> snd (with_stats t) | OtherContent _ \<Rightarrow> []) cs)"

lemma content_ops_stats: "concat (map content_ops cs) = concat (map scrub_hit_ops (text_stats cs))"
proof (induction cs)
  case (Cons c cs)
  then show ?case by (cases c) (simp_all add: text_stats_def)
qed (simp add: text_stats_def)

lemma text_stats_hits: "st \<in> set (text_stats cs) \<Longrightarrow> sc_hits st \<noteq> 0"
  using with_stats_hits by (fastforce simp: text_stats_def with_stats_def split: content.splits)

lemma stats_counted:
  assumes "\<forall>st \<in> set sts. sc_hits st \<noteq> 0"
  shows "mt_scrub_hits (fold apply_metric (concat (map scrub_hit_ops sts)) m) p =
      mt_scrub_hits m p + sum_list (map sc_hits (filter (\<lambda>st. sc_pattern st = p) sts))
    \<and> mt_scrub_bytes (fold apply_metric (concat (map scrub_hit_ops sts)) m) = mt_scrub_bytes m + sum_list (map sc_bytes sts)
    \<and> mt_tool_calls (fold apply_metric (concat (map scrub_hit_ops sts)) m) = mt_tool_calls m"
  using assms
proof (induction sts arbitrary: m)
  case (Cons st sts)
  have "mt_tool_calls (fold apply_metric (replicate k (ScrubHit w 0)) m) = mt_tool_calls m" for k w m
    by (induction k arbitrary: m) (simp_all del: fold_replicate)
  then have "mt_tool_calls (fold apply_metric (scrub_hit_ops st) m) = mt_tool_calls m" for m
    by (simp add: scrub_hit_ops_def del: fold_replicate)
  then show ?case using Cons scrub_ops_hits [of st m p] by simp
qed simp

lemma fold_on_metrics: "fold on_metrics ops (Some m) = Some (fold apply_metric ops m)"
  by (induction ops arbitrary: m) (simp_all add: on_metrics_def)

lemma fold_on_none: "fold on_metrics ops None = None"
  by (induction ops) (simp_all add: on_metrics_def)

text \<open>
  every observer of a tool call sees the same, scrubbed call.  The caller gets the handler's result with
  each text scrubbed, everything else as it was; metrics, health and the span report one call with one
  status, which scrubbing does not change; the scrub counters grow by the hits and the bytes of exactly
  the texts of the result; and the error text of a span is at most 512 bytes of a scrubbed text, unless
  it is that of a Go error, which is not scrubbed.
\<close>

theorem observed_call_exact:
  assumes "observed_call tracing tool lang dur dur_ms now hash out st = (out', st')"
  shows "(case out of (Some r, None) \<Rightarrow> out' = (Some (r\<lparr>cr_content := map scrub_content (cr_content r)\<rparr>), None) | _ \<Rightarrow> out' = out)
    \<and> derive_status out' = derive_status out
    \<and> ob_health st' = map_option (observe now tool (derive_status out) hash) (ob_health st)
    \<and> (\<forall>m. ob_metrics st = Some m \<longrightarrow> (\<exists>m'. ob_metrics st' = Some m'
        \<and> mt_tool_calls m' = inc (mt_tool_calls m) (tool, derive_status out, lang)
        \<and> (let sts = (case out of (Some r, None) \<Rightarrow> text_stats (cr_content r) | _ \<Rightarrow> [])
           in mt_scrub_bytes m' = mt_scrub_bytes m + sum_list (map sc_bytes sts)
            \<and> (\<forall>p. mt_scrub_hits m' p = mt_scrub_hits m p + sum_list (map sc_hits (filter (\<lambda>s. sc_pattern s = p) sts))))))
    \<and> (\<forall>sp \<in> set (drop (length (ob_spans st)) (ob_spans st')). \<forall>v. (''tool.error'', v) \<in> set (sp_attrs sp) \<longrightarrow>
        length v \<le> 512 \<and> (snd out = None \<longrightarrow> (\<exists>t. v = truncate_text (scrub t) 512)))"
proof -
  obtain o' m where s: "scrubbing_handler out (ob_metrics st) = (o', m)" by fastforce
  have r: "out' = o'" "ob_metrics st' = on_metrics (ToolCall tool (derive_status o') lang dur) m"
    "ob_health st' = map_option (observe now tool (derive_status o') hash) (ob_health st)"
    "ob_spans st' = ob_spans st @ (if tracing then [tracing_middleware tool lang dur_ms o'] else [])"
    using assms by (auto simp: observed_call_def s metrics_middleware_def)
  let ?sts = "case out of (Some r, None) \<Rightarrow> text_stats (cr_content r) | _ \<Rightarrow> []"
  have o': "case out of (Some r, None) \<Rightarrow> o' = (Some (r\<lparr>cr_content := map scrub_content (cr_content r)\<rparr>), None) | _ \<Rightarrow> o' = out"
    and m: "m = (case ob_metrics st of None \<Rightarrow> None | Some x \<Rightarrow> Some (fold apply_metric (concat (map scrub_hit_ops ?sts)) x))"
    using s by (auto simp: scrubbing_handler_def content_ops_stats fold_on_metrics fold_on_none split: prod.splits option.splits)
  have d: "derive_status o' = derive_status out"
    using o' by (auto simp: derive_status_def split: prod.splits option.splits)
  have h: "\<forall>x \<in> set ?sts. sc_hits x \<noteq> 0" using text_stats_hits by (auto split: prod.splits option.splits)
  have met: "\<exists>m'. ob_metrics st' = Some m' \<and> mt_tool_calls m' = inc (mt_tool_calls x) (tool, derive_status out, lang)
        \<and> (let sts = ?sts in mt_scrub_bytes m' = mt_scrub_bytes x + sum_list (map sc_bytes sts)
          \<and> (\<forall>p. mt_scrub_hits m' p = mt_scrub_hits x p + sum_list (map sc_hits (filter (\<lambda>s. sc_pattern s = p) sts))))"
    if "ob_metrics st = Some x" for x
    using that stats_counted [OF h, of x] by (simp add: r(2) m d on_metrics_def Let_def)
  have sp: "length v \<le> 512 \<and> (snd out = None \<longrightarrow> (\<exists>t. v = truncate_text (scrub t) 512))"
    if "sp \<in> set (drop (length (ob_spans st)) (ob_spans st'))" "(''tool.error'', v) \<in> set (sp_attrs sp)" for sp v
  proof -
    have v: "v = truncate_text (extract_error_text o') 512" "extract_error_text o' \<noteq> []"
      using that unfolding r(4) by (auto simp: tracing_middleware_def max_span_error_chars_def Let_def split: if_splits)
    have "extract_error_text o' = [] \<or> (\<exists>t. extract_error_text o' = scrub t)" if "snd out = None"
      using o' that by (auto simp: extract_error_text_def split: prod.splits option.splits list.splits content.splits)
        (metis content.distinct(1) content.inject(1) scrub_content.elims)+
    moreover have "int (length v) \<le> 512" unfolding v(1) using truncate_text_bounds [of 512] by (auto simp: truncate_text_def ellipsis_def)
    ultimately show ?thesis using v by fastforce
  qed
  from o' d r(1,3) met sp show ?thesis by (auto split: prod.splits option.splits)
qed

theorem observed_call_exact_witness:
  "derive_status (fst (observed_call True ''Read'' ''go'' 1 ''1000'' 0 ''h'' (Some \<lparr>cr_content = [TextContent ''x''], cr_error = True\<rparr>, None)
      \<lparr>ob_metrics = Some new_metrics, ob_health = None, ob_spans = []\<rparr>)) = ''error''"
  using observed_call_exact [OF surjective_pairing, of True "''Read''" "''go''" 1 "''1000''" 0 "''h''"
      "(Some \<lparr>cr_content = [TextContent ''x''], cr_error = True\<rparr>, None)" "\<lparr>ob_metrics = Some new_metrics, ob_health = None, ob_spans = []\<rparr>"]
  by (simp add: derive_status_def)

end
