(* ===== verification/DirWalk.thy ===== *)
theory DirWalk
  imports FileSystem
begin

text \<open>
  Walking a directory tree, shared by the components that do: the listings of directories, the names
  that are always skipped, and \<open>filepath.Walk\<close> with a callback.  The order of a listing is that of the
  lister; the recursion is bounded by a number that has to exceed the depth of the tree.
\<close>

type_synonym dir_lister = "fs \<Rightarrow> phys \<Rightarrow> string list"

text \<open>A listing that names the entries of every directory, each once.\<close>

definition lists_dirs :: "dir_lister \<Rightarrow> fs \<Rightarrow> bool" where
  "lists_dirs ls f \<longleftrightarrow> (\<forall>p. f p = Some NDir \<longrightarrow> distinct (ls f p) \<and> (\<forall>c. c \<in> set (ls f p) \<longleftrightarrow> f (p @ [c]) \<noteq> None))"

definition skip_names :: "string list" where "skip_names = [''.git'', ''node_modules'']"

text \<open>Runs in sequence, up to and including the first that fails.\<close>

fun run_all :: "('a list \<times> bool) list \<Rightarrow> 'a list \<times> bool" where
  "run_all [] = ([], True)"
| "run_all (r # rs) = (if snd r then apfst ((@) (fst r)) (run_all rs) else r)"

lemma run_all_ok: "list_all snd rs \<Longrightarrow> run_all rs = (concat (map fst rs), True)"
  by (induction rs) auto

text \<open>
  What the callback of a walk answers: to go on, to leave out the directory it was called on
  (\<open>SkipDir\<close>, which no callback here answers on anything else), or an error, which ends the walk.
  What the callback collects is a list.
\<close>

datatype walk_answer = WalkOn | SkipDir | WalkFails

fun walk_tree :: "nat \<Rightarrow> dir_lister \<Rightarrow> fs \<Rightarrow> (phys \<Rightarrow> node \<Rightarrow> 'a list \<times> walk_answer) \<Rightarrow> phys \<Rightarrow> 'a list \<times> bool" where
  "walk_tree 0 ls f visit p = ([], True)"
| "walk_tree (Suc n) ls f visit p =
     (case f p of
        None \<Rightarrow> ([], True)
      | Some nd \<Rightarrow>
          (case visit p nd of
             (out, WalkFails) \<Rightarrow> (out, False)
           | (out, SkipDir) \<Rightarrow> (out, True)
           | (out, WalkOn) \<Rightarrow>
               if nd = NDir then apfst ((@) out) (run_all (map (\<lambda>c. walk_tree n ls f visit (p @ [c])) (ls f p)))
               else (out, True)))"

text \<open>The directories strictly above an entry, from the start of the walk, are all entered.\<close>

definition reached :: "(phys \<Rightarrow> node \<Rightarrow> 'a list \<times> walk_answer) \<Rightarrow> phys \<Rightarrow> phys \<Rightarrow> bool" where
  "reached visit p q \<longleftrightarrow> (\<forall>r. strict_prefix r q \<longrightarrow> snd (visit (p @ r) NDir) = WalkOn)"

lemma reached_Nil [simp]: "reached visit p []"
  by (simp add: reached_def)

lemma reached_Cons: "reached visit p (c # q) \<longleftrightarrow> snd (visit p NDir) = WalkOn \<and> reached visit (p @ [c]) q"
proof -
  have "strict_prefix r (c # q) \<longleftrightarrow> r = [] \<or> (\<exists>r'. r = c # r' \<and> strict_prefix r' q)" for r
    by (cases r) auto
  then show ?thesis by (auto simp: reached_def)
qed

text \<open>The usual callback leaves out the directories with a name that is skipped.\<close>

lemma reached_skip:
  assumes "\<And>q. snd (visit q NDir) = WalkOn \<longleftrightarrow> (q \<noteq> [] \<longrightarrow> last q \<notin> set skip_names)"
  shows "reached visit p q \<and> (p @ q \<noteq> [] \<longrightarrow> last (p @ q) \<notin> set skip_names)
    \<longleftrightarrow> (p \<noteq> [] \<longrightarrow> last p \<notin> set skip_names) \<and> set q \<inter> set skip_names = {}"
proof (induction q arbitrary: p)
  case (Cons c q)
  from Cons.IH [of "p @ [c]"] show ?case by (auto simp: reached_Cons assms)
qed simp

lemma reached_above:
  assumes "\<And>q. snd (visit q NDir) = WalkOn \<longleftrightarrow> (q \<noteq> [] \<longrightarrow> last q \<notin> set skip_names)" "q \<noteq> []"
  shows "reached visit p q \<longleftrightarrow> (p \<noteq> [] \<longrightarrow> last p \<notin> set skip_names) \<and> set (butlast q) \<inter> set skip_names = {}"
  using assms(2)
proof (induction q arbitrary: p)
  case (Cons c q)
  then show ?case by (cases "q = []") (auto simp: reached_Cons assms(1))
qed simp

text \<open>What a complete walk of a tree yields, and one level of it.\<close>

abbreviation walked :: "fs \<Rightarrow> (phys \<Rightarrow> node \<Rightarrow> 'a list \<times> walk_answer) \<Rightarrow> phys \<Rightarrow> 'a set" where
  "walked f visit p \<equiv> {x. \<exists>q nd. f (p @ q) = Some nd \<and> reached visit p q \<and> x \<in> set (fst (visit (p @ q) nd))}"

lemma walked_level:
  "walked f visit p = (case f p of None \<Rightarrow> {} | Some nd \<Rightarrow> set (fst (visit p nd)))
      \<union> (if snd (visit p NDir) = WalkOn then (\<Union>c. walked f visit (p @ [c])) else {})" (is "_ = ?h \<union> ?b")
proof (rule set_eqI, rule iffI)
  fix x assume "x \<in> walked f visit p"
  then obtain q nd where q: "f (p @ q) = Some nd" "reached visit p q" "x \<in> set (fst (visit (p @ q) nd))" by blast
  then show "x \<in> ?h \<union> ?b"
  proof (cases q)
    case (Cons c r)
    with q have "x \<in> walked f visit (p @ [c])" "snd (visit p NDir) = WalkOn" by (auto simp: reached_Cons)
    then show ?thesis by auto
  qed auto
next
  fix x assume "x \<in> ?h \<union> ?b"
  then consider nd where "f p = Some nd" "x \<in> set (fst (visit p nd))"
    | c q nd where "snd (visit p NDir) = WalkOn" "f ((p @ [c]) @ q) = Some nd" "reached visit (p @ [c]) q"
        "x \<in> set (fst (visit ((p @ [c]) @ q) nd))"
    by (auto split: if_splits option.splits)
  then show "x \<in> walked f visit p"
  proof cases
    case 1
    then show ?thesis by (intro CollectI exI [of _ "[]"]) simp
  next
    case (2 c q)
    then show ?thesis by (intro CollectI exI [of _ "c # q"]) (simp add: reached_Cons)
  qed
qed

lemma walked_missing:
  assumes "fs_wf f" "f p = None"
  shows "walked f visit p = {}"
proof -
  have "f (p @ q) = None" for q by (rule fs_wf_missing_below [OF assms])
  then show ?thesis by simp
qed

lemma walked_below_leaf:
  assumes "fs_wf f" "f p \<noteq> Some NDir"
  shows "walked f visit (p @ [c]) = {}"
proof -
  have "f (p @ [c]) = None" using fs_wf_parent [OF assms(1), of p c] assms(2) by blast
  then show ?thesis by (rule walked_missing [OF assms(1)])
qed

text \<open>A walk whose callback never fails visits exactly the entries below directories that are entered.\<close>

theorem walk_tree_set:
  assumes "fs_wf f" "lists_dirs ls f" "\<And>q nd. snd (visit q nd) \<noteq> WalkFails"
    and "\<And>q. f (p @ q) \<noteq> None \<Longrightarrow> length q < n"
  shows "snd (walk_tree n ls f visit p)
    \<and> set (fst (walk_tree n ls f visit p)) =
        {x. \<exists>q nd. f (p @ q) = Some nd \<and> reached visit p q \<and> x \<in> set (fst (visit (p @ q) nd))}"
  using assms(4)
proof (induction n arbitrary: p)
  case 0
  from 0 [of "[]"] have "f p = None" by (cases "f p") simp_all
  from walked_missing [OF assms(1) this, where visit = visit] show ?case by simp
next
  case (Suc n)
  show ?case
  proof (cases "f p = Some NDir \<and> snd (visit p NDir) = WalkOn")
    case True
    have sub: "snd (walk_tree n ls f visit (p @ [c])) \<and> set (fst (walk_tree n ls f visit (p @ [c]))) = walked f visit (p @ [c])" for c
    proof (rule Suc.IH)
      fix q assume "f ((p @ [c]) @ q) \<noteq> None"
      then show "length q < n" using Suc.prems [of "c # q"] by simp
    qed
    have "walked f visit (p @ [c]) = {}" if "c \<notin> set (ls f p)" for c
    proof -
      have "f (p @ [c]) = None" using that assms(2) True by (simp add: lists_dirs_def)
      then show ?thesis by (rule walked_missing [OF assms(1)])
    qed
    then have "(\<Union>c. walked f visit (p @ [c])) = (\<Union>c \<in> set (ls f p). walked f visit (p @ [c]))" by blast
    moreover obtain out where out: "visit p NDir = (out, WalkOn)" using True by (cases "visit p NDir") simp
    have "walk_tree (Suc n) ls f visit p = (out @ concat (map (\<lambda>c. fst (walk_tree n ls f visit (p @ [c]))) (ls f p)), True)"
      using True out sub run_all_ok [of "map (\<lambda>c. walk_tree n ls f visit (p @ [c])) (ls f p)"]
      by (simp add: list_all_iff comp_def)
    ultimately show ?thesis unfolding walked_level [where f = f and visit = visit and p = p] using True out sub by simp
  next
    case False
    have "(if snd (visit p NDir) = WalkOn then (\<Union>c. walked f visit (p @ [c])) else {}) = {}"
      using False walked_below_leaf [OF assms(1), where p = p and visit = visit] by auto
    moreover have "walk_tree (Suc n) ls f visit p = (case f p of None \<Rightarrow> ([], True) | Some nd \<Rightarrow> (fst (visit p nd), True))"
    proof (cases "f p")
      case (Some nd)
      obtain out k where v: "visit p nd = (out, k)" by (cases "visit p nd")
      with assms(3) [of p nd] Some False show ?thesis by (cases k) auto
    qed simp
    ultimately show ?thesis unfolding walked_level [where f = f and visit = visit and p = p] by (auto split: option.split)
  qed
qed

text \<open>A walk that collects at most the entry itself collects no entry twice.\<close>

lemma walk_tree_below:
  assumes "\<And>q nd. set (fst (visit q nd)) \<subseteq> {q}"
  shows "x \<in> set (fst (walk_tree n ls f visit p)) \<Longrightarrow> prefix p x"
proof (induction n arbitrary: p)
  case (Suc n)
  have "x \<in> set (fst (run_all (map (\<lambda>c. walk_tree n ls f visit (p @ [c])) cs))) \<Longrightarrow> prefix p x" for cs
    using Suc.IH append_prefixD by (induction cs) (auto split: if_splits dest: append_prefixD)
  note runs = this
  show ?case
  proof (cases "f p")
    case (Some nd)
    obtain out k where v: "visit p nd = (out, k)" by (cases "visit p nd")
    with assms [of p nd] have "set out \<subseteq> {p}" by simp
    with Suc.prems Some v show ?thesis using runs [of "ls f p"] by (cases k) (auto split: if_splits)
  qed (use Suc.prems in simp)
qed simp

lemma walk_tree_distinct:
  assumes "\<And>q nd. fst (visit q nd) \<in> {[], [q]}" "lists_dirs ls f"
  shows "distinct (fst (walk_tree n ls f visit p))"
proof (induction n arbitrary: p)
  case (Suc n)
  have s: "set (fst (visit q nd)) \<subseteq> {q}" for q nd using assms(1) [of q nd] by auto
  note below = walk_tree_below [of visit, OF s]
  have runs: "x \<in> set (fst (run_all (map (\<lambda>c. walk_tree n ls f visit (p @ [c])) cs))) \<Longrightarrow> \<exists>c \<in> set cs. prefix (p @ [c]) x" for x cs
    using below by (induction cs) (auto split: if_splits)
  have d: "distinct (fst (run_all (map (\<lambda>c. walk_tree n ls f visit (p @ [c])) cs)))" if "distinct cs" for cs
    using that
  proof (induction cs)
    case (Cons c cs)
    have "set (fst (walk_tree n ls f visit (p @ [c]))) \<inter> set (fst (run_all (map (\<lambda>c. walk_tree n ls f visit (p @ [c])) cs))) = {}"
    proof (rule ccontr)
      assume "\<not> ?thesis"
      then obtain x where "x \<in> set (fst (walk_tree n ls f visit (p @ [c])))"
        "x \<in> set (fst (run_all (map (\<lambda>c. walk_tree n ls f visit (p @ [c])) cs)))" by blast
      with below runs obtain c' where "prefix (p @ [c]) x" "c' \<in> set cs" "prefix (p @ [c']) x" by blast
      then have "c = c'" by (auto simp: prefix_def)
      with Cons.prems \<open>c' \<in> set cs\<close> show False by simp
    qed
    with Cons Suc.IH show ?case by simp
  qed simp
  show ?case
  proof (cases "f p")
    case (Some nd)
    have "p \<notin> set (fst (run_all (map (\<lambda>c. walk_tree n ls f visit (p @ [c])) cs)))" for cs
      using runs [of p cs] by (auto simp: prefix_def)
    moreover have "distinct (fst (visit p nd))" "set (fst (visit p nd)) \<subseteq> {p}" using assms(1) [of p nd] by auto
    moreover have "nd = NDir \<Longrightarrow> distinct (ls f p)" using assms(2) Some by (simp add: lists_dirs_def)
    ultimately show ?thesis using Some d by (auto split: prod.split walk_answer.split)
  qed simp
qed simp

end
