(* ===== verification/ApiEvents.thy ===== *)
theory ApiEvents
  imports ApiServer DirWalk
begin

text \<open>
  The streaming routes of the HTTP API: the event stream (\<open>internal/api/events.go\<close>), the download of
  the workspace as a zip archive (\<open>download.go\<close>) and the two document routes (\<open>docs.go\<close>).  Directory
  listings, the JSON encoder of strings, the clock and the failures of reading are arguments; an archive
  is the list of its entries.  The walks of \<open>filepath.WalkDir\<close> are bounded by the depth of the tree.
\<close>

section \<open>Events\<close>

record api_fs_event =
  we_name :: string
  we_create :: bool
  we_write :: bool
  we_remove :: bool
  we_rename :: bool

definition classify_op :: "api_fs_event \<Rightarrow> string" where
  "classify_op ev =
     (if we_remove ev then ''remove'' else if we_rename ev then ''rename''
      else if we_create ev then ''create'' else if we_write ev then ''write'' else [])"

definition api_skip_path :: "string \<Rightarrow> bool" where
  "api_skip_path rel \<longleftrightarrow> rel = ''.git'' \<or> has_prefix rel ''.git/'' \<or> rel = ''node_modules'' \<or> has_prefix rel ''node_modules/''"

text \<open>\<open>addWatchRecursive\<close>: the directories it adds to the watcher.\<close>

definition watch_visit :: "phys \<Rightarrow> node \<Rightarrow> phys list \<times> walk_answer" where
  "watch_visit p nd =
     (if nd \<noteq> NDir then ([], WalkOn)
      else if p \<noteq> [] \<and> last p \<in> set skip_names then ([], SkipDir)
      else ([p], WalkOn))"

definition watch_dirs :: "nat \<Rightarrow> dir_lister \<Rightarrow> fs \<Rightarrow> phys \<Rightarrow> phys list" where
  "watch_dirs n ls f p = fst (walk_tree n ls f watch_visit p)"

record event_stream =
  es_watched :: "phys set"
  es_sent :: "string list"

definition sse_line :: "(string \<Rightarrow> string) \<Rightarrow> string \<Rightarrow> string \<Rightarrow> string \<Rightarrow> string" where
  "sse_line enc now typ rel =
     ''data: {'' @ quote ''type'' @ '':'' @ enc typ @ '','' @ quote ''path'' @ '':'' @ enc rel @ '','' @ quote ''ts'' @ '':'' @ enc now
     @ ''}'' @ [newline, newline]"

text \<open>\<open>handleFSEvent\<close>; the result is whether the loop goes on, \<open>writable\<close> whether the client is there.\<close>

definition handle_fs_event ::
  "(string \<Rightarrow> string) \<Rightarrow> string \<Rightarrow> bool \<Rightarrow> nat \<Rightarrow> dir_lister \<Rightarrow> fs \<Rightarrow> string \<Rightarrow> api_fs_event \<Rightarrow> event_stream \<Rightarrow> bool \<times> event_stream" where
  "handle_fs_event enc now writable n ls f wroot ev s =
     (case fp_rel wroot (we_name ev) of
        None \<Rightarrow> (True, s)
      | Some rel \<Rightarrow>
          if has_prefix rel ''..'' \<or> api_skip_path rel then (True, s)
          else
            let s1 = (if we_create ev \<and> k_stat f (we_name ev) = Inr NDir
                      then (case k_lookup f False (we_name ev) of
                              Inr q \<Rightarrow> s\<lparr>es_watched := es_watched s \<union> set (watch_dirs n ls f q)\<rparr>
                            | Inl _ \<Rightarrow> s)
                      else s)
            in if classify_op ev = [] then (True, s1)
               else if \<not> writable then (False, s1)
               else (True, s1\<lparr>es_sent := es_sent s1 @ [sse_line enc now (classify_op ev) rel]\<rparr>))"

text \<open>One turn of \<open>runEventsLoop\<close>.\<close>

datatype loop_input = RequestDone | Event api_fs_event | EventsClosed | WatchError | ErrorsClosed | Ping

fun events_loop_step ::
  "(string \<Rightarrow> string) \<Rightarrow> string \<Rightarrow> bool \<Rightarrow> nat \<Rightarrow> dir_lister \<Rightarrow> fs \<Rightarrow> string \<Rightarrow> loop_input \<Rightarrow> event_stream \<Rightarrow> bool \<times> event_stream" where
  "events_loop_step enc now writable n ls f wroot RequestDone s = (False, s)"
| "events_loop_step enc now writable n ls f wroot EventsClosed s = (False, s)"
| "events_loop_step enc now writable n ls f wroot ErrorsClosed s = (False, s)"
| "events_loop_step enc now writable n ls f wroot WatchError s = (True, s)"
| "events_loop_step enc now writable n ls f wroot Ping s =
     (if writable then (True, s\<lparr>es_sent := es_sent s @ ['': ping'' @ [newline, newline]]\<rparr>) else (False, s))"
| "events_loop_step enc now writable n ls f wroot (Event ev) s = handle_fs_event enc now writable n ls f wroot ev s"

fun events_loop :: "(string \<Rightarrow> string) \<Rightarrow> string \<Rightarrow> nat \<Rightarrow> dir_lister \<Rightarrow> fs \<Rightarrow> string \<Rightarrow> (bool \<times> loop_input) list \<Rightarrow> event_stream \<Rightarrow> event_stream" where
  "events_loop enc now n ls f wroot [] s = s"
| "events_loop enc now n ls f wroot ((writable, i) # is) s =
     (case events_loop_step enc now writable n ls f wroot i s of
        (False, s') \<Rightarrow> s'
      | (True, s') \<Rightarrow> events_loop enc now n ls f wroot is s')"

section \<open>What the stream tells\<close>

lemma rel_prefix:
  assumes "list_all plain q" "q \<noteq> []" "slash \<notin> set w"
  shows "has_prefix (join [slash] q) w \<longleftrightarrow> has_prefix (hd q) w"
proof (cases q)
  case (Cons c cs)
  then have c: "slash \<notin> set c" using assms(1) by auto
  show ?thesis
  proof (cases "cs = []")
    case False
    have "prefix w (c @ slash # r) \<longleftrightarrow> prefix w c" for r
      using assms(3) by (auto simp: prefix_append prefix_Cons)
    then show ?thesis using Cons False by (simp add: has_prefix_def join_Cons)
  qed (simp add: Cons)
qed (use assms in simp)

lemma api_skip_rel:
  assumes "list_all plain q" "q \<noteq> []"
  shows "api_skip_path (join [slash] q) \<longleftrightarrow> hd q \<in> set skip_names"
proof -
  have first: "(join [slash] q = w \<or> has_prefix (join [slash] q) (w @ [slash])) \<longleftrightarrow> hd q = w" if "slash \<notin> set w" for w
  proof (cases q)
    case (Cons c cs)
    then have c: "slash \<notin> set c" using assms(1) by auto
    show ?thesis
    proof (cases "cs = []")
      case True
      then show ?thesis using Cons c by (auto simp: has_prefix_def dest: set_mono_prefix)
    next
      case False
      have "c @ slash # r \<noteq> w" for r using that by auto
      moreover have "prefix (w @ [slash]) (c @ slash # r) \<longleftrightarrow> c = w" for r
      proof
        assume "prefix (w @ [slash]) (c @ slash # r)"
        then obtain t where "c @ slash # r = w @ slash # t" by (auto simp: prefix_def)
        then have "split_first slash (c @ slash # r) = split_first slash (w @ slash # t)" by simp
        then show "c = w" by (simp add: split_first_append c that)
      qed auto
      ultimately show ?thesis using Cons False by (simp add: has_prefix_def join_Cons)
    qed
  qed (use assms in simp)
  have "slash \<notin> set ''.git''" "slash \<notin> set ''node_modules''" by simp_all
  from first [OF this(1)] first [OF this(2)] show ?thesis by (auto simp: api_skip_path_def skip_names_def)
qed

text \<open>
  the stream tells every change under the root, with two exceptions.  An event on a path below the root
  is sent, with its path relative to the root and the strongest of its operations, unless the first
  element of that path is \<open>.git\<close> or \<open>node_modules\<close> or starts with two dots - so changes of an entry
  such as \<open>..data\<close> at the root are lost - or the event is none of create, write, remove and rename.
\<close>

theorem fs_event_exact:
  assumes "ws_ok f w" "list_all plain q" "we_name ev = abs_path (root_of w @ q)"
  shows "es_sent (snd (handle_fs_event enc now writable n ls f (ws_root w) ev s)) =
    (if writable \<and> classify_op ev \<noteq> [] \<and> (q = [] \<or> hd q \<notin> set skip_names \<and> \<not> has_prefix (hd q) ''..'')
     then es_sent s @ [sse_line enc now (classify_op ev) (if q = [] then ''.'' else join [slash] q)] else es_sent s)"
proof -
  have r: "ws_root w = abs_path (root_of w)" "list_all plain (root_of w)" using assms(1) by (auto elim: ws_okE)
  have rel: "fp_rel (ws_root w) (we_name ev) = Some (if q = [] then ''.'' else join [slash] q)"
  proof (cases "q = []")
    case True
    then show ?thesis unfolding assms(3) by (simp add: fp_rel_def r)
  next
    case False
    have "list_all plain (root_of w @ q)" using r(2) assms(2) by simp
    from fp_rel_inside [OF r(2) this False] show ?thesis using False r(1) assms(3) by simp
  qed
  have sent: "es_sent (if b then (case x of Inr q \<Rightarrow> s\<lparr>es_watched := es_watched s \<union> set (watch_dirs n ls f q)\<rparr> | Inl (_ :: errno) \<Rightarrow> s) else s) = es_sent s"
    for b and x by (simp split: sum.split)
  show ?thesis
  proof (cases "q = []")
    case True
    have "\<not> has_prefix ''.'' ''..''" "\<not> api_skip_path ''.''" by code_simp+
    then show ?thesis using rel sent True by (simp add: handle_fs_event_def Let_def)
  next
    case False
    have "has_prefix (join [slash] q) ''..'' \<longleftrightarrow> has_prefix (hd q) ''..''"
      by (rule rel_prefix [OF assms(2) False]) simp
    then show ?thesis using rel sent False api_skip_rel [OF assms(2) False] by (simp add: handle_fs_event_def Let_def)
  qed
qed

theorem fs_event_exact_witness:
  "es_sent (snd (handle_fs_event quote ''now'' True 3 (\<lambda>_ _. []) flood_fs (ws_root flood_ws)
      \<lparr>we_name = abs_path (root_of flood_ws @ [''..data'']), we_create = True, we_write = False, we_remove = False, we_rename = False\<rparr>
      \<lparr>es_watched = {}, es_sent = []\<rparr>)) = []"
proof -
  have "list_all plain [''..data'']" by code_simp
  from fs_event_exact [OF flood_ws_ok this, of "\<lparr>we_name = abs_path (root_of flood_ws @ [''..data'']), we_create = True,
      we_write = False, we_remove = False, we_rename = False\<rparr>"]
  show ?thesis by (simp add: has_prefix_def)
qed

text \<open>The watched directories: all below the start that are not under a skipped name.\<close>

lemma watch_dirs_set:
  assumes "fs_wf f" "lists_dirs ls f" "\<And>q. f (p @ q) \<noteq> None \<Longrightarrow> length q < n"
  shows "set (watch_dirs n ls f p) =
    {p @ q |q. f (p @ q) = Some NDir \<and> (p \<noteq> [] \<longrightarrow> last p \<notin> set skip_names) \<and> set q \<inter> set skip_names = {}}"
proof -
  have nf: "snd (watch_visit q nd) \<noteq> WalkFails" for q nd by (simp add: watch_visit_def)
  have on: "snd (watch_visit q NDir) = WalkOn \<longleftrightarrow> (q \<noteq> [] \<longrightarrow> last q \<notin> set skip_names)" for q
    by (simp add: watch_visit_def)
  have r: "reached watch_visit p q \<and> (p @ q \<noteq> [] \<longrightarrow> last (p @ q) \<notin> set skip_names)
      \<longleftrightarrow> (p \<noteq> [] \<longrightarrow> last p \<notin> set skip_names) \<and> set q \<inter> set skip_names = {}" for q
    by (rule reached_skip) (rule on)
  have v: "x \<in> set (fst (watch_visit q nd)) \<longleftrightarrow> nd = NDir \<and> x = q \<and> (q \<noteq> [] \<longrightarrow> last q \<notin> set skip_names)" for x q nd
    by (simp add: watch_visit_def)
  have "set (watch_dirs n ls f p) = {x. \<exists>q nd. f (p @ q) = Some nd \<and> reached watch_visit p q \<and> x \<in> set (fst (watch_visit (p @ q) nd))}"
    unfolding watch_dirs_def using walk_tree_set [of f ls watch_visit p n] assms nf by simp
  also have "\<dots> = {x. \<exists>q. f (p @ q) = Some NDir \<and> x = p @ q
      \<and> reached watch_visit p q \<and> (p @ q \<noteq> [] \<longrightarrow> last (p @ q) \<notin> set skip_names)}"
    unfolding v by metis
  finally show ?thesis unfolding r by blast
qed

section \<open>The archive\<close>

datatype zip_entry = ZDir string | ZFile string string

datatype read_fault = StatFails | OpenFails | CopyFails nat

definition zip_regular_file :: "read_fault option \<Rightarrow> string \<Rightarrow> string \<Rightarrow> zip_entry list \<times> bool" where
  "zip_regular_file fault rel d =
     (case fault of
        None \<Rightarrow> ([ZFile rel d], True)
      | Some StatFails \<Rightarrow> ([], False)
      | Some OpenFails \<Rightarrow> ([ZFile rel []], False)
      | Some (CopyFails k) \<Rightarrow> ([ZFile rel (take k d)], False))"

text \<open>The callback on the entry \<open>c\<close> of a directory, with what the walk below it would give.\<close>

definition zip_visit :: "(phys \<Rightarrow> read_fault option) \<Rightarrow> fs \<Rightarrow> phys \<Rightarrow> phys \<Rightarrow> string \<Rightarrow> zip_entry list \<times> bool \<Rightarrow> zip_entry list \<times> bool" where
  "zip_visit faults f wroot rel c below =
     (let r = rel @ [c]
      in if c \<in> set skip_names then ([], True)
         else case f (wroot @ r) of
                Some NDir \<Rightarrow> apfst ((#) (ZDir (join [slash] r @ [slash]))) below
              | Some (NFile d) \<Rightarrow> zip_regular_file (faults (wroot @ r)) (join [slash] r) d
              | _ \<Rightarrow> ([], True))"

fun zip_walk :: "nat \<Rightarrow> (phys \<Rightarrow> read_fault option) \<Rightarrow> dir_lister \<Rightarrow> fs \<Rightarrow> phys \<Rightarrow> phys \<Rightarrow> zip_entry list \<times> bool" where
  "zip_walk 0 faults ls f wroot rel = ([], True)"
| "zip_walk (Suc n) faults ls f wroot rel =
     (if faults (wroot @ rel) \<noteq> None then ([], False)
      else run_all (map (\<lambda>c. zip_visit faults f wroot rel c (zip_walk n faults ls f wroot (rel @ [c]))) (ls f (wroot @ rel))))"

definition content_disposition :: "string \<Rightarrow> string" where
  "content_disposition ts = ''attachment; filename='' @ CHR 0x22 # ''workspace-'' @ ts @ ''.zip'' @ [CHR 0x22]"

definition download_handler :: "nat \<Rightarrow> (phys \<Rightarrow> read_fault option) \<Rightarrow> dir_lister \<Rightarrow> string \<Rightarrow> (zip_entry list \<Rightarrow> string) \<Rightarrow> workspace \<Rightarrow> fs
    \<Rightarrow> http_response" where
  "download_handler n faults ls ts encode w f =
     \<lparr>rs_code = 200,
      rs_headers = [(''Content-Type'', ''application/zip''), (''Content-Disposition'', content_disposition ts)],
      rs_body = encode (fst (zip_walk n faults ls f (root_of w) []))\<rparr>"

definition download_filename_from_header :: "string \<Rightarrow> string" where
  "download_filename_from_header h =
     (let marker = ''filename='' @ [CHR 0x22]
      in case str_index h marker of
           None \<Rightarrow> []
         | Some i \<Rightarrow>
             let rest = drop (i + length marker) h
             in case str_index rest [CHR 0x22] of None \<Rightarrow> [] | Some j \<Rightarrow> take j rest)"

section \<open>The documents\<close>

definition openapi_handler :: "string \<Rightarrow> http_response" where
  "openapi_handler spec =
     \<lparr>rs_code = 200, rs_headers = [(''Content-Type'', ''application/yaml; charset=utf-8''), (''Cache-Control'', ''no-cache'')], rs_body = spec\<rparr>"

definition docs_handler :: "string \<Rightarrow> http_response" where
  "docs_handler html = \<lparr>rs_code = 200, rs_headers = [(''Content-Type'', ''text/html; charset=utf-8'')], rs_body = html\<rparr>"

section \<open>What the archive holds\<close>

text \<open>The entry of one path below the root, if it has one.\<close>

definition zip_entry_of :: "fs \<Rightarrow> phys \<Rightarrow> phys \<Rightarrow> zip_entry option" where
  "zip_entry_of f wroot q =
     (case f (wroot @ q) of
        Some NDir \<Rightarrow> Some (ZDir (join [slash] q @ [slash]))
      | Some (NFile d) \<Rightarrow> Some (ZFile (join [slash] q) d)
      | _ \<Rightarrow> None)"

definition zip_below :: "fs \<Rightarrow> phys \<Rightarrow> phys \<Rightarrow> zip_entry set" where
  "zip_below f wroot rel = {e. \<exists>q. q \<noteq> [] \<and> set q \<inter> set skip_names = {} \<and> zip_entry_of f wroot (rel @ q) = Some e}"

definition zip_from :: "fs \<Rightarrow> phys \<Rightarrow> phys \<Rightarrow> string \<Rightarrow> zip_entry set" where
  "zip_from f wroot rel c =
     (if c \<in> set skip_names then {} else set_option (zip_entry_of f wroot (rel @ [c])) \<union> zip_below f wroot (rel @ [c]))"

lemma zip_below_split: "zip_below f wroot rel = (\<Union>c. zip_from f wroot rel c)"
proof (rule set_eqI, rule iffI)
  fix e assume "e \<in> zip_below f wroot rel"
  then obtain c q where q: "c \<notin> set skip_names" "set q \<inter> set skip_names = {}" "zip_entry_of f wroot (rel @ c # q) = Some e"
    by (auto simp: zip_below_def neq_Nil_conv)
  then have "e \<in> zip_from f wroot rel c" by (cases "q = []") (auto simp: zip_from_def zip_below_def)
  then show "e \<in> (\<Union>c. zip_from f wroot rel c)" by blast
next
  fix e assume "e \<in> (\<Union>c. zip_from f wroot rel c)"
  then obtain c where c: "c \<notin> set skip_names" "e \<in> set_option (zip_entry_of f wroot (rel @ [c])) \<union> zip_below f wroot (rel @ [c])"
    by (auto simp: zip_from_def split: if_splits)
  then obtain q where "set q \<inter> set skip_names = {}" "zip_entry_of f wroot (rel @ c # q) = Some e"
    by (force simp: zip_below_def)
  with c(1) show "e \<in> zip_below f wroot rel" unfolding zip_below_def by (intro CollectI exI [of _ "c # q"]) simp
qed

lemma zip_below_leaf:
  assumes "fs_wf f" "f (wroot @ rel) \<noteq> Some NDir"
  shows "zip_below f wroot rel = {}"
proof -
  have "f ((wroot @ rel) @ q) = None" if "q \<noteq> []" for q
    using that assms fs_wf_above [OF assms(1), of "wroot @ rel" q] by blast
  then show ?thesis by (auto simp: zip_below_def zip_entry_of_def)
qed

lemma zip_visit_set:
  assumes "fs_wf f" "\<And>q. faults q = None"
    and "f (wroot @ rel @ [c]) = Some NDir \<Longrightarrow> snd below \<and> set (fst below) = zip_below f wroot (rel @ [c])"
  shows "snd (zip_visit faults f wroot rel c below)
    \<and> set (fst (zip_visit faults f wroot rel c below)) = zip_from f wroot rel c"
proof (cases "c \<in> set skip_names")
  case skip: False
  consider "f (wroot @ rel @ [c]) = Some NDir" | d where "f (wroot @ rel @ [c]) = Some (NFile d)"
    | "f (wroot @ rel @ [c]) = None" | t where "f (wroot @ rel @ [c]) = Some (NLink t)"
    by (metis node.exhaust option.exhaust)
  then show ?thesis
  proof cases
    case 1
    then show ?thesis using skip assms(3) by (simp add: zip_visit_def zip_from_def zip_entry_of_def)
  next
    case (2 d)
    then have "zip_below f wroot (rel @ [c]) = {}" using zip_below_leaf [OF assms(1), of wroot "rel @ [c]"] by simp
    then show ?thesis using skip 2 by (simp add: zip_visit_def zip_from_def zip_entry_of_def zip_regular_file_def assms(2))
  next
    case 3
    then have "zip_below f wroot (rel @ [c]) = {}" using zip_below_leaf [OF assms(1), of wroot "rel @ [c]"] by simp
    then show ?thesis using skip 3 by (simp add: zip_visit_def zip_from_def zip_entry_of_def)
  next
    case (4 t)
    then have "zip_below f wroot (rel @ [c]) = {}" using zip_below_leaf [OF assms(1), of wroot "rel @ [c]"] by simp
    then show ?thesis using skip 4 by (simp add: zip_visit_def zip_from_def zip_entry_of_def)
  qed
qed (simp add: zip_visit_def zip_from_def)

lemma zip_walk_set:
  assumes "fs_wf f" "lists_dirs ls f" "\<And>q. faults q = None"
    and "\<And>q. f (wroot @ rel @ q) \<noteq> None \<Longrightarrow> length q < n" "f (wroot @ rel) = Some NDir"
  shows "snd (zip_walk n faults ls f wroot rel) \<and> set (fst (zip_walk n faults ls f wroot rel)) = zip_below f wroot rel"
  using assms(4,5)
proof (induction n arbitrary: rel)
  case 0
  from "0.prems"(1) [of "[]"] "0.prems"(2) show ?case by simp
next
  case (Suc n)
  let ?v = "\<lambda>c. zip_visit faults f wroot rel c (zip_walk n faults ls f wroot (rel @ [c]))"
  have v: "snd (?v c) \<and> set (fst (?v c)) = zip_from f wroot rel c" for c
  proof (rule zip_visit_set [OF assms(1,3)])
    assume d: "f (wroot @ rel @ [c]) = Some NDir"
    have "length q < n" if "f (wroot @ (rel @ [c]) @ q) \<noteq> None" for q
      using Suc.prems(1) [of "c # q"] that by simp
    from Suc.IH [of "rel @ [c]", OF this] d
    show "snd (zip_walk n faults ls f wroot (rel @ [c])) \<and> set (fst (zip_walk n faults ls f wroot (rel @ [c]))) = zip_below f wroot (rel @ [c])"
      by simp
  qed
  have w: "zip_walk (Suc n) faults ls f wroot rel = (concat (map (fst \<circ> ?v) (ls f (wroot @ rel))), True)"
    using run_all_ok [of "map ?v (ls f (wroot @ rel))"] v by (simp add: list_all_iff assms(3))
  have "zip_from f wroot rel c = {}" if "c \<notin> set (ls f (wroot @ rel))" for c
  proof -
    have "f (wroot @ rel @ [c]) = None" using that assms(2) Suc.prems(2) by (simp add: lists_dirs_def)
    moreover from this have "zip_below f wroot (rel @ [c]) = {}" using zip_below_leaf [OF assms(1), of wroot "rel @ [c]"] by simp
    ultimately show ?thesis by (simp add: zip_from_def zip_entry_of_def)
  qed
  then have "zip_below f wroot rel = (\<Union>c \<in> set (ls f (wroot @ rel)). zip_from f wroot rel c)"
    unfolding zip_below_split by blast
  then show ?case unfolding w using v by simp
qed

text \<open>
  a download holds the workspace and nothing else.  Without read failures the archive has exactly one
  entry per directory and one with the content per regular file below the root, except what is named
  \<open>.git\<close> or \<open>node_modules\<close> - files too - or lies below such a name; symbolic links are left out, so
  nothing outside the workspace is in it.  Its file name can be read back from the header.
\<close>

theorem download_exact:
  assumes "fs_wf f" "lists_dirs ls f" "f (root_of w) = Some NDir" "\<forall>q. f (root_of w @ q) \<noteq> None \<longrightarrow> length q < n"
  shows "snd (zip_walk n (\<lambda>_. None) ls f (root_of w) [])
    \<and> set (fst (zip_walk n (\<lambda>_. None) ls f (root_of w) [])) =
        {e. \<exists>q. q \<noteq> [] \<and> set q \<inter> {''.git'', ''node_modules''} = {} \<and>
          (f (root_of w @ q) = Some NDir \<and> e = ZDir (join [slash] q @ [slash])
           \<or> (\<exists>d. f (root_of w @ q) = Some (NFile d) \<and> e = ZFile (join [slash] q) d))}"
proof -
  have z: "zip_entry_of f (root_of w) q = Some e \<longleftrightarrow>
      f (root_of w @ q) = Some NDir \<and> e = ZDir (join [slash] q @ [slash])
      \<or> (\<exists>d. f (root_of w @ q) = Some (NFile d) \<and> e = ZFile (join [slash] q) d)" for q e
    by (auto simp: zip_entry_of_def split: option.splits node.splits)
  have "set skip_names = {''.git'', ''node_modules''}" by (auto simp: skip_names_def)
  then show ?thesis
    using zip_walk_set [OF assms(1,2), of "\<lambda>_. None" "root_of w" "[]" n] assms(3,4) by (simp add: z zip_below_def)
qed

definition demo_dirs :: dir_lister where
  "demo_dirs f p = (if p = [] then [''w'', ''etc''] else if p = [''w''] then [''l'', ''esc''] else if p = [''etc''] then [''passwd''] else [])"

theorem download_exact_witness:
  "set (fst (zip_walk 2 (\<lambda>_. None) demo_dirs flood_fs (root_of flood_ws) [])) =
     {e. \<exists>q. q \<noteq> [] \<and> set q \<inter> {''.git'', ''node_modules''} = {} \<and>
       (flood_fs (root_of flood_ws @ q) = Some NDir \<and> e = ZDir (join [slash] q @ [slash])
        \<or> (\<exists>d. flood_fs (root_of flood_ws @ q) = Some (NFile d) \<and> e = ZFile (join [slash] q) d))}"
proof -
  have r: "root_of flood_ws = [''w'']" by code_simp
  have "lists_dirs demo_dirs flood_fs"
    by (auto simp: lists_dirs_def demo_dirs_def flood_fs_def append_eq_Cons_conv split: if_splits)
  moreover have "flood_fs (root_of flood_ws) = Some NDir" unfolding r by code_simp
  moreover have "\<forall>q. flood_fs (root_of flood_ws @ q) \<noteq> None \<longrightarrow> length q < 2"
    unfolding r by (auto simp: flood_fs_def split: if_splits)
  ultimately show ?thesis using download_exact [OF flood_fs_wf] by blast
qed

lemma download_name: "CHR 0x22 \<notin> set ts \<Longrightarrow> download_filename_from_header (content_disposition ts) = ''workspace-'' @ ts @ ''.zip''"
proof -
  assume q: "CHR 0x22 \<notin> set ts"
  have f: "str_index (x @ CHR 0x22 # y) [CHR 0x22] = Some (length x)" if "CHR 0x22 \<notin> set x" for x y
    using that by (induction x) auto
  have i: "str_index (content_disposition ts) (''filename='' @ [CHR 0x22]) = Some 12"
    by (simp add: content_disposition_def)
  have "CHR 0x22 \<notin> set (''workspace-'' @ ts @ ''.zip'')" using q by simp
  from f [OF this, of "[]"] show ?thesis
    unfolding download_filename_from_header_def i Let_def by (simp add: content_disposition_def)
qed

end
