(* ===== verification/Wiring.thy ===== *)
theory Wiring
  imports Server ApiEvents
begin

text \<open>
  The process around the servers: the configuration and the set of workspaces (\<open>cmd/sandbox/run.go\<close>),
  which listeners are built, the probes (\<open>internal/probes/probes.go\<close>), the refreshed gauges, and how the
  process ends.  The flags and the start of the process are in theory \<open>MainRun\<close>; the listeners themselves and the
  clocks of the tickers are the library's.
\<close>

section \<open>Configuration\<close>

record run_config =
  rc_addr :: string
  rc_api_addr :: string
  rc_metrics_addr :: string
  rc_workspace_root :: string
  rc_workspaces_spec :: string
  rc_dev_mode :: bool
  rc_enable_api :: bool
  rc_enable_exec :: bool
  rc_enable_port_forward :: bool
  rc_enable_ssh :: bool
  rc_secrets_dir :: string
  rc_otlp_endpoint :: string
  rc_repetition_window :: int
  rc_repetition_threshold :: int
  rc_error_rate_window :: int
  rc_read_only :: bool

definition api_enabled :: "run_config \<Rightarrow> bool" where
  "api_enabled c \<longleftrightarrow> rc_api_addr c \<noteq> [] \<and> (rc_enable_api c \<or> rc_enable_exec c \<or> rc_enable_port_forward c \<or> rc_enable_ssh c)"

definition spec_entry :: "string \<Rightarrow> string + ws_entry" where
  "spec_entry raw =
     (let (name, path) = (case split_first (CHR ''='') raw of (n, Some p) \<Rightarrow> (n, p) | (n, None) \<Rightarrow> ([], n))
      in if trim_space path = [] then Inl (''workspaces: empty path in entry '' @ quote raw)
         else Inr \<lparr>entry_name = trim_space name, entry_root = trim_space path\<rparr>)"

fun spec_entries :: "string list \<Rightarrow> string + ws_entry list" where
  "spec_entries [] = Inr []"
| "spec_entries (r # rs) =
     (let raw = trim_space r
      in if raw = [] then spec_entries rs
         else case spec_entry raw of
                Inl e \<Rightarrow> Inl e
              | Inr x \<Rightarrow> (case spec_entries rs of Inl e \<Rightarrow> Inl e | Inr xs \<Rightarrow> Inr (x # xs)))"

definition parse_workspaces_spec :: "string \<Rightarrow> string + ws_entry list" where
  "parse_workspaces_spec spec =
     (case spec_entries (split_on (CHR '','') spec) of
        Inl e \<Rightarrow> Inl e
      | Inr xs \<Rightarrow> if xs = [] then Inl (''workspaces: no entries parsed from '' @ quote spec) else Inr xs)"

definition build_workspace_set :: "fs \<Rightarrow> run_config \<Rightarrow> string + ws_set" where
  "build_workspace_set f c =
     (if rc_workspaces_spec c = [] then
        (case workspace_new f (rc_workspace_root c) of Inl e \<Rightarrow> Inl e | Inr w \<Rightarrow> Inr (new_singleton_set w))
      else if rc_workspace_root c \<noteq> [] \<and> rc_workspace_root c \<noteq> ''/workspace'' then
        Inl (''-workspace '' @ quote (rc_workspace_root c) @ '' and -workspaces '' @ quote (rc_workspaces_spec c)
          @ '' are mutually exclusive; use one'')
      else case parse_workspaces_spec (rc_workspaces_spec c) of Inl e \<Rightarrow> Inl e | Inr es \<Rightarrow> new_set f es)"

section \<open>Listeners\<close>

definition maybe_build_metrics :: "run_config \<Rightarrow> metrics option" where
  "maybe_build_metrics c = (if rc_metrics_addr c = [] then None else Some new_metrics)"

definition maybe_build_health :: "run_config \<Rightarrow> metrics option \<Rightarrow> health option" where
  "maybe_build_health c m =
     (if m = None then None
      else Some (health_new \<lparr>repetition_window = rc_repetition_window c, repetition_threshold = rc_repetition_threshold c,
                             error_rate_window = rc_error_rate_window c\<rparr>))"

definition api_config_of :: "run_config \<Rightarrow> api_config" where
  "api_config_of c = \<lparr>ac_workspace = True, ac_api = rc_enable_api c, ac_exec = rc_enable_exec c,
     ac_port_forward = rc_enable_port_forward c, ac_ssh = rc_enable_ssh c\<rparr>"

text \<open>The address of a listener and what it serves.\<close>

datatype served = McpTools "string list" | ApiRoutes "route list" | Probes "string list"

definition build_listeners :: "run_config \<Rightarrow> (string \<times> served) list" where
  "build_listeners c =
     [(rc_addr c, McpTools (register_tools_for_mode (rc_read_only c)))]
     @ (if api_enabled c then [(rc_api_addr c, ApiRoutes (mounted_routes (api_config_of c)))] else [])
     @ (if maybe_build_metrics c = None then [] else [(rc_metrics_addr c, Probes [''/metrics'', ''/healthz'', ''/readyz''])])"

section \<open>Probes and gauges\<close>

definition liveness_handler :: http_response where
  "liveness_handler = \<lparr>rs_code = 200, rs_headers = [], rs_body = ''ok'' @ [newline]\<rparr>"

definition readiness_problem :: "fs \<Rightarrow> workspace \<Rightarrow> string option" where
  "readiness_problem f w =
     (case k_stat f (ws_root w) of
        Inl e \<Rightarrow> Some (ws_name w @ '': '' @ path_error ''stat'' (ws_root w) e)
      | Inr NDir \<Rightarrow> None
      | Inr _ \<Rightarrow> Some (ws_name w @ '': not a directory''))"

fun first_some :: "'a option list \<Rightarrow> 'a option" where
  "first_some [] = None"
| "first_some (x # xs) = (case x of Some y \<Rightarrow> Some y | None \<Rightarrow> first_some xs)"

definition readiness_handler :: "fs \<Rightarrow> ws_set option \<Rightarrow> http_response" where
  "readiness_handler f s =
     (if set_len s = 0 then http_error ''no workspaces configured'' 503
      else case first_some (map (readiness_problem f) (set_all s)) of
             Some e \<Rightarrow> http_error e 503
           | None \<Rightarrow> \<lparr>rs_code = 200, rs_headers = [], rs_body = ''ready'' @ [newline]\<rparr>)"

text \<open>\<open>Size\<close>: the walk below a directory, bounded by its depth; links count with the length of their target.\<close>

fun node_bytes :: "node \<Rightarrow> nat" where
  "node_bytes (NFile d) = length d"
| "node_bytes (NLink t) = length t"
| "node_bytes NDir = 0"

fun walk_size :: "nat \<Rightarrow> dir_lister \<Rightarrow> fs \<Rightarrow> phys \<Rightarrow> nat \<times> nat" where
  "walk_size 0 ls f p = (0, 0)"
| "walk_size (Suc n) ls f p =
     foldr (\<lambda>c (b, k).
       case f (p @ [c]) of
         None \<Rightarrow> (b, k)
       | Some NDir \<Rightarrow>
           if c \<in> set skip_names then (b, k)
           else (case walk_size n ls f (p @ [c]) of (b1, k1) \<Rightarrow> (b + b1, k + k1))
       | Some nd \<Rightarrow> (b + node_bytes nd, k + 1)) (ls f p) (0, 0)"

definition workspace_size :: "nat \<Rightarrow> dir_lister \<Rightarrow> fs \<Rightarrow> workspace \<Rightarrow> nat \<times> nat" where
  "workspace_size n ls f w = walk_size n ls f (root_of w)"

definition refresh_gauges :: "nat \<times> nat \<Rightarrow> nat \<Rightarrow> metrics option \<Rightarrow> metrics option" where
  "refresh_gauges sz shells m =
     on_metrics (SetBackgroundShells (int shells)) (on_metrics (SetWorkspace (int (fst sz)) (int (snd sz))) m)"

section \<open>The end of the process\<close>

text \<open>
  The channel of a listener: absent, holding the one value it will ever get, or drained; a receive from
  a drained channel never returns.
\<close>

datatype serve_chan = NoChan | Yields "string option" | Drained

datatype wake = SignalReady | ServeReady nat

record http_slot =
  hs_addr :: string
  hs_shutdown :: "string option"

datatype shutdown_act = ShutServer string | CloseApi | FlushTracer

definition wait_for_shutdown :: "wake \<Rightarrow> serve_chan list \<Rightarrow> string option \<times> serve_chan list" where
  "wait_for_shutdown wk chans =
     (case wk of
        SignalReady \<Rightarrow> (None, chans)
      | ServeReady i \<Rightarrow> (case chans ! i of Yields v \<Rightarrow> (v, chans[i := Drained]) | _ \<Rightarrow> (None, chans)))"

fun drain :: "serve_chan list \<Rightarrow> string option list option" where
  "drain [] = Some []"
| "drain (NoChan # cs) = drain cs"
| "drain (Yields v # cs) = map_option ((#) v) (drain cs)"
| "drain (Drained # cs) = None"

text \<open>\<open>shutdownAll\<close>: what is shut down, in order, and the first error; \<open>None\<close> if it never returns.\<close>

definition shutdown_all_parts :: "http_slot option list \<Rightarrow> string option option \<Rightarrow> string option option \<Rightarrow> serve_chan list
    \<Rightarrow> (shutdown_act list \<times> string option) option" where
  "shutdown_all_parts servers closer tracer chans =
     (let live = List.map_filter (\<lambda>s. s) servers;
          errs = map (\<lambda>s. map_option (\<lambda>e. ''shutdown '' @ hs_addr s @ '': '' @ e) (hs_shutdown s)) live
            @ [case closer of Some (Some e) \<Rightarrow> Some (''api closer: '' @ e) | _ \<Rightarrow> None,
               case tracer of Some (Some e) \<Rightarrow> Some (''tracer shutdown: '' @ e) | _ \<Rightarrow> None];
          acts = map (\<lambda>s. ShutServer (hs_addr s)) live @ (if closer = None then [] else [CloseApi])
            @ (if tracer = None then [] else [FlushTracer])
      in map_option (\<lambda>vs. (acts, first_some (errs @ vs))) (drain chans))"

text \<open>The end of \<open>Run\<close>: what it shut down and what it returns.\<close>

definition run_end :: "wake \<Rightarrow> http_slot option list \<Rightarrow> string option option \<Rightarrow> string option option \<Rightarrow> serve_chan list
    \<Rightarrow> (shutdown_act list \<times> string option) option" where
  "run_end wk servers closer tracer chans =
     (case wait_for_shutdown wk chans of
        (Some e, _) \<Rightarrow> Some ([], Some e)
      | (None, chans') \<Rightarrow> shutdown_all_parts servers closer tracer chans')"

lemma drain_some: "drain cs \<noteq> None \<longleftrightarrow> Drained \<notin> set cs"
  by (induction cs rule: drain.induct) auto

lemma drain_values: "drain cs = Some vs \<Longrightarrow> vs = List.map_filter (\<lambda>c. case c of Yields v \<Rightarrow> Some v | _ \<Rightarrow> None) cs"
  by (induction cs arbitrary: vs rule: drain.induct) (auto simp: List.map_filter_simps)



section \<open>What is served\<close>

fun route_flag :: "run_config \<Rightarrow> route \<Rightarrow> bool" where
  "route_flag c OpenApi = (rc_enable_api c \<or> rc_enable_exec c \<or> rc_enable_port_forward c \<or> rc_enable_ssh c)"
| "route_flag c Docs = (rc_enable_api c \<or> rc_enable_exec c \<or> rc_enable_port_forward c \<or> rc_enable_ssh c)"
| "route_flag c Tree = rc_enable_api c"
| "route_flag c FileRoute = rc_enable_api c"
| "route_flag c Events = rc_enable_api c"
| "route_flag c Download = rc_enable_api c"
| "route_flag c ExecRoute = rc_enable_exec c"
| "route_flag c PortForwardRoute = rc_enable_port_forward c"
| "route_flag c SshKeys = rc_enable_ssh c"
| "route_flag c SshPort = rc_enable_ssh c"

text \<open>
  the process serves what its configuration asks for and no more.  The one listener of the MCP tools
  offers no mutating tool in read-only mode and all of them otherwise; a route of the HTTP API is served
  exactly if an API address and the flag of that route are set; the probes exactly with a metrics
  address.
\<close>

theorem served_surface:
  "(\<forall>addr ts. (addr, McpTools ts) \<in> set (build_listeners c) \<longrightarrow> addr = rc_addr c \<and> distinct ts
      \<and> (if rc_read_only c then set ts \<inter> set mutating_tools = {} else set mutating_tools \<subseteq> set ts))
   \<and> (\<forall>rt. (\<exists>addr rts. (addr, ApiRoutes rts) \<in> set (build_listeners c) \<and> rt \<in> set rts) \<longleftrightarrow> rc_api_addr c \<noteq> [] \<and> route_flag c rt)
   \<and> ((\<exists>addr ps. (addr, Probes ps) \<in> set (build_listeners c)) \<longleftrightarrow> rc_metrics_addr c \<noteq> [])"
proof (intro conjI allI impI)
  fix addr ts assume "(addr, McpTools ts) \<in> set (build_listeners c)"
  then have t: "addr = rc_addr c" "ts = register_tools_for_mode (rc_read_only c)"
    by (auto simp: build_listeners_def split: if_splits)
  have "distinct (register_tools_for_mode True)" by code_simp
  with t read_only_surface
  show "addr = rc_addr c" "distinct ts" "if rc_read_only c then set ts \<inter> set mutating_tools = {} else set mutating_tools \<subseteq> set ts"
    by (cases "rc_read_only c"; simp)+
next
  fix rt
  have "(\<exists>addr rts. (addr, ApiRoutes rts) \<in> set (build_listeners c) \<and> rt \<in> set rts) \<longleftrightarrow>
      api_enabled c \<and> rt \<in> set (mounted_routes (api_config_of c))"
    by (auto simp: build_listeners_def split: if_splits)
  also have "\<dots> \<longleftrightarrow> rc_api_addr c \<noteq> [] \<and> route_flag c rt"
    by (cases rt) (auto simp: api_enabled_def mounted_routes_def api_config_of_def)
  finally show "(\<exists>addr rts. (addr, ApiRoutes rts) \<in> set (build_listeners c) \<and> rt \<in> set rts) \<longleftrightarrow> rc_api_addr c \<noteq> [] \<and> route_flag c rt" .
next
  show "(\<exists>addr ps. (addr, Probes ps) \<in> set (build_listeners c)) \<longleftrightarrow> rc_metrics_addr c \<noteq> []"
    by (auto simp: build_listeners_def maybe_build_metrics_def split: if_splits)
qed

definition demo_config :: run_config where
  "demo_config = \<lparr>rc_addr = '':8080'', rc_api_addr = '':8081'', rc_metrics_addr = [], rc_workspace_root = ''/workspace'',
     rc_workspaces_spec = [], rc_dev_mode = False, rc_enable_api = True, rc_enable_exec = False, rc_enable_port_forward = False,
     rc_enable_ssh = False, rc_secrets_dir = [], rc_otlp_endpoint = [], rc_repetition_window = 0, rc_repetition_threshold = 3,
     rc_error_rate_window = 100, rc_read_only = True\<rparr>"

theorem served_surface_witness:
  "set (register_tools_for_mode True) \<inter> set mutating_tools = {}"
proof -
  have "('':8080'', McpTools (register_tools_for_mode True)) \<in> set (build_listeners demo_config)" "rc_read_only demo_config"
    by (simp_all add: build_listeners_def demo_config_def)
  with served_surface [of demo_config] show ?thesis by (metis (no_types, lifting))
qed

section \<open>Reading the list of workspaces back\<close>

definition spec_field :: "string \<Rightarrow> bool" where
  "spec_field t \<longleftrightarrow> CHR '','' \<notin> set t \<and> (t = [] \<or> \<not> is_space (hd t) \<and> \<not> is_space (last t))"

definition render_spec_entry :: "ws_entry \<Rightarrow> string" where
  "render_spec_entry e = (if entry_name e = [] then entry_root e else entry_name e @ CHR ''='' # entry_root e)"

definition spec_entry_ok :: "ws_entry \<Rightarrow> bool" where
  "spec_entry_ok e \<longleftrightarrow> spec_field (entry_name e) \<and> spec_field (entry_root e) \<and> entry_root e \<noteq> []
     \<and> CHR ''='' \<notin> set (if entry_name e = [] then entry_root e else entry_name e)"

lemma trim_space_field: "t = [] \<or> \<not> is_space (hd t) \<and> \<not> is_space (last t) \<Longrightarrow> trim_space t = t"
proof -
  assume a: "t = [] \<or> \<not> is_space (hd t) \<and> \<not> is_space (last t)"
  have "dropWhile is_space t = t" using a by (cases t) auto
  moreover have "dropWhile is_space (rev t) = rev t" using a by (cases t rule: rev_cases) auto
  ultimately show ?thesis by (simp add: trim_space_def trim_right_def)
qed

lemma spec_entry_render:
  assumes "spec_entry_ok e"
  shows "spec_entry (render_spec_entry e) = Inr e" "trim_space (render_spec_entry e) = render_spec_entry e"
    "render_spec_entry e \<noteq> []" "CHR '','' \<notin> set (render_spec_entry e)"
proof -
  have t: "trim_space (entry_name e) = entry_name e" "trim_space (entry_root e) = entry_root e"
    using assms by (auto simp: spec_entry_ok_def spec_field_def intro!: trim_space_field)
  show "spec_entry (render_spec_entry e) = Inr e"
  proof (cases "entry_name e = []")
    case True
    then show ?thesis using assms t
      by (simp add: spec_entry_def render_spec_entry_def spec_entry_ok_def split_first_none)
  next
    case False
    then show ?thesis using assms t by (simp add: spec_entry_def render_spec_entry_def spec_entry_ok_def split_first_append)
  qed
  show "trim_space (render_spec_entry e) = render_spec_entry e"
    using assms by (intro trim_space_field) (auto simp: render_spec_entry_def spec_entry_ok_def spec_field_def hd_append)
  show "render_spec_entry e \<noteq> []" "CHR '','' \<notin> set (render_spec_entry e)"
    using assms by (auto simp: render_spec_entry_def spec_entry_ok_def spec_field_def)
qed

text \<open>
  the flag can say every list of workspaces.  Writing entries the documented way, with or without a name,
  and parsing the result gives the entries back, as long as no field holds a comma or begins or ends with
  a space, and no name - and no path without a name - holds an equals sign.
\<close>

theorem workspaces_spec_roundtrip:
  assumes "es \<noteq> []" "\<forall>e \<in> set es. spec_entry_ok e"
  shows "parse_workspaces_spec (join '','' (map render_spec_entry es)) = Inr es"
proof -
  have s: "split_on (CHR '','') (join '','' (map render_spec_entry es)) = map render_spec_entry es"
    using assms spec_entry_render(4) by (intro split_on_join) auto
  have "spec_entries (map render_spec_entry es) = Inr es"
    using assms(2) by (induction es) (simp_all add: spec_entry_render)
  then show ?thesis using assms(1) by (simp add: parse_workspaces_spec_def s)
qed

theorem workspaces_spec_roundtrip_witness:
  "parse_workspaces_spec ''main=/ws1,/ws2'' = Inr [\<lparr>entry_name = ''main'', entry_root = ''/ws1''\<rparr>, \<lparr>entry_name = [], entry_root = ''/ws2''\<rparr>]"
proof -
  have "\<forall>e \<in> set [\<lparr>entry_name = ''main'', entry_root = ''/ws1''\<rparr>, \<lparr>entry_name = [], entry_root = ''/ws2''\<rparr>]. spec_entry_ok e"
    by (simp add: spec_entry_ok_def spec_field_def is_space_def)
  from workspaces_spec_roundtrip [OF _ this] show ?thesis by (simp add: render_spec_entry_def)
qed

end
