(* ===== verification/IndexWatch.thy ===== *)
theory IndexWatch
  imports SearchIndex DirWalk
begin

text \<open>
  The code index over a directory tree: the walk of \<open>WalkGoFiles\<close> (\<open>internal/search/extract_go.go\<close>),
  \<open>Build\<close> (\<open>index.go\<close>) and the watcher of \<open>fsnotify.go\<close>.  Directory listings, the Go parser and the
  failures of the watcher and of reading a directory are arguments.
\<close>

section \<open>Build\<close>

text \<open>
  The callback of \<open>WalkGoFiles\<close>.  A directory that cannot be read ends the walk with its error, before
  its name is looked at; an entry that is no directory counts by its name alone, also if it is a link.
\<close>

definition go_visit :: "(phys \<Rightarrow> bool) \<Rightarrow> phys \<Rightarrow> node \<Rightarrow> phys list \<times> walk_answer" where
  "go_visit unreadable p nd =
     (if nd = NDir then
        (if unreadable p then ([], WalkFails)
         else if p \<noteq> [] \<and> last p \<in> set skip_names then ([], SkipDir)
         else ([], WalkOn))
      else if fp_ext (abs_path p) \<noteq> ''.go'' then ([], WalkOn)
      else ([p], WalkOn))"

definition walk_go_files :: "nat \<Rightarrow> dir_lister \<Rightarrow> (phys \<Rightarrow> bool) \<Rightarrow> fs \<Rightarrow> phys \<Rightarrow> phys list \<times> bool" where
  "walk_go_files n ls unreadable f rt = walk_tree n ls f (go_visit unreadable) rt"

text \<open>\<open>Build\<close>: the index, or the error of the walk.\<close>

definition build_from :: "nat \<Rightarrow> dir_lister \<Rightarrow> (phys \<Rightarrow> bool) \<Rightarrow> (string \<Rightarrow> go_file option) \<Rightarrow> fs \<Rightarrow> phys \<Rightarrow> search_index option" where
  "build_from n ls unreadable parse f rt =
     (case walk_go_files n ls unreadable f rt of
        (ps, ok) \<Rightarrow> if ok then Some (build_index parse (abs_path rt) (map abs_path ps)) else None)"

section \<open>The watcher\<close>

text \<open>
  The callback of \<open>addRecursiveDirs\<close>: an unreadable directory is passed over, and so is what lies in a
  skipped one; a directory the watcher does not take, as when the limit of watches is reached, ends it.
\<close>

definition add_visit :: "(phys \<Rightarrow> bool) \<Rightarrow> (phys \<Rightarrow> bool) \<Rightarrow> phys \<Rightarrow> node \<Rightarrow> phys list \<times> walk_answer" where
  "add_visit unreadable refused p nd =
     (if nd \<noteq> NDir then ([], WalkOn)
      else if unreadable p then ([], SkipDir)
      else if p \<noteq> [] \<and> last p \<in> set skip_names then ([], SkipDir)
      else if refused p then ([], WalkFails)
      else ([p], WalkOn))"

definition add_recursive_dirs :: "nat \<Rightarrow> dir_lister \<Rightarrow> (phys \<Rightarrow> bool) \<Rightarrow> (phys \<Rightarrow> bool) \<Rightarrow> fs \<Rightarrow> phys \<Rightarrow> phys list \<times> bool" where
  "add_recursive_dirs n ls unreadable refused f p = walk_tree n ls f (add_visit unreadable refused) p"

record index_watcher =
  iw_started :: bool
  iw_running :: bool
  iw_dirs :: "phys set"

definition new_index_watcher :: index_watcher where
  "new_index_watcher = \<lparr>iw_started = False, iw_running = False, iw_dirs = {}\<rparr>"

text \<open>\<open>Watch\<close>; the answer is whether it fails.  \<open>no_watcher\<close>: the system gives no watcher.\<close>

definition index_watch ::
  "bool \<Rightarrow> nat \<Rightarrow> dir_lister \<Rightarrow> (phys \<Rightarrow> bool) \<Rightarrow> (phys \<Rightarrow> bool) \<Rightarrow> fs \<Rightarrow> phys \<Rightarrow> index_watcher \<Rightarrow> bool \<times> index_watcher" where
  "index_watch no_watcher n ls unreadable refused f rt s =
     (if iw_started s then (False, s)
      else let s1 = s\<lparr>iw_started := True\<rparr>
           in if no_watcher then (True, s1)
              else case add_recursive_dirs n ls unreadable refused f rt of
                     (ds, ok) \<Rightarrow> if ok then (False, s1\<lparr>iw_running := True, iw_dirs := set ds\<rparr>) else (True, s1))"

text \<open>
  What the loop of \<open>runWatch\<close> can receive, and the world in which it does: the files, what the parser
  makes of them, and the directories that cannot be read or watched.
\<close>

datatype watch_input = CtxDone | FileEvent fs_event | EventsEnd | WatcherError | ErrorsEnd

record watch_world =
  ww_fs :: fs
  ww_parse :: "string \<Rightarrow> go_file option"
  ww_unreadable :: "phys \<Rightarrow> bool"
  ww_refused :: "phys \<Rightarrow> bool"

definition world_is_dir :: "watch_world \<Rightarrow> string \<Rightarrow> bool" where
  "world_is_dir v p \<longleftrightarrow> k_stat (ww_fs v) p = Inr NDir"

text \<open>One turn of the loop; it ends when the answer is false.  The error of adding directories is dropped.\<close>

definition run_watch_step ::
  "nat \<Rightarrow> dir_lister \<Rightarrow> watch_world \<Rightarrow> watch_input \<Rightarrow> search_index \<times> index_watcher \<Rightarrow> bool \<times> search_index \<times> index_watcher" where
  "run_watch_step n ls v i st =
     (case st of (ix, s) \<Rightarrow>
        (case i of
           FileEvent ev \<Rightarrow>
             (case handle_event (ww_parse v) (world_is_dir v) ev ix of
                (ix', added) \<Rightarrow>
                  (True, ix', s\<lparr>iw_dirs := iw_dirs s \<union>
                     (\<Union>p \<in> set added. case k_lookup (ww_fs v) False p of
                        Inr q \<Rightarrow> set (fst (add_recursive_dirs n ls (ww_unreadable v) (ww_refused v) (ww_fs v) q))
                      | Inl _ \<Rightarrow> {})\<rparr>))
         | WatcherError \<Rightarrow> (True, ix, s)
         | _ \<Rightarrow> (False, ix, s\<lparr>iw_running := False\<rparr>)))"

fun run_watch :: "nat \<Rightarrow> dir_lister \<Rightarrow> (watch_world \<times> watch_input) list \<Rightarrow> search_index \<times> index_watcher \<Rightarrow> search_index \<times> index_watcher" where
  "run_watch n ls [] st = st"
| "run_watch n ls ((v, i) # is) st =
     (case run_watch_step n ls v i st of
        (True, st') \<Rightarrow> run_watch n ls is st'
      | (False, st') \<Rightarrow> st')"

section \<open>What a build indexes\<close>

lemma walk_go_files_set:
  assumes "fs_wf f" "lists_dirs ls f" "\<And>q. \<not> unreadable q" "\<And>q. f (rt @ q) \<noteq> None \<Longrightarrow> length q < n"
  shows "snd (walk_go_files n ls unreadable f rt) \<and> distinct (fst (walk_go_files n ls unreadable f rt))
    \<and> set (fst (walk_go_files n ls unreadable f rt)) =
        {rt @ q |q. f (rt @ q) \<notin> {None, Some NDir} \<and> fp_ext (abs_path (rt @ q)) = ''.go'' \<and> reached (go_visit unreadable) rt q}"
proof (intro conjI)
  have nf: "snd (go_visit unreadable q nd) \<noteq> WalkFails" for q nd by (simp add: go_visit_def assms(3))
  have w: "snd (walk_go_files n ls unreadable f rt)
    \<and> set (fst (walk_go_files n ls unreadable f rt)) =
        {x. \<exists>q nd. f (rt @ q) = Some nd \<and> reached (go_visit unreadable) rt q \<and> x \<in> set (fst (go_visit unreadable (rt @ q) nd))}"
    unfolding walk_go_files_def using walk_tree_set [of f ls "go_visit unreadable" rt n] assms nf by simp
  then show "snd (walk_go_files n ls unreadable f rt)" by blast
  have "fst (go_visit unreadable q nd) \<in> {[], [q]}" for q nd by (simp add: go_visit_def)
  from walk_tree_distinct [of "go_visit unreadable", OF this assms(2)]
  show "distinct (fst (walk_go_files n ls unreadable f rt))" unfolding walk_go_files_def .
  have v: "x \<in> set (fst (go_visit unreadable q nd)) \<longleftrightarrow> nd \<noteq> NDir \<and> x = q \<and> fp_ext (abs_path q) = ''.go''" for x q nd
    by (simp add: go_visit_def)
  show "set (fst (walk_go_files n ls unreadable f rt)) =
      {rt @ q |q. f (rt @ q) \<notin> {None, Some NDir} \<and> fp_ext (abs_path (rt @ q)) = ''.go'' \<and> reached (go_visit unreadable) rt q}"
    unfolding w [THEN conjunct2] v by auto
qed

text \<open>The units of one file, as a build or an update makes them.\<close>

definition units_now :: "(string \<Rightarrow> go_file option) \<Rightarrow> phys \<Rightarrow> phys \<Rightarrow> code_unit list" where
  "units_now parse rt q =
     (case extract_go_file parse (abs_path (rt @ q)) (abs_path rt) of
        None \<Rightarrow> [] | Some us \<Rightarrow> map (stamp_file (join [slash] q)) us)"

lemma rel_file:
  assumes "list_all plain (rt @ q)" "q \<noteq> []"
  shows "to_rel_file (abs_path rt) (abs_path (rt @ q)) = join [slash] q"
  using fp_rel_inside [of rt q] assms by (simp add: to_rel_file_def)

lemma join_plain_inj:
  assumes "list_all plain p" "p \<noteq> []" "list_all plain q" "q \<noteq> []"
  shows "join [slash] p = join [slash] q \<longleftrightarrow> p = q"
proof -
  have "slash \<notin> set x" if "x \<in> set p \<or> x \<in> set q" for x
    using that assms by (auto simp: list_all_iff dest: plainD)
  then show ?thesis using split_on_join [of p slash] split_on_join [of q slash] assms by metis
qed

lemma build_index_corpus:
  assumes "list_all plain rt" "\<forall>p \<in> set qs. list_all plain p \<and> p \<noteq> []" "distinct qs"
  shows "idx_inv (build_index parse (abs_path rt) (map (\<lambda>q. abs_path (rt @ q)) qs))
    \<and> (\<forall>q. list_all plain q \<and> q \<noteq> [] \<longrightarrow>
         corpus (build_index parse (abs_path rt) (map (\<lambda>q. abs_path (rt @ q)) qs)) (join [slash] q)
         = (if q \<in> set qs then units_now parse rt q else []))"
  using assms(2,3)
proof (induction qs rule: rev_induct)
  case Nil
  have "corpus (new_index r) = (\<lambda>_. [])" for r by (simp add: corpus_def file_ids_def new_index_def fun_eq_iff)
  then show ?case using new_index_inv by (simp add: build_index_def)
next
  case (snoc p qs)
  let ?ix = "build_index parse (abs_path rt) (map (\<lambda>q. abs_path (rt @ q)) qs)"
  let ?us = "extract_go_file parse (abs_path (rt @ p)) (abs_path rt)"
  have IH: "idx_inv ?ix" "\<And>q. list_all plain q \<Longrightarrow> q \<noteq> [] \<Longrightarrow> corpus ?ix (join [slash] q) = (if q \<in> set qs then units_now parse rt q else [])"
    using snoc by auto
  have p: "list_all plain p" "p \<noteq> []" "p \<notin> set qs" using snoc.prems by auto
  have b: "build_index parse (abs_path rt) (map (\<lambda>q. abs_path (rt @ q)) (qs @ [p]))
      = (case ?us of None \<Rightarrow> ?ix | Some us \<Rightarrow> add_units (join [slash] p) us ?ix)"
    using rel_file [of rt p] assms(1) p by (cases ?us) (simp_all add: build_index_def)
  show ?case
  proof (cases ?us)
    case None
    then show ?thesis unfolding b using IH p by (auto simp: units_now_def)
  next
    case (Some us)
    have st: "map (u_file_update (\<lambda>_. r)) us = map (stamp_file r) us" for r by (simp add: stamp_file_def)
    from add_units_inv [OF IH(1), of "join [slash] p" us] show ?thesis
      unfolding b using Some IH(2) p join_plain_inj [OF _ _ p(1,2)] by (simp add: units_now_def st)
  qed
qed

lemma build_index_root: "ix_root (build_index parse r ps) = r"
proof -
  have a: "ix_root (fold (add_unit rel) us jx) = ix_root jx" for us rel jx
    by (induction us arbitrary: jx) (simp_all add: add_unit_def Let_def)
  have "ix_root (fold (\<lambda>p ix. case extract_go_file parse p r of None \<Rightarrow> ix | Some us \<Rightarrow> add_units (to_rel_file r p) us ix) ps jx) = ix_root jx" for jx
    by (induction ps arbitrary: jx) (auto simp: add_units_def a split: option.split)
  then show ?thesis by (simp add: build_index_def new_index_def)
qed

text \<open>
  a build indexes exactly the Go files of the tree.  If every directory can be read it succeeds, and the
  units of a path below the root are those of its file if there is one with the extension \<open>.go\<close> that is
  no directory, parses, and lies below no directory called \<open>.git\<close> or \<open>node_modules\<close>; there are none
  at all if the root itself has such a name.
\<close>

theorem build_exact:
  assumes "fs_wf f" "lists_dirs ls f" "\<And>q. \<not> unreadable q" "list_all plain rt"
    and "\<And>q. f (rt @ q) \<noteq> None \<Longrightarrow> length q < n \<and> list_all plain q" "f rt = Some NDir"
  obtains ix where "build_from n ls unreadable parse f rt = Some ix" "idx_inv ix" "ix_root ix = abs_path rt"
    "\<And>q. list_all plain q \<Longrightarrow> q \<noteq> [] \<Longrightarrow> corpus ix (join [slash] q) =
       (if f (rt @ q) \<notin> {None, Some NDir} \<and> fp_ext (abs_path (rt @ q)) = ''.go''
           \<and> (rt \<noteq> [] \<longrightarrow> last rt \<notin> set skip_names) \<and> set (butlast q) \<inter> set skip_names = {}
        then units_now parse rt q else [])"
proof -
  let ?w = "walk_go_files n ls unreadable f rt"
  have w: "snd ?w" "distinct (fst ?w)" "set (fst ?w) =
      {rt @ q |q. f (rt @ q) \<notin> {None, Some NDir} \<and> fp_ext (abs_path (rt @ q)) = ''.go'' \<and> reached (go_visit unreadable) rt q}"
    using walk_go_files_set [of f ls unreadable rt n] assms by auto
  define qs where "qs = map (drop (length rt)) (fst ?w)"
  have qs: "map (\<lambda>q. rt @ q) qs = fst ?w"
    unfolding qs_def map_map by (rule map_idI) (use w(3) in auto)
  then have d: "distinct qs" using w(2) by (metis distinct_map)
  have s: "q \<in> set qs \<longleftrightarrow> f (rt @ q) \<notin> {None, Some NDir} \<and> fp_ext (abs_path (rt @ q)) = ''.go'' \<and> reached (go_visit unreadable) rt q" for q
  proof -
    have "q \<in> set qs \<longleftrightarrow> rt @ q \<in> set (fst ?w)" unfolding qs [symmetric] by auto
    then show ?thesis unfolding w(3) by auto
  qed
  have on: "snd (go_visit unreadable q NDir) = WalkOn \<longleftrightarrow> (q \<noteq> [] \<longrightarrow> last q \<notin> set skip_names)" for q
    by (simp add: go_visit_def assms(3))
  have p: "\<forall>q \<in> set qs. list_all plain q \<and> q \<noteq> []"
  proof
    fix q assume "q \<in> set qs"
    with s [of q] assms(5) [of q] assms(6) show "list_all plain q \<and> q \<noteq> []" by (cases "q = []") auto
  qed
  let ?ix = "build_index parse (abs_path rt) (map (\<lambda>q. abs_path (rt @ q)) qs)"
  have m: "map abs_path (fst ?w) = map (\<lambda>q. abs_path (rt @ q)) qs" unfolding qs [symmetric] by simp
  show thesis
  proof (rule that)
    show "build_from n ls unreadable parse f rt = Some ?ix"
      unfolding build_from_def using w(1) m by (cases ?w) simp
    note c = build_index_corpus [OF assms(4) p d, of parse]
    show "idx_inv ?ix" using c by blast
    show "ix_root ?ix = abs_path rt" by (rule build_index_root)
    fix q :: phys assume q: "list_all plain q" "q \<noteq> []"
    then have "reached (go_visit unreadable) rt q \<longleftrightarrow> (rt \<noteq> [] \<longrightarrow> last rt \<notin> set skip_names) \<and> set (butlast q) \<inter> set skip_names = {}"
      by (intro reached_above on)
    then show "corpus ?ix (join [slash] q) =
       (if f (rt @ q) \<notin> {None, Some NDir} \<and> fp_ext (abs_path (rt @ q)) = ''.go''
           \<and> (rt \<noteq> [] \<longrightarrow> last rt \<notin> set skip_names) \<and> set (butlast q) \<inter> set skip_names = {}
        then units_now parse rt q else [])"
      using c q s [of q] by simp
  qed
qed

section \<open>What the watcher keeps\<close>

definition tells :: "watch_world \<Rightarrow> fs_event \<Rightarrow> bool" where
  "tells v ev \<longleftrightarrow> \<not> skip_path (e_name ev) \<and> fp_ext (e_name ev) = ''.go'' \<and> \<not> (e_create ev \<and> world_is_dir v (e_name ev))
     \<and> (e_create ev \<or> e_write ev \<or> e_remove ev \<or> e_rename ev)"

text \<open>The last event of a run that tells something of a path, and the world it came in.\<close>

fun last_told :: "(watch_world \<times> watch_input) list \<Rightarrow> string \<Rightarrow> (watch_world \<times> fs_event) option" where
  "last_told [] p = None"
| "last_told ((v, FileEvent ev) # is) p =
     (case last_told is p of None \<Rightarrow> if e_name ev = p \<and> tells v ev then Some (v, ev) else None | x \<Rightarrow> x)"
| "last_told ((v, i) # is) p = last_told is p"

definition orderly :: "phys \<Rightarrow> watch_world \<times> watch_input \<Rightarrow> bool" where
  "orderly rt vi \<longleftrightarrow> snd vi = WatcherError
     \<or> (\<exists>ev q. snd vi = FileEvent ev \<and> e_name ev = abs_path (rt @ q) \<and> list_all plain q \<and> q \<noteq> [])"

lemma event_step:
  fixes v ev ix
  assumes "idx_inv ix" "ix_root ix = abs_path rt" "list_all plain rt" "e_name ev = abs_path (rt @ r)" "list_all plain r" "r \<noteq> []"
  defines "ix' \<equiv> fst (handle_event (ww_parse v) (world_is_dir v) ev ix)"
  shows "idx_inv ix' \<and> ix_root ix' = abs_path rt
    \<and> corpus ix' = (if tells v ev then (corpus ix)(join [slash] r := (if e_create ev \<or> e_write ev then units_now (ww_parse v) rt r else []))
        else corpus ix)"
proof -
  have p: "list_all plain (rt @ r)" using assms by simp
  have a: "is_abs (e_name ev)" using assms(4) by simp
  have rel: "to_rel_file (ix_root ix) (e_name ev) = join [slash] r"
    using rel_file [OF p assms(6)] assms(2,4) by simp
  note u = event_updates_file [OF assms(1) a prod.collapse [symmetric], of "ww_parse v" "world_is_dir v", unfolded Let_def rel, folded ix'_def]
  have root: "ix_root ix' = ix_root ix"
    unfolding ix'_def by (auto simp: handle_event_def add_path_def remove_path_def Let_def split: option.split)
  show ?thesis using u root assms(2,4) by (auto simp: tells_def units_now_def)
qed

text \<open>
  C34: the watcher keeps the index current.  While it runs, a file's units are those its content had at the
  last event that told of it - none after a remove or rename -, and those of the build if there was no
  such event.  So once the events on a file have been handled, the index is what a new build would give
  for it; errors of the watcher and all other events leave it alone.
\<close>

theorem index_follows:
  assumes "idx_inv ix" "ix_root ix = abs_path rt" "list_all plain rt" "list_all (orderly rt) is"
    and "list_all plain q" "q \<noteq> []"
  shows "corpus (fst (run_watch n ls is (ix, s))) (join [slash] q) =
    (case last_told is (abs_path (rt @ q)) of
       None \<Rightarrow> corpus ix (join [slash] q)
     | Some (v, ev) \<Rightarrow> if e_create ev \<or> e_write ev then units_now (ww_parse v) rt q else [])"
  using assms(1,2,4)
proof (induction "is" arbitrary: ix s)
  case (Cons vi "is")
  obtain v i where vi: "vi = (v, i)" by (cases vi)
  show ?case
  proof (cases "i = WatcherError")
    case True
    then show ?thesis using Cons vi by (simp add: run_watch_step_def)
  next
    case False
    with Cons.prems(3) vi obtain ev r where i: "i = FileEvent ev" and r: "e_name ev = abs_path (rt @ r)" "list_all plain r" "r \<noteq> []"
      by (auto simp: orderly_def)
    let ?ix = "fst (handle_event (ww_parse v) (world_is_dir v) ev ix)"
    note e = event_step [OF Cons.prems(1,2) assms(3) r, of v]
    have run: "\<exists>s'. run_watch n ls (vi # is) (ix, s) = run_watch n ls is (?ix, s')"
      using vi i by (auto simp: run_watch_step_def split: prod.split)
    have same: "abs_path (rt @ r) = abs_path (rt @ q) \<longleftrightarrow> r = q" "join [slash] q = join [slash] r \<longleftrightarrow> q = r"
      using abs_path_inj [of "rt @ r" "rt @ q"] join_plain_inj [of q r] assms(3,5,6) r by auto
    from run obtain s' where s': "run_watch n ls (vi # is) (ix, s) = run_watch n ls is (?ix, s')" by blast
    have "corpus (fst (run_watch n ls (vi # is) (ix, s))) (join [slash] q) =
      (case last_told is (abs_path (rt @ q)) of
         None \<Rightarrow> corpus ?ix (join [slash] q)
       | Some (v, ev) \<Rightarrow> if e_create ev \<or> e_write ev then units_now (ww_parse v) rt q else [])"
      unfolding s' using Cons.IH e Cons.prems(3) by simp
    also have "corpus ?ix (join [slash] q) = (if tells v ev \<and> r = q then (if e_create ev \<or> e_write ev then units_now (ww_parse v) rt q else [])
        else corpus ix (join [slash] q))"
      using e same by auto
    finally show ?thesis using vi i r same by (auto split: option.split)
  qed
qed simp

definition demo_watch_world :: watch_world where
  "demo_watch_world = \<lparr>ww_fs = (\<lambda>_. None),
     ww_parse = (\<lambda>_. Some \<lparr>gf_package = ''m'', gf_doc = None, gf_decls = [GenDecl ''var'' [] [ValueSpec [''X''] [] None]]\<rparr>),
     ww_unreadable = (\<lambda>_. False), ww_refused = (\<lambda>_. False)\<rparr>"

theorem index_follows_witness:
  "corpus (fst (run_watch 3 (\<lambda>_ _. []) [(demo_watch_world, WatcherError), (demo_watch_world, FileEvent demo_event)]
      (new_index ''/w'', new_index_watcher))) (join [slash] [''m.go''])
   = units_now (ww_parse demo_watch_world) [''w''] [''m.go'']"
proof -
  have p: "list_all plain [''w'']" "list_all plain [''m.go'']" "abs_path [''w''] = ''/w''" "abs_path ([''w''] @ [''m.go'']) = ''/w/m.go''"
    by code_simp+
  have t: "tells demo_watch_world demo_event"
  proof -
    have "\<not> skip_path ''/w/m.go''" "fp_ext ''/w/m.go'' = ''.go''" by code_simp+
    then show ?thesis by (simp add: tells_def demo_event_def)
  qed
  have "orderly [''w''] (demo_watch_world, FileEvent demo_event)"
    using p by (auto simp: orderly_def demo_event_def intro!: exI [of _ "[''m.go'']"])
  then have o: "list_all (orderly [''w'']) [(demo_watch_world, WatcherError), (demo_watch_world, FileEvent demo_event)]"
    by (simp add: orderly_def)
  have "e_name demo_event = ''/w/m.go''" "e_write demo_event" by (simp_all add: demo_event_def)
  with index_follows [OF new_index_inv _ p(1) o p(2), of "''/w''" 3 "\<lambda>_ _. []" new_index_watcher] p t
  show ?thesis by (simp add: new_index_def)
qed

text \<open>
  a watcher that could not be started never is.  \<open>Watch\<close> notes that it has started before it tries, so
  after a failure every later call reports success and watches nothing.
\<close>

theorem failed_watch_is_final:
  assumes "index_watch no_watcher n ls unreadable refused f rt new_index_watcher = (True, s)"
  shows "index_watch no_watcher' n' ls' unreadable' refused' f' rt' s = (False, s) \<and> \<not> iw_running s"
  using assms
  by (auto simp: index_watch_def new_index_watcher_def Let_def split: if_splits prod.splits)

end
