(* ===== verification/Tunnel.thy ===== *)
theory Tunnel
  imports ForwardCli ApiForward
begin

text \<open>
  The running half of \<open>sandbox-forward\<close> (\<open>cmd/sandbox-forward/proxy.go\<close>, \<open>main.go\<close>): the two pumps of a
  tunnel as a step relation, the accept loop of the local listener, and the dispatch of the subcommands.
  The local application, the WebSocket and the kernel are the environment.  At the end the tunnel is put
  together with the bridge of the server.
\<close>

section \<open>A tunnel\<close>

text \<open>
  \<open>tn_in\<close> is what the local side still has to be read, \<open>tn_ws_in\<close> what the WebSocket still has.  A pump
  that has nothing to read is blocked in its read.  \<open>tn_unblocks\<close> says whether closing the local input
  ends a pending read of it, as it does for a network connection but not for a standard input on which no
  deadline can be set.
\<close>

record tunnel =
  tn_unblocks :: bool
  tn_in :: "string list"
  tn_in_eof :: bool
  tn_in_closed :: bool
  tn_out :: string
  tn_out_broken :: bool
  tn_ws_in :: "ws_frame list"
  tn_ws_gone :: bool
  tn_ws_sent :: "string list"
  tn_ws_closed :: bool
  tn_cancelled :: bool
  tn_up_done :: bool
  tn_down_done :: bool

definition new_tunnel :: "bool \<Rightarrow> tunnel" where
  "new_tunnel unblocks = \<lparr>tn_unblocks = unblocks, tn_in = [], tn_in_eof = False, tn_in_closed = False, tn_out = [],
     tn_out_broken = False, tn_ws_in = [], tn_ws_gone = False, tn_ws_sent = [], tn_ws_closed = False,
     tn_cancelled = False, tn_up_done = False, tn_down_done = False\<rparr>"

abbreviation ws_usable :: "tunnel \<Rightarrow> bool" where
  "ws_usable s \<equiv> \<not> tn_ws_closed s \<and> \<not> tn_cancelled s"

text \<open>
  The steps of \<open>pumpInToWS\<close>.  A write that fails cancels the context; an input that ends also closes the
  WebSocket.  A write to a server that has gone may still be taken by the kernel.
\<close>

inductive in_to_ws :: "tunnel \<Rightarrow> tunnel \<Rightarrow> bool" where
  up_forward: "\<not> tn_up_done s \<Longrightarrow> tn_in s = d # ds \<Longrightarrow> \<not> tn_in_closed s \<or> \<not> tn_unblocks s \<Longrightarrow> ws_usable s \<Longrightarrow>
    in_to_ws s (s\<lparr>tn_in := ds, tn_ws_sent := tn_ws_sent s @ [d]\<rparr>)"
| up_write_fails: "\<not> tn_up_done s \<Longrightarrow> tn_in s = d # ds \<Longrightarrow> \<not> tn_in_closed s \<or> \<not> tn_unblocks s \<Longrightarrow>
    \<not> ws_usable s \<or> tn_ws_gone s \<Longrightarrow>
    in_to_ws s (s\<lparr>tn_in := ds, tn_cancelled := True, tn_up_done := True\<rparr>)"
| up_ends: "\<not> tn_up_done s \<Longrightarrow> tn_in_closed s \<and> tn_unblocks s \<or> tn_in_eof s \<and> tn_in s = [] \<Longrightarrow>
    in_to_ws s (s\<lparr>tn_ws_closed := True, tn_cancelled := True, tn_up_done := True\<rparr>)"

text \<open>
  The steps of \<open>pumpWSToOut\<close>.  A read that fails closes the local input and cancels the context; a write
  that fails only cancels.
\<close>

inductive ws_to_out :: "tunnel \<Rightarrow> tunnel \<Rightarrow> bool" where
  down_skip: "\<not> tn_down_done s \<Longrightarrow> ws_usable s \<Longrightarrow> tn_ws_in s = Text d # fs \<Longrightarrow> ws_to_out s (s\<lparr>tn_ws_in := fs\<rparr>)"
| down_write: "\<not> tn_down_done s \<Longrightarrow> ws_usable s \<Longrightarrow> tn_ws_in s = Binary d # fs \<Longrightarrow> \<not> tn_out_broken s \<Longrightarrow>
    ws_to_out s (s\<lparr>tn_ws_in := fs, tn_out := tn_out s @ d\<rparr>)"
| down_write_fails: "\<not> tn_down_done s \<Longrightarrow> ws_usable s \<Longrightarrow> tn_ws_in s = Binary d # fs \<Longrightarrow> tn_out_broken s \<Longrightarrow> n \<le> length d \<Longrightarrow>
    ws_to_out s (s\<lparr>tn_ws_in := fs, tn_out := tn_out s @ take n d, tn_cancelled := True, tn_down_done := True\<rparr>)"
| down_read_fails: "\<not> tn_down_done s \<Longrightarrow> \<not> ws_usable s \<or> tn_ws_gone s \<Longrightarrow>
    ws_to_out s (s\<lparr>tn_in_closed := True, tn_cancelled := True, tn_down_done := True\<rparr>)"

inductive_cases in_to_wsE: "in_to_ws s t"
inductive_cases ws_to_outE: "ws_to_out s t"

definition tunnel_step :: "tunnel \<Rightarrow> tunnel \<Rightarrow> bool" where
  "tunnel_step s t \<longleftrightarrow> in_to_ws s t \<or> ws_to_out s t"

text \<open>The environment; a read of the local side brings at most the buffer of the pump.\<close>

definition tunnel_buf_size :: nat where "tunnel_buf_size = 32 * 1024"

datatype tunnel_event = AppWrites string | AppEnds | AppStopsReading | ServerSends ws_frame | ServerGoes | Interrupted

fun tunnel_env :: "tunnel_event \<Rightarrow> tunnel \<Rightarrow> tunnel" where
  "tunnel_env (AppWrites d) s =
     (if tn_in_eof s \<or> d = [] \<or> tunnel_buf_size < length d then s else s\<lparr>tn_in := tn_in s @ [d]\<rparr>)"
| "tunnel_env AppEnds s = s\<lparr>tn_in_eof := True\<rparr>"
| "tunnel_env AppStopsReading s = s\<lparr>tn_out_broken := True\<rparr>"
| "tunnel_env (ServerSends fr) s = (if tn_ws_gone s then s else s\<lparr>tn_ws_in := tn_ws_in s @ [fr]\<rparr>)"
| "tunnel_env ServerGoes s = s\<lparr>tn_ws_gone := True\<rparr>"
| "tunnel_env Interrupted s = s\<lparr>tn_cancelled := True\<rparr>"

inductive tunnel_reaches :: "bool \<Rightarrow> tunnel_event list \<Rightarrow> tunnel \<Rightarrow> bool" where
  start: "tunnel_reaches u [] (new_tunnel u)"
| env: "tunnel_reaches u es s \<Longrightarrow> tunnel_reaches u (es @ [e]) (tunnel_env e s)"
| pump: "tunnel_reaches u es s \<Longrightarrow> tunnel_step s t \<Longrightarrow> tunnel_reaches u es t"

text \<open>\<open>tunnelConn\<close>: it dials, lets the pumps run and returns once both have ended.\<close>

definition tunnel_conn :: "string option \<Rightarrow> tunnel \<Rightarrow> string option option" where
  "tunnel_conn dial_err s =
     (case dial_err of
        Some e \<Rightarrow> Some (Some (''ws dial: '' @ e))
      | None \<Rightarrow> if tn_up_done s \<and> tn_down_done s then Some None else None)"

section \<open>The listener and the subcommands\<close>

datatype 'c accept = Accepted 'c | AcceptFails string bool

text \<open>
  The loop of \<open>runListener\<close>: the connections it opens a tunnel for, and how it ends - not yet, orderly, or
  with an error.  The flag of a failure is whether the listener is closed or the context cancelled.
\<close>

fun accept_loop :: "'c accept list \<Rightarrow> 'c list \<times> string option option" where
  "accept_loop [] = ([], None)"
| "accept_loop (Accepted c # as) = apfst ((#) c) (accept_loop as)"
| "accept_loop (AcceptFails e orderly # as) = ([], Some (if orderly then None else Some (''accept: '' @ e)))"

text \<open>
  \<open>runListener\<close>: an orderly end waits for every tunnel, an error does not.  \<open>ended\<close> is whether the tunnel
  of a connection has returned.
\<close>

definition run_listener :: "string option \<Rightarrow> 'c accept list \<Rightarrow> ('c \<Rightarrow> bool) \<Rightarrow> string option option" where
  "run_listener listen_err as ended =
     (case listen_err of
        Some e \<Rightarrow> Some (Some (''listen: '' @ e))
      | None \<Rightarrow>
          (case accept_loop as of
             (cs, Some None) \<Rightarrow> if list_all ended cs then Some None else None
           | (cs, r) \<Rightarrow> r))"

definition listen_address :: "int \<Rightarrow> string" where
  "listen_address port = ''127.0.0.1:'' @ dec_int port"

text \<open>\<open>dispatch\<close> of \<open>main.go\<close>: what is run or printed, and the error.\<close>

datatype cli_action = RunsProxy "string list" | RunsSetup "string list" | PrintsVersion | PrintsUsage

definition cli_dispatch :: "string list \<Rightarrow> cli_action \<times> string option" where
  "cli_dispatch as =
     (case as of
        [] \<Rightarrow> (PrintsUsage, Some ''missing subcommand'')
      | a # rest \<Rightarrow>
          if a = ''proxy'' then (RunsProxy rest, None)
          else if a = ''ssh-setup'' then (RunsSetup rest, None)
          else if a \<in> {''-v'', ''--version'', ''version''} then (PrintsVersion, None)
          else if a \<in> {''-h'', ''--help'', ''help''} then (PrintsUsage, None)
          else (PrintsUsage, Some (''unknown subcommand '' @ quote a)))"

text \<open>\<open>main\<close>: the exit code, given the errors of the subcommands.\<close>

definition cli_main :: "(string list \<Rightarrow> string option) \<Rightarrow> (string list \<Rightarrow> string option) \<Rightarrow> string list \<Rightarrow> nat" where
  "cli_main proxy setup as =
     (let err = (case cli_dispatch as of
                   (RunsProxy rest, _) \<Rightarrow> proxy rest
                 | (RunsSetup rest, _) \<Rightarrow> setup rest
                 | (_, e) \<Rightarrow> e)
      in if err = None then 0 else 1)"

section \<open>What arrives\<close>

fun app_bytes :: "bool \<Rightarrow> tunnel_event list \<Rightarrow> string" where
  "app_bytes ongoing [] = []"
| "app_bytes ongoing (e # es) =
     (case e of
        AppWrites d \<Rightarrow> (if ongoing \<and> length d \<le> tunnel_buf_size then d else []) @ app_bytes ongoing es
      | AppEnds \<Rightarrow> app_bytes False es
      | _ \<Rightarrow> app_bytes ongoing es)"

fun server_binary :: "bool \<Rightarrow> tunnel_event list \<Rightarrow> string" where
  "server_binary present [] = []"
| "server_binary present (e # es) =
     (case e of
        ServerSends fr \<Rightarrow> (if present then payload [fr] else []) @ server_binary present es
      | ServerGoes \<Rightarrow> server_binary False es
      | _ \<Rightarrow> server_binary present es)"

lemma app_bytes_append:
  "app_bytes p (es @ [e]) = app_bytes p es
     @ (case e of AppWrites d \<Rightarrow> if p \<and> AppEnds \<notin> set es \<and> length d \<le> tunnel_buf_size then d else [] | _ \<Rightarrow> [])"
proof (induction es arbitrary: p)
  case (Cons x xs)
  then show ?case by (cases x; cases e) auto
qed (cases e; simp)

lemma server_binary_append:
  "server_binary p (es @ [e]) = server_binary p es
     @ (case e of ServerSends fr \<Rightarrow> if p \<and> ServerGoes \<notin> set es then payload [fr] else [] | _ \<Rightarrow> [])"
proof (induction es arbitrary: p)
  case (Cons x xs)
  then show ?case by (cases x; cases e) auto
qed (cases e; simp)

definition up_ok :: "string \<Rightarrow> tunnel \<Rightarrow> bool" where
  "up_ok sent s \<longleftrightarrow> prefix (concat (tn_ws_sent s)) sent
     \<and> (\<not> tn_up_done s \<longrightarrow> concat (tn_ws_sent s) @ concat (tn_in s) = sent)
     \<and> (\<forall>d \<in> set (tn_ws_sent s) \<union> set (tn_in s). d \<noteq> [] \<and> length d \<le> tunnel_buf_size)"

definition down_ok :: "string \<Rightarrow> tunnel \<Rightarrow> bool" where
  "down_ok sent s \<longleftrightarrow> prefix (tn_out s) sent \<and> (\<not> tn_down_done s \<longrightarrow> tn_out s @ payload (tn_ws_in s) = sent)"

definition tunnel_ends_inv :: "bool \<Rightarrow> tunnel_event list \<Rightarrow> tunnel \<Rightarrow> bool" where
  "tunnel_ends_inv u es s \<longleftrightarrow> tn_unblocks s = u
     \<and> (tn_in_eof s \<longleftrightarrow> AppEnds \<in> set es) \<and> (tn_ws_gone s \<longleftrightarrow> ServerGoes \<in> set es)
     \<and> (tn_out_broken s \<longleftrightarrow> AppStopsReading \<in> set es)
     \<and> (tn_up_done s \<longrightarrow> tn_cancelled s) \<and> (tn_down_done s \<longrightarrow> tn_cancelled s)
     \<and> (tn_down_done s \<longrightarrow> tn_in_closed s \<or> tn_out_broken s) \<and> (tn_in_closed s \<longrightarrow> tn_down_done s)
     \<and> (Interrupted \<in> set es \<longrightarrow> tn_cancelled s)"

lemma tunnel_ends_pump:
  assumes "tunnel_ends_inv u es s" "tunnel_step s t"
  shows "tunnel_ends_inv u es t"
  using assms(2) unfolding tunnel_step_def
proof
  assume "in_to_ws s t"
  then show ?thesis using assms(1) by cases (simp_all add: tunnel_ends_inv_def, blast+)
next
  assume "ws_to_out s t"
  then show ?thesis using assms(1) by cases (simp_all add: tunnel_ends_inv_def)
qed

lemma tunnel_ends_env: "tunnel_ends_inv u es s \<Longrightarrow> tunnel_ends_inv u (es @ [e]) (tunnel_env e s)"
  by (cases e) (simp_all add: tunnel_ends_inv_def, blast+)

lemma tunnel_reaches_ends: "tunnel_reaches u es s \<Longrightarrow> tunnel_ends_inv u es s"
proof (induction rule: tunnel_reaches.induct)
  case (start u)
  then show ?case by (simp add: tunnel_ends_inv_def new_tunnel_def)
qed (simp_all add: tunnel_ends_pump tunnel_ends_env)

lemma up_ok_step: "up_ok sent s \<Longrightarrow> in_to_ws s t \<Longrightarrow> up_ok sent t"
  by (erule in_to_ws.cases) (auto simp: up_ok_def)

lemma up_ok_other: "up_ok sent s \<Longrightarrow> ws_to_out s t \<Longrightarrow> up_ok sent t"
  by (erule ws_to_out.cases) (simp_all add: up_ok_def)

lemma down_ok_other: "down_ok sent s \<Longrightarrow> in_to_ws s t \<Longrightarrow> down_ok sent t"
  by (erule in_to_ws.cases) (simp_all add: down_ok_def)

lemma down_ok_step:
  assumes "down_ok sent s" "ws_to_out s t"
  shows "down_ok sent t"
  using assms(2)
proof (cases rule: ws_to_out.cases)
  case (down_skip d fs)
  then show ?thesis using assms(1) by (simp add: down_ok_def payload_Cons [of "Text d"])
next
  case (down_write d fs)
  then show ?thesis using assms(1) by (auto simp: down_ok_def payload_Cons [of "Binary d"])
next
  case (down_write_fails d fs n)
  then have "sent = tn_out s @ d @ payload fs"
    using assms(1) by (metis down_ok_def payload_Cons payload_simps(2))
  then show ?thesis using down_write_fails by (auto simp: down_ok_def take_is_prefix)
next
  case down_read_fails
  then show ?thesis using assms(1) by (simp add: down_ok_def)
qed

lemma up_ok_env:
  assumes "up_ok (app_bytes True es) s" "tn_in_eof s \<longleftrightarrow> AppEnds \<in> set es"
  shows "up_ok (app_bytes True (es @ [e])) (tunnel_env e s)"
proof (cases e)
  case (AppWrites d)
  show ?thesis
  proof (cases "tn_in_eof s \<or> d = [] \<or> tunnel_buf_size < length d")
    case True
    then have "(if True \<and> AppEnds \<notin> set es \<and> length d \<le> tunnel_buf_size then d else []) = []" using assms(2) by auto
    then show ?thesis unfolding app_bytes_append AppWrites using assms True by (simp add: up_ok_def)
  next
    case False
    then show ?thesis unfolding app_bytes_append AppWrites using assms by (auto simp: up_ok_def)
  qed
qed (unfold app_bytes_append, use assms in \<open>simp_all add: up_ok_def\<close>)

lemma down_ok_env:
  assumes "down_ok (server_binary True es) s" "tn_ws_gone s \<longleftrightarrow> ServerGoes \<in> set es"
  shows "down_ok (server_binary True (es @ [e])) (tunnel_env e s)"
  unfolding server_binary_append using assms by (cases e) (auto simp: down_ok_def)

lemma tunnel_reaches_bytes:
  "tunnel_reaches u es s \<Longrightarrow> up_ok (app_bytes True es) s \<and> down_ok (server_binary True es) s"
proof (induction rule: tunnel_reaches.induct)
  case (env u es s e)
  have "tn_in_eof s \<longleftrightarrow> AppEnds \<in> set es" "tn_ws_gone s \<longleftrightarrow> ServerGoes \<in> set es"
    using tunnel_reaches_ends [OF env.hyps] by (simp_all add: tunnel_ends_inv_def)
  with env.IH show ?case using up_ok_env down_ok_env by blast
next
  case (pump u es s t)
  then show ?case using up_ok_step up_ok_other down_ok_step down_ok_other unfolding tunnel_step_def by blast
qed (simp add: up_ok_def down_ok_def new_tunnel_def)

text \<open>
  a tunnel forwards faithfully in both directions.  In every reachable state the frames sent hold a
  prefix of what the local application wrote, in order, each frame a non-empty part of at most the size
  of the buffer, and the application has been given a prefix of what the server sent in binary frames;
  while a pump runs, what is missing is exactly what is still queued.
\<close>

theorem tunnel_forwards:
  assumes "tunnel_reaches u es s"
  shows "prefix (concat (tn_ws_sent s)) (app_bytes True es) \<and> prefix (tn_out s) (server_binary True es)
    \<and> (\<not> tn_up_done s \<longrightarrow> concat (tn_ws_sent s) @ concat (tn_in s) = app_bytes True es)
    \<and> (\<not> tn_down_done s \<longrightarrow> tn_out s @ payload (tn_ws_in s) = server_binary True es)
    \<and> (\<forall>d \<in> set (tn_ws_sent s). d \<noteq> [] \<and> length d \<le> 32768)"
  using tunnel_reaches_bytes [OF assms] by (simp add: up_ok_def down_ok_def tunnel_buf_size_def)

section \<open>When a tunnel ends\<close>

definition tunnel_work :: "tunnel \<Rightarrow> nat" where
  "tunnel_work s = length (tn_in s) + length (tn_ws_in s) + (if tn_up_done s then 0 else 1) + (if tn_down_done s then 0 else 1)"

lemma tunnel_step_works: "tunnel_step s t \<Longrightarrow> tunnel_work t < tunnel_work s"
  unfolding tunnel_step_def by (auto simp: tunnel_work_def elim!: in_to_wsE ws_to_outE)

lemma tunnel_steps_bound: "(tunnel_step ^^ n) s t \<Longrightarrow> n + tunnel_work t \<le> tunnel_work s"
proof (induction n arbitrary: t)
  case (Suc n)
  then obtain v where "(tunnel_step ^^ n) s v" "tunnel_step v t" by (auto elim: relpowp_Suc_E)
  with Suc.IH [of v] tunnel_step_works [of v t] show ?case by simp
qed simp

text \<open>A pump that still runs can go on: the one down as soon as the context is cancelled or the server gone,
  the one up as soon as its input has ended or its read is interrupted.\<close>

lemma down_enabled: "\<not> tn_down_done s \<Longrightarrow> tn_cancelled s \<or> tn_ws_gone s \<Longrightarrow> \<exists>t. tunnel_step s t"
  unfolding tunnel_step_def using down_read_fails by blast

lemma up_enabled:
  assumes "\<not> tn_up_done s" "tn_in_eof s \<or> tn_in_closed s \<and> tn_unblocks s"
  shows "\<exists>t. tunnel_step s t"
proof (cases "tn_in_closed s \<and> tn_unblocks s \<or> tn_in s = []")
  case True
  then show ?thesis unfolding tunnel_step_def using up_ends [of s] assms by blast
next
  case False
  then obtain d ds where d: "tn_in s = d # ds" by (cases "tn_in s") auto
  with False have r: "\<not> tn_in_closed s \<or> \<not> tn_unblocks s" by blast
  show ?thesis
  proof (cases "ws_usable s")
    case True
    then show ?thesis unfolding tunnel_step_def using up_forward [OF assms(1) d r] by blast
  next
    case False
    then show ?thesis unfolding tunnel_step_def using up_write_fails [OF assms(1) d r] by blast
  qed
qed

lemma tunnel_stuck:
  assumes "tunnel_ends_inv u es s"
    and "tn_in_eof s \<or> tn_unblocks s \<and> \<not> tn_out_broken s \<and> (tn_ws_gone s \<or> tn_cancelled s)"
  shows "(\<nexists>t. tunnel_step s t) \<longleftrightarrow> tn_up_done s \<and> tn_down_done s"
proof
  assume no: "\<nexists>t. tunnel_step s t"
  have up: "tn_up_done s \<or> \<not> tn_in_eof s \<and> \<not> (tn_in_closed s \<and> tn_unblocks s)" using up_enabled no by blast
  have down: "tn_down_done s \<or> \<not> tn_cancelled s \<and> \<not> tn_ws_gone s" using down_enabled no by blast
  from assms up down show "tn_up_done s \<and> tn_down_done s" by (auto simp: tunnel_ends_inv_def)
next
  assume "tn_up_done s \<and> tn_down_done s"
  then show "\<nexists>t. tunnel_step s t" unfolding tunnel_step_def by (auto elim: in_to_ws.cases ws_to_out.cases)
qed

lemma tunnel_steps_keep: "(tunnel_step ^^ n) s t \<Longrightarrow> tunnel_ends_inv u es s \<Longrightarrow>
  tunnel_ends_inv u es t \<and> tn_in_eof t = tn_in_eof s \<and> tn_unblocks t = tn_unblocks s \<and> tn_out_broken t = tn_out_broken s
    \<and> tn_ws_gone t = tn_ws_gone s \<and> (tn_cancelled s \<longrightarrow> tn_cancelled t)"
proof (induction n arbitrary: t)
  case (Suc n)
  then obtain v where v: "(tunnel_step ^^ n) s v" "tunnel_step v t" by (auto elim: relpowp_Suc_E)
  have "tn_in_eof t = tn_in_eof v \<and> tn_unblocks t = tn_unblocks v \<and> tn_out_broken t = tn_out_broken v
    \<and> tn_ws_gone t = tn_ws_gone v \<and> (tn_cancelled v \<longrightarrow> tn_cancelled t)"
    using v(2) unfolding tunnel_step_def by (auto elim!: in_to_wsE ws_to_outE)
  with Suc.IH [OF v(1) Suc.prems(2)] tunnel_ends_pump v(2) show ?case by metis
qed simp

text \<open>
  a tunnel ends once it should.  If the local input has ended, or the server has gone or the process is
  interrupted while the application still reads and closing its input interrupts reads, the pumps make a
  bounded number of steps, and they can stop nowhere but with both of them ended.
\<close>

theorem tunnel_ends:
  assumes "tunnel_reaches u es s" "(tunnel_step ^^ n) s t"
    and "AppEnds \<in> set es \<or> u \<and> AppStopsReading \<notin> set es \<and> (ServerGoes \<in> set es \<or> Interrupted \<in> set es)"
  shows "n \<le> length (tn_in s) + length (tn_ws_in s) + 2
    \<and> ((\<nexists>v. tunnel_step t v) \<longleftrightarrow> tunnel_conn None t = Some None)"
proof -
  have e: "tunnel_ends_inv u es s" by (rule tunnel_reaches_ends [OF assms(1)])
  note k = tunnel_steps_keep [OF assms(2) e]
  have "tn_in_eof t \<or> tn_unblocks t \<and> \<not> tn_out_broken t \<and> (tn_ws_gone t \<or> tn_cancelled t)"
    using e k assms(3) by (auto simp: tunnel_ends_inv_def)
  then have "(\<nexists>v. tunnel_step t v) \<longleftrightarrow> tn_up_done t \<and> tn_down_done t" using tunnel_stuck k by blast
  then have "(\<nexists>v. tunnel_step t v) \<longleftrightarrow> tunnel_conn None t = Some None" by (simp add: tunnel_conn_def)
  moreover have "n \<le> tunnel_work s" using tunnel_steps_bound [OF assms(2)] by simp
  then have "n \<le> length (tn_in s) + length (tn_ws_in s) + 2" by (simp add: tunnel_work_def split: if_splits)
  ultimately show ?thesis by blast
qed

text \<open>
  a standard input keeps a tunnel alive.  Over a standard input on which closing does not interrupt a read,
  the tunnel does not return when the server has gone: the pump up waits for input that need not come,
  while the comment says that closing the input unblocks it.  The same happens over any input if the
  application has stopped reading, because a failed write closes nothing.
\<close>

theorem tunnel_waits_for_input:
  "\<exists>s. tunnel_reaches False [ServerGoes] s \<and> tn_down_done s \<and> tunnel_conn None s = None \<and> (\<nexists>t. tunnel_step s t)"
  "\<exists>s. tunnel_reaches True [AppStopsReading, ServerSends (Binary d)] s \<and> tn_down_done s \<and> tunnel_conn None s = None
     \<and> (\<nexists>t. tunnel_step s t)"
proof -
  let ?a = "(new_tunnel False)\<lparr>tn_ws_gone := True\<rparr>" and ?b = "(new_tunnel False)\<lparr>tn_ws_gone := True, tn_in_closed := True, tn_cancelled := True, tn_down_done := True\<rparr>"
  have a: "tunnel_reaches False [ServerGoes] ?a"
    using env [OF start, of False ServerGoes] by simp
  have "ws_to_out ?a ?b" using down_read_fails [of ?a] by (simp add: new_tunnel_def)
  with a have "tunnel_reaches False [ServerGoes] ?b" using pump unfolding tunnel_step_def by blast
  moreover have "\<not> tunnel_step ?b t" for t
    unfolding tunnel_step_def by (auto simp: new_tunnel_def elim!: in_to_wsE ws_to_outE)
  ultimately show "\<exists>s. tunnel_reaches False [ServerGoes] s \<and> tn_down_done s \<and> tunnel_conn None s = None \<and> (\<nexists>t. tunnel_step s t)"
    by (intro exI [of _ ?b]) (simp add: new_tunnel_def tunnel_conn_def)
next
  let ?a = "(new_tunnel True)\<lparr>tn_out_broken := True, tn_ws_in := [Binary d]\<rparr>"
  let ?b = "(new_tunnel True)\<lparr>tn_out_broken := True, tn_cancelled := True, tn_down_done := True\<rparr>"
  have a: "tunnel_reaches True [AppStopsReading, ServerSends (Binary d)] ?a"
    using env [OF env [OF start, of True AppStopsReading], of "ServerSends (Binary d)"] by (simp add: new_tunnel_def)
  have "ws_to_out ?a ?b" using down_write_fails [of ?a d "[]" 0] by (simp add: new_tunnel_def)
  with a have "tunnel_reaches True [AppStopsReading, ServerSends (Binary d)] ?b" using pump unfolding tunnel_step_def by blast
  moreover have "\<not> tunnel_step ?b t" for t
    unfolding tunnel_step_def by (auto simp: new_tunnel_def elim!: in_to_wsE ws_to_outE)
  ultimately show "\<exists>s. tunnel_reaches True [AppStopsReading, ServerSends (Binary d)] s \<and> tn_down_done s \<and> tunnel_conn None s = None
     \<and> (\<nexists>t. tunnel_step s t)"
    by (intro exI [of _ ?b]) (simp add: new_tunnel_def tunnel_conn_def)
qed

section \<open>From the laptop to the service\<close>

text \<open>
  C20: the two ends fit together.  If the network delivers to the bridge of the server the frames of a tunnel
  in order, as binary frames, and to the tunnel those of the bridge, then at any moment, whatever the
  interleaving, the service has received a prefix of what the local application wrote, and the
  application a prefix of what the service wrote.
\<close>

theorem forwarding_end_to_end:
  assumes "tunnel_reaches u tes t" "reaches bes b"
    and "prefix (client_binary True bes) (payload (map Binary (tn_ws_sent t)))"
    and "prefix (server_binary True tes) (payload (map Binary (br_ws_out b)))"
  shows "prefix (br_tcp_out b) (app_bytes True tes) \<and> prefix (tn_out t) (service_bytes True bes)"
proof -
  have p: "payload (map Binary ds) = concat ds" for ds by (simp add: payload_def comp_def)
  show ?thesis
    using tunnel_reaches_bytes [OF assms(1)] reaches_bytes [OF assms(2)] assms(3,4)
    unfolding p up_ok_def down_ok_def in_ok_def out_ok_def by (meson prefix_order.trans)
qed

text \<open>A run: the application writes, and the bytes reach the service.\<close>

definition demo_tunnel :: tunnel where
  "demo_tunnel = (new_tunnel True)\<lparr>tn_ws_sent := [''ping'']\<rparr>"

lemma demo_tunnel_reaches: "tunnel_reaches True [AppWrites ''ping''] demo_tunnel"
proof -
  let ?a = "(new_tunnel True)\<lparr>tn_in := [''ping'']\<rparr>"
  have a: "tunnel_reaches True [AppWrites ''ping''] ?a"
    using env [OF start, of True "AppWrites ''ping''"] by (simp add: new_tunnel_def tunnel_buf_size_def)
  have "in_to_ws ?a demo_tunnel"
    using up_forward [of ?a "''ping''" "[]"] by (simp add: new_tunnel_def demo_tunnel_def)
  with a show ?thesis using pump unfolding tunnel_step_def by blast
qed

theorem forwarding_end_to_end_witness:
  "prefix (br_tcp_out (demo_bridge\<lparr>br_ws_in := [], br_tcp_out := ''ping'', br_bytes_in := 4\<rparr>)) (app_bytes True [AppWrites ''ping''])"
proof -
  let ?b = "demo_bridge\<lparr>br_ws_in := [], br_tcp_out := ''ping'', br_bytes_in := 4\<rparr>"
  have b: "reaches demo_events ?b"
    by (rule reaches.pump [OF demo_reaches]) (simp add: pump_step_def demo_write)
  have "client_binary True demo_events = ''ping''" by (simp add: demo_events_def)
  then have "prefix (client_binary True demo_events) (payload (map Binary (tn_ws_sent demo_tunnel)))"
    by (simp add: demo_tunnel_def new_tunnel_def)
  moreover have "prefix (server_binary True [AppWrites ''ping'']) (payload (map Binary (br_ws_out ?b)))" by simp
  ultimately show ?thesis using forwarding_end_to_end [OF demo_tunnel_reaches b] by blast
qed

theorem tunnel_ends_witness:
  "\<exists>v. tunnel_step ((new_tunnel True)\<lparr>tn_ws_gone := True\<rparr>) v"
proof -
  let ?t = "(new_tunnel True)\<lparr>tn_ws_gone := True\<rparr>"
  have r: "tunnel_reaches True [ServerGoes] ?t" using env [OF start, of True ServerGoes] by simp
  have "(tunnel_step ^^ 0) ?t ?t" by simp
  from tunnel_ends [OF r this] have "(\<nexists>v. tunnel_step ?t v) \<longleftrightarrow> tunnel_conn None ?t = Some None" by simp
  then show ?thesis by (simp add: tunnel_conn_def new_tunnel_def)
qed

end
