(* ===== verification/ShellSessions.thy ===== *)
theory ShellSessions
  imports ApiSsh ApiExec
begin

text \<open>
  How shells run for remote users: the process a WebSocket session starts (\<open>startExecSession\<close> of
  \<open>internal/api/exec.go\<close>), and \<open>runPTY\<close>, \<open>runExec\<close> and \<open>Close\<close> of the embedded SSH server
  (\<open>internal/api/ssh.go\<close>) as a step relation over the two copy loops and the wait for the child.  The
  client and the child are the environment.
\<close>

section \<open>The process of a WebSocket session\<close>

definition start_exec_session :: "string list \<Rightarrow> string \<Rightarrow> command" where
  "start_exec_session environ workdir =
     \<lparr>cm_path = ''/bin/bash'', cm_args = [], cm_dir = workdir,
      cm_env = environ @ [''TERM=xterm-256color'', ''HOME='' @ workdir]\<rparr>"

section \<open>An SSH session\<close>

text \<open>
  \<open>sr_feed\<close>: the end the loop in writes to is open - the master of the terminal with \<open>sr_pty\<close>, the pipe of
  the standard input without.  \<open>sr_held\<close>: some process still holds the child's end of the output.
\<close>

record ssh_run =
  sr_pty :: bool
  sr_in :: "string list"
  sr_in_eof :: bool
  sr_gone :: bool
  sr_feed :: bool
  sr_child_in :: string
  sr_child_out :: "string list"
  sr_held :: bool
  sr_exit :: "int option"
  sr_sent :: string
  sr_in_done :: bool
  sr_out_done :: bool
  sr_killed :: bool
  sr_result :: "int option"

definition new_ssh_run :: "bool \<Rightarrow> ssh_run" where
  "new_ssh_run pty = \<lparr>sr_pty = pty, sr_in = [], sr_in_eof = False, sr_gone = False, sr_feed = True, sr_child_in = [],
     sr_child_out = [], sr_held = True, sr_exit = None, sr_sent = [], sr_in_done = False, sr_out_done = False,
     sr_killed = False, sr_result = None\<rparr>"

text \<open>
  The goroutine that copies the session to the child, and closes the child's end of it when it stops: the
  pipe without a terminal, the master of the terminal with one.
\<close>

inductive copy_in :: "ssh_run \<Rightarrow> ssh_run \<Rightarrow> bool" where
  in_chunk: "\<not> sr_in_done s \<Longrightarrow> sr_in s = d # ds \<Longrightarrow> sr_feed s \<Longrightarrow>
    copy_in s (s\<lparr>sr_in := ds, sr_child_in := sr_child_in s @ d\<rparr>)"
| in_write_fails: "\<not> sr_in_done s \<Longrightarrow> sr_in s = d # ds \<Longrightarrow> \<not> sr_feed s \<or> sr_exit s \<noteq> None \<and> (sr_pty s \<longrightarrow> \<not> sr_held s) \<Longrightarrow>
    copy_in s (s\<lparr>sr_in := ds, sr_feed := False, sr_in_done := True\<rparr>)"
| in_ends: "\<not> sr_in_done s \<Longrightarrow> sr_in s = [] \<Longrightarrow> sr_in_eof s \<Longrightarrow>
    copy_in s (s\<lparr>sr_feed := False, sr_in_done := True\<rparr>)"

text \<open>
  The copy from the child to the session: in \<open>runPTY\<close> the loop that reads the master, which fails once the
  master is closed; in \<open>runExec\<close> the goroutines \<open>os/exec\<close> starts for the two outputs, which \<open>Wait\<close> joins.
\<close>

inductive copy_out :: "ssh_run \<Rightarrow> ssh_run \<Rightarrow> bool" where
  out_chunk: "\<not> sr_out_done s \<Longrightarrow> sr_child_out s = d # ds \<Longrightarrow> sr_pty s \<longrightarrow> sr_feed s \<Longrightarrow> \<not> sr_gone s \<Longrightarrow>
    copy_out s (s\<lparr>sr_child_out := ds, sr_sent := sr_sent s @ d\<rparr>)"
| out_write_fails: "\<not> sr_out_done s \<Longrightarrow> sr_child_out s = d # ds \<Longrightarrow> sr_pty s \<longrightarrow> sr_feed s \<Longrightarrow> sr_gone s \<Longrightarrow>
    copy_out s (s\<lparr>sr_child_out := ds, sr_out_done := True\<rparr>)"
| out_ends: "\<not> sr_out_done s \<Longrightarrow> sr_pty s \<and> \<not> sr_feed s \<or> \<not> sr_held s \<and> sr_child_out s = [] \<Longrightarrow>
    copy_out s (s\<lparr>sr_out_done := True\<rparr>)"

text \<open>
  The end of \<open>runPTY\<close> and \<open>runExec\<close>: once the output has ended and the child has been waited for, they
  return its code; what they have deferred kills the process group and closes the master.
\<close>

inductive wait_child :: "ssh_run \<Rightarrow> ssh_run \<Rightarrow> bool" where
  reaped: "sr_result s = None \<Longrightarrow> sr_out_done s \<Longrightarrow> sr_exit s = Some c \<Longrightarrow>
    wait_child s (s\<lparr>sr_result := Some (ssh_wait_exit (if c = 0 then RunOk else ExitError c)), sr_killed := True, sr_feed := False\<rparr>)"

definition session_step :: "ssh_run \<Rightarrow> ssh_run \<Rightarrow> bool" where
  "session_step s t \<longleftrightarrow> copy_in s t \<or> copy_out s t \<or> wait_child s t"

text \<open>
  The environment: what the client types, that it ends its input or goes away altogether (which ends its
  input too), what the child writes, its exit, and that the last holder of its output goes.
\<close>

datatype session_event = Types string | EndsInput | Disconnects | Writes string | Exits int | LetsGo

fun session_env :: "session_event \<Rightarrow> ssh_run \<Rightarrow> ssh_run" where
  "session_env (Types d) s = (if sr_in_eof s \<or> d = [] then s else s\<lparr>sr_in := sr_in s @ [d]\<rparr>)"
| "session_env EndsInput s = s\<lparr>sr_in_eof := True\<rparr>"
| "session_env Disconnects s = s\<lparr>sr_in_eof := True, sr_gone := True\<rparr>"
| "session_env (Writes d) s = (if sr_held s \<and> d \<noteq> [] then s\<lparr>sr_child_out := sr_child_out s @ [d]\<rparr> else s)"
| "session_env (Exits c) s = (if sr_exit s = None then s\<lparr>sr_exit := Some c\<rparr> else s)"
| "session_env LetsGo s = (if sr_exit s = None then s else s\<lparr>sr_held := False\<rparr>)"

inductive session_reaches :: "bool \<Rightarrow> session_event list \<Rightarrow> ssh_run \<Rightarrow> bool" where
  start: "session_reaches pty [] (new_ssh_run pty)"
| env: "session_reaches pty es s \<Longrightarrow> session_reaches pty (es @ [e]) (session_env e s)"
| step: "session_reaches pty es s \<Longrightarrow> session_step s t \<Longrightarrow> session_reaches pty es t"

inductive_cases copy_inE: "copy_in s t"
inductive_cases copy_outE: "copy_out s t"
inductive_cases wait_childE: "wait_child s t"

section \<open>Closing the server\<close>

text \<open>
  \<open>Close\<close>: what it does, in order, and its error.  \<open>srv_err\<close> is the error of the library's own \<open>Close\<close> and
  whether it is that of a listener closed already; the wait for the serving goroutine is bounded.
\<close>

datatype close_call = CloseListener | CloseServer | AwaitServe

definition ssh_close :: "bool \<Rightarrow> (string \<times> bool) option \<Rightarrow> close_call list \<times> string option" where
  "ssh_close started srv_err =
     (if \<not> started then ([], None)
      else ([CloseListener, CloseServer, AwaitServe],
            case srv_err of Some (e, closed_already) \<Rightarrow> (if closed_already then None else Some e) | None \<Rightarrow> None))"

definition ssh_server_port :: "nat option \<Rightarrow> nat" where
  "ssh_server_port tcp_addr = (case tcp_addr of Some p \<Rightarrow> p | None \<Rightarrow> 0)"

section \<open>What a session guarantees\<close>

fun typed_bytes :: "bool \<Rightarrow> session_event list \<Rightarrow> string" where
  "typed_bytes ongoing [] = []"
| "typed_bytes ongoing (e # es) =
     (case e of
        Types d \<Rightarrow> (if ongoing then d else []) @ typed_bytes ongoing es
      | EndsInput \<Rightarrow> typed_bytes False es
      | Disconnects \<Rightarrow> typed_bytes False es
      | _ \<Rightarrow> typed_bytes ongoing es)"

text \<open>What the child has written: the state of the child is that of the run, so it is read off the run.\<close>

inductive session_runs :: "bool \<Rightarrow> session_event list \<Rightarrow> string \<Rightarrow> ssh_run \<Rightarrow> bool" where
  runs_start: "session_runs pty [] [] (new_ssh_run pty)"
| runs_env: "session_runs pty es w s \<Longrightarrow>
    session_runs pty (es @ [e]) (w @ (case e of Writes d \<Rightarrow> if sr_held s then d else [] | _ \<Rightarrow> [])) (session_env e s)"
| runs_step: "session_runs pty es w s \<Longrightarrow> session_step s t \<Longrightarrow> session_runs pty es w t"

lemma session_runs_reaches: "session_runs pty es w s \<Longrightarrow> session_reaches pty es s"
  by (induction rule: session_runs.induct) (auto intro: session_reaches.intros)

lemma session_reaches_runs: "session_reaches pty es s \<Longrightarrow> \<exists>w. session_runs pty es w s"
proof (induction rule: session_reaches.induct)
  case (start pty)
  show ?case by (rule exI, rule runs_start)
next
  case (env pty es s e)
  then obtain w where "session_runs pty es w s" by blast
  then show ?case by (blast intro: runs_env)
next
  case (step pty es s t)
  then show ?case by (blast intro: runs_step)
qed

definition in_bytes_ok :: "session_event list \<Rightarrow> ssh_run \<Rightarrow> bool" where
  "in_bytes_ok es s \<longleftrightarrow> prefix (sr_child_in s) (typed_bytes True es)
     \<and> (\<not> sr_in_done s \<longrightarrow> sr_child_in s @ concat (sr_in s) = typed_bytes True es)"

definition out_bytes_ok :: "session_event list \<Rightarrow> string \<Rightarrow> ssh_run \<Rightarrow> bool" where
  "out_bytes_ok es w s \<longleftrightarrow> prefix (sr_sent s) w
     \<and> (\<not> sr_out_done s \<longrightarrow> sr_sent s @ concat (sr_child_out s) = w)
     \<and> (sr_out_done s \<longrightarrow> sr_sent s = w \<and> \<not> sr_held s \<or> sr_gone s \<or> sr_pty s \<and> sr_in_done s)"

definition run_state_ok :: "bool \<Rightarrow> session_event list \<Rightarrow> ssh_run \<Rightarrow> bool" where
  "run_state_ok pty es s \<longleftrightarrow> sr_pty s = pty
     \<and> (sr_in_eof s \<longleftrightarrow> EndsInput \<in> set es \<or> Disconnects \<in> set es) \<and> (sr_gone s \<longleftrightarrow> Disconnects \<in> set es)
     \<and> (\<forall>c. sr_exit s = Some c \<longrightarrow> Exits c \<in> set es) \<and> (\<not> sr_held s \<longrightarrow> sr_exit s \<noteq> None)
     \<and> (sr_in_done s \<longrightarrow> \<not> sr_feed s) \<and> (\<not> sr_feed s \<longrightarrow> sr_in_done s \<or> sr_result s \<noteq> None)
     \<and> (sr_in_done s \<longrightarrow> sr_in_eof s \<or> sr_exit s \<noteq> None)
     \<and> (sr_result s \<noteq> None \<longrightarrow> sr_out_done s \<and> sr_result s = sr_exit s \<and> \<not> sr_feed s)
     \<and> (sr_killed s \<longleftrightarrow> sr_result s \<noteq> None)"

lemma exit_code_kept [simp]: "ssh_wait_exit (if c = 0 then RunOk else ExitError c) = c"
  by simp

lemma run_state_step:
  assumes "run_state_ok pty es s" "session_step s t"
  shows "run_state_ok pty es t"
proof -
  consider "copy_in s t" | "copy_out s t" | "wait_child s t" using assms(2) by (auto simp: session_step_def)
  then show ?thesis
  proof cases
    case 1
    then show ?thesis using assms(1) by cases (auto simp: run_state_ok_def)
  next
    case 2
    then show ?thesis using assms(1) by cases (auto simp: run_state_ok_def)
  next
    case 3
    then show ?thesis using assms(1) by cases (simp add: run_state_ok_def)
  qed
qed

lemma run_state_env: "run_state_ok pty es s \<Longrightarrow> run_state_ok pty (es @ [e]) (session_env e s)"
  by (cases e) (auto simp: run_state_ok_def)

lemma run_state: "session_reaches pty es s \<Longrightarrow> run_state_ok pty es s"
proof (induction rule: session_reaches.induct)
  case (start pty)
  then show ?case by (simp add: run_state_ok_def new_ssh_run_def)
qed (simp_all add: run_state_step run_state_env)

lemma in_bytes_step:
  assumes "in_bytes_ok es s" "session_step s t"
  shows "in_bytes_ok es t"
proof -
  consider "copy_in s t" | "copy_out s t" | "wait_child s t" using assms(2) by (auto simp: session_step_def)
  then show ?thesis
  proof cases
    case 1
    then show ?thesis using assms(1) by cases (auto simp: in_bytes_ok_def, metis append.assoc prefixI)
  next
    case 2
    then show ?thesis using assms(1) by cases (simp_all add: in_bytes_ok_def)
  next
    case 3
    then show ?thesis using assms(1) by cases (simp add: in_bytes_ok_def)
  qed
qed

lemma typed_bytes_append:
  "typed_bytes p (es @ [e]) = typed_bytes p es
     @ (case e of Types d \<Rightarrow> if p \<and> EndsInput \<notin> set es \<and> Disconnects \<notin> set es then d else [] | _ \<Rightarrow> [])"
proof (induction es arbitrary: p)
  case (Cons x xs)
  then show ?case by (cases x; cases e) auto
qed (cases e; simp)

lemma in_bytes_env:
  assumes "in_bytes_ok es s" "sr_in_eof s \<longleftrightarrow> EndsInput \<in> set es \<or> Disconnects \<in> set es"
  shows "in_bytes_ok (es @ [e]) (session_env e s)"
  unfolding typed_bytes_append in_bytes_ok_def using assms by (cases e) (auto simp: in_bytes_ok_def typed_bytes_append)

lemma out_bytes_step:
  assumes "out_bytes_ok es w s" "session_step s t" "run_state_ok pty es s"
  shows "out_bytes_ok es w t"
proof -
  consider "copy_in s t" | "copy_out s t" | "wait_child s t" using assms(2) by (auto simp: session_step_def)
  then show ?thesis
  proof cases
    case 1
    then show ?thesis using assms(1) by cases (auto simp: out_bytes_ok_def)
  next
    case 2
    then show ?thesis
    proof cases
      case (out_ends)
      then have f: "\<not> sr_feed s \<longrightarrow> sr_in_done s"
        using assms(3) by (auto simp: run_state_ok_def)
      show ?thesis using assms(1) out_ends f by (auto simp: out_bytes_ok_def)
    qed (use assms(1) in \<open>auto simp: out_bytes_ok_def\<close>)
  next
    case 3
    then show ?thesis using assms(1) by cases (simp add: out_bytes_ok_def)
  qed
qed

lemma out_bytes_env:
  assumes "out_bytes_ok es w s"
  shows "out_bytes_ok (es @ [e]) (w @ (case e of Writes d \<Rightarrow> if sr_held s then d else [] | _ \<Rightarrow> [])) (session_env e s)"
  using assms by (cases e) (auto simp: out_bytes_ok_def)

lemma session_bytes: "session_runs pty es w s \<Longrightarrow> in_bytes_ok es s \<and> out_bytes_ok es w s"
proof (induction rule: session_runs.induct)
  case (runs_start pty)
  then show ?case by (simp add: in_bytes_ok_def out_bytes_ok_def new_ssh_run_def)
next
  case (runs_env pty es w s e)
  note st = run_state [OF session_runs_reaches [OF runs_env.hyps]]
  have "sr_in_eof s \<longleftrightarrow> EndsInput \<in> set es \<or> Disconnects \<in> set es" using st by (simp add: run_state_ok_def)
  with runs_env.IH show ?case using in_bytes_env out_bytes_env by blast
next
  case (runs_step pty es w s t)
  note st = run_state [OF session_runs_reaches [OF runs_step.hyps(1)]]
  from runs_step show ?case using in_bytes_step out_bytes_step st by blast
qed

text \<open>
  a session is faithful and cleans up.  The child is given a prefix of what the client typed and the
  client a prefix of what was written; the session ends with the exit code of the child, never before
  the child has exited, and then the process group has been killed and the child's terminal or pipe is
  closed.  If the client stayed, and with a terminal also kept its input open as long as the child ran,
  all that was written has reached it by then.
\<close>

theorem ssh_session_faithful:
  assumes "session_runs pty es w s"
  shows "prefix (sr_child_in s) (typed_bytes True es) \<and> prefix (sr_sent s) w
    \<and> (sr_killed s \<longleftrightarrow> sr_result s \<noteq> None)
    \<and> (\<forall>c. sr_result s = Some c \<longrightarrow> Exits c \<in> set es \<and> \<not> sr_feed s)
    \<and> (sr_result s \<noteq> None \<and> Disconnects \<notin> set es \<and> (pty \<longrightarrow> \<not> sr_in_done s) \<longrightarrow> sr_sent s = w)"
proof -
  note st = run_state [OF session_runs_reaches [OF assms]]
  note b = session_bytes [OF assms]
  have "sr_sent s = w" if "sr_result s \<noteq> None" "Disconnects \<notin> set es" "pty \<longrightarrow> \<not> sr_in_done s"
  proof -
    have "sr_out_done s" "\<not> sr_gone s" "sr_pty s = pty" using st that by (auto simp: run_state_ok_def)
    then show ?thesis using b that by (auto simp: out_bytes_ok_def)
  qed
  moreover have "\<forall>c. sr_result s = Some c \<longrightarrow> Exits c \<in> set es \<and> \<not> sr_feed s"
    using st by (auto simp: run_state_ok_def)
  moreover have "sr_killed s \<longleftrightarrow> sr_result s \<noteq> None" using st by (simp add: run_state_ok_def)
  ultimately show ?thesis using b by (auto simp: in_bytes_ok_def out_bytes_ok_def)
qed

section \<open>When a session ends\<close>

lemma session_step_exit: "session_step s t \<Longrightarrow> sr_exit t = sr_exit s \<and> sr_held t = sr_held s \<and> sr_pty t = sr_pty s"
  unfolding session_step_def by (auto elim!: copy_inE copy_outE wait_childE)

definition session_work :: "ssh_run \<Rightarrow> nat" where
  "session_work s = length (sr_in s) + length (sr_child_out s) + (if sr_in_done s then 0 else 1) + (if sr_out_done s then 0 else 1)
     + (if sr_result s = None then 1 else 0)"

lemma session_step_works: "session_step s t \<Longrightarrow> session_work t < session_work s"
  unfolding session_step_def by (auto simp: session_work_def elim!: copy_inE copy_outE wait_childE)

lemma session_steps_bound: "(session_step ^^ n) s t \<Longrightarrow> n + session_work t \<le> session_work s"
proof (induction n arbitrary: t)
  case (Suc n)
  then obtain v where "(session_step ^^ n) s v" "session_step v t" by (auto elim: relpowp_Suc_E)
  with Suc.IH [of v] session_step_works [of v t] show ?case by simp
qed simp

lemma session_steps_exit: "(session_step ^^ n) s t \<Longrightarrow> sr_exit t = sr_exit s \<and> sr_held t = sr_held s \<and> sr_pty t = sr_pty s"
proof (induction n arbitrary: t)
  case (Suc n)
  then obtain v where "(session_step ^^ n) s v" "session_step v t" by (auto elim: relpowp_Suc_E)
  with Suc.IH [of v] session_step_exit [of v t] show ?case by simp
qed simp

text \<open>
  a session ends once nothing of its child is left.  When the child has exited and its output is held by
  nobody, the session makes a bounded number of steps and cannot stop before it has its result.
\<close>

theorem ssh_session_ends:
  assumes "sr_exit s = Some c" "\<not> sr_held s" "(session_step ^^ n) s t"
  shows "n \<le> length (sr_in s) + length (sr_child_out s) + 3 \<and> ((\<nexists>v. session_step t v) \<longrightarrow> sr_result t \<noteq> None)"
proof
  have "n \<le> session_work s" using session_steps_bound [OF assms(3)] by simp
  then show "n \<le> length (sr_in s) + length (sr_child_out s) + 3" by (simp add: session_work_def split: if_splits)
  have t: "sr_exit t = Some c" "\<not> sr_held t" using session_steps_exit [OF assms(3)] assms(1,2) by auto
  show "(\<nexists>v. session_step t v) \<longrightarrow> sr_result t \<noteq> None"
  proof (rule ccontr)
    assume "\<not> ?thesis"
    then have no: "\<nexists>v. session_step t v" and r: "sr_result t = None" by auto
    have "sr_out_done t"
    proof (rule ccontr)
      assume o: "\<not> sr_out_done t"
      have "\<exists>v. copy_out t v"
      proof (cases "sr_pty t \<and> \<not> sr_feed t \<or> sr_child_out t = []")
        case True
        then show ?thesis using out_ends [OF o] t by blast
      next
        case False
        then obtain d ds where "sr_child_out t = d # ds" "sr_pty t \<longrightarrow> sr_feed t" by (cases "sr_child_out t") auto
        then show ?thesis using out_chunk [OF o] out_write_fails [OF o] by blast
      qed
      with no show False by (auto simp: session_step_def)
    qed
    with reaped [OF r _ t(1)] no show False by (auto simp: session_step_def)
  qed
qed

text \<open>
  a client that leaves does not end its process.  Whatever the client does, as long as the child has not
  exited by itself, the session has no result and nothing has been killed: the signal is sent only after
  the wait.  A command that reads no input, or a shell that ignores the hang-up, runs on for ever.
\<close>

theorem disconnect_kills_nothing:
  assumes "session_reaches pty es s" "\<forall>c. Exits c \<notin> set es"
  shows "sr_result s = None \<and> \<not> sr_killed s"
  using run_state [OF assms(1)] assms(2) by (auto simp: run_state_ok_def)

text \<open>
  with a terminal, input that ends cuts the output off.  A client that sends a command and closes its
  input, as \<open>ssh -tt\<close> with a pipe does, can get none of the output: the end of the input closes the
  master of the terminal at once.
\<close>

theorem terminal_output_cut_off:
  "\<exists>s. session_runs True [EndsInput, Writes d, Exits 0] d s \<and> sr_result s = Some 0 \<and> sr_sent s = []"
proof -
  define s0 where "s0 = session_env (Exits 0) (session_env (Writes d) (session_env EndsInput (new_ssh_run True)))"
  have r0: "session_runs True [EndsInput, Writes d, Exits 0] d s0"
    using runs_env [OF runs_env [OF runs_env [OF runs_start, of True EndsInput], of "Writes d"], of "Exits 0"]
    by (simp add: s0_def new_ssh_run_def)
  define s1 where "s1 = s0\<lparr>sr_feed := False, sr_in_done := True\<rparr>"
  define s2 where "s2 = s1\<lparr>sr_out_done := True\<rparr>"
  define s3 where "s3 = s2\<lparr>sr_result := Some (ssh_wait_exit (if (0::int) = 0 then RunOk else ExitError 0)), sr_killed := True, sr_feed := False\<rparr>"
  have f: "\<not> sr_in_done s0" "sr_in s0 = []" "sr_in_eof s0" "\<not> sr_out_done s0" "sr_pty s0" "sr_exit s0 = Some 0"
    "sr_result s0 = None" "sr_sent s0 = []"
    by (simp_all add: s0_def new_ssh_run_def)
  have "copy_in s0 s1" unfolding s1_def by (rule in_ends) (use f in simp_all)
  with r0 have r1: "session_runs True [EndsInput, Writes d, Exits 0] d s1" using runs_step session_step_def by blast
  have "copy_out s1 s2" unfolding s2_def by (rule out_ends) (use f in \<open>simp_all add: s1_def\<close>)
  with r1 have r2: "session_runs True [EndsInput, Writes d, Exits 0] d s2" using runs_step session_step_def by blast
  have "wait_child s2 s3" unfolding s3_def by (rule reaped) (use f in \<open>simp_all add: s1_def s2_def\<close>)
  with r2 have "session_runs True [EndsInput, Writes d, Exits 0] d s3" using runs_step session_step_def by blast
  moreover have "sr_result s3 = Some 0" "sr_sent s3 = []" using f by (simp_all add: s1_def s2_def s3_def)
  ultimately show ?thesis by blast
qed

end
