(* ===== verification/JsonEncode.thy ===== *)
theory JsonEncode
  imports Json
begin

text \<open>
  The encoder of package \<open>encoding/json\<close> (\<open>Marshal\<close>), for values whose numbers are integers, and that the
  decoder of Json reads back what it writes.  Members are written in the order they are given; a map is
  to be given in the order of its keys, which is the one \<open>Marshal\<close> takes.  Bytes from 128 on are passed
  through, so texts are taken to be valid UTF-8 without the two separators that \<open>Marshal\<close> escapes.
\<close>

definition lower_hex :: "nat \<Rightarrow> char" where
  "lower_hex n = (if n < 10 then char_of (48 + n) else char_of (87 + n))"

definition u_escape :: "char \<Rightarrow> string" where
  "u_escape c = [CHR 0x5C, CHR ''u'', CHR ''0'', CHR ''0'', lower_hex (of_char c div 16), lower_hex (of_char c mod 16)]"

definition json_char :: "char \<Rightarrow> string" where
  "json_char c =
     (if c = CHR 0x22 \<or> c = CHR 0x5C then [CHR 0x5C, c]
      else if c = CHR 0x08 then [CHR 0x5C, CHR ''b'']
      else if c = CHR 0x0C then [CHR 0x5C, CHR ''f'']
      else if c = CHR 0x0A then [CHR 0x5C, CHR ''n'']
      else if c = CHR 0x0D then [CHR 0x5C, CHR ''r'']
      else if c = CHR 0x09 then [CHR 0x5C, CHR ''t'']
      else if (of_char c :: nat) < 32 \<or> c \<in> {CHR ''<'', CHR ''>'', CHR ''&''} then u_escape c
      else [c])"

definition json_text :: "string \<Rightarrow> string" where
  "json_text s = CHR 0x22 # concat (map json_char s) @ [CHR 0x22]"

fun json_print :: "jval \<Rightarrow> string" where
  "json_print (JStr s) = json_text s"
| "json_print (JNum q) = dec_int \<lfloor>q\<rfloor>"
| "json_print (JBool b) = (if b then ''true'' else ''false'')"
| "json_print JNull = ''null''"
| "json_print (JArr vs) = ''['' @ join '','' (map json_print vs) @ '']''"
| "json_print (JObj kvs) = ''{'' @ join '','' (map (\<lambda>kv. json_text (fst kv) @ '':'' @ json_print (snd kv)) kvs) @ ''}''"

fun integral :: "jval \<Rightarrow> bool" where
  "integral (JNum q) \<longleftrightarrow> q \<in> \<int>"
| "integral (JArr vs) \<longleftrightarrow> (\<forall>v \<in> set vs. integral v)"
| "integral (JObj kvs) \<longleftrightarrow> (\<forall>kv \<in> set kvs. integral (snd kv))"
| "integral _ \<longleftrightarrow> True"

section \<open>Strings\<close>

lemma lower_hex_val: "n < 16 \<Longrightarrow> hex_val (lower_hex n) = Some n"
proof -
  have "list_all (\<lambda>n. hex_val (lower_hex n) = Some n) [0..<16]" by code_simp
  then show "n < 16 \<Longrightarrow> hex_val (lower_hex n) = Some n" by (simp add: list_all_iff)
qed

lemma u_escape_read:
  assumes "(of_char c :: nat) < 128"
  shows "json_string (u_escape c @ s) = (case json_string s of None \<Rightarrow> None | Some (t, r) \<Rightarrow> Some (c # t, r))"
proof -
  have z: "hex_val (CHR ''0'') = Some 0" by code_simp
  have h: "hex_val (lower_hex (of_char c div 16)) = Some (of_char c div 16)"
    "hex_val (lower_hex (of_char c mod 16)) = Some (of_char c mod 16)"
    using assms by (intro lower_hex_val; simp)+
  have "hex4 (CHR ''0'' # CHR ''0'' # lower_hex (of_char c div 16) # lower_hex (of_char c mod 16) # s) = Some (of_char c, s)"
    using z h by simp
  then have "unicode_escape (CHR ''0'' # CHR ''0'' # lower_hex (of_char c div 16) # lower_hex (of_char c mod 16) # s) = Some ([c], s)"
    using assms by (simp add: unicode_escape_def utf8_def)
  then show ?thesis by (simp add: u_escape_def split: option.split)
qed

lemma json_char_read:
  "json_string (json_char c @ s) = (case json_string s of None \<Rightarrow> None | Some (t, r) \<Rightarrow> Some (c # t, r))"
proof (cases "(of_char c :: nat) < 32 \<or> c \<in> {CHR ''<'', CHR ''>'', CHR ''&''}")
  case True
  then have lt: "(of_char c :: nat) < 128" by auto
  show ?thesis
  proof (cases "c = CHR 0x22 \<or> c = CHR 0x5C \<or> c = CHR 0x08 \<or> c = CHR 0x0C \<or> c = CHR 0x0A \<or> c = CHR 0x0D \<or> c = CHR 0x09")
    case True
    then show ?thesis by (elim disjE) (simp_all add: json_char_def simple_escape_def split: option.split)
  next
    case False
    then have "json_char c = u_escape c" using True by (simp add: json_char_def)
    then show ?thesis using u_escape_read [OF lt] by simp
  qed
next
  case False
  then have "(32::nat) \<le> of_char c" by simp
  then have "c \<noteq> CHR 0x08" "c \<noteq> CHR 0x0C" "c \<noteq> CHR 0x0A" "c \<noteq> CHR 0x0D" "c \<noteq> CHR 0x09" by auto
  with False show ?thesis by (auto simp: json_char_def simple_escape_def split: option.split)
qed

lemma json_text_read: "json_string (concat (map json_char s) @ CHR 0x22 # r) = Some (s, r)"
  by (induction s) (simp_all add: json_char_read)

section \<open>Numbers\<close>

lemma dec_nat_head: "0 < n \<Longrightarrow> hd (dec_nat n) \<noteq> CHR ''0''"
proof (induction n rule: dec_nat.induct)
  case (1 n)
  show ?case
  proof (cases "n < 10")
    case True
    then have "n \<in> {1, 2, 3, 4, 5, 6, 7, 8, 9}" using 1 by auto
    then show ?thesis by (elim insertE emptyE) (hypsubst, code_simp)+
  next
    case False
    with 1 have "hd (dec_nat (n div 10)) \<noteq> CHR ''0''" by simp
    with False show ?thesis by (simp add: dec_nat.simps [of n])
  qed
qed

definition ends_value :: "string \<Rightarrow> bool" where
  "ends_value r \<longleftrightarrow> r = [] \<or> hd r \<in> {CHR '','', CHR '']'', CHR ''}''}"

lemma takeWhile_digits:
  assumes "ends_value r"
  shows "takeWhile is_digit (dec_nat n @ r) = dec_nat n"
proof -
  have "\<not> is_digit (hd r)" if "r \<noteq> []"
    using assms that by (auto simp: ends_value_def is_digit_def less_eq_char_def)
  then show ?thesis using dec_nat_digits [of _ n] by (cases r) (auto simp: takeWhile_append takeWhile_eq_all_conv)
qed

lemma digits_read:
  assumes "ends_value r"
  shows "json_number (dec_nat n @ r) = Some (of_nat n, r)" "json_number (CHR ''-'' # dec_nat n @ r) = Some (- of_nat n, r)"
proof -
  have fr: "fraction_part r = Some ([], r)" "exponent_part r = Some (0, r)"
    using assms by (cases r; auto simp: ends_value_def fraction_part_def exponent_part_def)+
  obtain c ds where c: "dec_nat n = c # ds" by (cases "dec_nat n") auto
  have dig: "is_digit c" using dec_nat_digits [of c n] c by simp
  then have nm: "c \<noteq> CHR ''-''" by (auto simp: is_digit_def less_eq_char_def)
  have whole: "(case dec_nat n @ r of x # _ \<Rightarrow> if x = CHR ''0'' then [x] else takeWhile is_digit (dec_nat n @ r) | [] \<Rightarrow> []) = dec_nat n"
  proof (cases "n = 0")
    case True
    have "dec_nat 0 = ''0''" by code_simp
    then show ?thesis using True by simp
  next
    case False
    then have "c \<noteq> CHR ''0''" using dec_nat_head [of n] c by simp
    moreover have "dec_nat n @ r = c # ds @ r" using c by simp
    ultimately show ?thesis unfolding takeWhile_digits [OF assms] by simp
  qed
  have sign: "(case dec_nat n @ r of x # s' \<Rightarrow> if x = CHR ''-'' then (True, s') else (False, dec_nat n @ r) | [] \<Rightarrow> (False, dec_nat n @ r))
      = (False, dec_nat n @ r)"
    using c nm by simp
  show "json_number (dec_nat n @ r) = Some (of_nat n, r)"
    by (simp add: json_number_def Let_def sign whole fr pow10_def)
  show "json_number (CHR ''-'' # dec_nat n @ r) = Some (- of_nat n, r)"
    by (simp add: json_number_def Let_def whole fr pow10_def)
qed

lemma dec_int_read:
  assumes "ends_value r"
  shows "json_number (dec_int i @ r) = Some (of_int i, r)"
  using digits_read [OF assms, of "nat i"] digits_read [OF assms, of "nat (- i)"] by (simp add: dec_int_def)

section \<open>Values\<close>

definition reads_back :: "jval \<Rightarrow> bool" where
  "reads_back v \<longleftrightarrow> (\<forall>r. ends_value r \<longrightarrow> (\<exists>n. \<forall>m \<ge> n. json_value m (json_print v @ r) = Some (v, r)))"

lemma skip_ws_solid [simp]: "\<not> json_space c \<Longrightarrow> skip_ws (c # s) = c # s"
  by (simp add: skip_ws_def)

lemma solid_chars [simp]:
  "\<not> json_space (CHR 0x22)" "\<not> json_space (CHR '':'')" "\<not> json_space (CHR '','')" "\<not> json_space (CHR ''{'')"
  "\<not> json_space (CHR ''}'')" "\<not> json_space (CHR ''['')" "\<not> json_space (CHR '']'')" "\<not> json_space (CHR ''t'')"
  "\<not> json_space (CHR ''f'')" "\<not> json_space (CHR ''n'')"
  by (simp_all add: json_space_def)

lemma dec_int_first:
  obtains c s where "dec_int i = c # s" "\<not> json_space c" "is_digit c \<or> c = CHR ''-''"
proof -
  have sp: "\<not> json_space c" if "is_digit c \<or> c = CHR ''-''" for c
    using that by (auto simp: json_space_def is_digit_def less_eq_char_def)
  obtain c s where c: "dec_int i = c # s" by (cases "dec_int i") (auto simp: dec_int_def split: if_splits)
  have "is_digit c \<or> c = CHR ''-''"
  proof (cases "i < 0")
    case False
    with c have "dec_nat (nat i) = c # s" by (simp add: dec_int_def)
    then show ?thesis using dec_nat_digits [of c "nat i"] by simp
  qed (use c in \<open>simp add: dec_int_def\<close>)
  with sp c that show thesis by blast
qed

lemma json_print_first:
  obtains c s where "json_print v = c # s" "\<not> json_space c" "c \<noteq> CHR '']''"
proof (cases v)
  case (JNum q)
  obtain c s where "dec_int \<lfloor>q\<rfloor> = c # s" "\<not> json_space c" "is_digit c \<or> c = CHR ''-''" by (rule dec_int_first)
  moreover from this(3) have "c \<noteq> CHR '']''" by (auto simp: is_digit_def less_eq_char_def)
  ultimately show ?thesis using that JNum by simp
next
  case (JBool b)
  then show ?thesis using that by (cases b) auto
qed (use that in \<open>auto simp: json_text_def\<close>)

lemma digit_not:
  assumes "is_digit c \<or> c = CHR ''-''"
  shows "c \<noteq> CHR 0x22" "c \<noteq> CHR ''{''" "c \<noteq> CHR ''[''" "c \<noteq> CHR ''t''" "c \<noteq> CHR ''f''" "c \<noteq> CHR ''n''"
  using assms by (auto simp: is_digit_def less_eq_char_def)

lemma reads_back_num:
  assumes "q \<in> \<int>"
  shows "reads_back (JNum q)"
  unfolding reads_back_def
proof (intro allI impI exI)
  fix r m assume r: "ends_value r" and m: "m \<ge> (1::nat)"
  obtain c s where c: "dec_int \<lfloor>q\<rfloor> = c # s" "\<not> json_space c" "is_digit c \<or> c = CHR ''-''" by (rule dec_int_first)
  have "json_number (c # s @ r) = Some (q, r)"
    using dec_int_read [OF r, of "\<lfloor>q\<rfloor>"] c(1) assms by simp
  then show "json_value m (json_print (JNum q) @ r) = Some (JNum q, r)"
    using m c digit_not [OF c(3)] by (cases m) auto
qed

lemma reads_back_simple: "reads_back (JStr s)" "reads_back (JBool b)" "reads_back JNull"
proof -
  have "json_value m (json_print (JStr s) @ r) = Some (JStr s, r)" if "m \<ge> 1" for m r
    using that by (cases m) (simp_all add: json_text_def json_text_read)
  then show "reads_back (JStr s)" unfolding reads_back_def by blast
  have "json_value m (json_print (JBool b) @ r) = Some (JBool b, r)" if "m \<ge> 1" for m r
    using that by (cases m; cases b) (simp_all add: literal_def)
  then show "reads_back (JBool b)" unfolding reads_back_def by blast
  have "json_value m (json_print JNull @ r) = Some (JNull, r)" if "m \<ge> 1" for m r
    using that by (cases m) (simp_all add: literal_def)
  then show "reads_back JNull" unfolding reads_back_def by blast
qed

lemma elems_read:
  assumes "vs \<noteq> []" "\<forall>v \<in> set vs. reads_back v"
  shows "\<exists>n. \<forall>m \<ge> n. json_elems m (join '','' (map json_print vs) @ CHR '']'' # r) = Some (vs, r)"
  using assms
proof (induction vs rule: induct_list012)
  case (2 v)
  have "ends_value (CHR '']'' # r)" by (simp add: ends_value_def)
  with 2 obtain n where n: "\<forall>m \<ge> n. json_value m (json_print v @ CHR '']'' # r) = Some (v, CHR '']'' # r)"
    by (auto simp: reads_back_def)
  have "json_elems m (json_print v @ CHR '']'' # r) = Some ([v], r)" if "m \<ge> Suc n" for m
    using that n by (cases m) auto
  then show ?case by (auto simp: join.simps)
next
  case (3 v w vs)
  let ?rest = "join '','' (map json_print (w # vs)) @ CHR '']'' # r"
  obtain n1 where n1: "\<forall>m \<ge> n1. json_elems m ?rest = Some (w # vs, r)" using 3 by auto
  have "ends_value (CHR '','' # ?rest)" by (simp add: ends_value_def)
  with 3 obtain n where n: "\<forall>m \<ge> n. json_value m (json_print v @ CHR '','' # ?rest) = Some (v, CHR '','' # ?rest)"
    by (auto simp: reads_back_def)
  have "json_elems m (json_print v @ CHR '','' # ?rest) = Some (v # w # vs, r)" if "m \<ge> Suc (n + n1)" for m
    using that n n1 by (cases m) auto
  then show ?case by (auto simp: join.simps)
qed simp

lemma members_read:
  assumes "kvs \<noteq> []" "\<forall>kv \<in> set kvs. reads_back (snd kv)"
  shows "\<exists>n. \<forall>m \<ge> n. json_members m (join '','' (map (\<lambda>kv. json_text (fst kv) @ '':'' @ json_print (snd kv)) kvs) @ CHR ''}'' # r)
    = Some (kvs, r)"
  using assms
proof (induction kvs rule: induct_list012)
  case (2 kv)
  have "ends_value (CHR ''}'' # r)" by (simp add: ends_value_def)
  with 2 obtain n where n: "\<forall>m \<ge> n. json_value m (json_print (snd kv) @ CHR ''}'' # r) = Some (snd kv, CHR ''}'' # r)"
    by (auto simp: reads_back_def)
  have "json_members m (json_text (fst kv) @ '':'' @ json_print (snd kv) @ CHR ''}'' # r) = Some ([kv], r)" if "m \<ge> Suc n" for m
    using that n by (cases m) (auto simp: json_text_def json_text_read)
  then show ?case by (auto simp: join.simps)
next
  case (3 kv lw kvs)
  let ?rest = "join '','' (map (\<lambda>kv. json_text (fst kv) @ '':'' @ json_print (snd kv)) (lw # kvs)) @ CHR ''}'' # r"
  obtain n1 where n1: "\<forall>m \<ge> n1. json_members m ?rest = Some (lw # kvs, r)" using 3 by auto
  have "ends_value (CHR '','' # ?rest)" by (simp add: ends_value_def)
  with 3 obtain n where n: "\<forall>m \<ge> n. json_value m (json_print (snd kv) @ CHR '','' # ?rest) = Some (snd kv, CHR '','' # ?rest)"
    by (auto simp: reads_back_def)
  have "json_members m (json_text (fst kv) @ '':'' @ json_print (snd kv) @ CHR '','' # ?rest) = Some (kv # lw # kvs, r)"
    if "m \<ge> Suc (n + n1)" for m
    using that n n1 by (cases m) (auto simp: json_text_def json_text_read)
  then show ?case by (auto simp: join.simps)
qed simp

lemma json_print_reads_back: "integral v \<Longrightarrow> reads_back v"
proof (induction v rule: json_print.induct)
  case (5 vs)
  then have all: "\<forall>v \<in> set vs. reads_back v" by simp
  show ?case
  proof (cases "vs = []")
    case True
    have "json_value m (''[]'' @ r) = Some (JArr [], r)" if "m \<ge> 1" for m r using that by (cases m) simp_all
    then show ?thesis using True by (auto simp: reads_back_def join.simps)
  next
    case False
    obtain c s where c: "join '','' (map json_print vs) = c # s" "\<not> json_space c" "c \<noteq> CHR '']''"
    proof -
      obtain v ws where v: "vs = v # ws" using False by (cases vs) auto
      obtain d t where "json_print v = d # t" "\<not> json_space d" "d \<noteq> CHR '']''" by (rule json_print_first)
      then show thesis using that v by (cases ws) (auto simp: join.simps)
    qed
    show ?thesis unfolding reads_back_def
    proof (intro allI impI)
      fix r
      obtain n where n: "\<forall>m \<ge> n. json_elems m (join '','' (map json_print vs) @ CHR '']'' # r) = Some (vs, r)"
        using elems_read [OF False all] by blast
      have "json_value m (json_print (JArr vs) @ r) = Some (JArr vs, r)" if "m \<ge> Suc n" for m
        using that n c by (cases m) auto
      then show "\<exists>n. \<forall>m \<ge> n. json_value m (json_print (JArr vs) @ r) = Some (JArr vs, r)" by blast
    qed
  qed
next
  case (6 kvs)
  then have all: "\<forall>kv \<in> set kvs. reads_back (snd kv)" by simp
  let ?p = "join '','' (map (\<lambda>kv. json_text (fst kv) @ '':'' @ json_print (snd kv)) kvs)"
  show ?case
  proof (cases "kvs = []")
    case True
    have "json_value m (''{}'' @ r) = Some (JObj [], r)" if "m \<ge> 1" for m r using that by (cases m) simp_all
    then show ?thesis using True by (auto simp: reads_back_def join.simps)
  next
    case False
    obtain s where c: "?p = CHR 0x22 # s"
    proof -
      obtain kv ws where "kvs = kv # ws" using False by (cases kvs) auto
      then show thesis using that by (cases ws) (auto simp: join.simps json_text_def)
    qed
    show ?thesis unfolding reads_back_def
    proof (intro allI impI)
      fix r
      obtain n where n: "\<forall>m \<ge> n. json_members m (?p @ CHR ''}'' # r) = Some (kvs, r)"
        using members_read [OF False all] by blast
      have "json_value m (json_print (JObj kvs) @ r) = Some (JObj kvs, r)" if "m \<ge> Suc n" for m
        using that n c by (cases m) auto
      then show "\<exists>n. \<forall>m \<ge> n. json_value m (json_print (JObj kvs) @ r) = Some (JObj kvs, r)" by blast
    qed
  qed
qed (simp_all add: reads_back_simple reads_back_num)

text \<open>Decoding what was encoded gives the value back.\<close>

theorem json_roundtrip: "integral v \<Longrightarrow> json_parse (json_print v) = Some v"
proof -
  assume "integral v"
  from json_print_reads_back [OF this] obtain n where n: "\<forall>m \<ge> n. json_value m (json_print v @ []) = Some (v, [])"
    by (auto simp: reads_back_def ends_value_def)
  have "json_value (2 * length (json_print v)) (json_print v) = json_value (n + 2 * length (json_print v)) (json_print v)"
    by (rule json_fuel [symmetric]) simp
  also have "\<dots> = Some (v, [])" using n by simp
  finally show ?thesis by (simp add: json_parse_def skip_ws_def)
qed

end
