(* ===== verification/LspMock.thy ===== *)
theory LspMock
  imports LspSession JsonEncode
begin

text \<open>
  The language server the tests run (\<open>internal/tools/lspmock/main.go\<close>): its own copy of the framing, its
  dispatch and its loop, and the client of LspClient run against it.  The two environment variables it
  reads are arguments.
\<close>

section \<open>Framing\<close>

text \<open>\<open>readMessage\<close> of the mock, with its header loop; \<open>parseContentLength\<close> is the same text as in \<open>wire.go\<close>.\<close>

definition mock_parse_content_length :: "string \<Rightarrow> nat option" where
  "mock_parse_content_length line =
     (if \<not> has_prefix line ''Content-Length:'' then None
      else case go_atoi (trim_space (drop (length ''Content-Length:'') line)) of
             None \<Rightarrow> None
           | Some v \<Rightarrow> if v < 0 then None else Some (nat v))"

function mock_read_header :: "nat option \<Rightarrow> string \<Rightarrow> string + (nat \<times> string)" where
  "mock_read_header len s =
     (case split_first newline s of
        (_, None) \<Rightarrow> Inl ''EOF''
      | (l, Some rest) \<Rightarrow>
          let line = trim_right is_eol l
          in if line = [] then (case len of None \<Rightarrow> Inl ''missing Content-Length'' | Some n \<Rightarrow> Inr (n, rest))
             else mock_read_header (case mock_parse_content_length line of None \<Rightarrow> len | Some v \<Rightarrow> Some v) rest)"
  by pat_completeness auto
termination by (relation "measure (\<lambda>(_, s). length s)") (auto dest!: split_first_shorter [OF sym])

declare mock_read_header.simps [simp del]

definition mock_read_message :: "(nat \<Rightarrow> bool) \<Rightarrow> string \<Rightarrow> wire_frame" where
  "mock_read_message alloc s =
     (case mock_read_header None s of
        Inl e \<Rightarrow> FrameError e
      | Inr (n, rest) \<Rightarrow>
          if \<not> alloc n then AllocPanic
          else if length rest < n then FrameError (if rest = [] then ''EOF'' else ''unexpected EOF'')
          else Frame (take n rest) (drop n rest))"

text \<open>\<open>writeMessage\<close>: the header, the empty line and the JSON text.\<close>

definition mock_write_message :: "jval \<Rightarrow> string" where
  "mock_write_message payload =
     (let body = json_print payload in ''Content-Length: '' @ dec_nat (length body) @ crlf @ crlf @ body)"

lemma mock_header_same:
  "mock_read_header len s = Inr x \<longleftrightarrow> read_content_length len s = Inr x"
proof (induction len s rule: mock_read_header.induct)
  case (1 len s)
  have p: "mock_parse_content_length line = parse_content_length_line line" for line
    by (simp add: mock_parse_content_length_def parse_content_length_line_def content_length_prefix_def)
  obtain l r where lr: "split_first newline s = (l, r)" by (cases "split_first newline s")
  show ?case
  proof (cases r)
    case None
    then show ?thesis using lr by (simp add: mock_read_header.simps [of len s] read_content_length.simps [of len s])
  next
    case (Some rest)
    show ?thesis
    proof (cases "trim_right is_eol l = []")
      case True
      then show ?thesis using lr Some
        by (simp add: mock_read_header.simps [of len s] read_content_length.simps [of len s] split: option.split)
    next
      case False
      with 1 [OF lr [symmetric] Some refl False] lr Some show ?thesis
        by (simp add: mock_read_header.simps [of len s] read_content_length.simps [of len s] p)
    qed
  qed
qed

text \<open>
  the copy of the framing is faithful.  On every input the mock takes the same message as the client would,
  or fails, or panics on an announced length, exactly where the client does.
\<close>

theorem mock_framing:
  "(case read_message alloc s of
      Frame b rest \<Rightarrow> mock_read_message alloc s = Frame b rest
    | AllocPanic \<Rightarrow> mock_read_message alloc s = AllocPanic
    | FrameError _ \<Rightarrow> \<exists>e. mock_read_message alloc s = FrameError e)
   \<and> mock_write_message v = write_message (json_print v)"
proof (rule conjI)
  show "mock_write_message v = write_message (json_print v)"
    by (simp only: mock_write_message_def write_message_def Let_def)
  show "case read_message alloc s of
      Frame b rest \<Rightarrow> mock_read_message alloc s = Frame b rest
    | AllocPanic \<Rightarrow> mock_read_message alloc s = AllocPanic
    | FrameError _ \<Rightarrow> \<exists>e. mock_read_message alloc s = FrameError e"
  proof (cases "read_content_length None s")
    case (Inl e)
    then obtain e' where "mock_read_header None s = Inl e'"
      using mock_header_same [of None s] by (cases "mock_read_header None s") auto
    then show ?thesis using Inl by (simp add: read_message_def mock_read_message_def)
  next
    case (Inr x)
    then have "mock_read_header None s = Inr x" using mock_header_same by blast
    then show ?thesis using Inr by (cases x) (simp add: read_message_def mock_read_message_def)
  qed
qed

lemma mock_message_frame: "mock_read_message alloc s = Frame b rest \<longleftrightarrow> read_message alloc s = Frame b rest"
proof -
  note m = mock_framing [THEN conjunct1, of alloc s]
  show ?thesis
  proof (cases "read_message alloc s")
    case (FrameError e)
    with m have "\<exists>e. mock_read_message alloc s = FrameError e" by simp
    then show ?thesis using FrameError by auto
  qed (use m in auto)
qed

section \<open>Dispatch\<close>

definition mock_file_uri :: "string \<Rightarrow> string \<Rightarrow> string" where
  "mock_file_uri wroot name = ''file://'' @ fp_join (if wroot = [] then ''/tmp'' else wroot) name"

definition mock_point :: "int \<Rightarrow> int \<Rightarrow> jval" where
  "mock_point l c = JObj [(''character'', JNum (of_int c)), (''line'', JNum (of_int l))]"

definition mock_range :: "int \<Rightarrow> int \<Rightarrow> int \<Rightarrow> int \<Rightarrow> jval" where
  "mock_range sl sc el ec = JObj [(''end'', mock_point el ec), (''start'', mock_point sl sc)]"

definition mock_location :: "string \<Rightarrow> string \<Rightarrow> int \<Rightarrow> int \<Rightarrow> int \<Rightarrow> int \<Rightarrow> jval" where
  "mock_location wroot name sl sc el ec =
     JObj [(''range'', mock_range sl sc el ec), (''uri'', JStr (mock_file_uri wroot name))]"

definition reply_result :: "int option \<Rightarrow> jval \<Rightarrow> jval list" where
  "reply_result i r =
     (case i of None \<Rightarrow> []
      | Some n \<Rightarrow> [JObj [(''id'', JNum (of_int n)), (''jsonrpc'', JStr ''2.0''), (''result'', r)]])"

definition reply_error :: "int option \<Rightarrow> string \<Rightarrow> jval list" where
  "reply_error i msg =
     (case i of None \<Rightarrow> []
      | Some n \<Rightarrow> [JObj [(''error'', JObj [(''code'', JNum (- 32000)), (''message'', JStr msg)]),
                       (''id'', JNum (of_int n)), (''jsonrpc'', JStr ''2.0'')]])"

definition mock_definition :: "string \<Rightarrow> string \<Rightarrow> int option \<Rightarrow> jval list" where
  "mock_definition mode wroot i =
     (if mode = ''error'' then reply_error i ''mock: definition failed''
      else if mode = ''empty'' then reply_result i (JArr [])
      else reply_result i (JArr [mock_location wroot ''a.go'' 41 2 41 10]))"

definition mock_references :: "string \<Rightarrow> string \<Rightarrow> int option \<Rightarrow> jval list" where
  "mock_references mode wroot i =
     (if mode = ''error'' then reply_error i ''mock: references failed''
      else reply_result i (JArr [mock_location wroot ''a.go'' 5 0 5 5, mock_location wroot ''b.go'' 10 0 10 5]))"

definition mock_rename :: "string \<Rightarrow> string \<Rightarrow> int option \<Rightarrow> jval list" where
  "mock_rename mode wroot i =
     (if mode = ''error'' then reply_error i ''mock: rename failed''
      else if mode = ''empty'' then reply_result i (JObj [(''changes'', JObj [])])
      else reply_result i (JObj [(''changes'', JObj [(mock_file_uri wroot ''a.go'',
        JArr [JObj [(''newText'', JStr ''VerifyToken''), (''range'', mock_range 9 4 9 12)]])])]))"

definition mock_dispatch :: "string \<Rightarrow> string \<Rightarrow> string \<Rightarrow> int option \<Rightarrow> jval list" where
  "mock_dispatch mode wroot meth i =
     (if meth = ''initialize'' then reply_result i (JObj [(''capabilities'', JObj [])])
      else if meth = ''shutdown'' then reply_result i JNull
      else if meth = ''textDocument/definition'' then mock_definition mode wroot i
      else if meth = ''textDocument/references'' then mock_references mode wroot i
      else if meth = ''textDocument/rename'' then mock_rename mode wroot i
      else [])"

text \<open>The fields of a message the loop looks at; \<open>params\<close> may be anything.\<close>

definition mock_decode :: "string \<Rightarrow> (int option \<times> string) option" where
  "mock_decode body =
     (case json_parse body of
        Some (JObj kvs) \<Rightarrow>
          (case (id_field None kvs, string_field ''method'' [] kvs) of
             (Some i, Some meth) \<Rightarrow> Some (i, meth)
           | _ \<Rightarrow> None)
      | Some JNull \<Rightarrow> Some (None, [])
      | _ \<Rightarrow> None)"

definition mock_mode :: "string \<Rightarrow> string" where
  "mock_mode setting = (if setting = [] then ''definition'' else setting)"

text \<open>\<open>main\<close>: all that the server writes on an input.\<close>

lemma mock_message_shorter: "mock_read_message alloc s = Frame b rest \<Longrightarrow> length rest < length s"
  by (simp add: mock_message_frame read_message_shorter)

function mock_serve :: "(nat \<Rightarrow> bool) \<Rightarrow> string \<Rightarrow> string \<Rightarrow> string \<Rightarrow> string" where
  "mock_serve alloc mode wroot s =
     (case mock_read_message alloc s of
        Frame b rest \<Rightarrow>
          (case mock_decode b of
             None \<Rightarrow> mock_serve alloc mode wroot rest
           | Some (i, meth) \<Rightarrow>
               concat (map mock_write_message (mock_dispatch mode wroot meth i))
               @ (if meth = ''exit'' then [] else mock_serve alloc mode wroot rest))
      | _ \<Rightarrow> [])"
  by pat_completeness auto
termination by (relation "measure (\<lambda>(_, _, _, s). length s)") (auto dest: mock_message_shorter)

declare mock_serve.simps [simp del]

definition mock_main :: "(nat \<Rightarrow> bool) \<Rightarrow> string \<Rightarrow> string \<Rightarrow> string \<Rightarrow> string" where
  "mock_main alloc mode_setting root_setting s = mock_serve alloc (mock_mode mode_setting) root_setting s"

section \<open>The client against the mock\<close>

text \<open>A request as the client writes it (\<open>jsonrpcRequest\<close> of \<open>types.go\<close>).\<close>

definition wire_request :: "nat \<Rightarrow> string \<Rightarrow> jval \<Rightarrow> jval" where
  "wire_request i meth params =
     JObj [(''jsonrpc'', JStr ''2.0''), (''id'', JNum (of_nat i)), (''method'', JStr meth), (''params'', params)]"

lemma rpc_lower_names:
  "to_lower ''jsonrpc'' = ''jsonrpc''" "to_lower ''id'' = ''id''" "to_lower ''method'' = ''method''" "to_lower ''params'' = ''params''"
  "to_lower ''result'' = ''result''" "to_lower ''error'' = ''error''" "to_lower ''uri'' = ''uri''" "to_lower ''range'' = ''range''"
  "to_lower ''start'' = ''start''" "to_lower ''end'' = ''end''" "to_lower ''line'' = ''line''" "to_lower ''character'' = ''character''"
  by code_simp+

lemma mock_decode_request:
  assumes "i < 2 ^ 63" "integral params"
  shows "mock_decode (json_print (wire_request i meth params)) = Some (Some (int i), meth)"
proof -
  have "integral (wire_request i meth params)" using assms(2) by (simp add: wire_request_def)
  then have parse: "json_parse (json_print (wire_request i meth params)) = Some (wire_request i meth params)"
    by (rule json_roundtrip)
  have "int i < 2 ^ 63" using assms(1) by simp
  then have "rat_of_nat i < 2 ^ 63" by (metis of_int_less_iff of_int_numeral of_int_of_nat_eq of_int_power)
  moreover have "- (2 ^ 63) \<le> rat_of_nat i" by (rule order_trans [of _ 0]) simp_all
  ultimately have "int_field ''id'' 0 [(''id'', JNum (rat_of_nat i))] = Some (int i)" by simp
  then have "id_field None [(''jsonrpc'', JStr ''2.0''), (''id'', JNum (rat_of_nat i)), (''method'', JStr meth), (''params'', params)] = Some (Some (int i))"
    by (simp add: rpc_lower_names)
  then show ?thesis unfolding mock_decode_def parse by (simp add: wire_request_def rpc_lower_names del: id_field.simps)
qed

lemma mock_serves_one:
  assumes "length (json_print (wire_request i meth params)) < 2 ^ 63" "alloc (length (json_print (wire_request i meth params)))"
    and "i < 2 ^ 63" "integral params" "meth \<noteq> ''exit''"
  shows "mock_serve alloc mode wroot (write_message (json_print (wire_request i meth params)))
    = concat (map mock_write_message (mock_dispatch mode wroot meth (Some (int i))))"
proof -
  have e: "mock_serve alloc mode wroot [] = []"
  proof -
    have "split_first newline ([] :: string) = ([], None)" by (rule split_first_none) simp
    then have "read_message alloc [] = FrameError ''lsp: read header: EOF''"
      by (simp add: read_message_def read_content_length.simps [of None "[]"])
    then have "mock_read_message alloc [] \<noteq> Frame b r" for b r by (simp add: mock_message_frame)
    then show ?thesis by (simp add: mock_serve.simps [of alloc mode wroot "[]"] split: wire_frame.split)
  qed
  let ?b = "json_print (wire_request i meth params)"
  have "mock_read_message alloc (write_message ?b) = Frame ?b []"
    using read_written [OF assms(1), of alloc "[]"] assms(2) by (simp add: mock_message_frame)
  then show ?thesis
    using e mock_decode_request [OF assms(3,4)] assms(5)
    by (subst mock_serve.simps) simp
qed

lemma reply_decodes:
  assumes "i < 2 ^ 63" "integral r"
  shows "decode_response (json_print (JObj [(''id'', JNum (rat_of_int (int i))), (''jsonrpc'', JStr ''2.0''), (''result'', r)]))
    = Some \<lparr>rs_id = Some (int i), rs_result = Some r, rs_error = None\<rparr>"
proof -
  let ?v = "JObj [(''id'', JNum (rat_of_int (int i))), (''jsonrpc'', JStr ''2.0''), (''result'', r)]"
  have "integral ?v" using assms(2) by simp
  then have parse: "json_parse (json_print ?v) = Some ?v" by (rule json_roundtrip)
  have "int i < 2 ^ 63" using assms(1) by simp
  then have "rat_of_nat i < 2 ^ 63" by (metis of_int_less_iff of_int_numeral of_int_of_nat_eq of_int_power)
  moreover have "- (2 ^ 63) \<le> rat_of_nat i" by (rule order_trans [of _ 0]) simp_all
  ultimately have "int_field ''id'' 0 [(''id'', JNum (rat_of_int (int i)))] = Some (int i)" by simp
  then have "id_field None [(''id'', JNum (rat_of_int (int i))), (''jsonrpc'', JStr ''2.0''), (''result'', r)] = Some (Some (int i))"
    by (simp add: rpc_lower_names)
  then show ?thesis unfolding decode_response_def parse by (simp add: rpc_lower_names del: id_field.simps)
qed

lemma mock_uri:
  assumes "list_all plain rs" "\<forall>c \<in> set (abs_path rs). path_keeps c" "host_ok []"
  shows "uri_to_rel host_ok (mock_file_uri (abs_path rs) ''a.go'') (abs_path rs) = ''a.go''"
proof -
  have p: "plain ''a.go''" "\<not> has_prefix ''a.go'' ''..''" by code_simp+
  have k: "list_all path_keeps ''a.go''" "path_keeps slash" by code_simp+
  let ?f = "abs_path (rs @ [''a.go''])"
  have j: "fp_join (abs_path rs) ''a.go'' = ?f" using assms(1) p(1) by simp
  have "set ?f \<subseteq> set (abs_path rs) \<union> {slash} \<union> set ''a.go''"
    by (cases "rs = []") (auto simp: abs_path_snoc abs_path_single)
  then have keeps: "\<forall>c \<in> set ?f. path_keeps c" using assms(2) k by (auto simp: list_all_iff)
  then have "concat (map escape_char ?f) = ?f"
  proof (induction ?f arbitrary: rs)
    case Nil
    then show ?case by simp
  next
    case (Cons c t)
    have "concat (map escape_char u) = u" if "\<forall>c \<in> set u. path_keeps c" for u
      using that by (induction u) (simp_all add: escape_char_def)
    with Cons.prems show ?case by blast
  qed
  then have "mock_file_uri (abs_path rs) ''a.go'' = path_to_uri ?f"
    using abs_path_ne by (simp add: mock_file_uri_def path_to_uri_def j)
  moreover have "uri_to_path host_ok (path_to_uri ?f) = ?f" by (rule uri_roundtrip, rule assms(3)) simp
  moreover have "fp_rel (abs_path rs) ?f = Some ''a.go''"
    using fp_rel_inside [of rs "[''a.go'']"] assms(1) p(1) by simp
  ultimately show ?thesis using p(2) by (simp add: uri_to_rel_def)
qed

lemma mock_location_decodes:
  "decode_location (mock_location wroot name 41 2 41 10)
    = Some (mock_file_uri wroot name, \<lparr>rg_start = \<lparr>ps_line = 41, ps_character = 2\<rparr>, rg_end = \<lparr>ps_line = 41, ps_character = 10\<rparr>\<rparr>)"
proof -
  have "int_field ''line'' v [(''character'', JNum c), (''line'', JNum 41)] = Some 41" for v c
    by (simp add: rpc_lower_names)
  moreover have "int_field ''character'' v [(''character'', JNum 2), (''line'', JNum l)] = Some 2"
    "int_field ''character'' v [(''character'', JNum 10), (''line'', JNum l)] = Some 10" for v l
    by (simp_all add: rpc_lower_names)
  ultimately show ?thesis
    by (simp add: mock_location_def mock_range_def mock_point_def rpc_lower_names zero_range_def del: int_field.simps)
qed

text \<open>
  the client and the test server understand each other.  A started client that asks the mock for a
  definition, through the frames of both sides, gets the location the mock means, one-based and relative
  to the root.
\<close>

theorem client_meets_mock:
  assumes "cl_root c = abs_path rs" "list_all plain rs" "\<forall>x \<in> set (abs_path rs). path_keeps x" "le_host_ok env []"
    and "cl_started c = Some None" "\<not> cl_closed c" "le_write env ''textDocument/definition'' = None"
    and "cl_box c (Suc (cl_next c)) = None" "Suc (cl_next c) < 2 ^ 63"
    and "req = json_print (wire_request (Suc (cl_next c)) ''textDocument/definition'' (JObj (position_params (cl_root c) file line col)))"
    and "reply = json_print (hd (mock_dispatch (mock_mode mode) (abs_path rs) ''textDocument/definition'' (Some (int (Suc (cl_next c))))))"
    and "\<forall>m \<in> {req, reply}. length m < 2 ^ 63 \<and> alloc (length m)" "mode \<noteq> ''error''" "mode \<noteq> ''empty''"
    and "le_events env (Suc (cl_next c)) = map Got (fst (read_frames alloc (mock_main alloc mode (abs_path rs) (write_message req))))"
  shows "\<exists>c'. lsp_definition env file line col c =
    Some (Inr [\<lparr>loc_uri = ''a.go'', loc_line = 42, loc_col = 3, loc_end_line = 42, loc_end_col = 11\<rparr>], c')"
proof -
  let ?i = "Suc (cl_next c)"
  let ?loc = "mock_location (abs_path rs) ''a.go'' 41 2 41 10"
  let ?v = "JObj [(''id'', JNum (rat_of_int (int ?i))), (''jsonrpc'', JStr ''2.0''), (''result'', JArr [?loc])]"
  have mode: "mock_mode mode \<noteq> ''error''" "mock_mode mode \<noteq> ''empty''" using assms(13,14) by (auto simp: mock_mode_def)
  then have d: "mock_dispatch (mock_mode mode) (abs_path rs) ''textDocument/definition'' (Some (int ?i)) = [?v]"
    by (simp add: mock_dispatch_def mock_definition_def reply_result_def)
  then have reply: "reply = json_print ?v" using assms(11) by simp
  have ip: "integral (JObj (position_params (cl_root c) file line col))" by (simp add: position_params_def)
  have "mock_main alloc mode (abs_path rs) (write_message req) = write_message reply"
    using mock_serves_one [OF _ _ assms(9) ip, of "''textDocument/definition''" alloc "mock_mode mode" "abs_path rs"] assms(10,12) d
    by (simp add: mock_main_def reply mock_framing [THEN conjunct2])
  moreover have "fst (read_frames alloc (write_message reply)) = [reply]"
  proof -
    have "read_message alloc (write_message reply) = Frame reply []"
      using read_written [of reply alloc "[]"] assms(12) by simp
    moreover have "fst (read_frames alloc []) = []"
    proof -
      have "split_first newline ([] :: string) = ([], None)" by (rule split_first_none) simp
      then have "read_message alloc [] = FrameError ''lsp: read header: EOF''"
        by (simp add: read_message_def read_content_length.simps [of None "[]"])
      then show ?thesis by (simp add: read_frames.simps [of alloc "[]"])
    qed
    ultimately show ?thesis by (subst read_frames.simps) (auto split: prod.split)
  qed
  ultimately have ev: "le_events env ?i = map Got [] @ Got reply # []" using assms(15) by simp
  have il: "integral (JArr [?loc])" by (simp add: mock_location_def mock_range_def mock_point_def)
  note r = reply_decodes [OF assms(9) il, folded reply]
  obtain c' where "lsp_definition env file line col c
      = Some (decode_locations (le_host_ok env) (cl_root c) (Some (JArr [?loc])), c')"
    using definition_returns_answer [OF assms(5,6,7,8) ev _ r] by (simp, blast)
  moreover have "decode_locations (le_host_ok env) (cl_root c) (Some (JArr [?loc]))
      = Inr [\<lparr>loc_uri = ''a.go'', loc_line = 42, loc_col = 3, loc_end_line = 42, loc_end_col = 11\<rparr>]"
    using mock_uri [of rs "le_host_ok env"] assms(1-4) by (simp add: decode_locations_def mock_location_decodes to_location_def)
  ultimately show ?thesis by auto
qed

end
