(* ===== verification/MainRun.thy ===== *)
theory MainRun
  imports Wiring IndexWatch LspRegistry Secrets Shells TestTools
begin

text \<open>
  From the command line to the running process: the flags of \<open>cmd/sandbox/main.go\<close>, the start of \<open>Run\<close>
  and the loops it leaves running (\<open>cmd/sandbox/run.go\<close>), and the state of a new MCP server
  (\<open>NewWithConfig\<close> of \<open>internal/server/server.go\<close>).  Parsing a flag is the library's: the settings given,
  and the numbers they denote, are arguments, as are the outcome of making the trace exporter and the
  HTTP API.
\<close>

section \<open>Flags\<close>

text \<open>The settings by name; a flag not given has the default \<open>main\<close> registers, durations in nanoseconds.\<close>

record flag_values =
  fv_text :: "string \<Rightarrow> string option"
  fv_switch :: "string \<Rightarrow> bool option"
  fv_number :: "string \<Rightarrow> int option"

definition or_default :: "'a \<Rightarrow> 'a option \<Rightarrow> 'a" where
  "or_default d x = (case x of None \<Rightarrow> d | Some y \<Rightarrow> y)"

definition main_config :: "string \<Rightarrow> flag_values \<Rightarrow> run_config" where
  "main_config otel_endpoint v = \<lparr>
     rc_addr = or_default '':8080'' (fv_text v ''addr''),
     rc_api_addr = or_default [] (fv_text v ''api-addr''),
     rc_metrics_addr = or_default [] (fv_text v ''metrics-addr''),
     rc_workspace_root = or_default ''/workspace'' (fv_text v ''workspace''),
     rc_workspaces_spec = or_default [] (fv_text v ''workspaces''),
     rc_dev_mode = or_default False (fv_switch v ''dev-mode''),
     rc_enable_api = or_default False (fv_switch v ''enable-api''),
     rc_enable_exec = or_default False (fv_switch v ''enable-exec''),
     rc_enable_port_forward = or_default False (fv_switch v ''enable-port-forward''),
     rc_enable_ssh = or_default False (fv_switch v ''enable-ssh''),
     rc_secrets_dir = or_default [] (fv_text v ''secrets-dir''),
     rc_otlp_endpoint = or_default otel_endpoint (fv_text v ''otlp-endpoint''),
     rc_repetition_window = or_default (10 * 60 * 1000000000) (fv_number v ''metrics-tool-repetition-window''),
     rc_repetition_threshold = or_default 3 (fv_number v ''metrics-tool-repetition-threshold''),
     rc_error_rate_window = or_default 100 (fv_number v ''metrics-error-rate-window''),
     rc_read_only = or_default False (fv_switch v ''readonly'')\<rparr>"

definition no_flags :: flag_values where
  "no_flags = \<lparr>fv_text = (\<lambda>_. None), fv_switch = (\<lambda>_. None), fv_number = (\<lambda>_. None)\<rparr>"

section \<open>A new server\<close>

record server_state =
  sv_workspace :: workspace
  sv_workspaces :: "ws_set option"
  sv_tracker :: tracker
  sv_shells :: shell_registry
  sv_results :: "test_result option"
  sv_coverage :: cov_index
  sv_lsp :: lsp_registry
  sv_secrets :: secret_store
  sv_metrics :: "metrics option"
  sv_health :: "health option"
  sv_tools :: "string list"

definition new_with_config ::
  "string list \<Rightarrow> workspace \<Rightarrow> metrics option \<Rightarrow> string \<Rightarrow> health option \<Rightarrow> bool \<Rightarrow> ws_set option \<Rightarrow> server_state" where
  "new_with_config environ w m secrets_dir h read_only wss = \<lparr>
     sv_workspace = w, sv_workspaces = wss, sv_tracker = new_read_tracker, sv_shells = new_shell_registry,
     sv_results = None, sv_coverage = new_coverage_index, sv_lsp = new_registry 0,
     sv_secrets = new_secret_store secrets_dir environ, sv_metrics = m, sv_health = h,
     sv_tools = register_tools_for_mode read_only\<rparr>"

section \<open>Run\<close>

text \<open>\<open>tracing.New\<close>: without an endpoint there is no tracer and no error.\<close>

definition tracing_new :: "(string \<Rightarrow> string option) \<Rightarrow> string \<Rightarrow> string + bool" where
  "tracing_new exporter endpoint =
     (if endpoint = [] then Inr False
      else case exporter endpoint of Some e \<Rightarrow> Inl (''otlp exporter: '' @ e) | None \<Rightarrow> Inr True)"

record running =
  rn_default :: workspace
  rn_set :: ws_set
  rn_server :: server_state
  rn_traced :: bool
  rn_listeners :: "(string \<times> served) list"
  rn_gauge_loop :: bool
  rn_health_loop :: bool

text \<open>\<open>buildMCPServer\<close> and \<open>buildAPIServer\<close>: the first cannot fail, the second with the error of \<open>api.New\<close>.\<close>

definition build_api_server :: "string option \<Rightarrow> run_config \<Rightarrow> string option" where
  "build_api_server api_err c = (if api_enabled c then map_option ((@) ''api: '') api_err else None)"

definition run_start ::
  "string list \<Rightarrow> (string \<Rightarrow> string option) \<Rightarrow> string option \<Rightarrow> fs \<Rightarrow> run_config \<Rightarrow> string + running" where
  "run_start environ exporter api_err f c =
     (case build_workspace_set f c of
        Inl e \<Rightarrow> Inl (''workspace: '' @ e)
      | Inr s \<Rightarrow>
          let w = set_all (Some s) ! 0;
              m = maybe_build_metrics c;
              h = maybe_build_health c m
          in case tracing_new exporter (rc_otlp_endpoint c) of
               Inl e \<Rightarrow> Inl (''tracing: '' @ e)
             | Inr traced \<Rightarrow>
                 (case build_api_server api_err c of
                    Some e \<Rightarrow> Inl e
                  | None \<Rightarrow> Inr \<lparr>rn_default = w, rn_set = s,
                      rn_server = new_with_config environ w m (rc_secrets_dir c) h (rc_read_only c) (Some s),
                      rn_traced = traced, rn_listeners = build_listeners c,
                      rn_gauge_loop = m \<noteq> None, rn_health_loop = h \<noteq> None\<rparr>))"

text \<open>\<open>serve\<close>: the one value of the channel of a listener; a listener that was shut down ends without error.\<close>

definition serve_value :: "string \<Rightarrow> bool \<Rightarrow> serve_chan" where
  "serve_value err server_closed = Yields (if server_closed then None else Some err)"

definition serve_all :: "(string \<times> bool) option list \<Rightarrow> serve_chan list" where
  "serve_all ends = map (\<lambda>x. case x of None \<Rightarrow> NoChan | Some (e, closed_by_us) \<Rightarrow> serve_value e closed_by_us) ends"

text \<open>
  \<open>workspaceGaugeLoop\<close> and \<open>healthGaugeLoop\<close>: both set their gauges once and then at every tick; a tick
  brings what is measured at that moment, or the time.
\<close>

definition workspace_gauge_loop :: "((nat \<times> nat) \<times> nat) list \<Rightarrow> metrics option \<Rightarrow> metrics option" where
  "workspace_gauge_loop ticks m = fold (\<lambda>(sz, shells). refresh_gauges sz shells) ticks m"

definition health_gauge_loop :: "int list \<Rightarrow> health \<Rightarrow> health" where
  "health_gauge_loop ticks h = fold update_time_since_last_green ticks h"

section \<open>What a start guarantees\<close>

lemma singleton_ok:
  assumes "fs_wf f" "workspace_new f dir = Inr w"
  shows "(\<forall>w' \<in> set (ordered (new_singleton_set w)). ws_ok f w') \<and> ordered (new_singleton_set w) \<noteq> []"
  using workspace_new_ws_ok [OF assms] by (simp add: new_singleton_set_def Let_def)

lemma built_set_ok:
  assumes "fs_wf f" "build_workspace_set f c = Inr s"
  shows "(\<forall>w \<in> set (ordered s). ws_ok f w) \<and> ordered s \<noteq> []"
proof (cases "rc_workspaces_spec c = []")
  case True
  then obtain w where w: "workspace_new f (rc_workspace_root c) = Inr w" "s = new_singleton_set w"
    using assms(2) by (auto simp: build_workspace_set_def split: sum.splits)
  from singleton_ok [OF assms(1) w(1)] show ?thesis by (simp add: w(2))
next
  case False
  then obtain es where "new_set f es = Inr s"
    using assms(2) by (auto simp: build_workspace_set_def split: sum.splits if_splits)
  from new_set_correct [OF assms(1) this] show ?thesis by auto
qed

text \<open>
  a process that starts has its workspaces and nothing else.  Every workspace of the set exists, is
  reached through no link and has a name of its own; the default is the first of them, so taking it never
  panics; no file counts as read, no shell and no language server runs; and the tools offered are those of
  the mode.
\<close>

theorem run_starts_fresh:
  assumes "fs_wf f" "run_start environ exporter api_err f c = Inr r"
  shows "(\<forall>w \<in> set (ordered (rn_set r)). ws_ok f w) \<and> ordered (rn_set r) \<noteq> [] \<and> rn_default r = hd (ordered (rn_set r))
    \<and> (\<forall>p. \<not> has_been_read (sv_tracker (rn_server r)) p)
    \<and> registry_len (sv_shells (rn_server r)) = 0 \<and> lr_clients (sv_lsp (rn_server r)) = []
    \<and> (\<exists>ts. (rc_addr c, McpTools ts) \<in> set (rn_listeners r) \<and> ts = sv_tools (rn_server r)
         \<and> (rc_read_only c \<longrightarrow> set ts \<inter> set mutating_tools = {}))
    \<and> (rn_health_loop r \<longrightarrow> rn_gauge_loop r) \<and> (rn_gauge_loop r \<longleftrightarrow> rc_metrics_addr c \<noteq> [])"
proof -
  obtain s where s: "build_workspace_set f c = Inr s"
    using assms(2) by (auto simp: run_start_def split: sum.splits)
  have r: "rn_set r = s" "rn_default r = ordered s ! 0" "rn_listeners r = build_listeners c"
    "rn_server r = new_with_config environ (ordered s ! 0) (maybe_build_metrics c) (rc_secrets_dir c)
       (maybe_build_health c (maybe_build_metrics c)) (rc_read_only c) (Some s)"
    "rn_gauge_loop r \<longleftrightarrow> maybe_build_metrics c \<noteq> None"
    "rn_health_loop r \<longleftrightarrow> maybe_build_health c (maybe_build_metrics c) \<noteq> None"
    using assms(2) s by (auto simp: run_start_def Let_def split: sum.splits option.splits)
  have w: "(\<forall>w \<in> set (ordered s). ws_ok f w) \<and> ordered s \<noteq> []" by (rule built_set_ok [OF assms(1) s])
  have ro: "rc_read_only c \<Longrightarrow> set (register_tools_for_mode (rc_read_only c)) \<inter> set mutating_tools = {}"
    using read_only_surface by auto
  show ?thesis
    using w ro by (auto simp: r new_with_config_def hd_conv_nth has_been_read_def new_read_tracker_def registry_len_def
        new_shell_registry_def new_registry_def build_listeners_def maybe_build_metrics_def maybe_build_health_def)
qed

text \<open>
  without a flag and without an endpoint in the environment, the process offers the whole set of MCP
  tools on port 8080 and nothing else: no HTTP API, no probes, no tracing, no secret from a directory.
\<close>

theorem default_listeners:
  "build_listeners (main_config [] no_flags) = [('':8080'', McpTools (register_tools_for_mode False))]
   \<and> tracing_new exporter (rc_otlp_endpoint (main_config [] no_flags)) = Inr False
   \<and> rc_secrets_dir (main_config [] no_flags) = [] \<and> rc_workspace_root (main_config [] no_flags) = ''/workspace''"
  by (simp add: build_listeners_def main_config_def no_flags_def or_default_def api_enabled_def maybe_build_metrics_def
      tracing_new_def)

text \<open>
  a signal always ends the process: each listener has its value waiting, whatever it is, so draining the
  channels returns; and the process ends without an error if no listener failed and no closer did.
\<close>

lemma serve_all_full: "Drained \<notin> set (serve_all ends)"
  by (auto simp: serve_all_def serve_value_def split: option.splits)

theorem signal_ends_process:
  "\<exists>acts err. run_end SignalReady servers closer tracer (serve_all ends) = Some (acts, err)"
proof -
  have "drain (serve_all ends) \<noteq> None" using drain_some serve_all_full by blast
  then show ?thesis by (auto simp: run_end_def wait_for_shutdown_def shutdown_all_parts_def Let_def)
qed

text \<open>the workspace gauges are those of the latest tick.\<close>

theorem gauge_loop_last:
  assumes "ticks \<noteq> []"
  shows "workspace_gauge_loop ticks m = refresh_gauges (fst (last ticks)) (snd (last ticks)) (workspace_gauge_loop (butlast ticks) m)"
proof -
  have "ticks = butlast ticks @ [last ticks]" using assms by simp
  then have "workspace_gauge_loop ticks m = workspace_gauge_loop (butlast ticks @ [last ticks]) m" by simp
  then show ?thesis by (simp add: workspace_gauge_loop_def case_prod_beta)
qed

end
