(* ===== verification/WatchDrain.thy ===== *)
theory WatchDrain
  imports Watch ReadTool
begin

text \<open>
  What the goroutines of a watched process do with its streams: \<open>drainWatchStderr\<close>, \<open>drainWatchStdout\<close>,
  \<open>watchLifecycle\<close> and \<open>watchIdleWatchdog\<close> (\<open>internal/tools/watch_process.go\<close>) and \<open>drainPipe\<close> of
  \<open>internal/tools/bash.go\<close>, each as the sequence of calls it makes on the shell.  A run of the process is
  an interleaving of these sequences.  What is read, and the clock, are arguments.
\<close>

section \<open>The loops\<close>

text \<open>\<open>drainWatchStderr\<close>: one call for each token that \<open>bufio.Scanner\<close> delivers; \<open>clock i\<close> is the time of the i-th.\<close>

definition drain_watch_stderr :: "(nat \<Rightarrow> int) \<Rightarrow> string \<Rightarrow> shell_op list" where
  "drain_watch_stderr clock data = map (\<lambda>(i, l). OpLine (clock i) l) (enumerate 0 (fst (scan_lines data)))"

text \<open>What the reads return, with their times; a read that returns no byte makes no call.\<close>

fun drain_watch_stdout :: "(int \<times> string) list \<Rightarrow> shell_op list" where
  "drain_watch_stdout [] = []"
| "drain_watch_stdout ((now, b) # rs) = (if b = [] then [] else [OpStdout now b]) @ drain_watch_stdout rs"

fun drain_pipe :: "(string \<Rightarrow> shell_op) \<Rightarrow> string list \<Rightarrow> shell_op list" where
  "drain_pipe f [] = []"
| "drain_pipe f (b # rs) = (if b = [] then [] else [f b]) @ drain_pipe f rs"

definition watch_lifecycle :: "int \<Rightarrow> run_err \<Rightarrow> shell_op list" where
  "watch_lifecycle now e = [OpExited now (wait_exit_code e), OpSetExit (wait_exit_code e)]"

text \<open>
  \<open>watchIdleWatchdog\<close>: its ticks with what the other goroutines did before each.  The result is the process
  group it kills, if it comes to that, and the shell at that moment.
\<close>

fun watchdog_loop :: "(int \<Rightarrow> string) \<Rightarrow> (int \<Rightarrow> string) \<Rightarrow> (int \<times> shell_op list) list \<Rightarrow> bshell \<Rightarrow> int option \<times> bshell" where
  "watchdog_loop sr sd [] sh = (None, sh)"
| "watchdog_loop sr sd ((now, ops) # ts) sh =
     (case watchdog_tick sr sd now (fold shell_step ops sh) of
        (WatchAgain, s) \<Rightarrow> watchdog_loop sr sd ts s
      | (WatchDone, s) \<Rightarrow> (None, s)
      | (WatchKill g, s) \<Rightarrow> (Some g, s))"

definition watch_idle_watchdog ::
  "(int \<Rightarrow> string) \<Rightarrow> (int \<Rightarrow> string) \<Rightarrow> (int \<times> shell_op list) list \<Rightarrow> bshell \<Rightarrow> int option \<times> bshell" where
  "watch_idle_watchdog sr sd ticks sh =
     (if shell_idle_timeout sh \<le> 0 then (None, sh) else watchdog_loop sr sd ticks sh)"

section \<open>The events of a run\<close>

fun is_line :: "shell_op \<Rightarrow> bool" where
  "is_line (OpLine now l) = True"
| "is_line _ = False"

fun line_of :: "shell_op \<Rightarrow> string" where
  "line_of (OpLine now l) = l"
| "line_of _ = []"

definition is_error_event :: "watch_event \<Rightarrow> bool" where
  "is_error_event e \<longleftrightarrow> ev_type e = WError"

text \<open>The patterns of a shell never change.\<close>

lemma shell_step_patterns:
  assumes "sh_watch sh = Some w"
  shows "\<exists>v. sh_watch (shell_step a sh) = Some v \<and> patterns v = patterns w \<and> pattern_sources v = pattern_sources w"
  using assms by (cases a) (auto simp: shell_ops append_event_def Let_def split: option.splits)

lemma op_entries_errors:
  assumes "sh_watch sh = Some w"
  shows "map (\<lambda>e. (ev_line e, ev_pattern e)) (filter is_error_event (op_entries a sh))
    = (if is_line a then (case first_match (patterns w) (pattern_sources w) (line_of a) of None \<Rightarrow> [] | Some p \<Rightarrow> [(line_of a, p)]) else [])"
  using assms by (cases a) (auto simp: op_entries_def is_error_event_def split: option.splits)

definition matches :: "(string \<Rightarrow> bool) list \<Rightarrow> string list \<Rightarrow> string list \<Rightarrow> (string \<times> string) list" where
  "matches pats srcs ls = List.map_filter (\<lambda>l. map_option (Pair l) (first_match pats srcs l)) ls"

lemma full_log_errors:
  "sh_watch sh = Some w \<Longrightarrow>
   map (\<lambda>e. (ev_line e, ev_pattern e)) (filter is_error_event (shell_log.full_log ops sh))
     = matches (patterns w) (pattern_sources w) (map line_of (filter is_line ops))"
proof (induction ops arbitrary: sh w)
  case (Cons a ops)
  obtain v where v: "sh_watch (shell_step a sh) = Some v" "patterns v = patterns w" "pattern_sources v = pattern_sources w"
    using shell_step_patterns [OF Cons.prems] by blast
  from Cons.IH [OF v(1)] op_entries_errors [OF Cons.prems, of a] show ?case
    by (auto simp: v matches_def List.map_filter_simps split: option.splits)
qed (simp add: matches_def List.map_filter_simps)

lemma stderr_lines:
  "filter is_line (drain_watch_stderr clock data) = drain_watch_stderr clock data"
  "map line_of (drain_watch_stderr clock data) = fst (scan_lines data)"
proof -
  have "filter is_line (map (\<lambda>(i, l). OpLine (clock i) l) xs) = map (\<lambda>(i, l). OpLine (clock i) l) xs
      \<and> map line_of (map (\<lambda>(i, l). OpLine (clock i) l) xs) = map snd xs" for xs
    by (induction xs) auto
  then show "filter is_line (drain_watch_stderr clock data) = drain_watch_stderr clock data"
    "map line_of (drain_watch_stderr clock data) = fst (scan_lines data)"
    by (simp_all add: drain_watch_stderr_def del: map_map)
qed


text \<open>The other loops make no such call.\<close>

lemma no_lines:
  "filter is_line (drain_watch_stdout rs) = []" "filter is_line (watch_lifecycle now e) = []"
  by (induction rs rule: drain_watch_stdout.induct) (auto simp: watch_lifecycle_def)

lemma append_in_shuffles: "xs @ ys \<in> shuffles xs ys"
  by (induction xs) (auto intro: Cons_in_shuffles_leftI)


section \<open>Lines that are too long\<close>

text \<open>
  one long line ends the watch.  A line of a MiB or more is not skipped: the scanner stops there, so no
  later line is seen, none is matched, and nothing of it reaches the output.
\<close>

theorem long_line_ends_watch:
  assumes "scan_token_max \<le> length l" "newline \<notin> set l"
  shows "drain_watch_stderr clock (a @ newline # l @ newline # b) = drain_watch_stderr clock (a @ [newline])"
proof -
  have "raw_lines (a @ newline # l @ newline # b) = split_on newline a @ l #
      (if last (split_on newline b) = [] then butlast (split_on newline b) else split_on newline b)"
    using assms(2) by (simp add: raw_lines_def split_on_append_sep split_on_no_sep butlast_append)
  moreover have "raw_lines (a @ [newline]) = split_on newline a"
    by (simp add: raw_lines_def split_on_append_sep)
  ultimately show ?thesis
    using assms(1) by (simp add: drain_watch_stderr_def scan_lines_def Let_def takeWhile_tail)
qed

section \<open>Silence\<close>

text \<open>
  a silent process is killed.  If nothing happens to a running watched process, the first tick that comes
  its idle timeout or more after its last output kills its process group; a process that was started
  without an idle timeout is never killed.
\<close>

theorem silent_is_killed:
  assumes "sh_exit sh = None" "sh_watch sh = Some w" "0 < sh_pgid sh" "0 < idle_timeout w"
    "\<forall>(t, ops) \<in> set ticks. ops = []"
  shows "fst (watch_idle_watchdog sr sd ticks sh) =
    (if \<exists>(t, ops) \<in> set ticks. last_output_at w + idle_timeout w \<le> t then Some (sh_pgid sh) else None)"
proof -
  have "\<forall>(t, ops) \<in> set ticks. ops = [] \<Longrightarrow> fst (watchdog_loop sr sd ticks sh) =
    (if \<exists>(t, ops) \<in> set ticks. last_output_at w + idle_timeout w \<le> t then Some (sh_pgid sh) else None)"
    using assms(1-4)
    by (induction ticks)
       (auto simp: watchdog_tick_def shell_last_output_def shell_idle_timeout_def)
  with assms(2,4,5) show ?thesis by (simp add: watch_idle_watchdog_def shell_idle_timeout_def)
qed

text \<open>
  a call with \<open>error_patterns\<close> given as null is refused; the defaults are for an absent argument only.
\<close>

lemma null_patterns_refused:
  "map_of a ''error_patterns'' = Some JNull \<Longrightarrow> parse_watch_patterns cmpl a = Inl ''error_patterns must be an array of strings''"
  by (simp add: parse_watch_patterns_def)

end
