(* ===== verification/FileSessions.thy ===== *)
theory FileSessions
  imports EditTool AstEdit MainRun
begin

text \<open>
  The file tools together: a session is a sequence of calls of \<open>Read\<close>, \<open>Write\<close>, \<open>Edit\<close> and the three
  structured edits on one file system and one read tracker, in any order and with any arguments and
  failures.  The lemmas carry the guarantees of the single tools over to whole sessions, and the theorem
  states the contract of the read tracker for them.
\<close>

section \<open>Calls and sessions\<close>

datatype file_call =
    CallRead args
  | CallWrite write_faults nat nat args
  | CallEdit write_faults nat nat args
  | CallBody write_faults nat nat args
  | CallInsert write_faults nat nat args
  | CallSignature write_faults nat nat args

text \<open>What the tools find around them: executables, the processes of linters and formatters, and the parser.\<close>

record file_env =
  fe_on_path :: "string \<Rightarrow> bool"
  fe_run :: "fs \<Rightarrow> string list \<Rightarrow> string \<Rightarrow> int \<Rightarrow> proc"
  fe_parse :: go_parser

text \<open>The structured edits work on the default workspace and panic without one.\<close>

definition in_default :: "ws_deps \<Rightarrow> file_session \<Rightarrow> (workspace \<Rightarrow> tool_result option \<times> file_session) \<Rightarrow> tool_result option \<times> file_session" where
  "in_default d s h = (case dep_workspace d of None \<Rightarrow> (None, s) | Some w \<Rightarrow> h w)"

fun run_call :: "file_env \<Rightarrow> ws_deps \<Rightarrow> file_call \<Rightarrow> file_session \<Rightarrow> tool_result option \<times> file_session" where
  "run_call e d (CallRead a) s = map_prod Some id (handle_read d a s)"
| "run_call e d (CallWrite flts pid nano a) s = map_prod Some id (handle_write flts pid nano d a s)"
| "run_call e d (CallEdit flts pid nano a) s =
     map_prod Some id (handle_edit (fe_on_path e) (fe_run e) flts pid nano d a s)"
| "run_call e d (CallBody flts pid nano a) s =
     in_default d s (\<lambda>w. handle_edit_function_body (fe_parse e) flts pid nano w a s)"
| "run_call e d (CallInsert flts pid nano a) s =
     in_default d s (\<lambda>w. handle_insert_after_method (fe_parse e) flts pid nano w a s)"
| "run_call e d (CallSignature flts pid nano a) s =
     in_default d s (\<lambda>w. handle_change_function_signature (fe_parse e) flts pid nano w a s)"

fun call_args :: "file_call \<Rightarrow> args" where
  "call_args (CallRead a) = a"
| "call_args (CallWrite flts pid nano a) = a"
| "call_args (CallEdit flts pid nano a) = a"
| "call_args (CallBody flts pid nano a) = a"
| "call_args (CallInsert flts pid nano a) = a"
| "call_args (CallSignature flts pid nano a) = a"

definition workspaces_of :: "ws_deps \<Rightarrow> workspace set" where
  "workspaces_of d = set_option (dep_workspace d)
     \<union> (case dep_workspaces d of None \<Rightarrow> {} | Some s \<Rightarrow> set (ordered s) \<union> ran (by_name s))"

definition roots_of :: "ws_deps \<Rightarrow> phys set" where
  "roots_of d = root_of ` workspaces_of d"

text \<open>No lookup for the path of a call runs into the link limit of the kernel.\<close>

definition within_limits :: "ws_deps \<Rightarrow> file_call \<Rightarrow> file_session \<Rightarrow> bool" where
  "within_limits d c s \<longleftrightarrow> (\<forall>w \<in> workspaces_of d. lookups_ok (se_fs s) w (arg_str0 (call_args c) ''file_path''))"

text \<open>A session with its trace: the state before each call, the call and the answer.\<close>

type_synonym file_trace = "(file_session \<times> file_call \<times> tool_result option) list"

inductive file_run :: "file_env \<Rightarrow> ws_deps \<Rightarrow> file_session \<Rightarrow> file_trace \<Rightarrow> file_session \<Rightarrow> bool"
  for e d s where
  start: "file_run e d s [] s"
| call: "file_run e d s tr s1 \<Longrightarrow> within_limits d c s1 \<Longrightarrow> run_call e d c s1 = (res, s2)
    \<Longrightarrow> file_run e d s (tr @ [(s1, c, res)]) s2"

section \<open>Changes the tracker allows\<close>

text \<open>
  \<open>kept R T f g\<close>: from \<open>f\<close> to \<open>g\<close> directories stay, no link appears, nothing outside the roots \<open>R\<close> changes,
  and of what existed only regular files with a name in \<open>T\<close> got a new content.
\<close>

definition kept :: "phys set \<Rightarrow> tracker \<Rightarrow> fs \<Rightarrow> fs \<Rightarrow> bool" where
  "kept R T f g \<longleftrightarrow> fs_wf g
     \<and> (\<forall>x. f x = Some NDir \<longrightarrow> g x = Some NDir)
     \<and> (\<forall>x. is_link (g x) \<longrightarrow> g x = f x)
     \<and> (\<forall>x. f x \<noteq> None \<and> g x \<noteq> f x \<longrightarrow> list_all plain x \<and> abs_path x \<in> T
          \<and> (\<exists>old new. f x = Some (NFile old) \<and> g x = Some (NFile new)))
     \<and> (\<forall>x. g x \<noteq> f x \<longrightarrow> (\<exists>r \<in> R. prefix r x))"

lemma keptI:
  assumes "fs_wf g" "\<And>x. is_link (g x) \<Longrightarrow> g x = f x"
    and "\<And>x. f x \<noteq> None \<Longrightarrow> g x \<noteq> f x \<Longrightarrow> list_all plain x \<and> abs_path x \<in> T
          \<and> (\<exists>old new. f x = Some (NFile old) \<and> g x = Some (NFile new))"
    and "\<And>x. g x \<noteq> f x \<Longrightarrow> \<exists>r \<in> R. prefix r x"
  shows "kept R T f g"
proof -
  have "g x = Some NDir" if "f x = Some NDir" for x using assms(3) [of x] that by fastforce
  then show ?thesis using assms unfolding kept_def by blast
qed

lemma keptD:
  assumes "kept R T f g"
  shows "fs_wf g" "f x = Some NDir \<Longrightarrow> g x = Some NDir" "is_link (g x) \<Longrightarrow> g x = f x"
    "f x \<noteq> None \<Longrightarrow> g x \<noteq> f x \<Longrightarrow> list_all plain x \<and> abs_path x \<in> T \<and> (\<exists>old new. f x = Some (NFile old) \<and> g x = Some (NFile new))"
    "g x \<noteq> f x \<Longrightarrow> \<exists>r \<in> R. prefix r x"
  using assms unfolding kept_def by blast+

lemma kept_refl: "fs_wf f \<Longrightarrow> kept R T f f"
  by (rule keptI) simp_all

lemma kept_trans:
  assumes "kept R T f g" "kept R T' g h" "T \<subseteq> T'"
  shows "kept R T' f h"
proof (rule keptI)
  show "fs_wf h" by (rule keptD(1) [OF assms(2)])
next
  fix x assume "is_link (h x)"
  with keptD(3) [OF assms(2)] have "h x = g x" "is_link (g x)" by auto
  with keptD(3) [OF assms(1)] show "h x = f x" by simp
next
  fix x assume "h x \<noteq> f x"
  then have "h x \<noteq> g x \<or> g x \<noteq> f x" by auto
  then show "\<exists>r \<in> R. prefix r x" using keptD(5) [OF assms(1)] keptD(5) [OF assms(2)] by blast
next
  fix x assume x: "f x \<noteq> None" "h x \<noteq> f x"
  show "list_all plain x \<and> abs_path x \<in> T' \<and> (\<exists>old new. f x = Some (NFile old) \<and> h x = Some (NFile new))"
  proof (cases "g x = f x")
    case True
    with x keptD(4) [OF assms(2), of x] show ?thesis by simp
  next
    case False
    note g = keptD(4) [OF assms(1) x(1) False]
    moreover have "\<exists>new. h x = Some (NFile new)" using g keptD(4) [OF assms(2), of x] by fastforce
    ultimately show ?thesis using assms(3) by blast
  qed
qed

lemma kept_mono: "kept R T f g \<Longrightarrow> T \<subseteq> T' \<Longrightarrow> R \<subseteq> R' \<Longrightarrow> kept R' T' f g"
  unfolding kept_def by blast

lemma kept_physical: "kept R T f g \<Longrightarrow> physical f q \<Longrightarrow> physical g q"
  using keptD(3) [of R T f g] unfolding physical_def by metis

lemma kept_ws_ok: "kept R T f g \<Longrightarrow> ws_ok f w \<Longrightarrow> ws_ok g w"
  using kept_physical keptD(2) [of R T f g] unfolding ws_ok_def by metis

section \<open>Each call keeps the rest\<close>

text \<open>Replacing a file below a root.\<close>

lemma replaced_kept:
  assumes "fs_wf f" "physical f q" "prefix r q" "q \<noteq> r" "f r = Some NDir"
    and "\<And>nd. f q = Some nd \<Longrightarrow> nd = NDir \<or> abs_path q \<in> T"
    and "atomic_write flts pid nano f (abs_path q) data = (err, g)"
  shows "kept {r} T f g"
proof -
  have ne: "q \<noteq> []" using assms(3,4) by auto
  have below: "prefix r (tmp_of q pid nano)"
    using assms(3,4) ne by (auto simp: tmp_of_def prefix_def butlast_append)
  have pl: "list_all plain q" by (rule physical_plain [OF assms(2)])
  show ?thesis
    using assms(1,2) ne assms(7)
  proof (cases rule: atomic_write_shape)
    case untouched
    then show ?thesis using assms(1) by (simp add: kept_refl)
  next
    case (left_over x)
    have "fs_wf g" unfolding left_over(5) using assms(1) left_over(3,4) by (intro fs_wf_upd_file) auto
    then show ?thesis using left_over(4,5) below by (intro keptI) (auto split: if_splits)
  next
    case stored
    have old: "f q = None \<or> (\<exists>d. f q = Some (NFile d)) \<and> abs_path q \<in> T"
    proof (cases "f q")
      case (Some nd)
      then show ?thesis using stored(2) assms(6) physical_not_link [OF assms(2)] by (cases nd) auto
    qed simp
    have "fs_wf g" unfolding stored(3) replaced_def using assms(1) stored(1,2) ne by (intro fs_wf_upd_file) auto
    then show ?thesis using old pl assms(3) by (intro keptI) (auto simp: stored(3) replaced_def split: if_splits)
  qed
qed

text \<open>Creating the parents of an accepted path.\<close>

lemma parents_kept:
  assumes "fs_wf f1" "f1 = with_dirs f d" "\<forall>x. \<not> prefix r x \<or> f x \<noteq> None \<longrightarrow> f1 x = f x"
  shows "kept {r} T f f1"
proof (rule keptI [OF assms(1)])
  fix x assume "is_link (f1 x)"
  then show "f1 x = f x" by (auto simp: assms(2) with_dirs_def split: if_splits)
qed (use assms(3) in auto)

text \<open>
  What a call may mark as read: a file it has just shown, or one that did not exist before.
\<close>

definition window :: "nat \<Rightarrow> nat \<Rightarrow> string \<Rightarrow> string" where
  "window off lmt data = numbered_block off (take lmt (drop (off - 1) (fst (scan_lines data))))"

definition shows_file :: "ws_deps \<Rightarrow> file_session \<Rightarrow> file_call \<Rightarrow> tool_result option \<Rightarrow> phys \<Rightarrow> string \<Rightarrow> bool" where
  "shows_file d s c res x data \<longleftrightarrow> (\<exists>a w p off lmt. c = CallRead a \<and> resolve_workspace d a = Inr w
     \<and> parse_read_args a = Inr (p, off, lmt) \<and> resolve (se_fs s) w p = Inr (abs_path x)
     \<and> se_fs s x = Some (NFile data) \<and> res = Some (TextResult (window off lmt data)))"

definition marks_ok :: "ws_deps \<Rightarrow> file_session \<Rightarrow> file_call \<Rightarrow> tool_result option \<Rightarrow> file_session \<Rightarrow> bool" where
  "marks_ok d s c res s' \<longleftrightarrow> se_tracker s \<subseteq> se_tracker s'
     \<and> (\<forall>x. list_all plain x \<and> abs_path x \<in> se_tracker s' \<and> abs_path x \<notin> se_tracker s
          \<longrightarrow> se_fs s x = None \<or> (\<exists>data. shows_file d s c res x data))"

lemma marks_same: "se_tracker s' = se_tracker s \<Longrightarrow> marks_ok d s c res s'"
  by (simp add: marks_ok_def)

lemma accepted_path:
  assumes "fs_wf f" "ws_ok f w" "lookups_ok f w p" "resolve f w p = Inr r"
  obtains q where "r = abs_path q" "prefix (root_of w) q" "physical f q" "\<And>nd. k_stat f r = Inr nd \<longleftrightarrow> f q = Some nd"
proof -
  have "accepts w f p = Some r" "confined_request w f p" using assms by (auto simp: accepts_def confined_request_def)
  with assms(1) obtain q where "r = abs_path (root_of w @ q)" "physical f (root_of w @ q)"
    "\<And>nd. k_stat f r = Inr nd \<longleftrightarrow> f (root_of w @ q) = Some nd"
    using ws_paths.accepted_node by metis
  then show thesis by (intro that [of "root_of w @ q"]) auto
qed

lemma read_kept:
  assumes "fs_wf (se_fs s)" "\<And>w. resolve_workspace d a = Inr w \<Longrightarrow> ws_ok (se_fs s) w \<and> lookups_ok (se_fs s) w (arg_str0 a ''file_path'')"
    and "handle_read d a s = (res, s')"
  shows "se_fs s' = se_fs s \<and> marks_ok d s (CallRead a) (Some res) s'"
proof (cases res)
  case (ErrorResult e)
  with read_faithful [OF assms(3)] show ?thesis by (simp add: marks_same)
next
  case (TextResult body)
  with read_faithful [OF assms(3)] obtain w p off lmt r data where
    h: "se_fs s' = se_fs s" "resolve_workspace d a = Inr w" "parse_read_args a = Inr (p, off, lmt)" "resolve (se_fs s) w p = Inr r"
      "k_read_file (se_fs s) r = Inr data" "body = window off lmt data" "se_tracker s' = insert r (se_tracker s)"
    by (auto simp: window_def)
  have "p = arg_str0 a ''file_path''" using h(3) by (auto simp: parse_read_args_def Let_def split: if_splits)
  with assms(2) [OF h(2)] obtain q where q: "r = abs_path q" "physical (se_fs s) q" "\<And>nd. k_stat (se_fs s) r = Inr nd \<longleftrightarrow> se_fs s q = Some nd"
    using accepted_path [OF assms(1) _ _ h(4)] by metis
  have data: "se_fs s q = Some (NFile data)"
    using h(5) q(3) by (auto simp: k_read_file_def split: sum.splits node.splits)
  have "shows_file d s (CallRead a) (Some res) q data"
    unfolding shows_file_def using h(2-4,6) q(1) data TextResult by blast
  moreover have "x = q" if "list_all plain x" "abs_path x = r" for x
    using that q(1) abs_path_inj physical_plain [OF q(2)] by metis
  ultimately show ?thesis using h(1,7) unfolding marks_ok_def by blast
qed

lemma write_kept:
  assumes "fs_wf (se_fs s)" "handle_write flts pid nano d a s = (res, s')"
    and "\<And>w. resolve_workspace d a = Inr w \<Longrightarrow> ws_ok (se_fs s) w \<and> lookups_ok (se_fs s) w (arg_str0 a ''file_path'') \<and> root_of w \<in> R"
  shows "kept R (se_tracker s) (se_fs s) (se_fs s') \<and> marks_ok d s c ans s'"
  using assms(2)
proof (cases rule: handle_write_cases)
  case refused
  then show ?thesis using assms(1) by (simp add: kept_refl marks_same)
next
  case (stored w p content r f1 err)
  have p: "p = arg_str0 a ''file_path''" using stored(2) by (auto simp: parse_write_args_def Let_def split: if_splits option.splits)
  note ws = assms(3) [OF stored(1)]
  have acc: "accepts w (se_fs s) p = Some r" "confined_request w (se_fs s) p"
    using stored(3) ws p by (auto simp: accepts_def confined_request_def)
  have base: "se_fs s (root_of w) = Some NDir" using ws ws_okE by blast
  obtain q0 where q0: "r = abs_path q0" "physical (se_fs s) q0" "\<And>nd. k_stat (se_fs s) r = Inr nd \<longleftrightarrow> se_fs s q0 = Some nd"
    using accepted_path [OF assms(1) _ _ stored(3)] ws p by metis
  have chk: "nd \<noteq> NDir \<and> r \<in> se_tracker s" if "se_fs s q0 = Some nd" for nd
    using that q0(3) stored(4) by (auto simp: check_write_target_def has_been_read_def split: sum.splits node.splits if_splits)
  then have nodir: "\<forall>nd. k_stat (se_fs s) r = Inr nd \<longrightarrow> nd \<noteq> NDir" using q0(3) by blast
  have r_abs: "is_abs r" using q0(1) by simp
  obtain q where q: "r = abs_path (root_of w @ q)" "list_all plain (root_of w @ q)" "q \<noteq> []"
    "f1 = with_dirs (se_fs s) (root_of w @ butlast q)" "fs_wf f1" "physical f1 (root_of w @ q)"
    "f1 (root_of w @ q) = se_fs s (root_of w @ q)" "\<forall>x. \<not> prefix (root_of w) x \<or> se_fs s x \<noteq> None \<longrightarrow> f1 x = se_fs s x"
    using ws_paths.parents_confined [OF assms(1) acc(2,1) base nodir stored(5) path_elems_abs [OF r_abs]] by metis
  have qq: "q0 = root_of w @ q" using q(1,2) q0(1) physical_plain [OF q0(2)] abs_path_inj by metis
  have k1: "kept {root_of w} (se_tracker s) (se_fs s) f1" by (rule parents_kept [OF q(5,4,8)])
  have "kept {root_of w} (se_tracker s) f1 (se_fs s')"
    by (rule replaced_kept [OF q(5,6) _ _ _ _ stored(6) [unfolded q(1)]])
       (use q(3,7) chk qq q0(1) keptD(2) [OF k1 base] in auto)
  then have "kept R (se_tracker s) (se_fs s) (se_fs s')"
    using kept_mono [OF kept_trans [OF k1] subset_refl] ws by blast
  moreover have "marks_ok d s c ans s'"
  proof (cases err)
    case None
    have "se_fs s x = None" if "list_all plain x" "abs_path x \<in> insert r (se_tracker s)" "abs_path x \<notin> se_tracker s" for x
    proof -
      have "x = q0" using that q0(1) physical_plain [OF q0(2)] abs_path_inj by blast
      with that(3) chk q0(1) show ?thesis by (cases "se_fs s x") auto
    qed
    with None stored(7) show ?thesis by (auto simp: marks_ok_def)
  qed (use stored(7) in \<open>simp add: marks_same\<close>)
  ultimately show ?thesis ..
qed

text \<open>The edits replace a file that was marked.\<close>

lemma overwrite_kept:
  assumes "fs_wf f" "ws_ok f w" "lookups_ok f w p" "resolve f w p = Inr r" "r \<in> T" "k_read_file f r = Inr data"
    and "atomic_write flts pid nano f r updated = (err, g)" "root_of w \<in> R"
  shows "kept R T f g"
proof -
  obtain q where q: "r = abs_path q" "prefix (root_of w) q" "physical f q" "\<And>nd. k_stat f r = Inr nd \<longleftrightarrow> f q = Some nd"
    using accepted_path [OF assms(1-4)] by metis
  have "f q = Some (NFile data)" using assms(6) q(4) by (auto simp: k_read_file_def split: sum.splits node.splits)
  moreover have base: "f (root_of w) = Some NDir" using assms(2) ws_okE by blast
  ultimately have "q \<noteq> root_of w" by auto
  then have "kept {root_of w} T f g"
    using replaced_kept [OF assms(1) q(3,2) _ base _ assms(7) [unfolded q(1)]] assms(5) q(1) by blast
  then show ?thesis using kept_mono assms(8) by blast
qed

lemma edit_kept:
  assumes "fs_wf (se_fs s)" "handle_edit on_path run flts pid nano d a s = (res, s')"
    and "\<And>w. resolve_workspace d a = Inr w \<Longrightarrow> ws_ok (se_fs s) w \<and> lookups_ok (se_fs s) w (arg_str0 a ''file_path'') \<and> root_of w \<in> R"
  shows "kept R (se_tracker s) (se_fs s) (se_fs s') \<and> se_tracker s' = se_tracker s"
  using assms(2)
proof (cases rule: handle_edit_cases)
  case refused
  then show ?thesis using assms(1) by (simp add: kept_refl)
next
  case (edited w p r data updated count err)
  have "ea_path p = arg_str0 a ''file_path''"
    using edited(2) by (auto simp: parse_edit_args_def Let_def split: if_splits option.splits)
  with assms(3) [OF edited(1)] edited show ?thesis
    using overwrite_kept [OF assms(1) _ _ edited(3,4,5,7)] by auto
qed

lemma plan_kept:
  assumes "fs_wf (se_fs s)" "ws_ok (se_fs s) w" "lookups_ok (se_fs s) w p" "root_of w \<in> R"
    and "run_plan parse flts pid nano w p plan s = (res, s')"
  shows "kept R (se_tracker s) (se_fs s) (se_fs s') \<and> se_tracker s' = se_tracker s"
proof -
  obtain x s1 where x: "ast_load_target parse w s p = (x, s1)" by (cases "ast_load_target parse w s p")
  have st: "se_fs s1 = se_fs s" "se_tracker s1 = se_tracker s" using ast_load_target_state [OF x] by simp_all
  show ?thesis
  proof (cases "\<exists>r data ds updated rep. x = Inr (r, data, ds) \<and> plan data ds = Splice updated rep")
    case True
    then obtain r data ds updated rep where y: "x = Inr (r, data, ds)" "plan data ds = Splice updated rep" by blast
    obtain err f2 where aw: "atomic_write flts pid nano (se_fs s1) r updated = (err, f2)" by fastforce
    have "s' = s1\<lparr>se_fs := f2\<rparr>"
    proof (cases err)
      case None
      then show ?thesis using assms(5) by (simp add: run_plan_def x y aw)
    next
      case (Some er)
      then show ?thesis using assms(5) by (simp add: run_plan_def x y aw)
    qed
    then have "se_fs s' = f2" "se_tracker s' = se_tracker s1" by simp_all
    moreover have "s1 = s" and ok: "resolve (se_fs s) w p = Inr r" "r \<in> se_tracker s" "k_read_file (se_fs s) r = Inr data"
      using ast_load_target_ok [OF x [unfolded y(1)]] by auto
    ultimately show ?thesis
      using overwrite_kept [OF assms(1-3) ok aw [unfolded st(1)] assms(4)] by simp
  next
    case False
    then have "s' = s1" using assms(5) x by (auto simp: run_plan_def split: sum.splits ast_plan.splits)
    then show ?thesis using st assms(1) by (simp add: kept_refl)
  qed
qed

text \<open>The structured edits, by their plans.\<close>

lemma plan_paths:
  "parse_edit_body_args a = Inr (p, nm, body) \<Longrightarrow> p = arg_str0 a ''file_path''"
  "parse_insert_args a = Inr ia \<Longrightarrow> ia_path ia = arg_str0 a ''file_path''"
  "parse_change_sig_args a = Inr (p, nm, sig) \<Longrightarrow> p = arg_str0 a ''file_path''"
  by (auto simp: parse_edit_body_args_def parse_insert_args_def parse_change_sig_args_def Let_def split: if_splits)

lemma structured_kept:
  assumes "fs_wf (se_fs s)" "ws_ok (se_fs s) w" "lookups_ok (se_fs s) w (arg_str0 a ''file_path'')" "root_of w \<in> R"
    and "handle_edit_function_body parse flts pid nano w a s = (res, s')
      \<or> handle_insert_after_method parse flts pid nano w a s = (res, s')
      \<or> handle_change_function_signature parse flts pid nano w a s = (res, s')"
  shows "kept R (se_tracker s) (se_fs s) (se_fs s') \<and> se_tracker s' = se_tracker s"
proof -
  let ?p = "arg_str0 a ''file_path''"
  have "s' = s \<or> (\<exists>plan. run_plan parse flts pid nano w ?p plan s = (res, s'))"
    using assms(5)
  proof (elim disjE)
    assume h: "handle_edit_function_body parse flts pid nano w a s = (res, s')"
    show ?thesis
    proof (cases "parse_edit_body_args a")
      case (Inr x)
      then obtain nm body where "parse_edit_body_args a = Inr (?p, nm, body)" using plan_paths(1) by (cases x) auto
      with h have "run_plan parse flts pid nano w ?p (edit_body_plan parse ?p nm body) s = (res, s')"
        by (simp add: handle_edit_function_body_def)
      then show ?thesis by blast
    qed (use h in \<open>simp add: handle_edit_function_body_def\<close>)
  next
    assume h: "handle_insert_after_method parse flts pid nano w a s = (res, s')"
    show ?thesis
    proof (cases "parse_insert_args a")
      case (Inr x)
      with h have "run_plan parse flts pid nano w ?p (insert_plan parse x) s = (res, s')"
        using plan_paths(2) [OF Inr] by (simp add: handle_insert_after_method_def)
      then show ?thesis by blast
    qed (use h in \<open>simp add: handle_insert_after_method_def\<close>)
  next
    assume h: "handle_change_function_signature parse flts pid nano w a s = (res, s')"
    show ?thesis
    proof (cases "parse_change_sig_args a")
      case (Inr x)
      then obtain nm sig where "parse_change_sig_args a = Inr (?p, nm, sig)" using plan_paths(3) by (cases x) auto
      with h have "run_plan parse flts pid nano w ?p (change_sig_plan parse ?p nm sig) s = (res, s')"
        by (simp add: handle_change_function_signature_def)
      then show ?thesis by blast
    qed (use h in \<open>simp add: handle_change_function_signature_def\<close>)
  qed
  then show ?thesis using plan_kept [OF assms(1-4)] kept_refl [OF assms(1)] by blast
qed

lemma resolve_workspace_in: "resolve_workspace d a = Inr w \<Longrightarrow> w \<in> workspaces_of d"
  by (auto simp: resolve_workspace_def workspaces_of_def Let_def ran_def split: if_splits option.splits sum.splits list.splits)

lemma run_call_kept:
  assumes "fs_wf (se_fs s)" "\<forall>w \<in> workspaces_of d. ws_ok (se_fs s) w" "within_limits d c s" "run_call e d c s = (res, s')"
  shows "kept (roots_of d) (se_tracker s) (se_fs s) (se_fs s') \<and> marks_ok d s c res s'"
proof -
  have ws: "ws_ok (se_fs s) w \<and> lookups_ok (se_fs s) w (arg_str0 (call_args c) ''file_path'') \<and> root_of w \<in> roots_of d"
    if "w \<in> workspaces_of d" for w
    using assms(2,3) that by (auto simp: within_limits_def roots_of_def)
  have def: "w \<in> workspaces_of d" if "dep_workspace d = Some w" for w using that by (simp add: workspaces_of_def)
  note same = kept_refl [OF assms(1)]
  have none: ?thesis if "dep_workspace d = None" "s' = s" using that same by (simp add: marks_same)
  have edits: ?thesis if "dep_workspace d = Some w"
    "handle_edit_function_body (fe_parse e) flts pid nano w (call_args c) s = (res, s')
      \<or> handle_insert_after_method (fe_parse e) flts pid nano w (call_args c) s = (res, s')
      \<or> handle_change_function_signature (fe_parse e) flts pid nano w (call_args c) s = (res, s')" for w flts pid nano
  proof -
    note w = ws [OF def [OF that(1)], THEN conjunct1] ws [OF def [OF that(1)], THEN conjunct2]
    have "kept (roots_of d) (se_tracker s) (se_fs s) (se_fs s') \<and> se_tracker s' = se_tracker s"
      by (rule structured_kept [OF assms(1) w(1) conjunct1 [OF w(2)] conjunct2 [OF w(2)] that(2)])
    then show ?thesis by (simp add: marks_same)
  qed
  show ?thesis
  proof (cases c)
    case (CallRead a)
    then obtain r where r: "handle_read d a s = (r, s')" "res = Some r" using assms(4) by (cases "handle_read d a s") auto
    have "se_fs s' = se_fs s \<and> marks_ok d s (CallRead a) (Some r) s'"
      by (rule read_kept [OF assms(1) _ r(1)]) (use ws resolve_workspace_in CallRead in auto)
    with r(2) CallRead same show ?thesis by simp
  next
    case (CallWrite flts pid nano a)
    then obtain r where r: "handle_write flts pid nano d a s = (r, s')" "res = Some r"
      using assms(4) by (cases "handle_write flts pid nano d a s") auto
    show ?thesis by (rule write_kept [OF assms(1) r(1)]) (use ws resolve_workspace_in CallWrite in auto)
  next
    case (CallEdit flts pid nano a)
    then obtain r where r: "handle_edit (fe_on_path e) (fe_run e) flts pid nano d a s = (r, s')" "res = Some r"
      using assms(4) by (cases "handle_edit (fe_on_path e) (fe_run e) flts pid nano d a s") auto
    have "kept (roots_of d) (se_tracker s) (se_fs s) (se_fs s') \<and> se_tracker s' = se_tracker s"
      by (rule edit_kept [OF assms(1) r(1)]) (use ws resolve_workspace_in CallEdit in auto)
    then show ?thesis by (simp add: marks_same)
  next
    case (CallBody flts pid nano a)
    then show ?thesis using assms(4) none edits by (simp add: in_default_def split: option.splits) blast
  next
    case (CallInsert flts pid nano a)
    then show ?thesis using assms(4) none edits by (simp add: in_default_def split: option.splits) blast
  next
    case (CallSignature flts pid nano a)
    then show ?thesis using assms(4) none edits by (simp add: in_default_def split: option.splits) blast
  qed
qed

section \<open>Whole sessions\<close>

text \<open>The call of a trace that has shown a file with the given content.\<close>

definition shown :: "ws_deps \<Rightarrow> file_trace \<Rightarrow> phys \<Rightarrow> string \<Rightarrow> bool" where
  "shown d tr x data \<longleftrightarrow> (\<exists>(s, c, res) \<in> set tr. shows_file d s c res x data)"

definition session_inv :: "ws_deps \<Rightarrow> file_session \<Rightarrow> file_trace \<Rightarrow> file_session \<Rightarrow> bool" where
  "session_inv d s tr s' \<longleftrightarrow> kept (roots_of d) (se_tracker s') (se_fs s) (se_fs s')
     \<and> (\<forall>x data. list_all plain x \<and> se_fs s x = Some (NFile data) \<and> abs_path x \<in> se_tracker s' \<longrightarrow> shown d tr x data)"

lemma session_step_inv [invars]:
  assumes "session_inv d s tr s1" "\<forall>w \<in> workspaces_of d. ws_ok (se_fs s) w" "within_limits d c s1" "run_call e d c s1 = (res, s2)"
  shows "session_inv d s (tr @ [(s1, c, res)]) s2"
proof -
  have k: "kept (roots_of d) (se_tracker s1) (se_fs s) (se_fs s1)" using assms(1) by (simp add: session_inv_def)
  have st: "kept (roots_of d) (se_tracker s1) (se_fs s1) (se_fs s2)" "marks_ok d s1 c res s2"
    using run_call_kept [OF keptD(1) [OF k] _ assms(3,4)] kept_ws_ok [OF k] assms(2) by auto
  have sub: "se_tracker s1 \<subseteq> se_tracker s2" using st(2) by (simp add: marks_ok_def)
  have "kept (roots_of d) (se_tracker s2) (se_fs s) (se_fs s2)"
    using kept_trans [OF k kept_mono [OF st(1) sub subset_refl] sub] .
  moreover have "shown d (tr @ [(s1, c, res)]) x data"
    if x: "list_all plain x" "se_fs s x = Some (NFile data)" "abs_path x \<in> se_tracker s2" for x data
  proof (cases "abs_path x \<in> se_tracker s1")
    case True
    with assms(1) x have "shown d tr x data" by (simp add: session_inv_def)
    then show ?thesis by (auto simp: shown_def)
  next
    case False
    then have same: "se_fs s1 x = se_fs s x" using keptD(4) [OF k, of x] x(2) by auto
    with st(2) x False obtain data' where "shows_file d s1 c res x data'" by (auto simp: marks_ok_def)
    moreover from this same x(2) have "data' = data" by (auto simp: shows_file_def)
    ultimately show ?thesis by (auto simp: shown_def)
  qed
  ultimately show ?thesis by (simp add: session_inv_def)
qed

lemma session_run_inv:
  assumes "file_run e d s tr s'" "fs_wf (se_fs s)" "\<forall>w \<in> workspaces_of d. ws_ok (se_fs s) w" "se_tracker s = {}"
  shows "session_inv d s tr s'"
  using assms(1)
proof (induction rule: file_run.induct)
  case start
  then show ?case using assms(2,4) by (simp add: session_inv_def kept_refl)
next
  case (call tr s1 c res s2)
  from session_step_inv [OF call.IH assms(3) call.hyps(2,3)] show ?case .
qed

lemma session_contract:
  assumes "fs_wf (se_fs s)" "\<forall>w \<in> workspaces_of d. ws_ok (se_fs s) w" "se_tracker s = {}" "file_run e d s tr s'"
  shows "(\<forall>x nd. se_fs s x = Some nd \<and> se_fs s' x \<noteq> Some nd \<longrightarrow>
        (\<exists>old new. nd = NFile old \<and> se_fs s' x = Some (NFile new) \<and> shown d tr x old))
    \<and> (\<forall>x. se_fs s' x \<noteq> se_fs s x \<longrightarrow> (\<exists>w \<in> workspaces_of d. prefix (root_of w) x))"
proof -
  have inv: "session_inv d s tr s'" by (rule session_run_inv [OF assms(4,1-3)])
  then have k: "kept (roots_of d) (se_tracker s') (se_fs s) (se_fs s')" by (simp add: session_inv_def)
  have "\<exists>old new. nd = NFile old \<and> se_fs s' x = Some (NFile new) \<and> shown d tr x old"
    if x: "se_fs s x = Some nd" "se_fs s' x \<noteq> Some nd" for x nd
  proof -
    from keptD(4) [OF k, of x] x obtain old new where
      "list_all plain x" "abs_path x \<in> se_tracker s'" "nd = NFile old" "se_fs s' x = Some (NFile new)" by auto
    then show ?thesis using inv x(1) by (auto simp: session_inv_def)
  qed
  moreover have "\<exists>w \<in> workspaces_of d. prefix (root_of w) x" if "se_fs s' x \<noteq> se_fs s x" for x
    using keptD(5) [OF k that] by (auto simp: roots_of_def)
  ultimately show ?thesis by blast
qed


text \<open>A session that reads \<open>m.go\<close> and writes it.\<close>

definition demo_env :: file_env where
  "demo_env = \<lparr>fe_on_path = (\<lambda>_. False), fe_run = (\<lambda>_ _ _ _. undefined), fe_parse = (\<lambda>_. Inl [])\<rparr>"

definition demo_read_args :: args where "demo_read_args = [(''file_path'', JStr ''m.go'')]"

definition after_read :: file_session where
  "after_read = demo_session\<lparr>se_tracker := {''/w/m.go''}, se_read_bytes := 12\<rparr>"

definition demo_trace :: file_trace where
  "demo_trace = [(demo_session, CallRead demo_read_args, fst (run_call demo_env demo_deps (CallRead demo_read_args) demo_session)),
     (after_read, CallWrite no_faults 7 1 demo_write, fst (run_call demo_env demo_deps (CallWrite no_faults 7 1 demo_write) after_read))]"

definition demo_end :: file_session where
  "demo_end = snd (run_call demo_env demo_deps (CallWrite no_faults 7 1 demo_write) after_read)"

lemma demo_session_run: "file_run demo_env demo_deps demo_session demo_trace demo_end"
proof -
  have ws: "workspaces_of demo_deps = {flood_ws}" by (simp add: workspaces_of_def demo_deps_def)
  have "snd (run_call demo_env demo_deps (CallRead demo_read_args) demo_session) = after_read"
    by (simp add: demo_read_args_def demo_read after_read_def)
  moreover have "within_limits demo_deps (CallRead demo_read_args) demo_session"
    using demo_lookups_ok by (simp add: within_limits_def ws demo_read_args_def arg_str0_def arg_str_def)
  ultimately have r: "file_run demo_env demo_deps demo_session ([] @ [hd demo_trace]) after_read"
    unfolding demo_trace_def list.sel by (intro file_run.call [OF file_run.start]) (auto simp: prod_eq_iff)
  have "within_limits demo_deps (CallWrite no_faults 7 1 demo_write) after_read"
    using demo_lookups_ok by (simp add: within_limits_def ws demo_write_args after_read_def)
  from file_run.call [OF r this prod.collapse [symmetric]]
  show ?thesis by (simp add: demo_trace_def demo_end_def)
qed


section \<open>From the start of the process\<close>

text \<open>The dependencies a new server hands to its tools, and the state of a session before its first call.\<close>

definition server_deps :: "server_state \<Rightarrow> ws_deps" where
  "server_deps sv = \<lparr>dep_workspace = Some (sv_workspace sv), dep_workspaces = sv_workspaces sv\<rparr>"

definition first_session :: "fs \<Rightarrow> server_state \<Rightarrow> file_session" where
  "first_session f sv = \<lparr>se_fs = f, se_tracker = sv_tracker sv, se_violations = 0, se_read_bytes = 0,
     se_write_bytes = 0, se_edit_bytes = 0\<rparr>"

lemma built_set_names:
  assumes "fs_wf f" "build_workspace_set f c = Inr s"
  shows "ran (by_name s) \<subseteq> set (ordered s)"
proof (cases "rc_workspaces_spec c = []")
  case True
  then obtain w where "s = new_singleton_set w"
    using assms(2) by (auto simp: build_workspace_set_def split: sum.splits)
  then show ?thesis by (simp add: new_singleton_set_def Let_def)
next
  case False
  then obtain es where "new_set f es = Inr s"
    using assms(2) by (auto simp: build_workspace_set_def split: sum.splits if_splits)
  then have "set_inv s" using new_set_correct [OF assms(1)] by blast
  then show ?thesis by (auto simp: set_inv_def ran_def map_of_names_Some)
qed

text \<open>
  the contract holds for every process that starts: whatever the configuration, a session with its
  server changes nothing outside the workspaces it was started with, and no file it has not shown.
\<close>

theorem started_session:
  assumes "fs_wf f" "run_start environ exporter api_err f c = Inr r"
    and "file_run e (server_deps (rn_server r)) (first_session f (rn_server r)) tr s'"
  shows "(\<forall>x nd. f x = Some nd \<and> se_fs s' x \<noteq> Some nd \<longrightarrow> (\<exists>old. nd = NFile old \<and> shown (server_deps (rn_server r)) tr x old))
    \<and> (\<forall>x. se_fs s' x \<noteq> f x \<longrightarrow> (\<exists>w \<in> set (ordered (rn_set r)). prefix (root_of w) x))"
proof -
  obtain s where s: "build_workspace_set f c = Inr s"
    using assms(2) by (auto simp: run_start_def split: sum.splits)
  have r: "rn_set r = s" "rn_server r = new_with_config environ (ordered s ! 0) (maybe_build_metrics c) (rc_secrets_dir c)
       (maybe_build_health c (maybe_build_metrics c)) (rc_read_only c) (Some s)"
    using assms(2) s by (auto simp: run_start_def Let_def split: sum.splits option.splits)
  note ok = built_set_ok [OF assms(1) s] built_set_names [OF assms(1) s]
  then have "ordered s ! 0 \<in> set (ordered s)" by simp
  with ok(2) have ws: "workspaces_of (server_deps (rn_server r)) = set (ordered s)"
    by (auto simp: workspaces_of_def server_deps_def r(2) new_with_config_def)
  have t: "se_tracker (first_session f (rn_server r)) = {}" "se_fs (first_session f (rn_server r)) = f"
    by (simp_all add: first_session_def r(2) new_with_config_def new_read_tracker_def)
  from session_contract [OF _ _ t(1) assms(3)] assms(1) ok(1)
  show ?thesis unfolding t(2) ws r(1) by blast
qed

end
