(* ===== verification/ForegroundRun.thy ===== *)
theory ForegroundRun
  imports Bash
begin

text \<open>
  How a foreground command ends: \<open>newBashForegroundCmd\<close> of \<open>internal/tools/bash.go\<close> (the same set-up is in
  \<open>runVerifyCmd\<close> of \<open>internal/tools/exec.go\<close>).  The command runs in a process group of its own; the group is
  killed if the leader is still running at the deadline, and \<open>Wait\<close> gives the pipes two seconds
  (\<open>WaitDelay\<close>) after the leader has gone or the deadline has passed.  Times are nanoseconds since the
  start; what the processes would do by themselves is an argument.
\<close>

section \<open>The job and its end\<close>

text \<open>
  A process that holds the output pipe: whether it is in the group of the leader and when it would close
  the pipe by itself, \<open>None\<close> for never.
\<close>

record holder =
  ho_in_group :: bool
  ho_close :: "int option"

record job =
  jb_exit :: "int option"
  jb_code :: run_err
  jb_holders :: "holder list"
  jb_out :: "int \<Rightarrow> string"

definition wait_delay :: int where "wait_delay = 2 * 1000000000"

definition wait_delay_text :: string where "wait_delay_text = ''exec: WaitDelay expired before I/O complete''"

text \<open>When the last holder is gone, if the group is killed at \<open>kill\<close>.\<close>

definition holder_end :: "int option \<Rightarrow> holder \<Rightarrow> int option" where
  "holder_end kill h =
     (case kill of
        Some t \<Rightarrow> if ho_in_group h then Some (case ho_close h of None \<Rightarrow> t | Some c \<Rightarrow> min c t) else ho_close h
      | None \<Rightarrow> ho_close h)"

fun all_closed_by :: "int \<Rightarrow> int option \<Rightarrow> holder list \<Rightarrow> bool" where
  "all_closed_by t kill [] = True"
| "all_closed_by t kill (h # hs) = ((case holder_end kill h of None \<Rightarrow> False | Some c \<Rightarrow> c \<le> t) \<and> all_closed_by t kill hs)"

fun last_close :: "int \<Rightarrow> int option \<Rightarrow> holder list \<Rightarrow> int" where
  "last_close t kill [] = t"
| "last_close t kill (h # hs) = max (case holder_end kill h of None \<Rightarrow> t | Some c \<Rightarrow> c) (last_close t kill hs)"

text \<open>\<open>Wait\<close> returns when the pipe is closed after \<open>from\<close>, or \<open>wait_delay\<close> later; whether it gave the pipe up.\<close>

definition wait_pipe :: "int \<Rightarrow> int option \<Rightarrow> holder list \<Rightarrow> int \<times> bool" where
  "wait_pipe since kill hs =
     (if all_closed_by (since + wait_delay) kill hs then (last_close since kill hs, False) else (since + wait_delay, True))"

record job_end =
  je_time :: int
  je_proc :: proc
  je_killed :: bool

definition ended :: "job \<Rightarrow> int \<Rightarrow> int \<Rightarrow> run_err \<Rightarrow> bool \<Rightarrow> job_end" where
  "ended j deadline t err killed =
     \<lparr>je_time = t, je_proc = \<lparr>p_stdout = jb_out j t, p_stderr = [], p_err = err, p_deadline = deadline \<le> t\<rparr>, je_killed = killed\<rparr>"

definition foreground_run :: "int \<Rightarrow> job \<Rightarrow> job_end" where
  "foreground_run deadline j =
     (case jb_exit j of
        Some e \<Rightarrow>
          if e < deadline then
            (case wait_pipe e None (jb_holders j) of
               (t, False) \<Rightarrow> ended j deadline t (jb_code j) False
             | (t, True) \<Rightarrow> ended j deadline t (if jb_code j = RunOk then OtherError wait_delay_text else jb_code j) False)
          else ended j deadline (fst (wait_pipe deadline (Some deadline) (jb_holders j))) (ExitError (-1)) True
      | None \<Rightarrow> ended j deadline (fst (wait_pipe deadline (Some deadline) (jb_holders j))) (ExitError (-1)) True)"

text \<open>The outcome that \<open>handle_bash\<close> is given, for a shell that turns a command into a job.\<close>

definition run_job :: "(string \<Rightarrow> string \<Rightarrow> job) \<Rightarrow> string \<Rightarrow> string \<Rightarrow> int \<Rightarrow> proc" where
  "run_job shell dir command timeout = je_proc (foreground_run (timeout * 1000000000) (shell dir command))"

section \<open>What a foreground run guarantees\<close>

lemma last_close_bounds:
  "all_closed_by u kill hs \<Longrightarrow> t \<le> u \<Longrightarrow> t \<le> last_close t kill hs \<and> last_close t kill hs \<le> u"
  by (induction hs) (auto split: option.splits)

lemma wait_pipe_bounds: "since \<le> fst (wait_pipe since kill hs) \<and> fst (wait_pipe since kill hs) \<le> since + wait_delay"
  using last_close_bounds [of "since + wait_delay" kill hs since] by (simp add: wait_pipe_def wait_delay_def)

definition leader_ends :: "int \<Rightarrow> job \<Rightarrow> bool" where
  "leader_ends deadline j \<longleftrightarrow> (case jb_exit j of None \<Rightarrow> False | Some e \<Rightarrow> e < deadline)"

lemma foreground_killed:
  "\<not> leader_ends deadline j \<Longrightarrow>
     foreground_run deadline j = ended j deadline (fst (wait_pipe deadline (Some deadline) (jb_holders j))) (ExitError (-1)) True"
  by (auto simp: leader_ends_def foreground_run_def split: option.splits)

lemma foreground_returns:
  assumes "jb_exit j = Some e" "e < deadline"
  shows "foreground_run deadline j = ended j deadline (fst (wait_pipe e None (jb_holders j)))
    (if snd (wait_pipe e None (jb_holders j)) \<and> jb_code j = RunOk then OtherError wait_delay_text else jb_code j) False"
  using assms by (auto simp: foreground_run_def split: prod.splits bool.splits)


text \<open>
  a command that leaves nothing behind is reported exactly.  If the shell ends before the deadline and
  everything that holds the pipe is gone within two seconds and before the deadline, the answer is the
  output up to that moment with the exit code of the shell.
\<close>

theorem foreground_exact:
  assumes "resolve_workspace d a = Inr ws" "validate_bash_args a = Inr command" "\<not> arg_bool a ''run_in_background''"
    and "jb_exit (shell (ws_root ws) command) = Some e" "e < deadline" "deadline = parse_bash_timeout a * 1000000000"
    and "all_closed_by (e + wait_delay) None (jb_holders (shell (ws_root ws) command))"
    and "t = last_close e None (jb_holders (shell (ws_root ws) command))" "t < deadline"
    and "jb_code (shell (ws_root ws) command) \<in> {RunOk, ExitError code}" "jb_code (shell (ws_root ws) command) = RunOk \<Longrightarrow> code = 0"
  shows "handle_bash (run_job shell) spawn i now d st a =
    (TextResult (format_bash_output (jb_out (shell (ws_root ws) command) t) code False (parse_bash_timeout a)),
     emit_metric (BashExit code) st)"
proof -
  let ?j = "shell (ws_root ws) command"
  have "run_job shell (ws_root ws) command (parse_bash_timeout a)
      = \<lparr>p_stdout = jb_out ?j t, p_stderr = [], p_err = jb_code ?j, p_deadline = False\<rparr>"
    using assms(7-9) by (simp add: run_job_def assms(6) [symmetric] foreground_returns [OF assms(4,5)] wait_pipe_def ended_def)
  moreover have "bash_exit_code (jb_code ?j) False = Inr code" using assms(10,11) by (auto simp: bash_exit_code_def)
  ultimately show ?thesis using assms(1-3) by (simp add: handle_bash_def Let_def)
qed

text \<open>
  a command that leaves a process behind fails.  If the shell ends without an error but something it has
  started keeps the pipe open for two seconds, the call is an error that hides the output; nothing was
  killed, so the process goes on.
\<close>

theorem left_behind_is_error:
  assumes "resolve_workspace d a = Inr ws" "validate_bash_args a = Inr command" "\<not> arg_bool a ''run_in_background''"
    and "jb_exit (shell (ws_root ws) command) = Some e" "jb_code (shell (ws_root ws) command) = RunOk"
    and "e + wait_delay < parse_bash_timeout a * 1000000000"
    and "\<not> all_closed_by (e + wait_delay) None (jb_holders (shell (ws_root ws) command))"
  shows "handle_bash (run_job shell) spawn i now d st a = (ErrorResult (''bash: '' @ wait_delay_text), st)
    \<and> \<not> je_killed (foreground_run (parse_bash_timeout a * 1000000000) (shell (ws_root ws) command))"
proof -
  let ?j = "shell (ws_root ws) command" and ?d = "parse_bash_timeout a * 1000000000"
  have e: "e < ?d" using assms(6) by (simp add: wait_delay_def)
  have f: "foreground_run ?d ?j = ended ?j ?d (e + wait_delay) (OtherError wait_delay_text) False"
    using assms(5,7) by (simp add: foreground_returns [OF assms(4) e] wait_pipe_def)
  then have "run_job shell (ws_root ws) command (parse_bash_timeout a)
      = \<lparr>p_stdout = jb_out ?j (e + wait_delay), p_stderr = [], p_err = OtherError wait_delay_text, p_deadline = False\<rparr>"
    using assms(6) by (simp add: run_job_def ended_def)
  with f show ?thesis using assms(1-3) by (simp add: handle_bash_def Let_def bash_exit_code_def ended_def)
qed

text \<open>The command \<open>npm start &\<close>, whose server keeps the pipe.\<close>

definition server_job :: job where
  "server_job = \<lparr>jb_exit = Some 1000, jb_code = RunOk, jb_holders = [\<lparr>ho_in_group = True, ho_close = None\<rparr>], jb_out = (\<lambda>_. ''listening'')\<rparr>"

definition server_args :: args where
  "server_args = [(''command'', JStr ''npm start &''), (''description'', JStr ''start the server'')]"

theorem left_behind_is_error_witness:
  "fst (handle_bash (run_job (\<lambda>_ _. server_job)) (\<lambda>_ _. Started 7) ''k'' 0 \<lparr>dep_workspace = Some flood_ws, dep_workspaces = None\<rparr>
      \<lparr>bs_shells = None, bs_metrics = [], bs_killed = []\<rparr> server_args) = ErrorResult (''bash: '' @ wait_delay_text)"
proof -
  let ?d = "\<lparr>dep_workspace = Some flood_ws, dep_workspaces = None\<rparr>"
  have w: "resolve_workspace ?d server_args = Inr flood_ws" by code_simp
  have v: "validate_bash_args server_args = Inr ''npm start &''" by code_simp
  have b: "\<not> arg_bool server_args ''run_in_background''" by code_simp
  have t: "parse_bash_timeout server_args = 120" by code_simp
  show ?thesis
    using left_behind_is_error [OF w v b, of "\<lambda>_ _. server_job" 1000]
    by (simp add: server_job_def holder_end_def wait_delay_def t)
qed

end
