(* ===== verification/LspSweeper.thy ===== *)
theory LspSweeper
  imports LspRegistry
begin

text \<open>
  The sweeper of the client pool: \<open>startSweeper\<close> and \<open>runSweeper\<close> of \<open>internal/lsp/registry.go\<close>.  A run is a
  list of ticks, each with the time and with what callers of the registry did since the tick before.
\<close>

type_synonym sweep_tick = "(lsp_registry \<Rightarrow> lsp_registry) \<times> lsp_env"

fun run_sweeper :: "sweep_tick list \<Rightarrow> lsp_registry \<Rightarrow> lsp_registry run" where
  "run_sweeper [] g = Returns g"
| "run_sweeper ((others, env) # ts) g =
     (case reap_idle env (others g) of
        Returns (ds, g') \<Rightarrow> run_sweeper ts g'
      | Hangs \<Rightarrow> Hangs
      | Panics \<Rightarrow> Panics)"

definition kept_clients :: "lsp_env \<Rightarrow> lsp_registry \<Rightarrow> lsp_registry" where
  "kept_clients env g = g\<lparr>lr_clients := filter (\<lambda>(_, c). \<not> is_idle (le_now env) (lr_idle g) c) (lr_clients g)\<rparr>"

lemma reap_keeps: "reg_ok resolver g \<Longrightarrow> \<exists>ds. reap_idle env g = Returns (ds, kept_clients env g)"
  using reap_idle_exact by (fastforce simp: kept_clients_def)

lemma kept_clients_ok: "reg_ok resolver g \<Longrightarrow> reg_ok resolver (kept_clients env g)"
  by (auto simp: reg_ok_def kept_clients_def distinct_map_filter)

lemma run_sweeper_append:
  "run_sweeper (ts @ us) g = (case run_sweeper ts g of Returns g' \<Rightarrow> run_sweeper us g' | Hangs \<Rightarrow> Hangs | Panics \<Rightarrow> Panics)"
proof (induction ts arbitrary: g)
  case (Cons t ts)
  obtain others env where t: "t = (others, env)" by (cases t)
  show ?case
  proof (cases "reap_idle env (others g)")
    case (Returns x)
    obtain ds g' where "x = (ds, g')" by (cases x)
    with Returns t Cons.IH [of g'] show ?thesis by simp
  qed (simp_all add: t)
qed simp

lemma run_sweeper_ok:
  assumes "reg_ok resolver g" "\<forall>(others, env) \<in> set ts. \<forall>h. reg_ok resolver h \<longrightarrow> reg_ok resolver (others h)"
  shows "\<exists>g'. run_sweeper ts g = Returns g' \<and> reg_ok resolver g'"
  using assms
proof (induction ts arbitrary: g)
  case (Cons t ts)
  obtain others env where t: "t = (others, env)" by (cases t)
  have ok: "reg_ok resolver (others g)" using Cons.prems t by auto
  obtain ds where ds: "reap_idle env (others g) = Returns (ds, kept_clients env (others g))" using reap_keeps [OF ok] by blast
  have "\<forall>(others, env) \<in> set ts. \<forall>h. reg_ok resolver h \<longrightarrow> reg_ok resolver (others h)" using Cons.prems(2) by auto
  from Cons.IH [OF kept_clients_ok [OF ok, of env] this] show ?case by (simp add: t ds)
qed simp

text \<open>
  an unused language server does not stay.  Whatever the callers of the registry do in between, as long
  as they keep its invariant, the sweeper runs on, and after a tick no client is left whose last answer
  is older than the idle timeout.
\<close>

theorem sweeper_reaps:
  assumes "reg_ok resolver g" "\<forall>(others, env) \<in> set (ts @ [(others, env)]). \<forall>h. reg_ok resolver h \<longrightarrow> reg_ok resolver (others h)"
  shows "\<exists>g'. run_sweeper (ts @ [(others, env)]) g = Returns g' \<and> reg_ok resolver g'
    \<and> (\<forall>(k, c) \<in> set (lr_clients g'). \<not> is_idle (le_now env) (lr_idle g') c)"
proof -
  obtain h where h: "run_sweeper ts g = Returns h" "reg_ok resolver h"
    using run_sweeper_ok [OF assms(1), of ts] assms(2) by auto
  then have ok: "reg_ok resolver (others h)" using assms(2) by auto
  obtain ds where ds: "reap_idle env (others h) = Returns (ds, kept_clients env (others h))" using reap_keeps [OF ok] by blast
  have "\<forall>(k, c) \<in> set (lr_clients (kept_clients env (others h))). \<not> is_idle (le_now env) (lr_idle (kept_clients env (others h))) c"
    by (auto simp: kept_clients_def)
  with kept_clients_ok [OF ok, of env] h(1) ds show ?thesis by (simp add: run_sweeper_append)
qed

text \<open>
  the ticks come often enough: between once a second and once a minute, and at least twice per timeout
  if the timeout is two seconds or more.
\<close>

theorem sweep_interval_bounds:
  "1000000000 \<le> sweep_interval idle \<and> sweep_interval idle \<le> 60000000000
   \<and> (2 * sweep_interval idle \<le> idle \<or> idle < 2000000000)"
  by (auto simp: sweep_interval_def Let_def)

end
