(* ===== verification/ApiStream.thy ===== *)
theory ApiStream
  imports ApiEvents MetricsStore
begin

text \<open>
  The stream of file-system events as the client sees it: \<open>eventsHandler\<close> and \<open>writeSSEHeaders\<close> of
  \<open>internal/api/events.go\<close> around the loop of theory \<open>ApiEvents\<close>.  Whether the connection can be flushed,
  whether a watcher can be made and what the loop receives are arguments.  The walk that adds the watches
  swallows every error, so the branch for its failure is never taken.
\<close>

record sse_answer =
  sa_code :: int
  sa_headers :: "(string \<times> string) list"
  sa_chunks :: "string list"

definition write_sse_headers :: "(string \<times> string) list" where
  "write_sse_headers = [(''Content-Type'', ''text/event-stream''), (''Cache-Control'', ''no-cache''), (''Connection'', ''keep-alive'')]"

text \<open>The answer with the watches that were made, and the metrics while the loop runs and after it.\<close>

definition events_handler ::
  "(string \<Rightarrow> string) \<Rightarrow> string \<Rightarrow> nat \<Rightarrow> dir_lister \<Rightarrow> fs \<Rightarrow> workspace \<Rightarrow> bool \<Rightarrow> string option \<Rightarrow> (bool \<times> loop_input) list
     \<Rightarrow> metrics option \<Rightarrow> sse_answer \<times> metrics option \<times> metrics option" where
  "events_handler enc now n ls f w flushes watcher_err inputs m =
     (if \<not> flushes then
        (\<lparr>sa_code = 500, sa_headers = rs_headers (http_error ''streaming unsupported'' 500),
          sa_chunks = [rs_body (http_error ''streaming unsupported'' 500)]\<rparr>, m, m)
      else
        let during = on_metrics SSEStreamInc m;
            sent = (case watcher_err of
                Some e \<Rightarrow> ['': watcher init error: '' @ e @ [newline, newline]]
              | None \<Rightarrow> es_sent (events_loop enc now n ls f (ws_root w) inputs
                          \<lparr>es_watched = set (watch_dirs n ls f (root_of w)), es_sent = []\<rparr>))
        in (\<lparr>sa_code = 200, sa_headers = write_sse_headers, sa_chunks = sent\<rparr>, during, on_metrics SSEStreamDec during))"

section \<open>What the client receives\<close>

text \<open>One message of the protocol: text without an empty line, then an empty line.\<close>

definition sse_message :: "string \<Rightarrow> bool" where
  "sse_message c \<longleftrightarrow> (\<exists>line. c = line @ [newline, newline] \<and> newline \<notin> set line \<and> line \<noteq> [])"

lemma sse_line_message:
  assumes "\<And>t. newline \<notin> set (enc t)"
  shows "sse_message (sse_line enc now ty rel)"
proof -
  have "newline \<notin> set (quote ''type'')" "newline \<notin> set (quote ''path'')" "newline \<notin> set (quote ''ts'')" by code_simp+
  with assms show ?thesis
    unfolding sse_message_def
    by (intro exI [of _ "''data: {'' @ quote ''type'' @ '':'' @ enc ty @ '','' @ quote ''path'' @ '':'' @ enc rel @ '','' @ quote ''ts''
          @ '':'' @ enc now @ ''}''"]) (simp add: sse_line_def)
qed

lemma ping_message: "sse_message ('': ping'' @ [newline, newline])"
  unfolding sse_message_def by (intro exI [of _ "'': ping''"]) simp

lemma fs_event_sent:
  "handle_fs_event enc now writable n ls f wroot ev s = (go, s') \<Longrightarrow>
     es_sent s' = es_sent s \<or> (\<exists>ty rel. es_sent s' = es_sent s @ [sse_line enc now ty rel])"
  by (auto simp: handle_fs_event_def Let_def split: option.splits if_splits sum.splits) blast+

lemma loop_step_sent:
  assumes "\<And>t. newline \<notin> set (enc t)" "events_loop_step enc now writable n ls f wroot i s = (go, s')"
  shows "\<exists>cs. es_sent s' = es_sent s @ cs \<and> list_all sse_message cs"
proof (cases i)
  case (Event ev)
  with assms(2) have "handle_fs_event enc now writable n ls f wroot ev s = (go, s')" by simp
  from fs_event_sent [OF this] show ?thesis
  proof
    assume "es_sent s' = es_sent s"
    then show ?thesis by (intro exI [of _ "[]"]) simp
  next
    assume "\<exists>ty rel. es_sent s' = es_sent s @ [sse_line enc now ty rel]"
    then obtain ty rel where "es_sent s' = es_sent s @ [sse_line enc now ty rel]" by blast
    then show ?thesis using sse_line_message [OF assms(1)] by (intro exI [of _ "[sse_line enc now ty rel]"]) simp
  qed
next
  case Ping
  with assms(2) show ?thesis using ping_message by (cases writable) auto
qed (use assms(2) in auto)

lemma loop_sent:
  assumes "\<And>t. newline \<notin> set (enc t)"
  shows "\<exists>cs. es_sent (events_loop enc now n ls f wroot is s) = es_sent s @ cs \<and> list_all sse_message cs"
proof (induction "is" arbitrary: s)
  case (Cons x xs)
  obtain writable i where x: "x = (writable, i)" by (cases x)
  obtain go s1 where s1: "events_loop_step enc now writable n ls f wroot i s = (go, s1)"
    by (cases "events_loop_step enc now writable n ls f wroot i s")
  obtain cs where cs: "es_sent s1 = es_sent s @ cs" "list_all sse_message cs" using loop_step_sent [OF assms s1] by blast
  obtain ds where ds: "es_sent (events_loop enc now n ls f wroot xs s1) = es_sent s1 @ ds" "list_all sse_message ds"
    using Cons.IH [of s1] by blast
  show ?case
    using cs ds by (cases go) (auto simp: x s1)
qed simp

text \<open>
  the stream is well-formed and leaves no trace.  A connection that can be flushed is answered with 200
  and a sequence of complete messages, whatever happens to the files and the watcher, as long as the
  encoder and the error text contain no newline; the gauge of open streams is one higher while the
  stream runs and back to its old value when the handler returns.
\<close>

theorem events_stream_exact:
  assumes "\<And>t. newline \<notin> set (enc t)" "\<And>e. watcher_err = Some e \<Longrightarrow> newline \<notin> set e"
  shows "case events_handler enc now n ls f w flushes watcher_err inputs (Some m) of
     (ans, during, after) \<Rightarrow> sa_code ans = (if flushes then 200 else 500)
       \<and> (if flushes then list_all sse_message (sa_chunks ans) else length (sa_chunks ans) = 1)
       \<and> after = Some m \<and> (\<exists>d. during = Some d \<and> mt_sse_streams d = mt_sse_streams m + (if flushes then 1 else 0))"
proof (cases flushes)
  case True
  let ?s = "\<lparr>es_watched = set (watch_dirs n ls f (root_of w)), es_sent = []\<rparr>"
  have "list_all sse_message (es_sent (events_loop enc now n ls f (ws_root w) inputs ?s))"
    using loop_sent [where enc = enc and now = now and n = n and ls = ls and f = f and wroot = "ws_root w" and s = ?s] assms(1) by auto
  moreover have "sse_message ('': watcher init error: '' @ e @ [newline, newline])" if "watcher_err = Some e" for e
    unfolding sse_message_def using assms(2) [OF that] by (intro exI [of _ "'': watcher init error: '' @ e"]) simp
  ultimately show ?thesis
    using True by (simp add: events_handler_def on_metrics_def Let_def split: option.splits)
qed (simp add: events_handler_def)

theorem events_stream_exact_witness:
  "sa_chunks (fst (events_handler (\<lambda>_. ''x'') ''t'' 9 (\<lambda>_ _. []) flood_fs flood_ws True (Some ''no space'') [] (Some new_metrics)))
     = ['': watcher init error: no space'' @ [newline, newline]]
   \<and> list_all sse_message ['': watcher init error: no space'' @ [newline, newline]]"
proof -
  let ?h = "events_handler (\<lambda>_. ''x'') ''t'' 9 (\<lambda>_ _. []) flood_fs flood_ws True (Some ''no space'') [] (Some new_metrics)"
  have h: "sa_chunks (fst ?h) = ['': watcher init error: no space'' @ [newline, newline]]"
    by (simp add: events_handler_def Let_def)
  have "list_all sse_message (sa_chunks (fst ?h))"
    using events_stream_exact [where enc = "\<lambda>_. ''x''" and watcher_err = "Some ''no space''" and now = "''t''" and n = 9
        and ls = "\<lambda>_ _. []" and f = flood_fs and w = flood_ws and flushes = True and inputs = "[]" and m = new_metrics]
    by (simp split: prod.splits)
  with h show ?thesis by simp
qed

end
