(* ===== verification/Spec2Isabelle.thy ===== *)
theory Spec2Isabelle
  imports Watch EditTool Health SearchIndex TestTools ForwardCli LspTable LspTools Scrub Secrets Glob SearchTool AstEdit Snapshots ApiSsh ApiForward ApiExec Render Wiring IndexWatch Tunnel ShellSessions LspMock MainRun WatchDrain
    FileSessions ForegroundRun LspSweeper ApiStream
begin

text \<open>
  A model of CodeGen-Sandbox, a server that gives a coding agent file, search, shell and verification
  tools over a workspace, with an HTTP API for humans and a command \<open>sandbox-forward\<close> that reaches it from
  a laptop.  Each theory follows its source files function by function; names are those of the code in
  lower case with underscores.

  \<^bold>\<open>Parts and how they interact.\<close>  A process (\<open>cmd/sandbox\<close>) builds a set of workspaces, one MCP server, and
  optionally the HTTP API and a metrics listener.  A tool call passes the middleware of the server (tracing,
  metrics and health, scrubbing), picks a workspace, resolves its paths in it, and then reads, writes,
  searches, runs a process or asks a language server.  The session state the tools share is the read
  tracker, the shell registry, the last test result with the coverage index, the index caches, and the
  pool of language-server clients.

  \<^item> Ground: Prelude (Go strings and argument values), GoPath (\<open>path/filepath\<close>), FileSystem (a file system
    maps lists of names to directories, files and links; lookup follows links like the kernel, with its
    limit), DirWalk (\<open>filepath.Walk\<close>), Json and JsonEncode (the decoder and encoder of
    \<open>encoding/json\<close> with their round trip), GoRegexp (\<open>regexp\<close>), Exec
    (child processes, \<open>internal/tools/exec.go\<close>).  These are the parts of Go's standard library and of the
    kernel that the sandbox uses.
  \<^item> \<open>internal/workspace\<close>: Workspace (\<open>Resolve\<close>: what it accepts is contained and free of links, and the
    chain of links that defeats it), WorkspaceSet (several roots, dispatch, the read tracker).
  \<^item> Tools on files: ReadTool, WriteTool, EditTool, Secrets, Render, AstEdit (\<open>internal/ast\<close> and the three
    structured edits).  The lemmas say which files a call can change, that it needs a previous read, and
    what the new content is, on success and on every failure; the locale \<open>confined_paths\<close> carries what
    \<open>Write\<close>, \<open>Edit\<close> and the structured edits share, interpreted on \<open>resolve\<close>.  FileSessions runs their
    handlers one after the other, in any order and from the start of the process on, and shows that no file
    changes that the session has not shown before.
  \<^item> Tools on processes: Bash (denylist, foreground and background runs), ForegroundRun (a
    foreground command with its deadline, its process group and what it leaves behind), Shells (the registry; a shell
    holds two capped buffers and a capped event log, the locales \<open>capped_buffer\<close> and \<open>event_window\<close>), Watch
    (\<open>watch_process\<close>, the watchdog, and the goroutines of a background run as a step relation), WatchDrain (the
    loops that read a watched process, and their interleavings).
  \<^item> Search: SearchUnits (tokens and extraction), SearchIndex (BM25 index; the locale \<open>file_store\<close> relates
    it to a map from files to units), IndexWatch (build and watcher over a directory tree), SearchTool,
    Glob (\<open>Glob\<close>, \<open>Grep\<close> and the glob matcher).
  \<^item> Verification: Verify (detection, commands, lint and format), GoTests (\<open>go test -json\<close>), Coverage,
    TestTools (\<open>run_tests\<close> and its relatives with the state they keep).
  \<^item> Snapshots: the snapshot tools over git, which is an argument.
  \<^item> Language servers: LspWire (frames), LspClient (URIs, decoding, one call), LspSession and LspTable
    (callers, read loop and shutdown interleaved), LspRegistry (the pool), LspSweeper (its idle
    sweep), LspTools (the three tools), LspMock
    (the server the tests use, and the client run against it).
  \<^item> Observation: Health (locale \<open>sliding_buffer\<close>), MetricsStore, Scrub, Server (registration of tools, the
    order of the middleware, and one observed call through all of it).
  \<^item> HTTP API: ApiServer (identity, routes, tree and files), ApiEvents (events, download, documents),
    ApiStream (the event stream a client reads), ApiExec
    and ShellSessions (shells over WebSocket and SSH), ApiSsh (keys and sessions; locales \<open>key_register\<close> and
    \<open>key_matcher\<close>), ApiForward (the port-forward bridge as a step relation).
  \<^item> \<open>sandbox-forward\<close>: SshConfig (quoting and the editor of the SSH configuration), ForwardCli (flags,
    authentication, set-up), Tunnel (the pumps, the listener, and the tunnel joined with the bridge of the
    server).
  \<^item> The process: Wiring (configuration, listeners, probes, gauges and the end of the process) and MainRun
    (flags with their defaults, the state of a new server, the start of \<open>Run\<close> and the loops it leaves running).

  \<^bold>\<open>State and errors.\<close>  Structs are records, handlers take the session record and return it updated, errors
  are values with the texts of the code, and a panic is a result of its own where the code can panic.  Map
  iteration is an arbitrary order given as an argument.  Goroutines are step relations with one step per
  locked region or system call; their environment (client, child process, network, server) has steps of
  its own, so a statement about reachable states holds for every interleaving.  The tool
  calls of a session in FileSessions are atomic steps.  Byte counts and window
  sizes that are converted are words of that width; the rest is \<open>nat\<close> or \<open>int\<close>.

  \<^bold>\<open>What the lemmas show.\<close>  Per component: invariants kept by every operation, the exact answer of each
  operation on every branch, and the joint behaviour where components meet.  The properties are numbered
  C1 to C40 in the theories.  The first group is containment and safety (paths, writes, edits, the gate of
  the HTTP API, the denylist); then the index and search, the language-server client, snapshots, structured
  edits, scrubbing, keys, tunnels (safety, end-to-end delivery, termination), set-up, quoting, globbing,
  shutdown, test output, coverage, background shells and health.  Several theorems state how the code
  departs from its intention; they are the findings of the manifest.

  \<^bold>\<open>Bounds and fuel.\<close>  \<open>resolve\<close> recurses over at most the length of the path, which \<open>resolve_fuel\<close> shows is
  enough; symbolic links are followed up to the 40 of the kernel and the 255 of \<open>filepath.EvalSymlinks\<close>, as
  the code meets them.  The JSON decoder has twice the length of the text (\<open>json_fuel\<close>), the regular
  expression matcher one round more than there are bytes.  Walks of a tree take a number that has to exceed
  its depth, a hypothesis of the theorems about them.  Everything else is structural recursion, recursion
  with a measure, or a step relation whose steps are counted.

  \<^bold>\<open>Parameters.\<close>  Code outside the repository is an argument: git, ripgrep, the linters, formatters, test
  runners, renderers and language servers as functions from a call to its outcome; the Go parser and printer
  as a function from text to declarations; the MCP, WebSocket, SSH, terminal, Prometheus and OpenTelemetry
  libraries through the calls the code makes of them; clocks, random names and directory listings.  What is
  assumed of them is a named hypothesis (for example \<open>lists_dirs\<close>: a listing names the entries of a directory;
  \<open>parser_ok\<close>: positions of declarations are in order) and has a witness.

  \<^bold>\<open>Not modelled.\<close>  The parsing of command-line flags by the library, help texts, tool
  descriptions and JSON schemas, the construction of the libraries' servers and collectors, logging (except
  where a line is an answer or an audit record), wall-clock timeouts other than as outcomes (except the
  deadline of a foreground command, in ForegroundRun), file modes, and the generation of keys.  The HTML and YAML documents the API serves are constants of the build.  Scores of
  the search are exact rationals with the logarithm as an argument, where the code has floating point.
\<close>

end
